(* ===== verification/Prelude.thy ===== *)
theory Prelude
  imports Main
begin

text \<open>
  Shared ground of the development: how values of the Go language are represented, the parts of the
  Go standard library the modelled sources call, and generic lemmas with the collections that carry
  them.

  \<^item> A Go \<^verbatim>\<open>string\<close> or \<^verbatim>\<open>[]byte\<close> is a HOL \<open>string\<close>: a HOL character is one byte, so
    \<open>length\<close> is \<^verbatim>\<open>len\<close> and \<open>take\<close>/\<open>drop\<close> are byte slices.
  \<^item> A Go \<^verbatim>\<open>int\<close> is a HOL \<open>int\<close>; where an addition of caller-chosen values can pass
    $2^{63}$ the model wraps it with \<open>wrap64\<close>.
  \<^item> A Go \<^verbatim>\<open>error\<close> is a \<open>goerr\<close>: it keeps the format, the arguments and the wrapped error of
    the call that built it, so \<^verbatim>\<open>errors.Is\<close> and \<^verbatim>\<open>errors.As\<close> walk the chain as Go does.
  \<^item> A pointer whose identity the code compares is a \<open>ptr\<close>: an address and the value it points to.
  \<^item> A \<^verbatim>\<open>time.Time\<close> is an instant in nanoseconds, with 0 the zero \<^verbatim>\<open>time.Time\<close>.
\<close>

named_theorems gostr \<open>rewrite rules for the string functions of the Go library\<close>

type_synonym gotime = int
type_synonym float64 = "bool list"
type_synonym rawjson = string

datatype 'a ptr = Ptr (addr: nat) (deref: 'a)

subsection \<open>Integers of the machine\<close>

definition wrap64 :: "int \<Rightarrow> int" where
  "wrap64 x = signed_take_bit 63 x"

definition maxInt64 :: int where
  "maxInt64 = 9223372036854775807"

subsection \<open>Decimal printing: strconv.Itoa\<close>

fun dec_nat :: "nat \<Rightarrow> string" where
  "dec_nat n = (if n < 10 then [char_of (48 + n)] else dec_nat (n div 10) @ [char_of (48 + n mod 10)])"

declare dec_nat.simps [simp del]

definition itoa :: "int \<Rightarrow> string" where
  "itoa i = (if i < 0 then CHR ''-'' # dec_nat (nat (- i)) else dec_nat (nat i))"

definition is_dec_digit :: "char \<Rightarrow> bool" where
  "is_dec_digit c \<longleftrightarrow> 48 \<le> (of_char c :: nat) \<and> (of_char c :: nat) \<le> 57"

text \<open>\<^verbatim>\<open>strconv.Atoi\<close>: an optional sign, decimal digits, and a value of 64 bits.\<close>

definition undec :: "string \<Rightarrow> nat" where
  "undec s = foldl (\<lambda>n c. 10 * n + ((of_char c :: nat) - 48)) 0 s"

definition atoiDigits :: "string \<Rightarrow> nat option" where
  "atoiDigits s = (if s \<noteq> [] \<and> list_all is_dec_digit s then Some (undec s) else None)"

definition atoi :: "string \<Rightarrow> int option" where
  "atoi s =
     (let v = (case s of
                 [] \<Rightarrow> None
               | c # t \<Rightarrow>
                   if c = CHR ''-'' then map_option (\<lambda>n. - int n) (atoiDigits t)
                   else if c = CHR ''+'' then map_option int (atoiDigits t)
                   else map_option int (atoiDigits s))
      in case v of
           None \<Rightarrow> None
         | Some n \<Rightarrow> if - (2 ^ 63) \<le> n \<and> n < 2 ^ 63 then Some n else None)"

subsection \<open>strings.HasPrefix, strings.Index, strings.Contains\<close>

definition hasPrefix :: "string \<Rightarrow> string \<Rightarrow> bool" where
  "hasPrefix s p \<longleftrightarrow> take (length p) s = p"

fun strIndex :: "string \<Rightarrow> string \<Rightarrow> nat option" where
  "strIndex [] p = (if p = [] then Some 0 else None)"
| "strIndex (c # s) p = (if hasPrefix (c # s) p then Some 0 else map_option Suc (strIndex s p))"

definition strContains :: "string \<Rightarrow> string \<Rightarrow> bool" where
  "strContains s p \<longleftrightarrow> strIndex s p \<noteq> None"

definition hasSuffix :: "string \<Rightarrow> string \<Rightarrow> bool" where
  "hasSuffix s p \<longleftrightarrow> length p \<le> length s \<and> drop (length s - length p) s = p"

definition trimPrefix :: "string \<Rightarrow> string \<Rightarrow> string" where
  "trimPrefix s p = (if hasPrefix s p then drop (length p) s else s)"

definition trimSuffix :: "string \<Rightarrow> string \<Rightarrow> string" where
  "trimSuffix s p = (if hasSuffix s p then take (length s - length p) s else s)"

fun strJoin :: "string list \<Rightarrow> string \<Rightarrow> string" where
  "strJoin [] sep = []"
| "strJoin [x] sep = x"
| "strJoin (x # y # xs) sep = x @ sep @ strJoin (y # xs) sep"

text \<open>\<^verbatim>\<open>strings.Split\<close> on a one-byte separator.\<close>

fun strSplit :: "char \<Rightarrow> string \<Rightarrow> string list" where
  "strSplit c [] = [[]]"
| "strSplit c (x # s) =
     (if x = c then [] # strSplit c s
      else case strSplit c s of [] \<Rightarrow> [[x]] | l # ls \<Rightarrow> (x # l) # ls)"

text \<open>Decoded JSON: the arguments of a tool as the program reads them.\<close>

datatype jval = JNull | JBool bool | JNum int | JStr string | JArr "jval list" | JObj "(string \<times> jval) list"

type_synonym jargs = "(string \<times> jval) list"

text \<open>A slice expression: \<open>None\<close> is the panic of bounds that are out of range.\<close>

definition goSlice :: "'a list \<Rightarrow> int \<Rightarrow> int \<Rightarrow> 'a list option" where
  "goSlice xs lo hi =
     (if 0 \<le> lo \<and> lo \<le> hi \<and> hi \<le> int (length xs) then Some (drop (nat lo) (take (nat hi) xs)) else None)"

abbreviation (input) "newline \<equiv> CHR 0x0A"

text \<open>The UTF-8 bytes of the ellipsis and of the em dash.\<close>

definition ellipsis :: string where "ellipsis = [CHR 0xE2, CHR 0x80, CHR 0xA6]"
definition emDash :: string where "emDash = [CHR 0xE2, CHR 0x80, CHR 0x94]"

subsection \<open>strings.TrimSpace\<close>

text \<open>
  \<^verbatim>\<open>strings.TrimSpace\<close> removes the code points of \<^verbatim>\<open>unicode.IsSpace\<close> at both ends. Each is given
  by its UTF-8 bytes; a suffix that is one of these sequences is exactly a last code point that is a
  space, because each sequence starts with a byte that starts a code point.
\<close>

definition space_seqs :: "string list" where
  "space_seqs =
    [[CHR 0x09], [CHR 0x0A], [CHR 0x0B], [CHR 0x0C], [CHR 0x0D], [CHR 0x20],
     [CHR 0xC2, CHR 0x85], [CHR 0xC2, CHR 0xA0], [CHR 0xE1, CHR 0x9A, CHR 0x80],
     [CHR 0xE2, CHR 0x80, CHR 0xA8], [CHR 0xE2, CHR 0x80, CHR 0xA9],
     [CHR 0xE2, CHR 0x80, CHR 0xAF], [CHR 0xE2, CHR 0x81, CHR 0x9F],
     [CHR 0xE3, CHR 0x80, CHR 0x80], [CHR 0xE2, CHR 0x80, CHR 0x80],
     [CHR 0xE2, CHR 0x80, CHR 0x81], [CHR 0xE2, CHR 0x80, CHR 0x82],
     [CHR 0xE2, CHR 0x80, CHR 0x83], [CHR 0xE2, CHR 0x80, CHR 0x84],
     [CHR 0xE2, CHR 0x80, CHR 0x85], [CHR 0xE2, CHR 0x80, CHR 0x86],
     [CHR 0xE2, CHR 0x80, CHR 0x87], [CHR 0xE2, CHR 0x80, CHR 0x88],
     [CHR 0xE2, CHR 0x80, CHR 0x89], [CHR 0xE2, CHR 0x80, CHR 0x8A]]"

function trimLeft :: "string \<Rightarrow> string" where
  "trimLeft s =
     (case find (hasPrefix s) space_seqs of
        None \<Rightarrow> s
      | Some q \<Rightarrow> if q = [] \<or> s = [] then s else trimLeft (drop (length q) s))"
  by pat_completeness auto
termination
  by (relation "measure length") auto

declare trimLeft.simps [simp del]

function trimRight :: "string \<Rightarrow> string" where
  "trimRight s =
     (case find (hasSuffix s) space_seqs of
        None \<Rightarrow> s
      | Some q \<Rightarrow> if q = [] \<or> s = [] then s else trimRight (take (length s - length q) s))"
  by pat_completeness auto
termination
  by (relation "measure length") (auto simp: hasSuffix_def)

declare trimRight.simps [simp del]

definition trimSpace :: "string \<Rightarrow> string" where
  "trimSpace s = trimRight (trimLeft s)"

lemma trimSpace_id:
  "find (hasPrefix s) space_seqs = None \<Longrightarrow> find (hasSuffix s) space_seqs = None \<Longrightarrow> trimSpace s = s"
  by (simp add: trimSpace_def trimLeft.simps [of s] trimRight.simps [of s])

subsection \<open>strings.ToLower\<close>

text \<open>ASCII letters are lowered; other bytes are kept (exact on ASCII text).\<close>

definition toLowerAscii :: "string \<Rightarrow> string" where
  "toLowerAscii s =
     map (\<lambda>c. if 65 \<le> (of_char c :: nat) \<and> (of_char c :: nat) \<le> 90
              then char_of ((of_char c :: nat) + 32) else c) s"

subsection \<open>Errors\<close>

datatype sentinel =
    ErrMaxSteps | ErrNotAvailableNow | ErrTreeBudget | ErrContextBudget | ErrTurnStopped
  | ErrSignalAbort | ErrUnknownTool | ErrUnsupportedParam | ErrMaxHandoffs
  | IoEOF | ContextCanceled

fun sentinel_text :: "sentinel \<Rightarrow> string" where
  "sentinel_text ErrMaxSteps = ''agent: max steps exceeded''"
| "sentinel_text ErrNotAvailableNow = ''agent: tool source not available now''"
| "sentinel_text ErrTreeBudget = ''agent: tree budget exhausted''"
| "sentinel_text ErrContextBudget = ''agent: context budget exceeded''"
| "sentinel_text ErrTurnStopped = ''agent: turn stopped''"
| "sentinel_text ErrSignalAbort = ''agent: turn aborted by child signal''"
| "sentinel_text ErrUnknownTool = ''agent: unknown tool''"
| "sentinel_text ErrUnsupportedParam = ''agent: provider does not support request parameter''"
| "sentinel_text ErrMaxHandoffs = ''agent: max handoffs exceeded''"
| "sentinel_text IoEOF = ''EOF''"
| "sentinel_text ContextCanceled = ''context canceled''"

datatype goerr =
    ErrSentinel sentinel
  | ErrNew string
  | Errorf string "string list" "goerr option"
  | ToolDeniedError string string

text \<open>\<^verbatim>\<open>errors.Is\<close> against a sentinel and \<^verbatim>\<open>errors.As\<close> to a \<^verbatim>\<open>*ToolDeniedError\<close>.\<close>

fun errors_is :: "goerr \<Rightarrow> sentinel \<Rightarrow> bool" where
  "errors_is (ErrSentinel s) t \<longleftrightarrow> s = t"
| "errors_is (ErrNew _) t \<longleftrightarrow> False"
| "errors_is (Errorf _ _ None) t \<longleftrightarrow> False"
| "errors_is (Errorf _ _ (Some e)) t \<longleftrightarrow> errors_is e t"
| "errors_is (ToolDeniedError _ _) t \<longleftrightarrow> False"

fun errors_as_denied :: "goerr \<Rightarrow> (string \<times> string) option" where
  "errors_as_denied (ToolDeniedError r m) = Some (r, m)"
| "errors_as_denied (Errorf _ _ (Some e)) = errors_as_denied e"
| "errors_as_denied _ = None"

text \<open>
  \<^verbatim>\<open>Error()\<close>: the rendered text. \<open>go_quote\<close> is \<^verbatim>\<open>strconv.Quote\<close>: it escapes the quote, the
  backslash and the ASCII control characters and keeps every other byte (exact on text whose
  non-ASCII code points are printable).
\<close>

definition hexDigit :: "nat \<Rightarrow> char" where
  "hexDigit n = (if n < 10 then char_of (48 + n) else char_of (87 + n))"

text \<open>\<^verbatim>\<open>hex.EncodeToString\<close>.\<close>

definition hexEncode :: "string \<Rightarrow> string" where
  "hexEncode s = concat (map (\<lambda>c. [hexDigit ((of_char c :: nat) div 16), hexDigit ((of_char c :: nat) mod 16)]) s)"

definition quoteByte :: "char \<Rightarrow> string" where
  "quoteByte c =
     (let n = (of_char c :: nat)
      in if n = 34 \<or> n = 92 then [CHR 0x5C, c]
         else if 7 \<le> n \<and> n \<le> 13 then [CHR 0x5C, ''abtnvfr'' ! (n - 7)]
         else if n < 32 \<or> n = 127 then [CHR 0x5C, CHR ''x'', hexDigit (n div 16), hexDigit (n mod 16)]
         else [c])"

definition go_quote :: "string \<Rightarrow> string" where
  "go_quote s = CHR 0x22 # concat (map quoteByte s) @ [CHR 0x22]"

fun render_fmt :: "string \<Rightarrow> string list \<Rightarrow> string \<Rightarrow> string" where
  "render_fmt [] args w = []"
| "render_fmt [c] args w = [c]"
| "render_fmt (c # v # f) args w =
     (if c \<noteq> CHR ''%'' then c # render_fmt (v # f) args w
      else if v = CHR ''w'' then w @ render_fmt f args w
      else case args of
             [] \<Rightarrow> c # v # render_fmt f [] w
           | a # as \<Rightarrow> (if v = CHR ''q'' then go_quote a else a) @ render_fmt f as w)"

fun errText :: "goerr \<Rightarrow> string" where
  "errText (ErrSentinel s) = sentinel_text s"
| "errText (ErrNew t) = t"
| "errText (Errorf f args None) = render_fmt f args ''''"
| "errText (Errorf f args (Some e)) = render_fmt f args (errText e)"
| "errText (ToolDeniedError r m) =
     (if r = [] then ''tool call denied'' else ''tool call denied: '' @ r)"

subsection \<open>Lemmas: lists\<close>

lemma length_dropWhile_less [simp, termination_simp]: "length (dropWhile P s) < Suc (length s)"
  by (simp add: le_imp_less_Suc length_dropWhile_le)

subsection \<open>Lemmas: machine integers and decimal text\<close>

lemma wrap64_id:
  assumes "- (2 ^ 63) \<le> x" "x < 2 ^ 63"
  shows "wrap64 x = x"
  using assms unfolding wrap64_def by (intro signed_take_bit_int_eq_self) simp_all

lemma wrap64_over: "2 ^ 63 \<le> x \<Longrightarrow> x < 2 ^ 64 + 2 ^ 63 \<Longrightarrow> wrap64 x = x - 2 ^ 64"
proof -
  assume x: "2 ^ 63 \<le> x" "x < 2 ^ 64 + 2 ^ 63"
  have "take_bit 64 x = take_bit 64 (x - 2 ^ 64)" by (simp add: take_bit_eq_mod)
  then have "wrap64 x = wrap64 (x - 2 ^ 64)"
    unfolding wrap64_def by (simp add: signed_take_bit_eq_iff_take_bit_eq)
  also have "\<dots> = x - 2 ^ 64" using x by (intro wrap64_id) simp_all
  finally show ?thesis .
qed

lemma wrap64_add_left: "wrap64 (wrap64 x + y) = wrap64 (x + y)"
  unfolding wrap64_def using signed_take_bit_add [of 63 "signed_take_bit 63 x" y]
  by (simp add: signed_take_bit_add)

lemma dec_nat_not_Nil [simp]: "dec_nat n \<noteq> []"
  by (subst dec_nat.simps) simp

lemma of_char_digit [simp]: "n < 10 \<Longrightarrow> of_char (char_of (48 + n) :: char) = (48 + n :: nat)"
  by simp

lemma is_dec_digit_char_of [simp]: "(n::nat) < 10 \<Longrightarrow> is_dec_digit (char_of (48 + n))"
  by (simp add: is_dec_digit_def)

lemma dec_nat_digits: "list_all is_dec_digit (dec_nat n)"
proof (induction n rule: dec_nat.induct)
  case (1 n)
  show ?case
  proof (cases "n < 10")
    case True
    then show ?thesis by (subst dec_nat.simps) simp
  next
    case False
    with "1.IH" show ?thesis by (subst dec_nat.simps) simp
  qed
qed

lemma undec_dec_nat [simp]: "undec (dec_nat n) = n"
proof (induction n rule: dec_nat.induct)
  case (1 n)
  show ?case
  proof (cases "n < 10")
    case True
    then show ?thesis by (subst dec_nat.simps) (simp add: undec_def)
  next
    case False
    with "1.IH" show ?thesis by (subst dec_nat.simps) (simp add: undec_def)
  qed
qed

lemma dec_nat_inject [simp]: "dec_nat m = dec_nat n \<longleftrightarrow> m = n"
  by (metis undec_dec_nat)

lemma atoiDigits_dec_nat [simp]: "atoiDigits (dec_nat n) = Some n"
  by (simp add: atoiDigits_def dec_nat_digits)

lemma dec_nat_Cons_digit: "dec_nat n = c # s \<Longrightarrow> is_dec_digit c"
  using dec_nat_digits [of n] by simp

lemma atoi_itoa_nat: "n < 2 ^ 63 \<Longrightarrow> atoi (itoa (int n)) = Some (int n)"
proof -
  assume n: "n < 2 ^ 63"
  obtain c s where cs: "dec_nat n = c # s" by (cases "dec_nat n") auto
  then have "is_dec_digit c" by (rule dec_nat_Cons_digit)
  then have "c \<noteq> CHR ''-''" "c \<noteq> CHR ''+''" by (auto simp: is_dec_digit_def)
  moreover have "atoiDigits (c # s) = Some n" using atoiDigits_dec_nat [of n] cs by simp
  moreover have "int n < 2 ^ 63" using n by (metis of_nat_less_iff of_nat_numeral of_nat_power)
  ultimately show ?thesis
    by (simp add: atoi_def itoa_def cs Let_def)
qed

lemma length_dec_nat: "n < 10 ^ k \<Longrightarrow> 0 < k \<Longrightarrow> length (dec_nat n) \<le> k"
proof (induction n arbitrary: k rule: dec_nat.induct)
  case (1 n)
  show ?case
  proof (cases "n < 10")
    case True
    with "1.prems" show ?thesis by (subst dec_nat.simps) simp
  next
    case False
    with "1.prems" obtain j where k: "k = Suc j" and "0 < j"
      by (cases k; cases "k - 1") auto
    with "1.prems" have "n div 10 < 10 ^ j" by simp
    with "1.IH" False \<open>0 < j\<close> k show ?thesis by (subst dec_nat.simps) simp
  qed
qed

subsection \<open>Lemmas: prefixes and first occurrences\<close>

lemma hasPrefix_iff: "hasPrefix s p \<longleftrightarrow> (\<exists>r. s = p @ r)"
  unfolding hasPrefix_def by (metis append_eq_conv_conj append_take_drop_id)

lemma hasPrefix_Nil [gostr, simp]: "hasPrefix s []"
  by (simp add: hasPrefix_def)

lemma hasPrefix_append [gostr, simp]: "hasPrefix (p @ r) p"
  by (simp add: hasPrefix_def)

lemma strIndex_Some:
  "strIndex s p = Some i \<Longrightarrow> i \<le> length s \<and> hasPrefix (drop i s) p \<and> (\<forall>j<i. \<not> hasPrefix (drop j s) p)"
proof (induction s arbitrary: i)
  case Nil
  then show ?case by (auto split: if_splits)
next
  case (Cons c s)
  show ?case
  proof (cases "hasPrefix (c # s) p")
    case True
    with Cons.prems show ?thesis by simp
  next
    case False
    with Cons.prems obtain k where k: "strIndex s p = Some k" "i = Suc k" by auto
    from Cons.IH [OF k(1)] False k(2) show ?thesis
      by (auto simp: less_Suc_eq_0_disj)
  qed
qed

lemma all_le_Suc_split: "(\<forall>j\<le>Suc n. P j) \<longleftrightarrow> P 0 \<and> (\<forall>j\<le>n. P (Suc j))"
  by (metis Suc_le_mono le0 not0_implies_Suc)

lemma strIndex_None: "strIndex s p = None \<longleftrightarrow> (\<forall>j\<le>length s. \<not> hasPrefix (drop j s) p)"
proof (induction s)
  case Nil
  then show ?case by (simp add: hasPrefix_def)
next
  case (Cons c s)
  then show ?case by (simp add: all_le_Suc_split)
qed

subsection \<open>Lemmas: splitting and joining lines\<close>

lemma strSplit_ne [simp]: "strSplit c s \<noteq> []"
  by (induction s) (auto split: list.splits)

lemma strSplit_plain: "c \<notin> set l \<Longrightarrow> strSplit c l = [l]"
  by (induction l) auto

lemma strSplit_append: "c \<notin> set l \<Longrightarrow> strSplit c (l @ c # s) = l # strSplit c s"
  by (induction l) auto

lemma strSplit_strJoin: "ls \<noteq> [] \<Longrightarrow> list_all (\<lambda>l. c \<notin> set l) ls \<Longrightarrow> strSplit c (strJoin ls [c]) = ls"
proof (induction ls)
  case (Cons l ls)
  then show ?case by (cases ls) (auto simp: strSplit_plain strSplit_append)
qed simp

lemma strJoin_snoc: "ls \<noteq> [] \<Longrightarrow> strJoin (ls @ [x]) sep = strJoin ls sep @ sep @ x"
proof (induction ls)
  case (Cons l ls)
  then show ?case by (cases ls) auto
qed simp

lemma strJoin_Cons_prefix: "\<exists>r. strJoin (l # ls) sep = l @ r"
  by (cases ls) auto

lemma strJoin_Cons_app: "strJoin ((x # l) # ls) sep = x # strJoin (l # ls) sep"
  by (cases ls) auto

lemma strJoin_strSplit: "strJoin (strSplit c s) [c] = s"
proof (induction s)
  case (Cons x s)
  obtain l ls where l: "strSplit c s = l # ls" by (cases "strSplit c s") auto
  then show ?case using Cons by (auto simp: strJoin_Cons_app)
qed simp

lemma strSplit_snoc: "strSplit c (s @ [c]) = strSplit c s @ [[]]"
proof (induction s)
  case (Cons x s)
  obtain l ls where "strSplit c s = l # ls" by (cases "strSplit c s") auto
  then show ?case using Cons by auto
qed simp

lemma strSplit_no_sep: "l \<in> set (strSplit c s) \<Longrightarrow> c \<notin> set l \<and> set l \<subseteq> set s"
proof (induction s arbitrary: l)
  case (Cons x s)
  obtain k ks where k: "strSplit c s = k # ks" by (cases "strSplit c s") auto
  then have "c \<notin> set k \<and> set k \<subseteq> set s" "\<forall>m\<in>set ks. c \<notin> set m \<and> set m \<subseteq> set s" using Cons.IH by auto
  then show ?case using Cons.prems k by (auto split: if_splits)
qed simp

lemma strSplit_two: "strSplit c (a @ [c] @ b) = strSplit c a @ strSplit c b"
proof (induction a)
  case (Cons x a)
  obtain l ls where "strSplit c a = l # ls" by (cases "strSplit c a") auto
  then show ?case using Cons by auto
qed simp

end
