(* ===== verification/AgentTypes.thy ===== *)
theory AgentTypes
  imports Prelude
begin

text \<open>
  The data of \<^verbatim>\<open>src/provider.go\<close>: messages, tool calls, requests, generation knobs, capabilities,
  deltas and responses, and the delta accumulator that folds a stream into a response. String-typed
  enumerations (\<^verbatim>\<open>Role\<close>, \<^verbatim>\<open>DeltaKind\<close>) stay strings with the source's constants.
  \<^verbatim>\<open>core.ToolDef\<close> and \<^verbatim>\<open>core.ToolResult\<close> come from the protocol library; the records below hold the
  fields this repository reads.
\<close>

subsection \<open>Roles and messages\<close>

type_synonym role = string

abbreviation "RoleUser \<equiv> ''user''"
abbreviation "RoleAssistant \<equiv> ''assistant''"
abbreviation "RoleTool \<equiv> ''tool''"
abbreviation "RoleSystem \<equiv> ''system''"

record toolCall =
  tc_ID :: string
  tc_Name :: string
  tc_Args :: rawjson

record message =
  m_Role :: role
  m_Text :: string
  m_ToolCalls :: "toolCall list"
  m_ToolCallID :: string
  m_Timestamp :: gotime

text \<open>A \<^verbatim>\<open>Message\<close> literal that sets a role and a text only.\<close>

definition textMessage :: "role \<Rightarrow> string \<Rightarrow> message" where
  "textMessage r t = \<lparr>m_Role = r, m_Text = t, m_ToolCalls = [], m_ToolCallID = [], m_Timestamp = 0\<rparr>"

datatype annotation = ABool bool | AOther string

record toolDef =
  td_Name :: string
  td_Description :: string
  td_Annotations :: "(string \<times> annotation) list"

record content =
  ct_Type :: string
  ct_Text :: string

record toolResult =
  tr_Content :: "content list"
  tr_StructuredContent :: "string option"
  tr_IsError :: bool

record usage =
  InputTokens :: int
  OutputTokens :: int
  CachedInputTokens :: int

definition zeroUsage :: usage where
  "zeroUsage = \<lparr>InputTokens = 0, OutputTokens = 0, CachedInputTokens = 0\<rparr>"

definition addUsage :: "usage \<Rightarrow> usage \<Rightarrow> usage" where
  "addUsage a b = \<lparr>InputTokens = InputTokens a + InputTokens b,
                   OutputTokens = OutputTokens a + OutputTokens b,
                   CachedInputTokens = CachedInputTokens a + CachedInputTokens b\<rparr>"

subsection \<open>Generation knobs\<close>

record toolChoice =
  tch_Mode :: string
  tch_Name :: string

definition toolChoiceIsZero :: "toolChoice \<Rightarrow> bool" where
  "toolChoiceIsZero tc \<longleftrightarrow> tch_Mode tc = []"

definition zeroToolChoice :: toolChoice where
  "zeroToolChoice = \<lparr>tch_Mode = [], tch_Name = []\<rparr>"

record samplingPenalties =
  Repeat :: "float64 ptr option"
  RepeatLastN :: "int ptr option"
  Frequency :: "float64 ptr option"
  Presence :: "float64 ptr option"
  DRYMultiplier :: "float64 ptr option"
  DRYBase :: "float64 ptr option"
  DRYAllowedLength :: "int ptr option"

record generationParams =
  gp_Temperature :: "float64 ptr option"
  gp_MaxTokens :: int
  gp_ToolChoice :: toolChoice
  gp_Seed :: "int ptr option"
  gp_Penalties :: "samplingPenalties ptr option"

record guidedDecoding =
  gd_Grammar :: string
  gd_Regex :: string
  gd_JSONSchema :: rawjson

record providerRequest =
  rq_Instructions :: string
  rq_Messages :: "message list"
  rq_Tools :: "toolDef list"
  rq_Temperature :: "float64 ptr option"
  rq_MaxTokens :: int
  rq_ToolChoice :: toolChoice
  rq_Seed :: "int ptr option"
  rq_Penalties :: "samplingPenalties ptr option"
  rq_Guided :: "guidedDecoding ptr option"
  rq_ResponseSchema :: rawjson

text \<open>The later pointer wins when it is set: the helpers \<^verbatim>\<open>pick\<close> and \<^verbatim>\<open>pickInt\<close>.\<close>

definition pick :: "'a option \<Rightarrow> 'a option \<Rightarrow> 'a option" where
  "pick dst v = (case v of None \<Rightarrow> dst | Some _ \<Rightarrow> v)"

text \<open>
  \<^verbatim>\<open>SamplingPenalties.merge\<close>. Merging two non-nil pointers allocates: \<open>fresh\<close> is the address of
  the new struct.
\<close>

definition penaltiesMerge ::
  "nat \<Rightarrow> samplingPenalties ptr option \<Rightarrow> samplingPenalties ptr option \<Rightarrow> samplingPenalties ptr option"
where
  "penaltiesMerge fresh s over =
     (case over of
        None \<Rightarrow> s
      | Some o' \<Rightarrow>
          (case s of
             None \<Rightarrow> over
           | Some s' \<Rightarrow>
               (let a = deref s'; b = deref o'
                in Some (Ptr fresh
                     \<lparr>Repeat = pick (Repeat a) (Repeat b),
                      RepeatLastN = pick (RepeatLastN a) (RepeatLastN b),
                      Frequency = pick (Frequency a) (Frequency b),
                      Presence = pick (Presence a) (Presence b),
                      DRYMultiplier = pick (DRYMultiplier a) (DRYMultiplier b),
                      DRYBase = pick (DRYBase a) (DRYBase b),
                      DRYAllowedLength = pick (DRYAllowedLength a) (DRYAllowedLength b)\<rparr>))))"

definition genMerge :: "nat \<Rightarrow> generationParams \<Rightarrow> generationParams \<Rightarrow> generationParams" where
  "genMerge fresh p over =
     \<lparr>gp_Temperature = pick (gp_Temperature p) (gp_Temperature over),
      gp_MaxTokens = (if gp_MaxTokens over \<noteq> 0 then gp_MaxTokens over else gp_MaxTokens p),
      gp_ToolChoice = (if \<not> toolChoiceIsZero (gp_ToolChoice over) then gp_ToolChoice over
                       else gp_ToolChoice p),
      gp_Seed = pick (gp_Seed p) (gp_Seed over),
      gp_Penalties = penaltiesMerge fresh (gp_Penalties p) (gp_Penalties over)\<rparr>"

definition applyTo :: "generationParams \<Rightarrow> providerRequest \<Rightarrow> providerRequest" where
  "applyTo p req = req\<lparr>rq_Temperature := gp_Temperature p, rq_MaxTokens := gp_MaxTokens p,
                       rq_ToolChoice := gp_ToolChoice p, rq_Seed := gp_Seed p,
                       rq_Penalties := gp_Penalties p\<rparr>"

definition penaltyKinds :: "samplingPenalties ptr option \<Rightarrow> string list" where
  "penaltyKinds s =
     (case s of
        None \<Rightarrow> []
      | Some p \<Rightarrow>
          (let a = deref p
           in (if Repeat a \<noteq> None \<or> RepeatLastN a \<noteq> None then [''repeat''] else [])
              @ (if Frequency a \<noteq> None then [''frequency''] else [])
              @ (if Presence a \<noteq> None then [''presence''] else [])
              @ (if DRYMultiplier a \<noteq> None \<or> DRYBase a \<noteq> None \<or> DRYAllowedLength a \<noteq> None
                 then [''dry''] else [])))"

definition refusePenalties ::
  "samplingPenalties ptr option \<Rightarrow> string list \<Rightarrow> string \<Rightarrow> goerr option" where
  "refusePenalties s sendable why =
     map_option (\<lambda>k. Errorf ''%w: Penalties %s (%s)'' [k, why] (Some (ErrSentinel ErrUnsupportedParam)))
       (find (\<lambda>k. k \<notin> set sendable) (penaltyKinds s))"

definition guidedKind :: "guidedDecoding \<Rightarrow> goerr + string" where
  "guidedKind g =
     (let kinds = (if gd_Grammar g \<noteq> [] then [''grammar''] else [])
                  @ (if gd_Regex g \<noteq> [] then [''regex''] else [])
                  @ (if length (gd_JSONSchema g) > 0 then [''jsonSchema''] else [])
      in case kinds of
           [k] \<Rightarrow> Inr k
         | _ \<Rightarrow> Inl (Errorf ''%w: Guided needs exactly one of Grammar, Regex or JSONSchema, got %v''
                      [''['' @ strJoin kinds '' '' @ '']''] (Some (ErrSentinel ErrUnsupportedParam))))"

subsection \<open>Capabilities\<close>

record capabilities =
  cap_Guided :: "string list"
  cap_Seed :: bool
  cap_Temperature :: bool
  cap_Penalties :: "string list"

definition canPenalize :: "capabilities \<Rightarrow> samplingPenalties ptr option \<Rightarrow> bool" where
  "canPenalize c s \<longleftrightarrow> refusePenalties s (cap_Penalties c) [] = None"

definition canGuide :: "capabilities \<Rightarrow> guidedDecoding ptr option \<Rightarrow> bool" where
  "canGuide c g =
     (case g of
        None \<Rightarrow> True
      | Some p \<Rightarrow> (case guidedKind (deref p) of Inl _ \<Rightarrow> False | Inr k \<Rightarrow> k \<in> set (cap_Guided c)))"

definition capIntersect :: "capabilities \<Rightarrow> capabilities \<Rightarrow> capabilities" where
  "capIntersect c o' =
     \<lparr>cap_Guided = filter (\<lambda>k. k \<in> set (cap_Guided o')) (cap_Guided c),
      cap_Seed = (cap_Seed c \<and> cap_Seed o'),
      cap_Temperature = (cap_Temperature c \<and> cap_Temperature o'),
      cap_Penalties = filter (\<lambda>k. k \<in> set (cap_Penalties o')) (cap_Penalties c)\<rparr>"

subsection \<open>Deltas, responses and the accumulator\<close>

abbreviation "DeltaText \<equiv> ''text''"
abbreviation "DeltaReasoning \<equiv> ''reasoning''"
abbreviation "DeltaToolCallStart \<equiv> ''tool-call-start''"
abbreviation "DeltaToolCallArgs \<equiv> ''tool-call-args''"
abbreviation "DeltaFinish \<equiv> ''finish''"
abbreviation "DeltaUsage \<equiv> ''usage''"

record delta =
  d_Kind :: string
  d_Text :: string
  d_Index :: int
  d_ToolCallID :: string
  d_ToolName :: string
  d_FinishReason :: string
  d_Usage :: "usage option"

definition textDelta :: "string \<Rightarrow> string \<Rightarrow> delta" where
  "textDelta k t = \<lparr>d_Kind = k, d_Text = t, d_Index = 0, d_ToolCallID = [], d_ToolName = [],
                    d_FinishReason = [], d_Usage = None\<rparr>"

record providerResponse =
  rs_Text :: string
  rs_Reasoning :: string
  rs_ToolCalls :: "toolCall list"
  rs_FinishReason :: string
  rs_Usage :: "usage option"

record deltaAccumulator =
  a_text :: string
  a_reason :: string
  a_argBufs :: "int \<Rightarrow> string option"
  a_calls :: "int \<Rightarrow> toolCall option"
  a_order :: "int list"
  a_finish :: string
  a_usage :: "usage option"

definition newAccumulator :: deltaAccumulator where
  "newAccumulator = \<lparr>a_text = [], a_reason = [], a_argBufs = Map.empty, a_calls = Map.empty,
                     a_order = [], a_finish = [], a_usage = None\<rparr>"

definition accAdd :: "deltaAccumulator \<Rightarrow> delta \<Rightarrow> deltaAccumulator" where
  "accAdd a d =
     (if d_Kind d = DeltaText then a\<lparr>a_text := a_text a @ d_Text d\<rparr>
      else if d_Kind d = DeltaReasoning then a\<lparr>a_reason := a_reason a @ d_Text d\<rparr>
      else if d_Kind d = DeltaToolCallStart then
        a\<lparr>a_calls := (a_calls a)(d_Index d \<mapsto> \<lparr>tc_ID = d_ToolCallID d, tc_Name = d_ToolName d, tc_Args = []\<rparr>),
          a_argBufs := (a_argBufs a)(d_Index d \<mapsto> d_Text d),
          a_order := a_order a @ [d_Index d]\<rparr>
      else if d_Kind d = DeltaToolCallArgs then
        (case a_argBufs a (d_Index d) of
           None \<Rightarrow> a
         | Some buf \<Rightarrow> a\<lparr>a_argBufs := (a_argBufs a)(d_Index d \<mapsto> buf @ d_Text d)\<rparr>)
      else if d_Kind d = DeltaFinish then a\<lparr>a_finish := d_FinishReason d\<rparr>
      else if d_Kind d = DeltaUsage then a\<lparr>a_usage := d_Usage d\<rparr>
      else a)"

text \<open>
  \<^verbatim>\<open>Result\<close>. \<open>argsOf\<close> is \<^verbatim>\<open>toolCallArgsFromJSON\<close>: what the finished argument text becomes. An
  index of \<^verbatim>\<open>order\<close> without a call would be a nil dereference, which is the \<open>None\<close> here.
\<close>

fun accCalls :: "(string \<Rightarrow> rawjson) \<Rightarrow> deltaAccumulator \<Rightarrow> int list \<Rightarrow> toolCall list option" where
  "accCalls argsOf a [] = Some []"
| "accCalls argsOf a (i # is) =
     (case (a_calls a i, a_argBufs a i) of
        (Some c, Some args) \<Rightarrow>
          map_option (\<lambda>cs. c\<lparr>tc_Args := argsOf (if args = [] then ''{}'' else args)\<rparr> # cs)
            (accCalls argsOf a is)
      | _ \<Rightarrow> None)"

definition accResult :: "(string \<Rightarrow> rawjson) \<Rightarrow> deltaAccumulator \<Rightarrow> providerResponse option" where
  "accResult argsOf a =
     map_option (\<lambda>cs. \<lparr>rs_Text = a_text a, rs_Reasoning = a_reason a, rs_ToolCalls = cs,
                       rs_FinishReason = a_finish a, rs_Usage = a_usage a\<rparr>)
       (accCalls argsOf a (a_order a))"

end
