(* ===== verification/ToolName.thy ===== *)
theory ToolName
  imports AgentTypes
begin

text \<open>
  \<^verbatim>\<open>src/toolname.go\<close>: providers accept tool names of the form \<^verbatim>\<open>[a-zA-Z0-9_-]{1,64}\<close>, so the real
  names of a step's tools are mapped to safe ones for the wire and back. The disambiguation loop of
  \<^verbatim>\<open>toolNameMaps\<close> has no bound in the source; \<open>freeName\<close> is that loop (\<open>None\<close> would be a loop that
  never ends) and the lemmas below prove that it always returns.
\<close>

definition validToolChar :: "char \<Rightarrow> bool" where
  "validToolChar c \<longleftrightarrow>
     (let n = (of_char c :: nat)
      in (97 \<le> n \<and> n \<le> 122) \<or> (65 \<le> n \<and> n \<le> 90) \<or> (48 \<le> n \<and> n \<le> 57) \<or> n = 95 \<or> n = 45)"

definition maxToolNameLen :: nat where
  "maxToolNameLen = 64"

text \<open>\<^verbatim>\<open>invalidToolNameChars.ReplaceAllString(name, "_")\<close>: each maximal run becomes one underscore.\<close>

fun replaceInvalid :: "string \<Rightarrow> string" where
  "replaceInvalid [] = []"
| "replaceInvalid (c # s) =
     (if validToolChar c then c # replaceInvalid s
      else CHR ''_'' # replaceInvalid (dropWhile (\<lambda>d. \<not> validToolChar d) s))"

definition truncateToolName :: "string \<Rightarrow> string" where
  "truncateToolName s = (if length s > maxToolNameLen then take maxToolNameLen s else s)"

definition sanitizeToolName :: "string \<Rightarrow> string" where
  "sanitizeToolName name =
     (let s = replaceInvalid name in truncateToolName (if s = [] then ''tool'' else s))"

definition suffixedName :: "string \<Rightarrow> nat \<Rightarrow> string" where
  "suffixedName name n =
     (let suffix = CHR ''_'' # itoa (int n);
          base = sanitizeToolName name
      in (if length base + length suffix > maxToolNameLen
          then take (maxToolNameLen - length suffix) base else base) @ suffix)"

partial_function (option) freeName ::
  "(string \<Rightarrow> string option) \<Rightarrow> string \<Rightarrow> nat \<Rightarrow> string \<Rightarrow> string option" where
  "freeName taken name n safe =
     (if taken safe = None then Some safe
      else freeName taken name (Suc n) (suffixedName name n))"

record toolNames =
  realToSafe :: "string \<Rightarrow> string option"
  safeToReal :: "string \<Rightarrow> string option"

definition toolNameStep :: "toolNames \<Rightarrow> string \<Rightarrow> toolNames option" where
  "toolNameStep m name =
     (if realToSafe m name \<noteq> None then Some m
      else map_option
             (\<lambda>safe. \<lparr>realToSafe = (realToSafe m)(name \<mapsto> safe),
                      safeToReal = (safeToReal m)(safe \<mapsto> name)\<rparr>)
             (freeName (safeToReal m) name 2 (sanitizeToolName name)))"

fun toolNameLoop :: "toolNames \<Rightarrow> toolDef list \<Rightarrow> toolNames option" where
  "toolNameLoop m [] = Some m"
| "toolNameLoop m (td # tds) =
     (case toolNameStep m (td_Name td) of None \<Rightarrow> None | Some m' \<Rightarrow> toolNameLoop m' tds)"

definition newToolNames :: "toolDef list \<Rightarrow> toolNames option" where
  "newToolNames tools = toolNameLoop \<lparr>realToSafe = Map.empty, safeToReal = Map.empty\<rparr> tools"

definition wireName :: "toolNames \<Rightarrow> string \<Rightarrow> string" where
  "wireName m name = (case realToSafe m name of Some s \<Rightarrow> s | None \<Rightarrow> sanitizeToolName name)"

definition realName :: "toolNames \<Rightarrow> string \<Rightarrow> string" where
  "realName m wire = (case safeToReal m wire of Some r \<Rightarrow> r | None \<Rightarrow> wire)"

text \<open>What a provider accepts as a function name.\<close>

definition providerAccepts :: "string \<Rightarrow> bool" where
  "providerAccepts s \<longleftrightarrow> list_all validToolChar s \<and> 1 \<le> length s \<and> length s \<le> 64"

subsection \<open>Sanitized names\<close>

lemma validToolChar_underscore [simp]: "validToolChar CHR ''_''"
  by (simp add: validToolChar_def)

lemma validToolChar_digit: "is_dec_digit c \<Longrightarrow> validToolChar c"
  by (auto simp: validToolChar_def is_dec_digit_def Let_def)

lemma replaceInvalid_valid: "list_all validToolChar (replaceInvalid s)"
  by (induction s rule: replaceInvalid.induct) auto

lemma replaceInvalid_id: "list_all validToolChar s \<Longrightarrow> replaceInvalid s = s"
  by (induction s) auto

lemma list_all_take: "list_all P xs \<Longrightarrow> list_all P (take k xs)"
  by (metis append_take_drop_id list_all_append)

lemma sanitize_accepted: "providerAccepts (sanitizeToolName name)"
proof -
  have "list_all validToolChar ''tool''" by (simp add: validToolChar_def)
  then show ?thesis
    using replaceInvalid_valid [of name]
    by (auto simp: providerAccepts_def sanitizeToolName_def truncateToolName_def maxToolNameLen_def
        Let_def list_all_take Suc_le_eq)
qed

subsection \<open>The disambiguation loop\<close>

lemma itoa_of_nat: "itoa (int n) = dec_nat n"
  by (simp add: itoa_def)

text \<open>The digits after the last underscore are the counter, so two counters never collide.\<close>

lemma takeWhile_rev_suffix:
  "list_all is_dec_digit d \<Longrightarrow>
   takeWhile is_dec_digit (rev (b @ CHR ''_'' # d)) = rev d"
proof -
  assume d: "list_all is_dec_digit d"
  have "takeWhile is_dec_digit (rev d @ CHR ''_'' # rev b)
        = rev d @ takeWhile is_dec_digit (CHR ''_'' # rev b)"
    using d by (intro takeWhile_append2) (auto simp: list_all_iff)
  then show ?thesis by (simp add: is_dec_digit_def)
qed

lemma suffixedName_inj: "suffixedName name m = suffixedName name n \<Longrightarrow> m = n"
proof -
  assume eq: "suffixedName name m = suffixedName name n"
  obtain b c where m: "suffixedName name m = b @ CHR ''_'' # dec_nat m"
    and n: "suffixedName name n = c @ CHR ''_'' # dec_nat n"
    by (auto simp: suffixedName_def itoa_of_nat Let_def)
  have "rev (dec_nat m) = rev (dec_nat n)"
    using takeWhile_rev_suffix [OF dec_nat_digits, of b m]
      takeWhile_rev_suffix [OF dec_nat_digits, of c n] eq m n by metis
  then show "m = n" by simp
qed

definition blocked :: "(string \<Rightarrow> string option) \<Rightarrow> string \<Rightarrow> nat \<Rightarrow> nat set" where
  "blocked taken name n = {k. n \<le> k \<and> taken (suffixedName name k) \<noteq> None}"

lemma finite_blocked: "finite (dom taken) \<Longrightarrow> finite (blocked taken name n)"
proof -
  assume "finite (dom taken)"
  moreover have "inj_on (suffixedName name) (blocked taken name n)"
    by (auto intro: inj_onI suffixedName_inj)
  moreover have "suffixedName name ` blocked taken name n \<subseteq> dom taken"
    by (auto simp: blocked_def)
  ultimately show ?thesis by (meson finite_imageD finite_subset)
qed

lemma card_blocked: "finite (dom taken) \<Longrightarrow> card (blocked taken name n) \<le> card (dom taken)"
  by (rule card_inj_on_le [where f = "suffixedName name"])
    (auto simp: blocked_def intro: inj_onI suffixedName_inj)

text \<open>
  The loop returns a name that is not taken: the one it started from, or the one of a counter at
  most as far as there are taken counters ahead.
\<close>

lemma freeName_returns:
  assumes fin: "finite (dom taken)"
  shows "\<exists>r. freeName taken name n safe = Some r \<and> taken r = None \<and>
           (r = safe \<or> (\<exists>m\<le>n + card (blocked taken name n). r = suffixedName name m))"
proof (induction "card (blocked taken name n)" arbitrary: n safe rule: less_induct)
  case less
  show ?case
  proof (cases "taken safe = None")
    case True
    then show ?thesis by (subst freeName.simps) auto
  next
    case False
    let ?s = "suffixedName name n"
    have step: "freeName taken name n safe = freeName taken name (Suc n) ?s"
      using False freeName.simps [of taken name n safe] by metis
    show ?thesis
    proof (cases "taken ?s = None")
      case True
      then have "freeName taken name (Suc n) ?s = Some ?s" by (subst freeName.simps) simp
      with step True show ?thesis by (auto intro!: exI [of _ n])
    next
      case taken: False
      have sub: "blocked taken name n = insert n (blocked taken name (Suc n))"
        using taken by (auto simp: blocked_def le_Suc_eq Suc_le_eq order.order_iff_strict)
      have "n \<notin> blocked taken name (Suc n)" by (simp add: blocked_def)
      with sub have card: "card (blocked taken name n) = Suc (card (blocked taken name (Suc n)))"
        using finite_blocked [OF fin] by simp
      with less.hyps [of "Suc n" ?s] obtain r where
        r: "freeName taken name (Suc n) ?s = Some r" "taken r = None"
          "r = ?s \<or> (\<exists>m\<le>Suc n + card (blocked taken name (Suc n)). r = suffixedName name m)"
        by auto
      then have "\<exists>m\<le>n + card (blocked taken name n). r = suffixedName name m"
        using card taken by auto
      with r step show ?thesis by auto
    qed
  qed
qed

lemma suffixedName_accepted:
  assumes "n < 10 ^ 62"
  shows "providerAccepts (suffixedName name n)"
proof -
  have len: "length (dec_nat n) \<le> 62" by (rule length_dec_nat) (use assms in auto)
  have "list_all validToolChar (dec_nat n)"
    using dec_nat_digits [of n] by (auto simp: list_all_iff validToolChar_digit)
  then show ?thesis
    using sanitize_accepted [of name] len
    by (auto simp: providerAccepts_def suffixedName_def itoa_of_nat maxToolNameLen_def Let_def
        list_all_take)
qed

subsection \<open>The maps\<close>

text \<open>
  The two maps are inverse to each other, every safe name is one a provider accepts, and the
  maps hold at most \<open>k\<close> names.
\<close>

definition namesInv :: "nat \<Rightarrow> toolNames \<Rightarrow> bool" where
  "namesInv k m \<longleftrightarrow>
     (\<forall>r s. realToSafe m r = Some s \<longleftrightarrow> safeToReal m s = Some r) \<and>
     (\<forall>s r. safeToReal m s = Some r \<longrightarrow> providerAccepts s) \<and>
     finite (dom (safeToReal m)) \<and> card (dom (safeToReal m)) \<le> k"

lemma toolNameStep_inv:
  assumes inv: "namesInv k m" and small: "k + 2 < 10 ^ 62"
  shows "\<exists>m'. toolNameStep m name = Some m' \<and> namesInv (Suc k) m' \<and> realToSafe m \<subseteq>\<^sub>m realToSafe m'
           \<and> realToSafe m' name \<noteq> None"
proof (cases "realToSafe m name = None")
  case False
  with inv show ?thesis by (auto simp: toolNameStep_def namesInv_def)
next
  case True
  have fin: "finite (dom (safeToReal m))" and card: "card (dom (safeToReal m)) \<le> k"
    using inv by (auto simp: namesInv_def)
  obtain s where s: "freeName (safeToReal m) name 2 (sanitizeToolName name) = Some s"
      "safeToReal m s = None"
      "s = sanitizeToolName name \<or>
       (\<exists>j\<le>2 + card (blocked (safeToReal m) name 2). s = suffixedName name j)"
    using freeName_returns [OF fin] by blast
  have "providerAccepts s"
    using s(3) card_blocked [OF fin, of name 2] card small
    by (auto intro!: suffixedName_accepted sanitize_accepted)
  with True s inv have "namesInv (Suc k)
      \<lparr>realToSafe = (realToSafe m)(name \<mapsto> s), safeToReal = (safeToReal m)(s \<mapsto> name)\<rparr>"
    by (auto simp: namesInv_def card_insert_if) (metis option.distinct(1))+
  with True s show ?thesis by (auto simp: toolNameStep_def map_le_def)
qed

lemma toolNameLoop_inv:
  assumes "namesInv k m" and "k + length tds + 2 < 10 ^ 62"
  shows "\<exists>m'. toolNameLoop m tds = Some m' \<and> namesInv (k + length tds) m' \<and>
           realToSafe m \<subseteq>\<^sub>m realToSafe m' \<and> (\<forall>td\<in>set tds. realToSafe m' (td_Name td) \<noteq> None)"
  using assms
proof (induction tds arbitrary: k m)
  case Nil
  then show ?case by simp
next
  case (Cons td tds)
  obtain m1 where m1: "toolNameStep m (td_Name td) = Some m1" "namesInv (Suc k) m1"
      "realToSafe m \<subseteq>\<^sub>m realToSafe m1" "realToSafe m1 (td_Name td) \<noteq> None"
    using toolNameStep_inv [OF Cons.prems(1), of "td_Name td"] Cons.prems(2) by auto
  obtain m2 where m2: "toolNameLoop m1 tds = Some m2" "namesInv (Suc k + length tds) m2"
      "realToSafe m1 \<subseteq>\<^sub>m realToSafe m2" "\<forall>td\<in>set tds. realToSafe m2 (td_Name td) \<noteq> None"
    using Cons.IH [OF m1(2)] Cons.prems(2) by auto
  from m1(4) m2(3) have "realToSafe m2 (td_Name td) \<noteq> None"
    by (metis domI domIff map_le_def)
  with m1 m2 show ?case by (auto intro: map_le_trans)
qed

lemma newToolNames_inv:
  assumes "length tools < 2 ^ 63"
  shows "\<exists>m. newToolNames tools = Some m \<and> namesInv (length tools) m \<and>
           (\<forall>td\<in>set tools. realToSafe m (td_Name td) \<noteq> None)"
proof -
  have "namesInv 0 \<lparr>realToSafe = Map.empty, safeToReal = Map.empty\<rparr>" by (simp add: namesInv_def)
  moreover have "0 + length tools + 2 < 10 ^ 62" using assms by simp
  ultimately show ?thesis
    using toolNameLoop_inv [of 0 "\<lparr>realToSafe = Map.empty, safeToReal = Map.empty\<rparr>" tools]
    by (auto simp: newToolNames_def)
qed

text \<open>
  C5: for any list of tools, the name maps are built (the search for a free name ends), every offered
  tool's wire name is one a provider accepts, and the wire name comes back as the real name, so the
  call the model makes reaches the tool it was offered. The length bound is the size of a Go slice.
\<close>

theorem tool_names_roundtrip:
  assumes "length tools < 2 ^ 63"
  shows "\<exists>m. newToolNames tools = Some m \<and>
           (\<forall>td\<in>set tools. providerAccepts (wireName m (td_Name td)) \<and>
                            realName m (wireName m (td_Name td)) = td_Name td)"
proof -
  from newToolNames_inv [OF assms] obtain m where m: "newToolNames tools = Some m"
      "namesInv (length tools) m" "\<forall>td\<in>set tools. realToSafe m (td_Name td) \<noteq> None" by blast
  show ?thesis
  proof (intro exI conjI ballI)
    fix td assume "td \<in> set tools"
    with m(3) obtain s where s: "realToSafe m (td_Name td) = Some s" by blast
    with m(2) have "safeToReal m s = Some (td_Name td)" "providerAccepts s"
      by (auto simp: namesInv_def)
    with s show "providerAccepts (wireName m (td_Name td))"
      and "realName m (wireName m (td_Name td)) = td_Name td"
      by (simp_all add: wireName_def realName_def)
  qed (rule m(1))
qed

definition sampleTool :: "string \<Rightarrow> toolDef" where
  "sampleTool n = \<lparr>td_Name = n, td_Description = [], td_Annotations = []\<rparr>"

theorem tool_names_roundtrip_witness:
  "\<exists>m. newToolNames [sampleTool ''a.b'', sampleTool ''a/b''] = Some m \<and>
     realName m (wireName m ''a/b'') = ''a/b'' \<and> providerAccepts (wireName m ''a.b'')"
proof -
  have "length [sampleTool ''a.b'', sampleTool ''a/b''] < 2 ^ 63" by simp
  from tool_names_roundtrip [OF this] show ?thesis by (simp add: sampleTool_def) blast
qed

end
