(* ===== verification/Streams.thy ===== *)
theory Streams
  imports AgentTypes
begin

text \<open>
  Provider streams and the events of a turn: \<^verbatim>\<open>Stream\<close> of \<^verbatim>\<open>src/provider.go\<close>, the event
  vocabulary of \<^verbatim>\<open>src/events.go\<close> and \<^verbatim>\<open>consumeStream\<close> of \<^verbatim>\<open>src/runner.go\<close>, which folds a stream
  into a response while it emits text and thinking events. The locale \<open>delta_stream\<close> is the contract
  of \<^verbatim>\<open>Stream\<close> (deltas in order, then a terminal error that repeats); \<open>consumeLoop\<close> is verified once
  against it, and every concrete stream of the development interprets it.
\<close>

subsection \<open>Event vocabulary\<close>

record signal =
  sig_Kind :: string
  sig_Name :: string
  sig_Note :: string
  sig_Data :: rawjson
  sig_Source :: string

record planStep =
  ps_Step :: string
  ps_Status :: string

record plan =
  pl_Steps :: "planStep list"
  pl_Explanation :: string

record stuckFinding =
  sf_Pattern :: string
  sf_Count :: nat
  sf_Steps :: "int list"
  sf_Tools :: "string list"
  sf_Call :: string

record turnResult =
  res_Text :: string
  res_Messages :: "message list"
  res_Usage :: usage
  res_UsageByModel :: "(string \<times> usage) list option"
  res_Steps :: int
  res_FinishReason :: string
  res_Structured :: rawjson
  res_StructuredError :: string

datatype event =
    EventTurnBegin
  | EventThinkingBegin int
  | EventThinkingDelta int string
  | EventThinkingEnd int
  | EventTextDelta int string
  | EventToolBegin int toolCall
  | EventToolEnd int toolCall toolResult
  | EventToolError int toolCall string
  | EventToolDenied int toolCall string
  | EventToolCancelled int toolCall string
  | EventToolUnavailable int toolCall string
  | EventCompaction int int int
  | EventSignal int signal
  | EventTurnContinued int string
  | EventStuck int stuckFinding
  | EventPlan int plan
  | EventStep int string "usage option"
  | EventTurnEnd turnResult
  | EventError string

subsection \<open>A stream as the list of its deltas\<close>

record stream =
  st_deltas :: "delta list"
  st_end :: goerr

definition streamRecv :: "stream \<Rightarrow> (goerr + delta) \<times> stream" where
  "streamRecv s = (case st_deltas s of
                     [] \<Rightarrow> (Inl (st_end s), s)
                   | d # ds \<Rightarrow> (Inr d, s\<lparr>st_deltas := ds\<rparr>))"

subsection \<open>consumeStream\<close>

definition endThinking :: "int \<Rightarrow> bool \<Rightarrow> event list" where
  "endThinking step thinking = (if thinking then [EventThinkingEnd step] else [])"

text \<open>The switch on a delta's kind: the events it emits and the new \<^verbatim>\<open>thinking\<close> flag.\<close>

definition consumeDelta :: "int \<Rightarrow> bool \<Rightarrow> delta \<Rightarrow> event list \<times> bool" where
  "consumeDelta step thinking d =
     (if d_Kind d = DeltaReasoning then
        ((if thinking then [] else [EventThinkingBegin step]) @ [EventThinkingDelta step (d_Text d)], True)
      else if d_Kind d = DeltaText then
        (endThinking step thinking @ [EventTextDelta step (d_Text d)], False)
      else if d_Kind d = DeltaToolCallStart then (endThinking step thinking, False)
      else ([], thinking))"

partial_function (option) consumeLoop ::
  "('s \<Rightarrow> (goerr + delta) \<times> 's) \<Rightarrow> int \<Rightarrow> 's \<Rightarrow> deltaAccumulator \<Rightarrow> bool \<Rightarrow> event list
     \<Rightarrow> ((goerr + deltaAccumulator) \<times> event list) option" where
  "consumeLoop recv step s acc thinking evs =
     (case recv s of
        (Inl e, s') \<Rightarrow>
          (if errors_is e IoEOF then Some (Inr acc, evs @ endThinking step thinking)
           else Some (Inl e, evs))
      | (Inr d, s') \<Rightarrow>
          consumeLoop recv step s' (accAdd acc d) (snd (consumeDelta step thinking d))
            (evs @ fst (consumeDelta step thinking d)))"

declare consumeLoop.simps [code]

text \<open>
  \<^verbatim>\<open>consumeStream\<close>: \<open>None\<close> is a stream that never ends; the inner sum is Go's result or error.
\<close>

definition consumeStream ::
  "(string \<Rightarrow> rawjson) \<Rightarrow> ('s \<Rightarrow> (goerr + delta) \<times> 's) \<Rightarrow> int \<Rightarrow> 's
     \<Rightarrow> ((goerr + providerResponse) \<times> event list) option" where
  "consumeStream argsOf recv step s =
     (case consumeLoop recv step s newAccumulator False [] of
        None \<Rightarrow> None
      | Some (Inl e, evs) \<Rightarrow> Some (Inl e, evs)
      | Some (Inr acc, evs) \<Rightarrow> map_option (\<lambda>r. (Inr r, evs)) (accResult argsOf acc))"

subsection \<open>The fold a stream denotes\<close>

fun consumeEvents :: "int \<Rightarrow> bool \<Rightarrow> delta list \<Rightarrow> event list" where
  "consumeEvents step thinking [] = endThinking step thinking"
| "consumeEvents step thinking (d # ds) =
     fst (consumeDelta step thinking d) @ consumeEvents step (snd (consumeDelta step thinking d)) ds"

text \<open>The events of a stream that breaks off: no closing thinking event.\<close>

fun brokenEvents :: "int \<Rightarrow> bool \<Rightarrow> delta list \<Rightarrow> event list" where
  "brokenEvents step thinking [] = []"
| "brokenEvents step thinking (d # ds) =
     fst (consumeDelta step thinking d) @ brokenEvents step (snd (consumeDelta step thinking d)) ds"

definition textOf :: "delta list \<Rightarrow> string" where
  "textOf ds = concat (map d_Text (filter (\<lambda>d. d_Kind d = DeltaText) ds))"

definition reasoningOf :: "delta list \<Rightarrow> string" where
  "reasoningOf ds = concat (map d_Text (filter (\<lambda>d. d_Kind d = DeltaReasoning) ds))"

fun eventText :: "event \<Rightarrow> string" where
  "eventText (EventTextDelta _ t) = t"
| "eventText _ = []"

fun eventThinking :: "event \<Rightarrow> string" where
  "eventThinking (EventThinkingDelta _ t) = t"
| "eventThinking _ = []"

text \<open>Thinking events are bracketed: a delta only inside a begin/end pair, text only outside one.\<close>

fun bracketed :: "bool \<Rightarrow> event list \<Rightarrow> bool" where
  "bracketed open [] \<longleftrightarrow> \<not> open"
| "bracketed open (EventThinkingBegin _ # es) \<longleftrightarrow> \<not> open \<and> bracketed True es"
| "bracketed open (EventThinkingEnd _ # es) \<longleftrightarrow> open \<and> bracketed False es"
| "bracketed open (EventThinkingDelta _ _ # es) \<longleftrightarrow> open \<and> bracketed True es"
| "bracketed open (EventTextDelta _ _ # es) \<longleftrightarrow> \<not> open \<and> bracketed False es"
| "bracketed open (_ # es) \<longleftrightarrow> bracketed open es"

subsection \<open>The accumulator\<close>

definition accOk :: "deltaAccumulator \<Rightarrow> bool" where
  "accOk a \<longleftrightarrow> dom (a_calls a) = dom (a_argBufs a) \<and> set (a_order a) \<subseteq> dom (a_calls a)"

lemma accOk_new [simp]: "accOk newAccumulator"
  by (simp add: accOk_def newAccumulator_def)

lemma accOk_add: "accOk a \<Longrightarrow> accOk (accAdd a d)"
  by (auto simp: accOk_def accAdd_def split: option.splits)

lemma accOk_foldl: "accOk a \<Longrightarrow> accOk (foldl accAdd a ds)"
  by (induction ds arbitrary: a) (auto simp: accOk_add)

lemma accCalls_defined:
  "accOk a \<Longrightarrow> set is \<subseteq> dom (a_calls a) \<Longrightarrow> \<exists>cs. accCalls argsOf a is = Some cs \<and> length cs = length is"
proof (induction "is")
  case Nil
  then show ?case by simp
next
  case (Cons i "is")
  then obtain cs where "accCalls argsOf a is = Some cs" "length cs = length is" by auto
  moreover obtain c args where "a_calls a i = Some c" "a_argBufs a i = Some args"
    using Cons.prems by (auto simp: accOk_def) (metis domD domI)
  ultimately show ?case by simp
qed

lemma accResult_defined:
  assumes "accOk a"
  shows "\<exists>r. accResult argsOf a = Some r \<and> rs_Text r = a_text a \<and> rs_Reasoning r = a_reason a \<and>
           rs_FinishReason r = a_finish a \<and> rs_Usage r = a_usage a"
  using accCalls_defined [OF assms, of "a_order a" argsOf] assms
  by (auto simp: accResult_def accOk_def)

lemma a_text_foldl: "a_text (foldl accAdd a ds) = a_text a @ textOf ds"
  by (induction ds arbitrary: a) (auto simp: textOf_def accAdd_def split: option.splits)

lemma a_reason_foldl: "a_reason (foldl accAdd a ds) = a_reason a @ reasoningOf ds"
  by (induction ds arbitrary: a) (auto simp: reasoningOf_def accAdd_def split: option.splits)

subsection \<open>The emitted events\<close>

lemma eventText_consume: "concat (map eventText (consumeEvents step th ds)) = textOf ds"
  by (induction ds arbitrary: th) (auto simp: textOf_def consumeDelta_def endThinking_def)

lemma eventThinking_consume: "concat (map eventThinking (consumeEvents step th ds)) = reasoningOf ds"
  by (induction ds arbitrary: th) (auto simp: reasoningOf_def consumeDelta_def endThinking_def)

lemma bracketed_consume: "bracketed th (consumeEvents step th ds)"
  by (induction ds arbitrary: th) (auto simp: consumeDelta_def endThinking_def)

subsection \<open>The contract of a stream\<close>

locale delta_stream =
  fixes recv :: "'s \<Rightarrow> (goerr + delta) \<times> 's"
    and pending :: "'s \<Rightarrow> delta list"
    and ending :: "'s \<Rightarrow> goerr"
  assumes recv_end: "pending s = [] \<Longrightarrow> fst (recv s) = Inl (ending s)"
    and recv_more: "pending s = d # ds \<Longrightarrow>
          \<exists>s'. recv s = (Inr d, s') \<and> pending s' = ds \<and> ending s' = ending s"
begin

lemma consumeLoop_ends:
  "consumeLoop recv step s acc th evs =
     Some (if errors_is (ending s) IoEOF
           then (Inr (foldl accAdd acc (pending s)), evs @ consumeEvents step th (pending s))
           else (Inl (ending s), evs @ brokenEvents step th (pending s)))"
proof (induction "pending s" arbitrary: s acc th evs)
  case Nil
  then obtain s' where "recv s = (Inl (ending s), s')" by (metis recv_end prod.collapse)
  with Nil show ?case by (subst consumeLoop.simps) simp
next
  case (Cons d ds)
  then obtain s' where s': "recv s = (Inr d, s')" "pending s' = ds" "ending s' = ending s"
    by (metis recv_more)
  have "consumeLoop recv step s acc th evs =
          consumeLoop recv step s' (accAdd acc d) (snd (consumeDelta step th d))
            (evs @ fst (consumeDelta step th d))"
    using s'(1) by (subst consumeLoop.simps) simp
  with Cons(1) [OF s'(2) [symmetric]] show ?case by (simp add: s' Cons(2) [symmetric])
qed

text \<open>A stream that ends with EOF is folded to a response, and the surface saw what it records.\<close>

lemma consumeStream_eof:
  assumes "errors_is (ending s) IoEOF"
  shows "\<exists>r evs. consumeStream argsOf recv step s = Some (Inr r, evs) \<and>
           rs_Text r = textOf (pending s) \<and> rs_Reasoning r = reasoningOf (pending s) \<and>
           evs = consumeEvents step False (pending s)"
proof -
  have ok: "accOk (foldl accAdd newAccumulator (pending s))" by (intro accOk_foldl) simp
  obtain r where r: "accResult argsOf (foldl accAdd newAccumulator (pending s)) = Some r"
      "rs_Text r = textOf (pending s)" "rs_Reasoning r = reasoningOf (pending s)"
    using accResult_defined [OF ok, of argsOf] a_text_foldl [of newAccumulator "pending s"]
      a_reason_foldl [of newAccumulator "pending s"]
    by (auto simp: newAccumulator_def)
  with assms show ?thesis by (simp add: consumeStream_def consumeLoop_ends)
qed

lemma consumeStream_broken:
  assumes "\<not> errors_is (ending s) IoEOF"
  shows "consumeStream argsOf recv step s = Some (Inl (ending s), brokenEvents step False (pending s))"
  using assms by (simp add: consumeStream_def consumeLoop_ends)

end

subsection \<open>The list stream keeps the contract\<close>

interpretation list_stream: delta_stream streamRecv st_deltas st_end
  by unfold_locales (auto simp: streamRecv_def)

end
