(* ===== verification/ThinkStream.thy ===== *)
theory ThinkStream
  imports Streams
begin

text \<open>
  \<^verbatim>\<open>src/thinking_stream.go\<close>: some models write their reasoning inline, between an opening and a
  closing tag. \<^verbatim>\<open>thinkParser\<close> splits the streamed text incrementally, whatever the chunk boundaries;
  \<^verbatim>\<open>thinkingStream\<close> applies it to a provider stream. \<open>splitTags\<close> is the specification on whole texts:
  each byte carries whether it is reasoning, and tag occurrences are removed left to right.
\<close>

subsection \<open>The parser\<close>

record thinkParser =
  tp_open :: string
  tp_close :: string
  tp_inThink :: bool
  tp_buf :: string

definition newThinkParser :: "string \<Rightarrow> string \<Rightarrow> thinkParser" where
  "newThinkParser opn cls = \<lparr>tp_open = opn, tp_close = cls, tp_inThink = (opn = []), tp_buf = []\<rparr>"

definition thinkEmit :: "thinkParser \<Rightarrow> string \<Rightarrow> delta" where
  "thinkEmit p text = textDelta (if tp_inThink p then DeltaReasoning else DeltaText) text"

definition appendNonEmpty :: "delta list \<Rightarrow> delta \<Rightarrow> delta list" where
  "appendNonEmpty out d = (if d_Text d = [] then out else out @ [d])"

text \<open>The loop \<^verbatim>\<open>for k := max; k > 0; k--\<close> of \<^verbatim>\<open>prefixOverlap\<close>.\<close>

fun overlapFrom :: "nat \<Rightarrow> string \<Rightarrow> string \<Rightarrow> nat" where
  "overlapFrom 0 s tag = 0"
| "overlapFrom (Suc k) s tag =
     (if hasPrefix tag (drop (length s - Suc k) s) then Suc k else overlapFrom k s tag)"

definition prefixOverlap :: "string \<Rightarrow> string \<Rightarrow> nat" where
  "prefixOverlap s tag =
     (let m = length tag - 1 in overlapFrom (if length s < m then length s else m) s tag)"

abbreviation thinkTag :: "thinkParser \<Rightarrow> string" where
  "thinkTag p \<equiv> (if tp_inThink p then tp_close p else tp_open p)"

function feedLoop :: "thinkParser \<Rightarrow> delta list \<Rightarrow> thinkParser \<times> delta list" where
  "feedLoop p out =
     (let tag = thinkTag p; buf = tp_buf p
      in if tag = [] then (p\<lparr>tp_buf := []\<rparr>, appendNonEmpty out (thinkEmit p buf))
         else case strIndex buf tag of
                Some idx \<Rightarrow>
                  feedLoop (p\<lparr>tp_buf := drop (idx + length tag) buf, tp_inThink := \<not> tp_inThink p\<rparr>)
                    (appendNonEmpty out (thinkEmit p (take idx buf)))
              | None \<Rightarrow>
                  (let keep = prefixOverlap buf tag
                   in (p\<lparr>tp_buf := drop (length buf - keep) buf\<rparr>,
                       appendNonEmpty out (thinkEmit p (take (length buf - keep) buf)))))"
  by pat_completeness auto
termination
proof (relation "measure (\<lambda>(p, out). length (tp_buf p))", goal_cases)
  case 1
  then show ?case by simp
next
  case (2 p out tag buf idx)
  then have "hasPrefix (drop idx buf) tag" and idx: "idx \<le> length buf"
    using strIndex_Some by blast+
  then have "length tag \<le> length buf - idx"
    unfolding hasPrefix_def by (metis length_drop length_take min.cobounded1)
  moreover have "0 < length tag" using 2(3) by simp
  ultimately have "length (drop (idx + length tag) buf) < length buf"
    using idx unfolding length_drop by linarith
  then show ?case using 2(2) by simp
qed

declare feedLoop.simps [simp del]

definition thinkFeed :: "thinkParser \<Rightarrow> string \<Rightarrow> thinkParser \<times> delta list" where
  "thinkFeed p s = feedLoop (p\<lparr>tp_buf := tp_buf p @ s\<rparr>) []"

definition thinkFlush :: "thinkParser \<Rightarrow> thinkParser \<times> delta list" where
  "thinkFlush p = (if tp_buf p = [] then (p, []) else (p\<lparr>tp_buf := []\<rparr>, [thinkEmit p (tp_buf p)]))"

text \<open>\<^verbatim>\<open>thinkingProvider.Generate\<close>: the whole text at once, split into text and reasoning.\<close>

definition thinkGenerate :: "string \<Rightarrow> string \<Rightarrow> providerResponse \<Rightarrow> providerResponse" where
  "thinkGenerate opn cls resp =
     (let (p, fed) = thinkFeed (newThinkParser opn cls) (rs_Text resp);
          ds = fed @ snd (thinkFlush p);
          reason = concat (map d_Text (filter (\<lambda>d. d_Kind d = DeltaReasoning) ds));
          text = concat (map d_Text (filter (\<lambda>d. d_Kind d \<noteq> DeltaReasoning) ds))
      in resp\<lparr>rs_Text := text,
              rs_Reasoning := (if reason \<noteq> [] then rs_Reasoning resp @ reason else rs_Reasoning resp)\<rparr>)"

subsection \<open>The stream\<close>

record thinkingStream =
  ts_inner :: stream
  ts_p :: thinkParser
  ts_queue :: "delta list"
  ts_done :: bool

definition thinkingWrap :: "string \<Rightarrow> string \<Rightarrow> stream \<Rightarrow> thinkingStream" where
  "thinkingWrap opn cls s = \<lparr>ts_inner = s, ts_p = newThinkParser opn cls, ts_queue = [], ts_done = False\<rparr>"

function thinkingRecv :: "thinkingStream \<Rightarrow> (goerr + delta) \<times> thinkingStream" where
  "thinkingRecv s =
     (case ts_queue s of
        d # q \<Rightarrow> (Inr d, s\<lparr>ts_queue := q\<rparr>)
      | [] \<Rightarrow>
          (if ts_done s then (Inl (ErrSentinel IoEOF), s)
           else case streamRecv (ts_inner s) of
                  (Inl e, inner) \<Rightarrow>
                    (if e = ErrSentinel IoEOF
                     then (let (p, ds) = thinkFlush (ts_p s)
                           in thinkingRecv (s\<lparr>ts_inner := inner, ts_done := True, ts_p := p, ts_queue := ds\<rparr>))
                     else (Inl e, s\<lparr>ts_inner := inner\<rparr>))
                | (Inr d, inner) \<Rightarrow>
                    (if d_Kind d = DeltaText
                     then (let (p, ds) = thinkFeed (ts_p s) (d_Text d)
                           in thinkingRecv (s\<lparr>ts_inner := inner, ts_p := p, ts_queue := ds\<rparr>))
                     else (let (p, ds) = thinkFlush (ts_p s)
                           in thinkingRecv (s\<lparr>ts_inner := inner, ts_p := p, ts_queue := ds @ [d]\<rparr>)))))"
  by pat_completeness auto
termination
  by (relation "measure (\<lambda>s. length (st_deltas (ts_inner s)) + (if ts_done s then 0 else 1))")
    (auto simp: streamRecv_def split: list.splits)

declare thinkingRecv.simps [simp del]

subsection \<open>Specification: tags removed from a whole text\<close>

type_synonym tagged = "bool \<times> char"

fun splitTags :: "string \<Rightarrow> string \<Rightarrow> bool \<Rightarrow> nat \<Rightarrow> string \<Rightarrow> tagged list" where
  "splitTags opn cls think k [] = []"
| "splitTags opn cls think (Suc k) (c # s) = splitTags opn cls think k s"
| "splitTags opn cls think 0 (c # s) =
     (let tag = (if think then cls else opn)
      in if tag \<noteq> [] \<and> hasPrefix (c # s) tag
         then splitTags opn cls (\<not> think) (length tag - 1) s
         else (think, c) # splitTags opn cls think 0 s)"

text \<open>What a list of deltas says, byte by byte.\<close>

definition tagged :: "delta list \<Rightarrow> tagged list" where
  "tagged ds = concat (map (\<lambda>d. map (Pair (d_Kind d = DeltaReasoning)) (d_Text d)) ds)"

fun feedAll :: "thinkParser \<Rightarrow> string list \<Rightarrow> thinkParser \<times> delta list" where
  "feedAll p [] = (p, [])"
| "feedAll p (s # ss) =
     (let (p1, ds) = thinkFeed p s; (p2, es) = feedAll p1 ss in (p2, ds @ es))"

subsection \<open>Scanning\<close>

lemma splitTags_drop: "splitTags opn cls th k s = splitTags opn cls th 0 (drop k s)"
  by (induction opn cls th k s rule: splitTags.induct) auto

lemma splitTags_tag:
  assumes "(if th then cls else opn) = tag" "tag \<noteq> []" "hasPrefix s tag"
  shows "splitTags opn cls th 0 s = splitTags opn cls (\<not> th) 0 (drop (length tag) s)"
proof -
  obtain c s' where s: "s = c # s'" using assms(2,3) by (cases s) (auto simp: hasPrefix_def)
  obtain n where "length tag = Suc n" using assms(2) by (cases tag) auto
  with assms s show ?thesis by (simp add: splitTags_drop [of _ _ _ n])
qed

lemma splitTags_skip:
  assumes "(if th then cls else opn) = tag"
  shows "n \<le> length s \<Longrightarrow> (\<And>j. j < n \<Longrightarrow> tag = [] \<or> \<not> hasPrefix (drop j s) tag) \<Longrightarrow>
    splitTags opn cls th 0 s = map (Pair th) (take n s) @ splitTags opn cls th 0 (drop n s)"
proof (induction n arbitrary: s)
  case 0
  then show ?case by simp
next
  case (Suc n)
  then obtain c s' where s: "s = c # s'" by (cases s) auto
  have "tag = [] \<or> \<not> hasPrefix (c # s') tag" using Suc.prems(2) [of 0] s by simp
  moreover have "\<And>j. j < n \<Longrightarrow> tag = [] \<or> \<not> hasPrefix (drop j s') tag"
    using Suc.prems(2) [of "Suc j" for j] s by simp
  ultimately show ?case using Suc.IH [of s'] Suc.prems(1) s assms by auto
qed

lemma overlapFrom_le: "overlapFrom m s tag \<le> m"
  by (induction m) auto

lemma overlapFrom_prefix: "hasPrefix tag (drop (length s - overlapFrom m s tag) s)"
  by (induction m) auto

lemma overlapFrom_maximal:
  "overlapFrom m s tag < j \<Longrightarrow> j \<le> m \<Longrightarrow> \<not> hasPrefix tag (drop (length s - j) s)"
  by (induction m) (auto simp: le_Suc_eq split: if_splits)

lemma prefixOverlap_bounds:
  "tag \<noteq> [] \<Longrightarrow> prefixOverlap s tag < length tag \<and> prefixOverlap s tag \<le> length s"
  using overlapFrom_le [of "if length s < length tag - 1 then length s else length tag - 1" s tag]
  by (cases tag) (auto simp: prefixOverlap_def Let_def split: if_splits)

text \<open>A tag cannot start in the part of the buffer that is emitted, whatever comes next.\<close>

lemma no_tag_before_overlap:
  assumes none: "strIndex buf tag = None" and tag: "tag \<noteq> []"
    and j: "j < length buf - prefixOverlap buf tag"
  shows "\<not> hasPrefix (drop j buf @ rest) tag"
proof
  assume pre: "hasPrefix (drop j buf @ rest) tag"
  show False
  proof (cases "length tag \<le> length (drop j buf)")
    case True
    with pre have "hasPrefix (drop j buf) tag" by (simp add: hasPrefix_def)
    with none j show False by (simp add: strIndex_None)
  next
    case False
    let ?l = "length buf - j"
    let ?m = "if length buf < length tag - 1 then length buf else length tag - 1"
    have "take (length tag) (drop j buf @ rest) = tag" using pre by (simp add: hasPrefix_def)
    then have "tag = drop j buf @ take (length tag - length (drop j buf)) rest" using False by simp
    then have "hasPrefix tag (drop j buf)" by (metis hasPrefix_append)
    then have "hasPrefix tag (drop (length buf - ?l) buf)" using j by simp
    moreover have "overlapFrom ?m buf tag < ?l"
      using j unfolding prefixOverlap_def Let_def by linarith
    moreover have "?l \<le> ?m" using False j by auto
    ultimately show False using overlapFrom_maximal by blast
  qed
qed

text \<open>Nor before the first occurrence inside the buffer.\<close>

lemma no_tag_before_index:
  assumes "strIndex buf tag = Some i" "j < i"
  shows "\<not> hasPrefix (drop j buf @ rest) tag"
proof
  assume pre: "hasPrefix (drop j buf @ rest) tag"
  from strIndex_Some [OF assms(1)] have i: "i \<le> length buf" "hasPrefix (drop i buf) tag"
    and first: "\<not> hasPrefix (drop j buf) tag" using assms(2) by auto
  have "length tag \<le> length (drop i buf)"
    using i(2) unfolding hasPrefix_def by (metis length_take min.cobounded1)
  then have "length tag \<le> length (drop j buf)" using assms(2) by simp
  with pre first show False by (simp add: hasPrefix_def)
qed

subsection \<open>The parser refines the specification\<close>

text \<open>After a feed the buffer is a proper prefix of the tag that is looked for.\<close>

definition residual :: "thinkParser \<Rightarrow> bool" where
  "residual p \<longleftrightarrow> (if thinkTag p = [] then tp_buf p = []
                  else length (tp_buf p) < length (thinkTag p))"

abbreviation rest_of :: "thinkParser \<Rightarrow> string \<Rightarrow> tagged list" where
  "rest_of p s \<equiv> splitTags (tp_open p) (tp_close p) (tp_inThink p) 0 s"

lemma tagged_Nil [simp]: "tagged [] = []"
  by (simp add: tagged_def)

lemma tagged_append [simp]: "tagged (xs @ ys) = tagged xs @ tagged ys"
  by (simp add: tagged_def)

lemma tagged_emit [simp]: "tagged [thinkEmit p t] = map (Pair (tp_inThink p)) t"
  by (simp add: tagged_def thinkEmit_def textDelta_def)

lemma tagged_appendNonEmpty [simp]:
  "tagged (appendNonEmpty out (thinkEmit p t)) = tagged out @ map (Pair (tp_inThink p)) t"
  using tagged_emit [of p t] by (auto simp: appendNonEmpty_def thinkEmit_def textDelta_def)

lemma feedLoop_spec:
  "tp_open (fst (feedLoop p out)) = tp_open p \<and> tp_close (fst (feedLoop p out)) = tp_close p \<and>
   residual (fst (feedLoop p out)) \<and>
   tagged (snd (feedLoop p out)) @ rest_of (fst (feedLoop p out)) (tp_buf (fst (feedLoop p out)) @ rest)
     = tagged out @ rest_of p (tp_buf p @ rest)"
proof (induction p out rule: feedLoop.induct)
  case (1 p out)
  define tag where "tag = thinkTag p"
  define buf where "buf = tp_buf p"
  consider (empty) "tag = []" | (found) i where "tag \<noteq> []" "strIndex buf tag = Some i"
    | (none) "tag \<noteq> []" "strIndex buf tag = None"
    by (cases "strIndex buf tag") auto
  then show ?case
  proof cases
    case empty
    then have "feedLoop p out = (p\<lparr>tp_buf := []\<rparr>, appendNonEmpty out (thinkEmit p buf))"
      by (subst feedLoop.simps) (simp add: tag_def buf_def Let_def)
    moreover have "rest_of p (buf @ rest) = map (Pair (tp_inThink p)) buf @ rest_of p rest"
      using splitTags_skip [OF tag_def [symmetric], of "length buf" "buf @ rest"] empty by simp
    ultimately show ?thesis using empty by (simp add: tag_def residual_def buf_def)
  next
    case found
    let ?p = "p\<lparr>tp_buf := drop (i + length tag) buf, tp_inThink := \<not> tp_inThink p\<rparr>"
    let ?out = "appendNonEmpty out (thinkEmit p (take i buf))"
    have step: "feedLoop p out = feedLoop ?p ?out"
      using found by (subst feedLoop.simps) (simp add: tag_def buf_def Let_def)
    from strIndex_Some [OF found(2)] have i: "i \<le> length buf" "hasPrefix (drop i buf) tag" by auto
    have len: "i + length tag \<le> length buf"
      using i unfolding hasPrefix_def by (metis add.commute le_diff_conv2 length_drop length_take min.cobounded1)
    have "rest_of p (buf @ rest)
          = map (Pair (tp_inThink p)) (take i buf) @ rest_of p (drop i buf @ rest)"
      using splitTags_skip [OF tag_def [symmetric], of i "buf @ rest"]
        no_tag_before_index [OF found(2), of _ rest] i(1) by simp
    also have "rest_of p (drop i buf @ rest) = rest_of ?p (tp_buf ?p @ rest)"
      using splitTags_tag [OF tag_def [symmetric] found(1), of "drop i buf @ rest"] i(2) len
      by (simp add: hasPrefix_def add.commute)
    finally have eq: "rest_of p (tp_buf p @ rest)
        = map (Pair (tp_inThink p)) (take i buf) @ rest_of ?p (tp_buf ?p @ rest)"
      by (simp only: buf_def)
    show ?thesis
      using "1"(1) [OF tag_def buf_def found(1,2)] unfolding step eq by auto
  next
    case none
    let ?k = "prefixOverlap buf tag"
    have step: "feedLoop p out = (p\<lparr>tp_buf := drop (length buf - ?k) buf\<rparr>,
                  appendNonEmpty out (thinkEmit p (take (length buf - ?k) buf)))"
      using none by (subst feedLoop.simps) (simp add: tag_def buf_def Let_def)
    have "rest_of p (buf @ rest) = map (Pair (tp_inThink p)) (take (length buf - ?k) buf)
            @ rest_of p (drop (length buf - ?k) buf @ rest)"
      using splitTags_skip [OF tag_def [symmetric], of "length buf - ?k" "buf @ rest"]
        no_tag_before_overlap [OF none(2,1), of _ rest] by simp
    moreover have "residual (p\<lparr>tp_buf := drop (length buf - ?k) buf\<rparr>)"
      using prefixOverlap_bounds [OF none(1), of buf] none(1)
      by (auto simp: residual_def tag_def split: if_splits)
    ultimately show ?thesis using step by (simp add: buf_def)
  qed
qed

lemma thinkFeed_spec:
  "tp_open (fst (thinkFeed p s)) = tp_open p \<and> tp_close (fst (thinkFeed p s)) = tp_close p \<and>
   residual (fst (thinkFeed p s)) \<and>
   tagged (snd (thinkFeed p s)) @ rest_of (fst (thinkFeed p s)) (tp_buf (fst (thinkFeed p s)) @ rest)
     = rest_of p (tp_buf p @ s @ rest)"
  using feedLoop_spec [of "p\<lparr>tp_buf := tp_buf p @ s\<rparr>" "[]" rest]
  by (auto simp: thinkFeed_def)

lemma thinkFlush_spec:
  assumes "residual p"
  shows "tagged (snd (thinkFlush p)) = rest_of p (tp_buf p)"
proof -
  have "\<not> hasPrefix (drop j (tp_buf p)) (thinkTag p)" if "thinkTag p \<noteq> []" for j
  proof
    assume "hasPrefix (drop j (tp_buf p)) (thinkTag p)"
    then have "length (thinkTag p) \<le> length (drop j (tp_buf p))"
      unfolding hasPrefix_def by (metis length_take min.cobounded1)
    with assms that show False by (auto simp: residual_def split: if_splits)
  qed
  then have "rest_of p (tp_buf p) = map (Pair (tp_inThink p)) (tp_buf p)"
    using splitTags_skip [OF refl, of "length (tp_buf p)" "tp_buf p" "tp_inThink p" "tp_close p" "tp_open p"]
    by auto
  then show ?thesis by (auto simp: thinkFlush_def)
qed

lemma residual_new: "residual (newThinkParser opn cls)"
  by (auto simp: residual_def newThinkParser_def)

lemma feedAll_spec:
  assumes "residual p"
  shows "tagged (snd (feedAll p ss) @ snd (thinkFlush (fst (feedAll p ss)))) = rest_of p (tp_buf p @ concat ss)"
  using assms
proof (induction ss arbitrary: p)
  case Nil
  then show ?case by (simp add: thinkFlush_spec)
next
  case (Cons s ss)
  obtain q ds where q: "thinkFeed p s = (q, ds)" by (cases "thinkFeed p s")
  note spec = thinkFeed_spec [of p s "concat ss", unfolded q fst_conv snd_conv]
  have "tagged (snd (feedAll p (s # ss)) @ snd (thinkFlush (fst (feedAll p (s # ss)))))
        = tagged ds @ tagged (snd (feedAll q ss) @ snd (thinkFlush (fst (feedAll q ss))))"
    by (simp add: q split: prod.splits)
  also have "\<dots> = tagged ds @ rest_of q (tp_buf q @ concat ss)"
    using Cons.IH [of q] spec by simp
  also have "\<dots> = rest_of p (tp_buf p @ concat (s # ss))"
    using spec by auto
  finally show ?case .
qed

subsection \<open>The stream refines the parser\<close>

text \<open>The deltas a thinking stream has still to deliver, and the error it then repeats.\<close>

fun thinkRemaining :: "thinkParser \<Rightarrow> delta list \<Rightarrow> goerr \<Rightarrow> delta list" where
  "thinkRemaining p [] e = (if e = ErrSentinel IoEOF then snd (thinkFlush p) else [])"
| "thinkRemaining p (d # ds) e =
     (if d_Kind d = DeltaText
      then snd (thinkFeed p (d_Text d)) @ thinkRemaining (fst (thinkFeed p (d_Text d))) ds e
      else snd (thinkFlush p) @ d # thinkRemaining (fst (thinkFlush p)) ds e)"

definition thinkPending :: "thinkingStream \<Rightarrow> delta list" where
  "thinkPending s = ts_queue s @
     (if ts_done s then [] else thinkRemaining (ts_p s) (st_deltas (ts_inner s)) (st_end (ts_inner s)))"

definition thinkEnding :: "thinkingStream \<Rightarrow> goerr" where
  "thinkEnding s = (if ts_done s then ErrSentinel IoEOF else st_end (ts_inner s))"

definition recvOk :: "thinkingStream \<Rightarrow> bool" where
  "recvOk s \<longleftrightarrow>
     (case thinkPending s of
        [] \<Rightarrow> fst (thinkingRecv s) = Inl (thinkEnding s)
      | d # ds \<Rightarrow> \<exists>s'. thinkingRecv s = (Inr d, s') \<and> thinkPending s' = ds \<and> thinkEnding s' = thinkEnding s)"

lemma recvOk_transfer:
  "recvOk t \<Longrightarrow> thinkingRecv s = thinkingRecv t \<Longrightarrow> thinkPending t = thinkPending s \<Longrightarrow>
   thinkEnding t = thinkEnding s \<Longrightarrow> recvOk s"
  by (simp only: recvOk_def)

lemma recvOk_ready: "ts_queue s \<noteq> [] \<or> ts_done s \<Longrightarrow> recvOk s"
  unfolding recvOk_def
  by (cases "ts_queue s"; subst thinkingRecv.simps) (auto simp: thinkPending_def thinkEnding_def)

lemma recvOk_ended:
  assumes "ts_queue s = []" "\<not> ts_done s" "st_deltas (ts_inner s) = []"
  shows "recvOk s"
proof (cases "st_end (ts_inner s) = ErrSentinel IoEOF")
  case True
  let ?t = "s\<lparr>ts_done := True, ts_p := fst (thinkFlush (ts_p s)), ts_queue := snd (thinkFlush (ts_p s))\<rparr>"
  have "thinkingRecv s = thinkingRecv ?t"
    using True assms by (subst thinkingRecv.simps) (simp add: split_beta Let_def streamRecv_def)
  moreover have "thinkPending ?t = thinkPending s" "thinkEnding ?t = thinkEnding s"
    using True assms by (simp_all add: thinkPending_def thinkEnding_def)
  ultimately show ?thesis by (intro recvOk_transfer [of ?t s] recvOk_ready) simp_all
next
  case False
  with assms show ?thesis
    unfolding recvOk_def by (subst thinkingRecv.simps) (simp add: thinkPending_def thinkEnding_def streamRecv_def)
qed

text \<open>One inner delta taken in: nothing is delivered yet, and what is pending is unchanged.\<close>

lemma recv_takes_in:
  assumes "ts_queue s = []" "\<not> ts_done s" "st_deltas (ts_inner s) = d # ds"
  shows "\<exists>t. thinkingRecv s = thinkingRecv t \<and> thinkPending t = thinkPending s \<and>
           thinkEnding t = thinkEnding s \<and> st_deltas (ts_inner t) = ds"
proof -
  let ?r = "if d_Kind d = DeltaText then thinkFeed (ts_p s) (d_Text d)
            else (fst (thinkFlush (ts_p s)), snd (thinkFlush (ts_p s)) @ [d])"
  let ?t = "s\<lparr>ts_inner := ts_inner s\<lparr>st_deltas := ds\<rparr>, ts_p := fst ?r, ts_queue := snd ?r\<rparr>"
  have "thinkingRecv s = thinkingRecv ?t"
    using assms by (subst thinkingRecv.simps) (simp add: split_beta Let_def streamRecv_def)
  moreover have "thinkPending ?t = thinkPending s" "thinkEnding ?t = thinkEnding s"
    using assms by (simp_all add: thinkPending_def thinkEnding_def)
  ultimately show ?thesis by (intro exI [of _ ?t]) simp
qed

lemma thinkingRecv_refines: "recvOk s"
proof (induction "st_deltas (ts_inner s)" arbitrary: s)
  case Nil
  then show ?case
    by (cases "ts_queue s \<noteq> [] \<or> ts_done s") (auto intro: recvOk_ready recvOk_ended)
next
  case (Cons d ds)
  show ?case
  proof (cases "ts_queue s \<noteq> [] \<or> ts_done s")
    case False
    then obtain t where t: "thinkingRecv s = thinkingRecv t" "thinkPending t = thinkPending s"
        "thinkEnding t = thinkEnding s" "st_deltas (ts_inner t) = ds"
      using recv_takes_in Cons(2) by metis
    with Cons(1) [of t] show ?thesis by (intro recvOk_transfer [of t s]) simp_all
  qed (rule recvOk_ready)
qed

interpretation thinking: delta_stream thinkingRecv thinkPending thinkEnding
proof
  fix s
  assume "thinkPending s = []"
  then show "fst (thinkingRecv s) = Inl (thinkEnding s)" using thinkingRecv_refines [of s] by (simp add: recvOk_def)
next
  fix s d ds
  assume "thinkPending s = d # ds"
  then show "\<exists>s'. thinkingRecv s = (Inr d, s') \<and> thinkPending s' = ds \<and> thinkEnding s' = thinkEnding s"
    using thinkingRecv_refines [of s] by (simp add: recvOk_def)
qed

subsection \<open>Only text and reasoning come out of the parser\<close>

definition plainKinds :: "delta list \<Rightarrow> bool" where
  "plainKinds ds \<longleftrightarrow> list_all (\<lambda>d. d_Kind d = DeltaText \<or> d_Kind d = DeltaReasoning) ds"

lemma plainKinds_simps [simp]:
  "plainKinds []" "plainKinds (xs @ ys) \<longleftrightarrow> plainKinds xs \<and> plainKinds ys"
  "plainKinds [thinkEmit p t]"
  "plainKinds (appendNonEmpty xs (thinkEmit p t)) \<longleftrightarrow> plainKinds xs"
  by (auto simp: plainKinds_def appendNonEmpty_def thinkEmit_def textDelta_def)

lemma plainKinds_feedLoop: "plainKinds out \<Longrightarrow> plainKinds (snd (feedLoop p out))"
  by (induction p out rule: feedLoop.induct, subst feedLoop.simps)
    (auto simp: Let_def split: option.splits)

lemma plainKinds_thinkFeed [simp]: "plainKinds (snd (thinkFeed p s))"
  by (simp add: thinkFeed_def plainKinds_feedLoop)

lemma plainKinds_thinkFlush [simp]: "plainKinds (snd (thinkFlush p))"
  by (simp add: thinkFlush_def)

lemma plainKinds_feedAll [simp]: "plainKinds (snd (feedAll p ss))"
proof (induction ss arbitrary: p)
  case Nil
  then show ?case by simp
next
  case (Cons s ss)
  obtain q ds where "thinkFeed p s = (q, ds)" by (cases "thinkFeed p s")
  with Cons [of q] plainKinds_thinkFeed [of p s] show ?case by (cases "feedAll q ss") simp
qed

lemma textOf_tagged: "plainKinds ds \<Longrightarrow> textOf ds = map snd (filter (\<lambda>t. \<not> fst t) (tagged ds))"
  by (induction ds) (auto simp: plainKinds_def textOf_def tagged_def filter_map o_def)

lemma notReasoning_tagged:
  "concat (map d_Text (filter (\<lambda>d. d_Kind d \<noteq> DeltaReasoning) ds)) = map snd (filter (\<lambda>t. \<not> fst t) (tagged ds))"
  by (induction ds) (auto simp: tagged_def filter_map o_def)

lemma reasoningOf_tagged: "reasoningOf ds = map snd (filter fst (tagged ds))"
  by (induction ds) (auto simp: reasoningOf_def tagged_def filter_map o_def)

lemma thinkRemaining_text:
  "thinkRemaining p (map (textDelta DeltaText) ss) (ErrSentinel IoEOF)
     = snd (feedAll p ss) @ snd (thinkFlush (fst (feedAll p ss)))"
  by (induction ss arbitrary: p) (auto simp: textDelta_def split: prod.splits)

subsection \<open>Properties\<close>

text \<open>
  C6: feeding a text to the think parser in any chunks and flushing it delivers exactly the
  specification of the whole text: every byte outside a tag exactly once, in order, marked as
  reasoning or text by the tags before it, with no tag byte and no lost byte, even where a tag is cut
  by a chunk boundary.
\<close>

theorem think_parser_chunking:
  "tagged (snd (feedAll (newThinkParser opn cls) chunks) @
           snd (thinkFlush (fst (feedAll (newThinkParser opn cls) chunks))))
   = splitTags opn cls (opn = []) 0 (concat chunks)"
  using feedAll_spec [OF residual_new, of opn cls chunks] by (simp add: newThinkParser_def)

text \<open>
  Streaming and generating agree: consuming the thinking stream of a text that arrives in chunks
  yields the text and the reasoning that \<^verbatim>\<open>Generate\<close> splits out of the whole text.
\<close>

lemma think_stream_agrees_with_generate:
  "\<exists>r evs. consumeStream argsOf thinkingRecv step
       (thinkingWrap opn cls \<lparr>st_deltas = map (textDelta DeltaText) chunks, st_end = ErrSentinel IoEOF\<rparr>)
       = Some (Inr r, evs) \<and>
     (let g = thinkGenerate opn cls \<lparr>rs_Text = concat chunks, rs_Reasoning = [], rs_ToolCalls = [],
                rs_FinishReason = [], rs_Usage = None\<rparr>
      in rs_Text r = rs_Text g \<and> rs_Reasoning r = rs_Reasoning g)"
proof -
  let ?p = "newThinkParser opn cls"
  let ?out = "\<lambda>ss. snd (feedAll ?p ss) @ snd (thinkFlush (fst (feedAll ?p ss)))"
  let ?s = "thinkingWrap opn cls \<lparr>st_deltas = map (textDelta DeltaText) chunks, st_end = ErrSentinel IoEOF\<rparr>"
  have pending: "thinkPending ?s = ?out chunks"
    by (simp add: thinkPending_def thinkingWrap_def thinkRemaining_text)
  have "errors_is (thinkEnding ?s) IoEOF" by (simp add: thinkEnding_def thinkingWrap_def)
  from thinking.consumeStream_eof [OF this, of argsOf step] obtain r evs where
    r: "consumeStream argsOf thinkingRecv step ?s = Some (Inr r, evs)"
       "rs_Text r = textOf (?out chunks)" "rs_Reasoning r = reasoningOf (?out chunks)"
    by (auto simp: pending)
  have "tagged (?out chunks) = tagged (?out [concat chunks])"
    using feedAll_spec [OF residual_new, of opn cls chunks]
      feedAll_spec [OF residual_new, of opn cls "[concat chunks]"] by simp
  moreover have "?out [concat chunks] = snd (thinkFeed ?p (concat chunks)) @
      snd (thinkFlush (fst (thinkFeed ?p (concat chunks))))"
    by (simp split: prod.splits)
  ultimately show ?thesis
    using r by (simp add: thinkGenerate_def Let_def split_beta textOf_tagged reasoningOf_tagged
        notReasoning_tagged reasoningOf_def [symmetric] del: tagged_append)
qed

end
