(* ===== verification/RunStore.thy ===== *)
theory RunStore
  imports Streams "HOL-Library.AList" "HOL-Library.Char_ord" "HOL-Library.List_Lexorder"
    "HOL-Library.Product_Lexorder"
begin

text \<open>
  \<^verbatim>\<open>src/runstore.go\<close>: the persistence seam for runs and its in-memory implementation. A run is an
  append-only log of messages and events with its fork lineage. The Go map of runs is an association
  list with distinct keys (\<open>storeOk\<close>); the clock is an argument. The locale \<open>run_store\<close> is the
  documented contract of the \<^verbatim>\<open>RunStore\<close> interface for caller-chosen IDs, with \<open>loadRun\<close> as the
  abstraction; its lemmas are what surfaces rely on, and \<^verbatim>\<open>InMemoryRunStore\<close> interprets it.
\<close>

record runEntry =
  re_parentID :: string
  re_forkPoint :: int
  re_createdAt :: gotime
  re_messages :: "message list"
  re_events :: "event list"

record inMemoryRunStore =
  ims_runs :: "(string \<times> runEntry) list"
  ims_seq :: int

record run =
  run_ID :: string
  run_ParentID :: string
  run_ForkPoint :: int
  run_CreatedAt :: gotime
  run_Messages :: "message list"
  run_Events :: "event list"

record createRunResponse =
  cr_RunID :: string
  cr_Created :: bool

record forkRunResponse =
  fr_RunID :: string
  fr_Found :: bool
  fr_Created :: bool
  fr_ForkPoint :: int

record runInfo =
  ri_ID :: string
  ri_ParentID :: string
  ri_ForkPoint :: int
  ri_CreatedAt :: gotime
  ri_MessageCount :: nat

record listRunsResponse =
  lr_Runs :: "runInfo list"
  lr_NextCursor :: string

definition newInMemoryRunStore :: inMemoryRunStore where
  "newInMemoryRunStore = \<lparr>ims_runs = [], ims_seq = 0\<rparr>"

definition emptyEntry :: "gotime \<Rightarrow> runEntry" where
  "emptyEntry now = \<lparr>re_parentID = [], re_forkPoint = 0, re_createdAt = now, re_messages = [], re_events = []\<rparr>"

definition createRun :: "inMemoryRunStore \<Rightarrow> gotime \<Rightarrow> string \<Rightarrow> createRunResponse \<times> inMemoryRunStore" where
  "createRun s now reqID =
     (if reqID = [] then
        (let n = ims_seq s + 1; rid = ''run-'' @ itoa n
         in (\<lparr>cr_RunID = rid, cr_Created = True\<rparr>,
             s\<lparr>ims_seq := n, ims_runs := AList.update rid (emptyEntry now) (ims_runs s)\<rparr>))
      else if map_of (ims_runs s) reqID \<noteq> None then (\<lparr>cr_RunID = reqID, cr_Created = False\<rparr>, s)
      else (\<lparr>cr_RunID = reqID, cr_Created = True\<rparr>,
            s\<lparr>ims_runs := AList.update reqID (emptyEntry now) (ims_runs s)\<rparr>))"

definition stamp :: "gotime \<Rightarrow> message \<Rightarrow> message" where
  "stamp now m = (if m_Timestamp m = 0 then m\<lparr>m_Timestamp := now\<rparr> else m)"

definition appendMessages ::
  "inMemoryRunStore \<Rightarrow> gotime \<Rightarrow> string \<Rightarrow> message list \<Rightarrow> bool \<times> inMemoryRunStore" where
  "appendMessages s now rid ms =
     (case map_of (ims_runs s) rid of
        None \<Rightarrow> (False, s)
      | Some e \<Rightarrow> (True, s\<lparr>ims_runs := AList.update rid (e\<lparr>re_messages := re_messages e @ map (stamp now) ms\<rparr>) (ims_runs s)\<rparr>))"

definition appendEvents :: "inMemoryRunStore \<Rightarrow> string \<Rightarrow> event list \<Rightarrow> bool \<times> inMemoryRunStore" where
  "appendEvents s rid evs =
     (case map_of (ims_runs s) rid of
        None \<Rightarrow> (False, s)
      | Some e \<Rightarrow> (True, s\<lparr>ims_runs := AList.update rid (e\<lparr>re_events := re_events e @ evs\<rparr>) (ims_runs s)\<rparr>))"

definition runOf :: "string \<Rightarrow> runEntry \<Rightarrow> run" where
  "runOf rid e = \<lparr>run_ID = rid, run_ParentID = re_parentID e, run_ForkPoint = re_forkPoint e,
                 run_CreatedAt = re_createdAt e, run_Messages = re_messages e, run_Events = re_events e\<rparr>"

text \<open>\<^verbatim>\<open>LoadRun\<close>: \<open>None\<close> is \<^verbatim>\<open>Found: false\<close>.\<close>

definition loadRun :: "inMemoryRunStore \<Rightarrow> string \<Rightarrow> run option" where
  "loadRun s rid = map_option (runOf rid) (map_of (ims_runs s) rid)"

definition forkCut :: "int \<Rightarrow> 'm list \<Rightarrow> nat" where
  "forkCut atMessage ms = (if 0 < atMessage \<and> atMessage < int (length ms) then nat atMessage else length ms)"

definition forkEntry :: "string \<Rightarrow> gotime \<Rightarrow> int \<Rightarrow> runEntry \<Rightarrow> runEntry" where
  "forkEntry srcID now atMessage src =
     (let n = forkCut atMessage (re_messages src)
      in \<lparr>re_parentID = srcID, re_forkPoint = int n, re_createdAt = now,
          re_messages = take n (re_messages src),
          re_events = (if n = length (re_messages src) then re_events src else [])\<rparr>)"

definition forkRun ::
  "inMemoryRunStore \<Rightarrow> gotime \<Rightarrow> string \<Rightarrow> string \<Rightarrow> int \<Rightarrow> forkRunResponse \<times> inMemoryRunStore" where
  "forkRun s now srcID newID atMessage =
     (case map_of (ims_runs s) srcID of
        None \<Rightarrow> (\<lparr>fr_RunID = [], fr_Found = False, fr_Created = False, fr_ForkPoint = 0\<rparr>, s)
      | Some src \<Rightarrow>
          (let n = int (forkCut atMessage (re_messages src))
           in if newID = [] then
                (let k = ims_seq s + 1; rid = ''run-'' @ itoa k
                 in (\<lparr>fr_RunID = rid, fr_Found = True, fr_Created = True, fr_ForkPoint = n\<rparr>,
                     s\<lparr>ims_seq := k, ims_runs := AList.update rid (forkEntry srcID now atMessage src) (ims_runs s)\<rparr>))
              else if map_of (ims_runs s) newID \<noteq> None then
                (\<lparr>fr_RunID = newID, fr_Found = True, fr_Created = False, fr_ForkPoint = 0\<rparr>, s)
              else
                (\<lparr>fr_RunID = newID, fr_Found = True, fr_Created = True, fr_ForkPoint = n\<rparr>,
                 s\<lparr>ims_runs := AList.update newID (forkEntry srcID now atMessage src) (ims_runs s)\<rparr>)))"

subsection \<open>Listing\<close>

definition infoOf :: "string \<times> runEntry \<Rightarrow> runInfo" where
  "infoOf p = \<lparr>ri_ID = fst p, ri_ParentID = re_parentID (snd p), ri_ForkPoint = re_forkPoint (snd p),
               ri_CreatedAt = re_createdAt (snd p), ri_MessageCount = length (re_messages (snd p))\<rparr>"

text \<open>Newest first, the ID breaking ties: the comparison of \<^verbatim>\<open>sort.Slice\<close> is total on distinct IDs.\<close>

definition sortedInfos :: "inMemoryRunStore \<Rightarrow> runInfo list" where
  "sortedInfos s = sort_key (\<lambda>i. (- ri_CreatedAt i, ri_ID i)) (map infoOf (ims_runs s))"

text \<open>The sum of offset and limit wraps at 64 bits; \<open>None\<close> is the panic of an out-of-range slice.\<close>

definition listRuns :: "inMemoryRunStore \<Rightarrow> string \<Rightarrow> int \<Rightarrow> listRunsResponse option" where
  "listRuns s cursor limit0 =
     (let infos = sortedInfos s;
          offset = (case atoi cursor of Some n \<Rightarrow> if cursor \<noteq> [] \<and> n > 0 then n else 0 | None \<Rightarrow> 0);
          limit = (if limit0 \<le> 0 then 50 else limit0)
      in if offset \<ge> int (length infos) then Some \<lparr>lr_Runs = [], lr_NextCursor = []\<rparr>
         else (let sum = wrap64 (offset + limit);
                   end' = (if sum < int (length infos) then sum else int (length infos));
                   nxt = (if sum < int (length infos) then itoa sum else [])
               in if end' < offset then None
                  else Some \<lparr>lr_Runs = take (nat (end' - offset)) (drop (nat offset) infos), lr_NextCursor = nxt\<rparr>))"

text \<open>A client that follows \<^verbatim>\<open>NextCursor\<close> to the last page, within a number of requests.\<close>

fun followPages :: "nat \<Rightarrow> inMemoryRunStore \<Rightarrow> int \<Rightarrow> string \<Rightarrow> runInfo list option" where
  "followPages 0 s limit cursor = None"
| "followPages (Suc k) s limit cursor =
     (case listRuns s cursor limit of
        None \<Rightarrow> None
      | Some r \<Rightarrow>
          if lr_NextCursor r = [] then Some (lr_Runs r)
          else map_option ((@) (lr_Runs r)) (followPages k s limit (lr_NextCursor r)))"

subsection \<open>The contract of a run store\<close>

definition emptyRun :: "string \<Rightarrow> gotime \<Rightarrow> run" where
  "emptyRun rid now = runOf rid (emptyEntry now)"

definition forkOf :: "run \<Rightarrow> gotime \<Rightarrow> string \<Rightarrow> int \<Rightarrow> run" where
  "forkOf src now newID atMessage =
     (let n = forkCut atMessage (run_Messages src)
      in \<lparr>run_ID = newID, run_ParentID = run_ID src, run_ForkPoint = int n, run_CreatedAt = now,
          run_Messages = take n (run_Messages src),
          run_Events = (if n = length (run_Messages src) then run_Events src else [])\<rparr>)"

text \<open>A later state of a run: the same identity and lineage, and logs that only grew.\<close>

definition extends :: "run \<Rightarrow> run \<Rightarrow> bool" where
  "extends r r' \<longleftrightarrow>
     run_ID r' = run_ID r \<and> run_ParentID r' = run_ParentID r \<and> run_ForkPoint r' = run_ForkPoint r \<and>
     run_CreatedAt r' = run_CreatedAt r \<and>
     (\<exists>ms. run_Messages r' = run_Messages r @ ms) \<and> (\<exists>es. run_Events r' = run_Events r @ es)"

lemma extends_refl [simp]: "extends r r"
  by (simp add: extends_def)

lemma extends_trans: "extends a b \<Longrightarrow> extends b c \<Longrightarrow> extends a c"
  by (auto simp: extends_def)

datatype storeOp =
    OpCreate gotime string
  | OpAppendMessages gotime string "message list"
  | OpAppendEvents string "event list"
  | OpFork gotime string string int

text \<open>The IDs an operation claims are chosen by its caller.\<close>

fun callerChosen :: "storeOp \<Rightarrow> bool" where
  "callerChosen (OpCreate _ rid) \<longleftrightarrow> rid \<noteq> []"
| "callerChosen (OpFork _ _ newID _) \<longleftrightarrow> newID \<noteq> []"
| "callerChosen _ \<longleftrightarrow> True"

locale run_store =
  fixes create :: "'s \<Rightarrow> gotime \<Rightarrow> string \<Rightarrow> createRunResponse \<times> 's"
    and append_messages :: "'s \<Rightarrow> gotime \<Rightarrow> string \<Rightarrow> message list \<Rightarrow> bool \<times> 's"
    and append_events :: "'s \<Rightarrow> string \<Rightarrow> event list \<Rightarrow> bool \<times> 's"
    and load :: "'s \<Rightarrow> string \<Rightarrow> run option"
    and fork :: "'s \<Rightarrow> gotime \<Rightarrow> string \<Rightarrow> string \<Rightarrow> int \<Rightarrow> forkRunResponse \<times> 's"
  assumes create_new: "rid \<noteq> [] \<Longrightarrow> load s rid = None \<Longrightarrow>
        fst (create s now rid) = \<lparr>cr_RunID = rid, cr_Created = True\<rparr> \<and>
        load (snd (create s now rid)) = (load s)(rid \<mapsto> emptyRun rid now)"
    and create_exists: "rid \<noteq> [] \<Longrightarrow> load s rid = Some r \<Longrightarrow>
        create s now rid = (\<lparr>cr_RunID = rid, cr_Created = False\<rparr>, s)"
    and append_missing: "load s rid = None \<Longrightarrow> append_messages s now rid ms = (False, s)"
    and append_found: "load s rid = Some r \<Longrightarrow>
        fst (append_messages s now rid ms) \<and>
        load (snd (append_messages s now rid ms)) =
          (load s)(rid \<mapsto> r\<lparr>run_Messages := run_Messages r @ map (stamp now) ms\<rparr>)"
    and events_missing: "load s rid = None \<Longrightarrow> append_events s rid es = (False, s)"
    and events_found: "load s rid = Some r \<Longrightarrow>
        fst (append_events s rid es) \<and>
        load (snd (append_events s rid es)) = (load s)(rid \<mapsto> r\<lparr>run_Events := run_Events r @ es\<rparr>)"
    and fork_missing: "load s src = None \<Longrightarrow> snd (fork s now src new at) = s \<and>
        \<not> fr_Found (fst (fork s now src new at)) \<and> \<not> fr_Created (fst (fork s now src new at))"
    and fork_exists: "new \<noteq> [] \<Longrightarrow> load s src = Some r \<Longrightarrow> load s new = Some q \<Longrightarrow>
        fork s now src new at =
          (\<lparr>fr_RunID = new, fr_Found = True, fr_Created = False, fr_ForkPoint = 0\<rparr>, s)"
    and fork_new: "new \<noteq> [] \<Longrightarrow> load s src = Some r \<Longrightarrow> load s new = None \<Longrightarrow>
        fst (fork s now src new at) =
          \<lparr>fr_RunID = new, fr_Found = True, fr_Created = True,
           fr_ForkPoint = int (forkCut at (run_Messages r))\<rparr> \<and>
        load (snd (fork s now src new at)) = (load s)(new \<mapsto> forkOf r now new at)"
begin

fun apply_op :: "'s \<Rightarrow> storeOp \<Rightarrow> 's" where
  "apply_op s (OpCreate now rid) = snd (create s now rid)"
| "apply_op s (OpAppendMessages now rid ms) = snd (append_messages s now rid ms)"
| "apply_op s (OpAppendEvents rid es) = snd (append_events s rid es)"
| "apply_op s (OpFork now src new at) = snd (fork s now src new at)"

text \<open>No operation of the contract touches an existing run except by appending to it.\<close>

lemma op_extends:
  assumes "callerChosen op" "load s rid = Some r"
  shows "\<exists>r'. load (apply_op s op) rid = Some r' \<and> extends r r'"
proof (cases op)
  case (OpCreate now c)
  with assms show ?thesis
    by (cases "load s c") (auto simp: create_new create_exists)
next
  case (OpAppendMessages now c ms)
  with assms show ?thesis
    by (cases "load s c") (auto simp: append_missing append_found extends_def)
next
  case (OpAppendEvents c es)
  with assms show ?thesis
    by (cases "load s c") (auto simp: events_missing events_found extends_def)
next
  case (OpFork now src new at)
  with assms show ?thesis
    by (cases "load s src"; cases "load s new") (auto simp: fork_missing fork_exists fork_new)
qed

lemma ops_extend:
  assumes "list_all callerChosen ops" "load s rid = Some r"
  shows "\<exists>r'. load (foldl apply_op s ops) rid = Some r' \<and> extends r r'"
  using assms
proof (induction ops arbitrary: s r)
  case Nil
  then show ?case by simp
next
  case (Cons op ops)
  then obtain r1 where r1: "load (apply_op s op) rid = Some r1" "extends r r1"
    using op_extends by fastforce
  with Cons obtain r2 where "load (foldl apply_op (apply_op s op) ops) rid = Some r2" "extends r1 r2"
    by fastforce
  with r1 show ?case by (auto intro: extends_trans)
qed

text \<open>A fork owns its copy: what is appended to it never reaches the source, and its prefix stays.\<close>

lemma fork_diverges:
  assumes "new \<noteq> []" "new \<noteq> src" "load s src = Some r" "load s new = None"
  shows "load (snd (append_messages (snd (fork s now src new at)) t new ms)) src = Some r \<and>
         (\<exists>f. load (snd (append_messages (snd (fork s now src new at)) t new ms)) new = Some f \<and>
              run_Messages f = take (forkCut at (run_Messages r)) (run_Messages r) @ map (stamp t) ms)"
proof -
  let ?s = "snd (fork s now src new at)"
  have loads: "load ?s = (load s)(new \<mapsto> forkOf r now new at)" using fork_new [OF assms(1,3,4)] by blast
  then have "load ?s new = Some (forkOf r now new at)" by simp
  from append_found [OF this, of t ms] loads show ?thesis
    using assms(2,3) by (simp add: forkOf_def Let_def)
qed

text \<open>Retrying a fork under the same ID changes nothing and reports that it exists.\<close>

lemma fork_retry:
  assumes "new \<noteq> []" "load s src = Some r" "load s new = None"
  shows "\<not> fr_Created (fst (fork (snd (fork s now src new at)) t src new at)) \<and>
         snd (fork (snd (fork s now src new at)) t src new at) = snd (fork s now src new at)"
proof -
  let ?s = "snd (fork s now src new at)"
  have loads: "load ?s = (load s)(new \<mapsto> forkOf r now new at)" using fork_new [OF assms] by blast
  then obtain q where "load ?s src = Some q" using assms(2) by (cases "new = src") auto
  moreover from loads have "load ?s new = Some (forkOf r now new at)" by simp
  ultimately show ?thesis using fork_exists [OF assms(1)] by simp
qed

end

subsection \<open>The in-memory store keeps the contract\<close>

lemma loadRun_upd: "loadRun (s\<lparr>ims_runs := AList.update rid e (ims_runs s)\<rparr>) = (loadRun s)(rid \<mapsto> runOf rid e)"
  by (auto simp: loadRun_def update_conv)

lemma loadRun_upd_seq:
  "loadRun (s\<lparr>ims_seq := n, ims_runs := AList.update rid e (ims_runs s)\<rparr>) = (loadRun s)(rid \<mapsto> runOf rid e)"
  by (auto simp: loadRun_def update_conv)

lemma loadRun_None: "loadRun s rid = None \<longleftrightarrow> map_of (ims_runs s) rid = None"
  by (simp add: loadRun_def)

lemma loadRun_Some: "loadRun s rid = Some r \<longleftrightarrow> (\<exists>e. map_of (ims_runs s) rid = Some e \<and> r = runOf rid e)"
  by (auto simp: loadRun_def)

lemmas runStore_ops = createRun_def appendMessages_def appendEvents_def forkRun_def

interpretation mem: run_store createRun appendMessages appendEvents loadRun forkRun
  by unfold_locales
    (auto simp: runStore_ops loadRun_upd loadRun_None loadRun_Some emptyRun_def forkOf_def runOf_def
       forkEntry_def Let_def)

fun applyStoreOp :: "inMemoryRunStore \<Rightarrow> storeOp \<Rightarrow> inMemoryRunStore" where
  "applyStoreOp s (OpCreate now rid) = snd (createRun s now rid)"
| "applyStoreOp s (OpAppendMessages now rid ms) = snd (appendMessages s now rid ms)"
| "applyStoreOp s (OpAppendEvents rid es) = snd (appendEvents s rid es)"
| "applyStoreOp s (OpFork now src new at) = snd (forkRun s now src new at)"

lemma applyStoreOp_eq: "applyStoreOp s op = mem.apply_op s op"
  by (cases op) auto

text \<open>
  C9: runs are append-only logs. Whatever sequence of creates, appends and forks with caller-chosen
  IDs is applied to the in-memory store, a run that was there keeps its identity and lineage, and its
  message and event logs are extended at most.
\<close>

theorem run_logs_append_only:
  assumes "list_all callerChosen ops" "loadRun s rid = Some r"
  shows "\<exists>r'. loadRun (foldl applyStoreOp s ops) rid = Some r' \<and> extends r r'"
proof -
  have "applyStoreOp = mem.apply_op" by (intro ext applyStoreOp_eq)
  then show ?thesis using mem.ops_extend [OF assms] by simp
qed

definition sampleStore :: inMemoryRunStore where
  "sampleStore = foldl applyStoreOp newInMemoryRunStore
     [OpCreate 1 ''run-1'', OpAppendMessages 2 ''run-1'' [textMessage RoleUser ''hi'', textMessage RoleAssistant ''yo'']]"

lemmas sampleStore_eval = sampleStore_def newInMemoryRunStore_def runStore_ops emptyEntry_def
  loadRun_def runOf_def stamp_def textMessage_def

theorem run_logs_append_only_witness:
  "\<exists>r'. loadRun (foldl applyStoreOp sampleStore [OpFork 3 ''run-1'' ''b'' 1, OpAppendMessages 4 ''b'' []]) ''run-1''
       = Some r' \<and> length (run_Messages r') \<ge> 2"
proof -
  have ops: "list_all callerChosen [OpFork 3 ''run-1'' ''b'' 1, OpAppendMessages 4 ''b'' []]" by simp
  obtain r where r: "loadRun sampleStore ''run-1'' = Some r" "length (run_Messages r) = 2"
    by (simp add: sampleStore_eval)
  from run_logs_append_only [OF ops r(1)] r(2) show ?thesis by (auto simp: extends_def)
qed

text \<open>
  A fork diverges from its source. After forking a run at a message count under a new ID and
  appending to the fork, the source is unchanged and the fork holds the first messages of the source
  up to the resolved fork point, followed by what was appended, with zero timestamps stamped.
\<close>

lemma fork_diverges_from_source:
  assumes "new \<noteq> []" "new \<noteq> src" "loadRun s src = Some r" "loadRun s new = None"
  shows "loadRun (snd (appendMessages (snd (forkRun s now src new at)) t new ms)) src = Some r \<and>
         (\<exists>f. loadRun (snd (appendMessages (snd (forkRun s now src new at)) t new ms)) new = Some f \<and>
              run_Messages f = take (forkCut at (run_Messages r)) (run_Messages r) @ map (stamp t) ms)"
  by (rule mem.fork_diverges [OF assms])

theorem fork_diverges_from_source_witness:
  "\<exists>f. loadRun (snd (appendMessages (snd (forkRun sampleStore 3 ''run-1'' ''b'' 1)) 4 ''b''
          [textMessage RoleUser ''alt''])) ''b'' = Some f \<and> length (run_Messages f) = 2"
proof -
  obtain r where r: "loadRun sampleStore ''run-1'' = Some r" "length (run_Messages r) = 2"
    by (simp add: sampleStore_eval)
  have new: "loadRun sampleStore ''b'' = None" by (simp add: sampleStore_eval)
  have "forkCut 1 (run_Messages r) = 1" using r(2) by (simp add: forkCut_def)
  then show ?thesis
    using fork_diverges_from_source [of "''b''" "''run-1''" sampleStore r 3 1 4 "[textMessage RoleUser ''alt'']"] r new
    by auto
qed

subsection \<open>Paging\<close>

lemma listRuns_page:
  assumes cursor: "cursor = itoa (int off) \<or> (cursor = [] \<and> off = 0)"
    and off: "off < length (sortedInfos s)" and limit: "0 < limit"
    and small: "length (sortedInfos s) + limit < 2 ^ 63"
  shows "listRuns s cursor (int limit) =
           Some \<lparr>lr_Runs = take limit (drop off (sortedInfos s)),
                 lr_NextCursor = (if off + limit < length (sortedInfos s) then itoa (int (off + limit)) else [])\<rparr>"
proof -
  have big: "int off + int limit < 2 ^ 63" using off small by (simp flip: of_nat_add of_nat_less_iff)
  then have sum: "wrap64 (int off + int limit) = int off + int limit" by (intro wrap64_id) simp_all
  have "off < 2 ^ 63" using off small by simp
  then have "(case atoi cursor of Some n \<Rightarrow> if cursor \<noteq> [] \<and> n > 0 then n else 0 | None \<Rightarrow> 0) = int off"
    using cursor by (auto simp: atoi_itoa_nat) (auto simp: itoa_def atoi_def Let_def)
  with off limit sum show ?thesis
    by (auto simp: listRuns_def Let_def nat_diff_distrib nat_int_add)
qed

lemma followPages_from:
  assumes limit: "0 < limit" and small: "length (sortedInfos s) + limit < 2 ^ 63"
  shows "cursor = itoa (int off) \<or> (cursor = [] \<and> off = 0) \<Longrightarrow> off < length (sortedInfos s) \<Longrightarrow>
         length (sortedInfos s) - off \<le> k \<Longrightarrow>
         followPages k s (int limit) cursor = Some (drop off (sortedInfos s))"
proof (induction k arbitrary: off cursor)
  case 0
  then show ?case by simp
next
  case (Suc k)
  note page = listRuns_page [OF Suc.prems(1,2) limit small]
  show ?case
  proof (cases "off + limit < length (sortedInfos s)")
    case True
    have ne: "itoa (int (off + limit)) \<noteq> []" by (simp add: itoa_def)
    have "followPages k s (int limit) (itoa (int (off + limit))) = Some (drop (off + limit) (sortedInfos s))"
      using Suc.IH [of "itoa (int (off + limit))" "off + limit"] True Suc.prems(3) limit by simp
    with page True ne show ?thesis
      by (simp add: add.commute) (metis append_take_drop_id drop_drop)
  next
    case False
    with page show ?thesis by simp
  qed
qed

lemma length_sortedInfos [simp]: "length (sortedInfos s) = length (ims_runs s)"
  by (simp add: sortedInfos_def)

text \<open>
  Paging is complete and without repeats. A client that follows \<^verbatim>\<open>NextCursor\<close> from the first
  page sees the whole listing, newest first, each run once, within one request per stored run (the
  counts stay inside the range of a Go int).
\<close>

lemma list_runs_paging_complete:
  assumes "0 < limit" and "length (ims_runs s) + limit < 2 ^ 63"
  shows "followPages (Suc (length (ims_runs s))) s (int limit) [] = Some (sortedInfos s)"
proof (cases "ims_runs s = []")
  case True
  then show ?thesis by (simp add: listRuns_def sortedInfos_def atoi_def Let_def)
next
  case False
  with followPages_from [of limit s "[]" 0 "Suc (length (ims_runs s))"] assms show ?thesis
    by (simp del: followPages.simps)
qed

theorem list_runs_paging_complete_witness:
  "\<exists>infos. followPages (Suc 1) sampleStore 1 [] = Some infos \<and> length infos = 1"
proof -
  have one: "length (ims_runs sampleStore) = 1" by (simp add: sampleStore_eval)
  with list_runs_paging_complete [of 1 sampleStore] show ?thesis by (simp del: followPages.simps)
qed

subsection \<open>Where the store leaves its contract\<close>

text \<open>
  A generated ID is not checked against the runs that exist. When a caller has claimed the next
  sequential ID, creating a run with an empty \<^verbatim>\<open>RunID\<close> reports \<^verbatim>\<open>Created\<close> under that ID and
  replaces the existing run by an empty one.
\<close>

lemma generated_id_overwrites_claimed_run:
  assumes "loadRun s (''run-'' @ itoa (ims_seq s + 1)) = Some r"
  shows "cr_Created (fst (createRun s now [])) \<and>
         loadRun (snd (createRun s now [])) (run_ID r) = Some (emptyRun (run_ID r) now)"
proof -
  have "run_ID r = ''run-'' @ itoa (ims_seq s + 1)" using assms by (auto simp: loadRun_Some runOf_def)
  then show ?thesis by (simp add: createRun_def Let_def loadRun_upd_seq emptyRun_def)
qed

lemma itoa_one: "itoa 1 = ''1''"
  by code_simp

theorem generated_id_overwrites_claimed_run_witness:
  "\<exists>r. loadRun sampleStore ''run-1'' = Some r \<and> length (run_Messages r) = 2 \<and>
       loadRun (snd (createRun sampleStore 9 [])) ''run-1'' = Some (emptyRun ''run-1'' 9)"
proof -
  obtain r where r: "loadRun sampleStore ''run-1'' = Some r" "length (run_Messages r) = 2" "run_ID r = ''run-1''"
    by (simp add: sampleStore_eval)
  have "''run-'' @ itoa (ims_seq sampleStore + 1) = ''run-1''"
    using itoa_one by (simp add: sampleStore_eval)
  with r generated_id_overwrites_claimed_run [of sampleStore r 9] show ?thesis by simp
qed

text \<open>
  The page end is an unchecked 64-bit sum. With a positive offset inside the listing and a limit
  whose sum with it passes the largest int, \<^verbatim>\<open>ListRuns\<close> slices with a negative end and panics.
\<close>

lemma list_runs_limit_overflow_panics:
  assumes "0 < off" "off < length (ims_runs s)" "limit \<le> maxInt64" "maxInt64 < int off + limit"
    and "length (ims_runs s) < 2 ^ 63"
  shows "listRuns s (itoa (int off)) limit = None"
proof -
  have off63: "off < 2 ^ 63" using assms by simp
  then have "int off < 2 ^ 63" by (metis of_nat_less_iff of_nat_numeral of_nat_power)
  then have range: "2 ^ 63 \<le> int off + limit" "int off + limit < 2 ^ 64"
    using assms by (auto simp: maxInt64_def)
  have "signed_take_bit 63 (int off + limit) = signed_take_bit 63 (int off + limit - 2 ^ 64)"
    by (simp add: signed_take_bit_eq_iff_take_bit_eq take_bit_eq_mod)
  also have "\<dots> = int off + limit - 2 ^ 64"
    using range by (intro signed_take_bit_int_eq_self) simp_all
  finally have "wrap64 (int off + limit) < 0" using range by (simp add: wrap64_def)
  moreover have "itoa (int off) \<noteq> []" by (simp add: itoa_def)
  moreover have "0 < limit" using assms(4) \<open>int off < 2 ^ 63\<close> by (simp add: maxInt64_def)
  ultimately show ?thesis
    using assms(1,2) off63 by (simp add: listRuns_def atoi_itoa_nat Let_def)
qed

definition twoRuns :: inMemoryRunStore where
  "twoRuns = foldl applyStoreOp newInMemoryRunStore [OpCreate 1 ''a'', OpCreate 2 ''b'']"

lemma list_runs_limit_overflow_panics_witness: "listRuns twoRuns (itoa 1) maxInt64 = None"
proof -
  have "length (ims_runs twoRuns) = 2" by (simp add: twoRuns_def sampleStore_eval)
  with list_runs_limit_overflow_panics [of 1 twoRuns maxInt64] show ?thesis by (simp add: maxInt64_def)
qed

end
