(* ===== verification/Retry.thy ===== *)
theory Retry
  imports Prelude
begin

text \<open>
  The bounded retry of provider requests, \<^verbatim>\<open>src/retry.go\<close>. The request factory, the HTTP client and
  the sleep act on a world \<open>'w\<close>. Durations are nanoseconds. The parsing of the server's waiting hints
  into a duration (floats, HTTP dates and a regular expression of Go's library) is a parameter.
\<close>

record httpResponse =
  http_StatusCode :: int
  http_Header :: "(string \<times> string) list"
  http_Body :: string

datatype sendError = SendErr goerr | ProviderError int string

definition maxSendAttempts :: nat where
  "maxSendAttempts = 6"

definition maxRetryWait :: int where
  "maxRetryWait = 60 * 10 ^ 9"

definition second :: int where
  "second = 10 ^ 9"

definition retryable :: "int \<Rightarrow> string \<Rightarrow> bool" where
  "retryable status body =
     (if status = 429 then \<not> strContains body ''insufficient_quota''
      else status = 500 \<or> status = 502 \<or> status = 503 \<or> status = 504 \<or> status = 529)"

text \<open>
  \<^verbatim>\<open>header.Get\<close> on canonical names. \<open>millis\<close> reads a positive \<^verbatim>\<open>retry-after-ms\<close> value,
  \<open>seconds\<close> and \<open>untilDate\<close> a \<^verbatim>\<open>Retry-After\<close> value as a number or a date, \<open>tryAgainIn\<close> the
  message's own hint; each gives the duration the code computes from it.
\<close>

definition headerGet :: "(string \<times> string) list \<Rightarrow> string \<Rightarrow> string" where
  "headerGet h k = (case map_of h k of None \<Rightarrow> [] | Some v \<Rightarrow> v)"

record waitHints =
  wh_millis :: "string \<Rightarrow> int option"
  wh_seconds :: "string \<Rightarrow> int option"
  wh_untilDate :: "string \<Rightarrow> int option"
  wh_tryAgainIn :: "string \<Rightarrow> int option"

definition retryWait :: "waitHints \<Rightarrow> (string \<times> string) list \<Rightarrow> string \<Rightarrow> nat \<Rightarrow> int" where
  "retryWait p h body attempt =
     (let retryAfter = headerGet h ''Retry-After'';
          hint = (case wh_millis p (headerGet h ''Retry-After-Ms'') of
                    Some d \<Rightarrow> d
                  | None \<Rightarrow>
                      if retryAfter \<noteq> [] then
                        (case wh_seconds p retryAfter of
                           Some d \<Rightarrow> d
                         | None \<Rightarrow> (case wh_untilDate p retryAfter of Some d \<Rightarrow> d | None \<Rightarrow> 0))
                      else (case wh_tryAgainIn p body of Some d \<Rightarrow> d | None \<Rightarrow> 0));
          wait = (if hint \<le> 0 then wrap64 (second * 2 ^ (attempt - 1)) else hint)
      in if wait > maxRetryWait then maxRetryWait else wait)"

function sendLoop ::
  "waitHints \<Rightarrow> ('w \<Rightarrow> (goerr + 'q) \<times> 'w) \<Rightarrow> ('q \<Rightarrow> 'w \<Rightarrow> (goerr + httpResponse) \<times> 'w) \<Rightarrow> (int \<Rightarrow> 'w \<Rightarrow> goerr option \<times> 'w) \<Rightarrow>
   nat \<Rightarrow> 'w \<Rightarrow> (sendError + httpResponse) \<times> 'w" where
  "sendLoop p newReq doReq sleep attempt w =
     (case newReq w of
        (Inl e, w1) \<Rightarrow> (Inl (SendErr e), w1)
      | (Inr q, w1) \<Rightarrow>
          (case doReq q w1 of
             (Inl e, w2) \<Rightarrow> (Inl (SendErr e), w2)
           | (Inr resp, w2) \<Rightarrow>
               if 200 \<le> http_StatusCode resp \<and> http_StatusCode resp < 300 then (Inr resp, w2)
               else (let body = take 2048 (http_Body resp);
                         perr = ProviderError (http_StatusCode resp) body
                     in if maxSendAttempts \<le> attempt \<or> \<not> retryable (http_StatusCode resp) body
                        then (Inl perr, w2)
                        else case sleep (retryWait p (http_Header resp) body attempt) w2 of
                               (Some _, w3) \<Rightarrow> (Inl perr, w3)
                             | (None, w3) \<Rightarrow> sendLoop p newReq doReq sleep (attempt + 1) w3)))"
  by pat_completeness auto
termination
  by (relation "measure (\<lambda>(_, _, _, _, attempt, _). maxSendAttempts - attempt)") auto

declare sendLoop.simps [simp del]

definition sendWithRetry where
  "sendWithRetry p newReq doReq sleep w = sendLoop p newReq doReq sleep 1 w"

subsection \<open>Waiting times\<close>

lemma retryWait_bounds:
  assumes "1 \<le> attempt" "attempt < maxSendAttempts"
  shows "0 < retryWait p h body attempt \<and> retryWait p h body attempt \<le> maxRetryWait"
proof -
  have "attempt - 1 < 5" using assms by (simp add: maxSendAttempts_def)
  then have "(2::int) ^ (attempt - 1) \<le> 2 ^ 4" by (intro power_increasing) auto
  then have b: "0 < second * 2 ^ (attempt - 1)" "second * 2 ^ (attempt - 1) < 2 ^ 63"
    by (auto simp: second_def)
  then have "wrap64 (second * 2 ^ (attempt - 1)) = second * 2 ^ (attempt - 1)"
    by (intro wrap64_id) auto
  then show ?thesis using b by (auto simp: retryWait_def Let_def maxRetryWait_def)
qed

text \<open>
  The rule the property rests on: \<open>I n\<close> holds before request \<open>n + 1\<close>, after \<open>n\<close> requests and
  \<open>n\<close> waits; \<open>J n\<close> after request \<open>n\<close> and before its wait.
\<close>

lemma sendLoop_rule:
  assumes newReq: "\<And>n w. I n w \<Longrightarrow> I n (snd (newReq w))"
    and doReq: "\<And>n q w. I n w \<Longrightarrow> J n (snd (doReq q w))"
    and sleep: "\<And>n d w. J n w \<Longrightarrow> 0 < d \<Longrightarrow> d \<le> maxRetryWait \<Longrightarrow> I (Suc n) (snd (sleep d w))"
    and "1 \<le> attempt" "attempt \<le> maxSendAttempts" "I (attempt - 1) w"
  shows "\<exists>n < maxSendAttempts. let w' = snd (sendLoop p newReq doReq sleep attempt w) in I n w' \<or> J n w'"
  using assms(4-6)
proof (induction "maxSendAttempts - attempt" arbitrary: attempt w rule: less_induct)
  case less
  obtain rq w1 where nr: "newReq w = (rq, w1)" by fastforce
  have w1: "I (attempt - 1) w1" using newReq [OF less.prems(3)] nr by simp
  have at: "attempt - 1 < maxSendAttempts" "Suc (attempt - 1) = attempt" using less.prems(1,2) by auto
  show ?case
  proof (cases rq)
    case (Inl e)
    then show ?thesis
      using nr w1 at by (subst sendLoop.simps) (auto intro!: exI [of _ "attempt - 1"])
  next
    case (Inr q)
    obtain rs w2 where dr: "doReq q w1 = (rs, w2)" by fastforce
    have w2: "J (attempt - 1) w2" using doReq [OF w1, of q] dr by simp
    show ?thesis
    proof (cases rs)
      case (Inl e)
      then show ?thesis using nr dr Inr w2 at by (subst sendLoop.simps) auto
    next
      case R: (Inr resp)
      let ?body = "take 2048 (http_Body resp)"
      let ?d = "retryWait p (http_Header resp) ?body attempt"
      obtain sr w3 where sl: "sleep ?d w2 = (sr, w3)" by fastforce
      have w3: "I attempt w3" if "attempt < maxSendAttempts"
        using sleep [OF w2, of ?d] retryWait_bounds [OF less.prems(1) that] sl at by auto
      have "\<exists>n < maxSendAttempts. let w' = snd (sendLoop p newReq doReq sleep (attempt + 1) w3) in I n w' \<or> J n w'"
        if "attempt < maxSendAttempts"
        using that w3 by (intro less.hyps) auto
      moreover have "\<exists>n < maxSendAttempts. I n w3 \<or> J n w3" if "attempt < maxSendAttempts" using that w3 by blast
      moreover have "\<exists>n < maxSendAttempts. I n w2 \<or> J n w2" using w2 at by blast
      ultimately show ?thesis using nr dr Inr R sl
        by (subst sendLoop.simps) (auto simp: Let_def split: option.splits)
    qed
  qed
qed

lemma sendLoop_success:
  "sendLoop p newReq doReq sleep attempt w = (Inr resp, w') \<Longrightarrow>
   200 \<le> http_StatusCode resp \<and> http_StatusCode resp < 300 \<and> (\<exists>q w1. doReq q w1 = (Inr resp, w'))"
proof (induction "maxSendAttempts - attempt" arbitrary: attempt w rule: less_induct)
  case less
  obtain rq w1 where nr: "newReq w = (rq, w1)" by fastforce
  obtain q rs w2 where q: "rq = Inr q" "doReq q w1 = (rs, w2)"
    using less.prems nr by (subst (asm) sendLoop.simps) (auto split: sum.splits prod.splits)
  obtain rp where rp: "rs = Inr rp"
    using less.prems nr q by (subst (asm) sendLoop.simps) (auto split: sum.splits prod.splits)
  let ?body = "take 2048 (http_Body rp)"
  obtain sr w3 where sl: "sleep (retryWait p (http_Header rp) ?body attempt) w2 = (sr, w3)" by fastforce
  have "200 \<le> http_StatusCode rp \<and> http_StatusCode rp < 300 \<and> rp = resp \<and> w2 = w' \<or>
     attempt < maxSendAttempts \<and> sendLoop p newReq doReq sleep (attempt + 1) w3 = (Inr resp, w')"
    using less.prems nr q rp sl
    by (subst (asm) sendLoop.simps) (auto simp: Let_def split: if_splits option.splits)
  then show ?case
  proof
    assume "attempt < maxSendAttempts \<and> sendLoop p newReq doReq sleep (attempt + 1) w3 = (Inr resp, w')"
    then show ?thesis using less.hyps [of "attempt + 1" w3] by auto
  qed (use q rp in blast)
qed

text \<open>
  C18: sending a request with retries always returns after at most six requests, with a total wait of
  at most five times the maximal wait of 60 seconds; the success it returns is a 2xx answer of the
  last request. \<open>sent\<close> and \<open>waited\<close> read the requests sent and the time slept from the world.
\<close>

theorem send_with_retry_bounded:
  fixes sent :: "'w \<Rightarrow> nat" and waited :: "'w \<Rightarrow> int"
  assumes "\<forall>w. sent (snd (newReq w)) = sent w \<and> waited (snd (newReq w)) = waited w"
    and "\<forall>q w. sent (snd (doReq q w)) = Suc (sent w) \<and> waited (snd (doReq q w)) = waited w"
    and "\<forall>d w. sent (snd (sleep d w)) = sent w \<and> waited (snd (sleep d w)) \<le> waited w + d"
    and "sendWithRetry p newReq doReq sleep w = (r, w')"
  shows "sent w' \<le> sent w + 6 \<and> waited w' \<le> waited w + 5 * (60 * 10 ^ 9) \<and>
    (\<forall>resp. r = Inr resp \<longrightarrow> 200 \<le> http_StatusCode resp \<and> http_StatusCode resp < 300 \<and> (\<exists>q w1. doReq q w1 = (Inr resp, w')))"
proof -
  let ?I = "\<lambda>n v. sent v = sent w + n \<and> waited v \<le> waited w + int n * maxRetryWait"
  let ?J = "\<lambda>n v. sent v = sent w + Suc n \<and> waited v \<le> waited w + int n * maxRetryWait"
  have "\<exists>n < maxSendAttempts. let w' = snd (sendLoop p newReq doReq sleep 1 w) in ?I n w' \<or> ?J n w'"
  proof (rule sendLoop_rule)
    fix n d v
    assume "?J n v" "d \<le> maxRetryWait"
    moreover have "sent (snd (sleep d v)) = sent v" "waited (snd (sleep d v)) \<le> waited v + d"
      using assms(3) by auto
    ultimately show "?I (Suc n) (snd (sleep d v))" by (simp add: algebra_simps)
  qed (use assms(1,2) in \<open>auto simp: maxSendAttempts_def\<close>)
  then obtain n where n: "n < 6" "sent w' \<le> sent w + Suc n" "waited w' \<le> waited w + int n * maxRetryWait"
    using assms(4) by (auto simp: sendWithRetry_def maxSendAttempts_def Let_def)
  then have "int n * maxRetryWait \<le> 5 * (60 * 10 ^ 9)"
    by (auto simp: maxRetryWait_def)
  then show ?thesis
    using n sendLoop_success [of p newReq doReq sleep 1 w] assms(4) by (auto simp: sendWithRetry_def)
qed

definition busyServer :: "nat \<Rightarrow> unit \<Rightarrow> nat \<times> int \<Rightarrow> (goerr + httpResponse) \<times> nat \<times> int" where
  "busyServer k q w = (Inr \<lparr>http_StatusCode = (if fst w < k then 503 else 200), http_Header = [], http_Body = []\<rparr>,
     (Suc (fst w), snd w))"

definition noHints :: waitHints where
  "noHints = \<lparr>wh_millis = (\<lambda>_. None), wh_seconds = (\<lambda>_. None), wh_untilDate = (\<lambda>_. None), wh_tryAgainIn = (\<lambda>_. None)\<rparr>"

theorem send_with_retry_bounded_witness:
  "\<exists>r w'. sendWithRetry noHints (\<lambda>w. (Inr (), w)) (busyServer 2) (\<lambda>d w. (None, (fst w, snd w + d))) (0, 0) = (r, w') \<and>
     fst w' \<le> 0 + 6 \<and> snd w' \<le> 0 + 5 * (60 * 10 ^ 9)"
proof -
  let ?sl = "\<lambda>d w. (None, (fst w, snd w + d)) :: goerr option \<times> nat \<times> int"
  obtain r w' where run: "sendWithRetry noHints (\<lambda>w. (Inr (), w)) (busyServer 2) ?sl (0, 0) = (r, w')"
    by (rule prod.exhaust)
  have "fst w' \<le> 0 + 6 \<and> snd w' \<le> 0 + 5 * (60 * 10 ^ 9)"
    using send_with_retry_bounded [OF _ _ _ run, of fst snd] by (simp add: busyServer_def)
  then show ?thesis using run by blast
qed

end
