(* ===== verification/ToolSources.thy ===== *)
theory ToolSources
  imports AgentTypes "HOL-Library.Char_ord" "HOL-Library.List_Lexorder"
begin

text \<open>
  Tool sources: the \<^verbatim>\<open>ToolSource\<close> interface of \<^verbatim>\<open>src/toolsource.go\<close>, host functions
  (\<^verbatim>\<open>src/func_source.go\<close>), filtering (\<^verbatim>\<open>src/filter_source.go\<close>) and aggregation with collision handling
  (\<^verbatim>\<open>src/multi_source.go\<close>). A source reads and changes a world \<open>'w\<close>: listing reads it, a call may
  change it. A \<^verbatim>\<open>*core.ToolResult\<close> that may be nil is an option.
\<close>

type_synonym toolArgs = "(string \<times> rawjson) list"
type_synonym callResult = "goerr + toolResult option"

record 'w toolSource =
  src_Tools :: "'w \<Rightarrow> goerr + toolDef list"
  src_Call :: "string \<Rightarrow> toolArgs \<Rightarrow> 'w \<Rightarrow> callResult \<times> 'w"

definition unknownTool :: "string \<Rightarrow> string \<Rightarrow> goerr" where
  "unknownTool fmt name = Errorf fmt [name] (Some (ErrSentinel ErrUnknownTool))"

text \<open>The text of a result the model reads (\<^verbatim>\<open>src/runner.go\<close>).\<close>

definition toolResultText :: "toolResult \<Rightarrow> string" where
  "toolResultText res =
     (let parts = map ct_Text (filter (\<lambda>c. ct_Type c = ''text'' \<and> ct_Text c \<noteq> []) (tr_Content res))
      in if parts \<noteq> [] then strJoin parts [CHR 0x0A]
         else case tr_StructuredContent res of Some raw \<Rightarrow> raw | None \<Rightarrow> ''(empty result)'')"

subsection \<open>Host functions\<close>

record 'w funcSource =
  fs_defs :: "toolDef list"
  fs_handlers :: "string \<Rightarrow> (toolArgs \<Rightarrow> 'w \<Rightarrow> callResult \<times> 'w) option"

definition newFuncSource :: "'w funcSource" where
  "newFuncSource = \<lparr>fs_defs = [], fs_handlers = Map.empty\<rparr>"

definition addToolFunc ::
  "toolDef \<Rightarrow> (toolArgs \<Rightarrow> 'w \<Rightarrow> callResult \<times> 'w) \<Rightarrow> 'w funcSource \<Rightarrow> goerr option \<times> 'w funcSource" where
  "addToolFunc def fn s =
     (if fs_handlers s (td_Name def) \<noteq> None
      then (Some (Errorf ''agent: tool %q already registered'' [td_Name def] None), s)
      else (None, s\<lparr>fs_defs := fs_defs s @ [def], fs_handlers := (fs_handlers s)(td_Name def \<mapsto> fn)\<rparr>))"

definition funcTools :: "'w funcSource \<Rightarrow> 'w \<Rightarrow> goerr + toolDef list" where
  "funcTools s w = Inr (fs_defs s)"

definition funcCall :: "'w funcSource \<Rightarrow> string \<Rightarrow> toolArgs \<Rightarrow> 'w \<Rightarrow> callResult \<times> 'w" where
  "funcCall s name args w =
     (case fs_handlers s name of
        None \<Rightarrow> (Inl (unknownTool ''%w: %q'' name), w)
      | Some fn \<Rightarrow> fn args w)"

definition errorToolResult :: "string \<Rightarrow> toolResult" where
  "errorToolResult msg = \<lparr>tr_Content = [\<lparr>ct_Type = ''text'', ct_Text = msg\<rparr>], tr_StructuredContent = None, tr_IsError = True\<rparr>"

text \<open>
  The wrapper \<^verbatim>\<open>AddFunc\<close> puts around a typed function: \<open>decode\<close> is the conversion of the arguments
  into the function's input type, which can fail.
\<close>

definition wrapFunc ::
  "(toolArgs \<Rightarrow> goerr + 'i) \<Rightarrow> ('i \<Rightarrow> 'w \<Rightarrow> (goerr + string) \<times> 'w) \<Rightarrow> toolArgs \<Rightarrow> 'w \<Rightarrow> callResult \<times> 'w" where
  "wrapFunc decode fn args w =
     (case decode args of
        Inl e \<Rightarrow> (Inr (Some (errorToolResult (''invalid arguments: '' @ errText e))), w)
      | Inr i \<Rightarrow>
          (case fn i w of
             (Inl e, w') \<Rightarrow> (Inr (Some (errorToolResult (errText e))), w')
           | (Inr out, w') \<Rightarrow>
               (Inr (Some \<lparr>tr_Content = [\<lparr>ct_Type = ''text'', ct_Text = out\<rparr>],
                           tr_StructuredContent = None, tr_IsError = False\<rparr>), w')))"

subsection \<open>Filtering\<close>

definition filterTools :: "(toolDef \<Rightarrow> bool) \<Rightarrow> 'w toolSource \<Rightarrow> 'w \<Rightarrow> goerr + toolDef list" where
  "filterTools keep src w = (case src_Tools src w of Inl e \<Rightarrow> Inl e | Inr defs \<Rightarrow> Inr (filter keep defs))"

definition filterCall ::
  "(toolDef \<Rightarrow> bool) \<Rightarrow> 'w toolSource \<Rightarrow> string \<Rightarrow> toolArgs \<Rightarrow> 'w \<Rightarrow> callResult \<times> 'w" where
  "filterCall keep src name args w =
     (case filterTools keep src w of
        Inl e \<Rightarrow> (Inl e, w)
      | Inr defs \<Rightarrow>
          if list_ex (\<lambda>d. td_Name d = name) defs then src_Call src name args w
          else (Inl (unknownTool ''%w: %q (filtered)'' name), w))"

subsection \<open>Aggregation\<close>

record toolOwner =
  ow_SourceID :: string
  ow_Def :: toolDef

type_synonym claims = "string \<Rightarrow> toolOwner list"
type_synonym resolver = "string \<Rightarrow> toolOwner list \<Rightarrow> toolArgs \<Rightarrow> goerr + string"

record 'w multiSource =
  ms_order :: "string list"
  ms_sources :: "string \<Rightarrow> 'w toolSource option"
  ms_resolver :: "resolver option"
  ms_index :: "(claims \<times> string list) option"

definition newMultiSource :: "resolver option \<Rightarrow> 'w multiSource" where
  "newMultiSource r = \<lparr>ms_order = [], ms_sources = Map.empty, ms_resolver = r, ms_index = None\<rparr>"

definition multiAdd :: "string \<Rightarrow> 'w toolSource \<Rightarrow> 'w multiSource \<Rightarrow> goerr option \<times> 'w multiSource" where
  "multiAdd sid src m =
     (if strContains sid ''/'' then
        (Some (Errorf ''agent: source id %q must not contain %q'' [sid, ''/''] None), m)
      else if ms_sources m sid \<noteq> None then
        (Some (Errorf ''agent: source %q already added'' [sid] None), m)
      else (None, m\<lparr>ms_sources := (ms_sources m)(sid \<mapsto> src), ms_order := ms_order m @ [sid], ms_index := None\<rparr>))"

definition multiInvalidate :: "'w multiSource \<Rightarrow> 'w multiSource" where
  "multiInvalidate m = m\<lparr>ms_index := None\<rparr>"

definition multiRemove :: "string \<Rightarrow> 'w multiSource \<Rightarrow> 'w multiSource" where
  "multiRemove sid m =
     (if ms_sources m sid = None then m
      else m\<lparr>ms_sources := (ms_sources m)(sid := None), ms_order := remove1 sid (ms_order m), ms_index := None\<rparr>)"

definition qualifiedName :: "string \<Rightarrow> string \<Rightarrow> string" where
  "qualifiedName sid name = sid @ ''/'' @ name"

definition splitQualified :: "string \<Rightarrow> (string \<times> string) option" where
  "splitQualified name =
     (case strIndex name ''/'' of
        None \<Rightarrow> None
      | Some i \<Rightarrow> if i = 0 \<or> i = length name - 1 then None else Some (take i name, drop (i + 1) name))"

fun gatherDefs :: "string \<Rightarrow> toolDef list \<Rightarrow> claims \<times> string list \<Rightarrow> claims \<times> string list" where
  "gatherDefs sid [] (cl, names) = (cl, names)"
| "gatherDefs sid (d # ds) (cl, names) =
     (let owners = cl (td_Name d)
      in if list_ex (\<lambda>o'. ow_SourceID o' = sid) owners then gatherDefs sid ds (cl, names)
         else gatherDefs sid ds
                (cl(td_Name d := owners @ [\<lparr>ow_SourceID = sid, ow_Def = d\<rparr>]),
                 if owners = [] then names @ [td_Name d] else names))"

text \<open>A source that is in the order but not in the map would be a nil interface call.\<close>

fun gatherLoop ::
  "'w multiSource \<Rightarrow> 'w \<Rightarrow> string list \<Rightarrow> claims \<times> string list \<Rightarrow> goerr + (claims \<times> string list)" where
  "gatherLoop m w [] acc = Inr acc"
| "gatherLoop m w (sid # sids) acc =
     (case ms_sources m sid of
        None \<Rightarrow> Inl (ErrNew ''nil source'')
      | Some src \<Rightarrow>
          (case src_Tools src w of
             Inl e \<Rightarrow> Inl (Errorf ''agent: listing tools from source %q: %w'' [sid] (Some e))
           | Inr defs \<Rightarrow> gatherLoop m w sids (gatherDefs sid defs acc)))"

definition gatherLocked :: "'w multiSource \<Rightarrow> 'w \<Rightarrow> goerr + (claims \<times> string list)" where
  "gatherLocked m w =
     (case gatherLoop m w (ms_order m) (\<lambda>_. [], []) of
        Inl e \<Rightarrow> Inl e
      | Inr (cl, names) \<Rightarrow> Inr (\<lambda>n. sort_key ow_SourceID (cl n), names))"

definition indexLocked ::
  "'w multiSource \<Rightarrow> 'w \<Rightarrow> (goerr + (claims \<times> string list)) \<times> 'w multiSource" where
  "indexLocked m w =
     (case ms_index m of
        Some ix \<Rightarrow> (Inr ix, m)
      | None \<Rightarrow>
          (case gatherLocked m w of
             Inl e \<Rightarrow> (Inl e, m)
           | Inr ix \<Rightarrow> (Inr ix, m\<lparr>ms_index := Some ix\<rparr>)))"

definition ownedDefs :: "string \<Rightarrow> toolOwner list \<Rightarrow> toolDef list" where
  "ownedDefs name owners =
     (case owners of
        [o'] \<Rightarrow> [ow_Def o']
      | _ \<Rightarrow> map (\<lambda>o'. (ow_Def o')\<lparr>td_Name := qualifiedName (ow_SourceID o') name\<rparr>) owners)"

text \<open>\<^verbatim>\<open>Tools\<close>, with the collisions it notifies.\<close>

definition multiTools ::
  "'w multiSource \<Rightarrow> 'w \<Rightarrow> (goerr + toolDef list) \<times> (string \<times> string list) list \<times> 'w multiSource" where
  "multiTools m w =
     (case indexLocked m w of
        (Inl e, m') \<Rightarrow> (Inl e, [], m')
      | (Inr (cl, names), m') \<Rightarrow>
          (Inr (concat (map (\<lambda>n. ownedDefs n (cl n)) names)),
           map (\<lambda>n. (n, map ow_SourceID (cl n))) (filter (\<lambda>n. length (cl n) \<noteq> 1) names), m'))"

definition resolveLocked ::
  "'w multiSource \<Rightarrow> claims \<Rightarrow> string \<Rightarrow> toolArgs \<Rightarrow> goerr + (string \<times> string)" where
  "resolveLocked m cl name args =
     (case cl name of
        [o'] \<Rightarrow> Inr (ow_SourceID o', name)
      | o1 # o2 # os \<Rightarrow>
          (case ms_resolver m of
             Some r \<Rightarrow>
               (case r name (o1 # o2 # os) args of
                  Inl e \<Rightarrow> Inl e
                | Inr sid \<Rightarrow>
                    if ms_sources m sid \<noteq> None then Inr (sid, name)
                    else Inl (Errorf ''agent: resolver returned unknown source %q for tool %q'' [sid, name] None))
           | None \<Rightarrow>
               Inl (Errorf ''agent: tool %q is ambiguous; use one of: %s''
                 [name, strJoin (map (\<lambda>o'. qualifiedName (ow_SourceID o') name) (o1 # o2 # os)) '', ''] None))
      | [] \<Rightarrow>
          (case splitQualified name of
             Some (sid, bare) \<Rightarrow>
               if ms_sources m sid \<noteq> None \<and> list_ex (\<lambda>o'. ow_SourceID o' = sid) (cl bare)
               then Inr (sid, bare) else Inl (unknownTool ''%w: %q'' name)
           | None \<Rightarrow> Inl (unknownTool ''%w: %q'' name)))"

text \<open>
  The resolution \<^verbatim>\<open>Call\<close> and \<^verbatim>\<open>OwnerOf\<close> share: on an unknown name, one fresh gather and a second
  try. The first component is an error of the first listing; the second the resolution.
\<close>

definition resolveFresh ::
  "'w multiSource \<Rightarrow> string \<Rightarrow> toolArgs \<Rightarrow> 'w \<Rightarrow> (goerr + (goerr + (string \<times> string))) \<times> bool \<times> 'w multiSource" where
  "resolveFresh m name args w =
     (case indexLocked m w of
        (Inl e, m1) \<Rightarrow> (Inl e, False, m1)
      | (Inr (cl, _), m1) \<Rightarrow>
          (case resolveLocked m1 cl name args of
             Inr t \<Rightarrow> (Inr (Inr t), False, m1)
           | Inl e \<Rightarrow>
               if errors_is e ErrUnknownTool
               then (case indexLocked (m1\<lparr>ms_index := None\<rparr>) w of
                       (Inr (cl2, _), m2) \<Rightarrow> (Inr (resolveLocked m2 cl2 name args), False, m2)
                     | (Inl _, m2) \<Rightarrow> (Inr (Inl e), True, m2))
               else (Inr (Inl e), False, m1)))"

definition multiCall ::
  "'w multiSource \<Rightarrow> string \<Rightarrow> toolArgs \<Rightarrow> 'w \<Rightarrow> (callResult \<times> 'w) \<times> 'w multiSource" where
  "multiCall m name args w =
     (case resolveFresh m name args w of
        (Inl e, _, m') \<Rightarrow> ((Inl e, w), m')
      | (Inr (Inl e), _, m') \<Rightarrow> ((Inl e, w), m')
      | (Inr (Inr (sid, bare)), _, m') \<Rightarrow>
          (case ms_sources m' sid of
             Some src \<Rightarrow> (src_Call src bare args w, m')
           | None \<Rightarrow> ((Inl (ErrNew ''nil source''), w), m')))"

definition multiOwnerOf ::
  "'w multiSource \<Rightarrow> string \<Rightarrow> toolArgs \<Rightarrow> 'w \<Rightarrow> string option \<times> 'w multiSource" where
  "multiOwnerOf m name args w =
     (case resolveFresh m name args w of
        (Inr (Inr (sid, _)), False, m') \<Rightarrow> (Some sid, m')
      | (_, _, m') \<Rightarrow> (None, m'))"

text \<open>\<^verbatim>\<open>SourceTools\<close>: \<open>None\<close> is a source that is not registered.\<close>

definition multiSourceTools :: "'w multiSource \<Rightarrow> string \<Rightarrow> 'w \<Rightarrow> (goerr + toolDef list) option" where
  "multiSourceTools m sid w = map_option (\<lambda>src. src_Tools src w) (ms_sources m sid)"

subsection \<open>The contract of a tool source\<close>

text \<open>
  What \<^verbatim>\<open>src/toolsource.go\<close> promises its callers: a name the source does not offer is refused with an
  error that is \<^verbatim>\<open>ErrUnknownTool\<close>, and the refusal has no effect.
\<close>

locale tool_source =
  fixes inv :: "'s \<Rightarrow> bool"
    and tools :: "'s \<Rightarrow> 'w \<Rightarrow> goerr + toolDef list"
    and call :: "'s \<Rightarrow> string \<Rightarrow> toolArgs \<Rightarrow> 'w \<Rightarrow> callResult \<times> 'w"
  assumes unknown: "inv s \<Longrightarrow> tools s w = Inr defs \<Longrightarrow> name \<notin> td_Name ` set defs \<Longrightarrow>
      \<exists>e. call s name args w = (Inl e, w) \<and> errors_is e ErrUnknownTool"
begin

lemma effect_offered:
  assumes "inv s" "tools s w = Inr defs" "snd (call s name args w) \<noteq> w"
  shows "name \<in> td_Name ` set defs"
  using unknown [OF assms(1,2), of name args] assms(3) by fastforce

lemma result_offered:
  assumes "inv s" "tools s w = Inr defs" "fst (call s name args w) = Inr r"
  shows "name \<in> td_Name ` set defs"
  using unknown [OF assms(1,2), of name args] assms(3) by fastforce

end

definition funcInv :: "'w funcSource \<Rightarrow> bool" where
  "funcInv s \<longleftrightarrow> dom (fs_handlers s) = td_Name ` set (fs_defs s) \<and> distinct (map td_Name (fs_defs s))"

lemma errors_is_unknownTool [simp]: "errors_is (unknownTool f n) ErrUnknownTool"
  by (simp add: unknownTool_def)

lemma funcInv_new: "funcInv newFuncSource"
  by (simp add: funcInv_def newFuncSource_def)

lemma funcInv_add: "funcInv s \<Longrightarrow> funcInv (snd (addToolFunc d f s))"
  by (force simp: funcInv_def addToolFunc_def)

interpretation funcs: tool_source funcInv funcTools funcCall
proof
  fix s :: "'w funcSource" and w defs name args
  assume "funcInv s" "funcTools s w = Inr defs" "name \<notin> td_Name ` set defs"
  then have "fs_handlers s name = None"
    by (auto simp: funcInv_def funcTools_def)
  then show "\<exists>e. funcCall s name args w = (Inl e, w) \<and> errors_is e ErrUnknownTool"
    by (simp add: funcCall_def)
qed

interpretation filtered: tool_source "\<lambda>_. True"
    "\<lambda>(keep, src). filterTools keep src" "\<lambda>(keep, src). filterCall keep src"
proof
  fix s :: "(toolDef \<Rightarrow> bool) \<times> 'w toolSource" and w defs name args
  assume "(case s of (keep, src) \<Rightarrow> filterTools keep src) w = Inr defs" "name \<notin> td_Name ` set defs"
  then show "\<exists>e. (case s of (keep, src) \<Rightarrow> filterCall keep src) name args w = (Inl e, w) \<and> errors_is e ErrUnknownTool"
    by (cases s) (auto simp: filterCall_def list_ex_iff)
qed

subsection \<open>Qualified names\<close>

lemma strIndex_slash: "CHR ''/'' \<notin> set s \<Longrightarrow> strIndex (s @ ''/'' @ n) ''/'' = Some (length s)"
  by (induction s) (auto simp: hasPrefix_iff)

lemma splitQualified_qualifiedName:
  "CHR ''/'' \<notin> set sid \<Longrightarrow> sid \<noteq> [] \<Longrightarrow> name \<noteq> [] \<Longrightarrow>
   splitQualified (qualifiedName sid name) = Some (sid, name)"
  unfolding splitQualified_def qualifiedName_def by (subst strIndex_slash) auto

lemma qualifiedName_inject:
  "CHR ''/'' \<notin> set s1 \<Longrightarrow> CHR ''/'' \<notin> set s2 \<Longrightarrow>
   qualifiedName s1 n1 = qualifiedName s2 n2 \<longleftrightarrow> s1 = s2 \<and> n1 = n2"
proof (induction s1 arbitrary: s2)
  case Nil
  then show ?case by (cases s2) (auto simp: qualifiedName_def)
next
  case (Cons c s1)
  then show ?case by (cases s2) (auto simp: qualifiedName_def)
qed

subsection \<open>The index\<close>

definition claimsOk :: "(toolOwner \<Rightarrow> bool) \<Rightarrow> claims \<times> string list \<Rightarrow> bool" where
  "claimsOk P ix \<longleftrightarrow>
     distinct (snd ix) \<and> (\<forall>n. n \<in> set (snd ix) \<longleftrightarrow> fst ix n \<noteq> []) \<and>
     (\<forall>n. distinct (map ow_SourceID (fst ix n))) \<and>
     (\<forall>n. \<forall>ow\<in>set (fst ix n). td_Name (ow_Def ow) = n \<and> P ow)"

lemma gatherDefs_ok:
  assumes "claimsOk P (cl, names)" "\<And>d. d \<in> set ds \<Longrightarrow> P \<lparr>ow_SourceID = sid, ow_Def = d\<rparr>"
  shows "claimsOk P (gatherDefs sid ds (cl, names))"
  using assms
proof (induction ds arbitrary: cl names)
  case (Cons d ds)
  have "claimsOk P (cl(td_Name d := cl (td_Name d) @ [\<lparr>ow_SourceID = sid, ow_Def = d\<rparr>]),
          if cl (td_Name d) = [] then names @ [td_Name d] else names)"
    if "\<not> list_ex (\<lambda>o'. ow_SourceID o' = sid) (cl (td_Name d))"
    using that Cons.prems by (auto simp: claimsOk_def list_ex_iff)
  then show ?case using Cons by (auto simp: Let_def)
qed simp

lemma gatherDefs_mono:
  "ow \<in> set (cl n) \<Longrightarrow> ow \<in> set (fst (gatherDefs sid ds (cl, names)) n)"
proof (induction ds arbitrary: cl names)
  case (Cons a ds)
  show ?case using Cons.prems by (auto simp: Let_def intro!: Cons.IH)
qed simp

lemma gatherDefs_claims:
  "d \<in> set ds \<Longrightarrow> \<exists>ow\<in>set (fst (gatherDefs sid ds (cl, names)) (td_Name d)). ow_SourceID ow = sid"
proof (induction ds arbitrary: cl names)
  case (Cons a ds)
  show ?case
  proof (cases "d \<in> set ds")
    case True
    then show ?thesis using Cons.IH by (simp add: Let_def)
  next
    case False
    then have [simp]: "d = a" using Cons.prems by simp
    let ?o = "\<lparr>ow_SourceID = sid, ow_Def = a\<rparr>"
    show ?thesis
    proof (cases "\<exists>ow\<in>set (cl (td_Name a)). ow_SourceID ow = sid")
      case True
      then show ?thesis by (auto simp: Let_def list_ex_iff intro: gatherDefs_mono)
    next
      case False
      then show ?thesis
        by (auto simp: Let_def list_ex_iff intro!: bexI [of _ ?o] gatherDefs_mono)
    qed
  qed
qed simp

lemma gatherLoop_ok:
  assumes "gatherLoop m w sids acc = Inr ix" "claimsOk P acc"
    and "\<And>sid src ds d. sid \<in> set sids \<Longrightarrow> ms_sources m sid = Some src \<Longrightarrow> src_Tools src w = Inr ds \<Longrightarrow>
          d \<in> set ds \<Longrightarrow> P \<lparr>ow_SourceID = sid, ow_Def = d\<rparr>"
  shows "claimsOk P ix"
  using assms
proof (induction sids arbitrary: acc)
  case (Cons sid sids)
  then obtain src ds where s: "ms_sources m sid = Some src" "src_Tools src w = Inr ds"
    and g: "gatherLoop m w sids (gatherDefs sid ds acc) = Inr ix"
    by (auto split: option.splits sum.splits)
  have "claimsOk P (gatherDefs sid ds acc)"
    using Cons.prems(2,3) s by (cases acc) (auto intro!: gatherDefs_ok)
  then show ?case using Cons.IH [OF g] Cons.prems(3) by simp
qed simp

lemma gatherLoop_mono:
  "gatherLoop m w sids (cl, names) = Inr ix \<Longrightarrow> ow \<in> set (cl n) \<Longrightarrow> ow \<in> set (fst ix n)"
proof (induction sids arbitrary: cl names)
  case (Cons sid sids)
  then obtain ds where g: "gatherLoop m w sids (gatherDefs sid ds (cl, names)) = Inr ix"
    by (auto split: option.splits sum.splits)
  obtain cl' names' where e: "gatherDefs sid ds (cl, names) = (cl', names')" by fastforce
  show ?case
    using Cons.IH [of cl' names'] g gatherDefs_mono [of ow cl n sid ds names] Cons.prems(2) e by simp
qed auto

lemma gatherLoop_claims:
  assumes "gatherLoop m w sids acc = Inr ix" "sid \<in> set sids" "ms_sources m sid = Some src"
    "src_Tools src w = Inr ds" "d \<in> set ds"
  shows "\<exists>ow\<in>set (fst ix (td_Name d)). ow_SourceID ow = sid"
  using assms
proof (induction sids arbitrary: acc)
  case (Cons a sids)
  then obtain src' ds' where s: "ms_sources m a = Some src'" "src_Tools src' w = Inr ds'"
    and g: "gatherLoop m w sids (gatherDefs a ds' acc) = Inr ix"
    by (auto split: option.splits sum.splits)
  show ?case
  proof (cases "a = sid")
    case True
    then have [simp]: "ds' = ds" using s Cons.prems by simp
    obtain cl names where acc: "acc = (cl, names)" by fastforce
    obtain cl' names' where e: "gatherDefs a ds acc = (cl', names')" by fastforce
    obtain ow where "ow \<in> set (cl' (td_Name d))" "ow_SourceID ow = sid"
      using gatherDefs_claims [OF Cons.prems(5), of a cl names] e acc True by auto
    then show ?thesis using gatherLoop_mono [of m w sids cl' names' ix] g e by auto
  next
    case False
    then show ?thesis using Cons.IH [OF g] Cons.prems by simp
  qed
qed simp

text \<open>What a gather over the sources' current listings delivers.\<close>

definition listed :: "'w multiSource \<Rightarrow> 'w \<Rightarrow> toolOwner \<Rightarrow> bool" where
  "listed m w ow \<longleftrightarrow> (\<exists>src ds. ms_sources m (ow_SourceID ow) = Some src \<and> src_Tools src w = Inr ds \<and> ow_Def ow \<in> set ds)"

lemma claimsOk_sort: "claimsOk P (\<lambda>n. sort_key f (cl n), names) \<longleftrightarrow> claimsOk P (cl, names)"
proof -
  have "distinct (map g (sort_key f xs)) \<longleftrightarrow> distinct (map g xs)" for g :: "toolOwner \<Rightarrow> string" and xs
    by (metis distinct_map distinct_sort set_sort)
  moreover have "sort_key f xs = [] \<longleftrightarrow> xs = []" for xs
    by (metis set_empty set_sort)
  ultimately show ?thesis by (simp add: claimsOk_def)
qed

lemma gatherLocked_ok: "gatherLocked m w = Inr ix \<Longrightarrow> claimsOk (listed m w) ix"
proof -
  assume "gatherLocked m w = Inr ix"
  then obtain cl names where g: "gatherLoop m w (ms_order m) (\<lambda>_. [], []) = Inr (cl, names)"
    and ix: "ix = (\<lambda>n. sort_key ow_SourceID (cl n), names)"
    by (auto simp: gatherLocked_def split: sum.splits prod.splits)
  have "claimsOk (listed m w) (cl, names)"
    by (rule gatherLoop_ok [OF g]) (auto simp: claimsOk_def listed_def)
  then show ?thesis by (simp add: ix claimsOk_sort)
qed

lemma gatherLocked_claims:
  assumes "gatherLocked m w = Inr ix" "sid \<in> set (ms_order m)" "ms_sources m sid = Some src"
    "src_Tools src w = Inr ds" "d \<in> set ds"
  shows "\<exists>ow\<in>set (fst ix (td_Name d)). ow_SourceID ow = sid"
  using assms gatherLoop_claims [of m w "ms_order m" "(\<lambda>_. [], [])" _ sid src ds d]
  by (auto simp: gatherLocked_def split: sum.splits prod.splits)

definition multiInv :: "'w multiSource \<Rightarrow> bool" where
  "multiInv m \<longleftrightarrow> distinct (ms_order m) \<and> set (ms_order m) = dom (ms_sources m) \<and>
     (\<forall>sid\<in>dom (ms_sources m). CHR ''/'' \<notin> set sid)"

lemma multiInv_new: "multiInv (newMultiSource r)"
  by (simp add: multiInv_def newMultiSource_def)

lemma strIndex_slash_None: "strIndex s ''/'' = None \<longleftrightarrow> CHR ''/'' \<notin> set s"
  by (induction s) (auto simp: hasPrefix_iff)

lemma multiInv_add: "multiInv m \<Longrightarrow> multiInv (snd (multiAdd sid src m))"
  by (auto simp: multiInv_def multiAdd_def strContains_def strIndex_slash_None)

lemma multiInv_remove: "multiInv m \<Longrightarrow> multiInv (multiRemove sid m)"
  by (auto simp: multiInv_def multiRemove_def)

lemma multiInv_index: "multiInv m \<Longrightarrow> multiInv (m\<lparr>ms_index := ix\<rparr>)"
  by (simp add: multiInv_def)

subsection \<open>Routing\<close>

definition cleanName :: "string \<Rightarrow> bool" where
  "cleanName n \<longleftrightarrow> n \<noteq> [] \<and> CHR ''/'' \<notin> set n"

lemma not_clean_qualified [simp]: "\<not> cleanName (qualifiedName sid n)"
  by (simp add: cleanName_def qualifiedName_def)

lemma resolve_single:
  "cl n = [ow] \<Longrightarrow> resolveLocked m cl n args = Inr (ow_SourceID ow, n)"
  by (simp add: resolveLocked_def)

lemma resolve_qualified:
  assumes "claimsOk P (cl, names)" "\<forall>n\<in>set names. cleanName n" "ow \<in> set (cl n)"
    and "ms_sources m (ow_SourceID ow) \<noteq> None" "cleanName (ow_SourceID ow)"
  shows "resolveLocked m cl (qualifiedName (ow_SourceID ow) n) args = Inr (ow_SourceID ow, n)"
proof -
  have n: "cleanName n" using assms(1-3) by (auto simp: claimsOk_def)
  have "qualifiedName (ow_SourceID ow) n \<notin> set names" using assms(2) not_clean_qualified by blast
  then have "cl (qualifiedName (ow_SourceID ow) n) = []" using assms(1) by (simp add: claimsOk_def)
  moreover have "splitQualified (qualifiedName (ow_SourceID ow) n) = Some (ow_SourceID ow, n)"
    using n assms(5) by (intro splitQualified_qualifiedName) (simp_all add: cleanName_def)
  ultimately show ?thesis
    using assms(3,4) by (auto simp: resolveLocked_def list_ex_iff)
qed

lemma multiCall_cached:
  assumes "ms_index m = Some (cl, names)" "resolveLocked m cl name args = Inr (sid, bare)"
    and "ms_sources m sid = Some src"
  shows "multiCall m name args w = (src_Call src bare args w, m)"
  using assms by (simp add: multiCall_def resolveFresh_def indexLocked_def)

definition offeredName :: "claims \<Rightarrow> toolOwner \<Rightarrow> string" where
  "offeredName cl ow = (let n = td_Name (ow_Def ow) in
     if length (cl n) = 1 then n else qualifiedName (ow_SourceID ow) n)"

lemma ownedDefs_names:
  assumes "claimsOk P (cl, names)"
  shows "map td_Name (ownedDefs n (cl n)) = map (offeredName cl) (cl n)"
proof -
  have "td_Name (ow_Def ow) = n" if "ow \<in> set (cl n)" for ow
    using assms that by (simp add: claimsOk_def)
  then show ?thesis
    by (auto simp: ownedDefs_def offeredName_def Let_def split: list.split)
qed

lemma offeredName_inject:
  assumes "claimsOk P (cl, names)" "\<forall>n\<in>set names. cleanName n"
    and "ow1 \<in> set (cl n1)" "ow2 \<in> set (cl n2)"
    and "CHR ''/'' \<notin> set (ow_SourceID ow1)" "CHR ''/'' \<notin> set (ow_SourceID ow2)"
    and "offeredName cl ow1 = offeredName cl ow2"
  shows "n1 = n2 \<and> ow1 = ow2"
proof -
  have N: "td_Name (ow_Def ow1) = n1" "td_Name (ow_Def ow2) = n2" "cleanName n1" "cleanName n2"
    using assms(1-4) by (auto simp: claimsOk_def)
  have d: "distinct (map ow_SourceID (cl n1))" using assms(1) by (simp add: claimsOk_def)
  have q: "qualifiedName s n \<noteq> n1" "n1 \<noteq> qualifiedName s n" "qualifiedName s n \<noteq> n2" "n2 \<noteq> qualifiedName s n" for s n
    using N(3,4) by auto
  have "n1 = n2 \<and> (length (cl n1) = 1 \<or> ow_SourceID ow1 = ow_SourceID ow2)"
    using assms(7) qualifiedName_inject [OF assms(5,6)]
    by (simp add: offeredName_def Let_def N(1,2) q split: if_splits)
  then show ?thesis
    using assms(3,4) d by (auto simp: distinct_map inj_on_def length_Suc_conv)
qed

lemma distinct_concat_map_keys:
  "distinct ns \<Longrightarrow> \<forall>n\<in>set ns. distinct (map f (g n)) \<Longrightarrow>
   \<forall>n1\<in>set ns. \<forall>n2\<in>set ns. \<forall>x\<in>set (g n1). \<forall>y\<in>set (g n2). f x = f y \<longrightarrow> n1 = n2 \<Longrightarrow>
   distinct (concat (map (\<lambda>n. map f (g n)) ns))"
proof (induction ns)
  case (Cons a ns)
  have "set (map f (g a)) \<inter> set (concat (map (\<lambda>n. map f (g n)) ns)) = {}"
    using Cons.prems by fastforce
  moreover have "distinct (concat (map (\<lambda>n. map f (g n)) ns))"
    using Cons.prems by (intro Cons.IH) auto
  ultimately show ?case using Cons.prems by simp
qed simp

definition routesTo :: "'w multiSource \<Rightarrow> toolDef \<Rightarrow> toolOwner \<Rightarrow> bool" where
  "routesTo m d ow \<longleftrightarrow> (\<exists>src. ms_sources m (ow_SourceID ow) = Some src \<and>
     (\<forall>args w. multiCall m (td_Name d) args w = (src_Call src (td_Name (ow_Def ow)) args w, m)))"

lemma routesTo_offered:
  assumes "ms_index m = Some (cl, names)" "claimsOk P (cl, names)" "\<forall>n\<in>set names. cleanName n"
    and "ow \<in> set (cl n)" "ms_sources m (ow_SourceID ow) \<noteq> None" "cleanName (ow_SourceID ow)"
    and "td_Name d = offeredName cl ow"
  shows "routesTo m d ow"
proof -
  have n: "td_Name (ow_Def ow) = n" using assms(2,4) by (simp add: claimsOk_def)
  obtain src where src: "ms_sources m (ow_SourceID ow) = Some src" using assms(5) by blast
  have "resolveLocked m cl (td_Name d) args = Inr (ow_SourceID ow, n)" for args
  proof (cases "length (cl n) = 1")
    case True
    then have "cl n = [ow]" using assms(4) by (auto simp: length_Suc_conv)
    then show ?thesis using assms(7) n by (simp add: offeredName_def resolve_single)
  next
    case False
    then show ?thesis
      using assms(7) n resolve_qualified [OF assms(2-6), of args] by (simp add: offeredName_def)
  qed
  then show ?thesis
    using multiCall_cached [OF assms(1) _ src] src n by (auto simp: routesTo_def)
qed


definition funcAsSource :: "'w funcSource \<Rightarrow> 'w toolSource" where
  "funcAsSource s = \<lparr>src_Tools = funcTools s, src_Call = funcCall s\<rparr>"

definition plainDef :: "string \<Rightarrow> toolDef" where
  "plainDef n = \<lparr>td_Name = n, td_Description = [], td_Annotations = []\<rparr>"

definition sayer :: "string \<Rightarrow> string list \<Rightarrow> unit toolSource" where
  "sayer who names = funcAsSource
     (fold (\<lambda>n s. snd (addToolFunc (plainDef n) (wrapFunc Inr (\<lambda>_ w. (Inr who, w))) s)) names newFuncSource)"

definition sayers :: "(string \<times> string list) list \<Rightarrow> unit multiSource" where
  "sayers xs = fold (\<lambda>(sid, names) m. snd (multiAdd sid (sayer sid names) m)) xs (newMultiSource None)"

lemmas sayer_defs = sayers_def sayer_def funcAsSource_def funcTools_def funcCall_def addToolFunc_def newFuncSource_def
  wrapFunc_def multiAdd_def newMultiSource_def strContains_def plainDef_def hasPrefix_iff

lemmas multi_run_defs = multiTools_def indexLocked_def gatherLocked_def ownedDefs_def qualifiedName_def
  insort_key.simps sort_key_def Let_def

lemma sayers_inv: "multiInv (sayers xs)"
proof -
  have "multiInv m \<Longrightarrow> multiInv (fold (\<lambda>(sid, names) m. snd (multiAdd sid (sayer sid names) m)) xs m)" for m
    by (induction xs arbitrary: m) (auto intro: multiInv_add)
  then show ?thesis by (simp add: sayers_def multiInv_new)
qed


text \<open>
  A call under a name the cached index does not know triggers one fresh gather, so a tool some
  source began to list after the index was built, and which only that source lists, is reached at the
  first call, and the fresh index is kept.
\<close>

lemma stale_index_recovers:
  assumes "multiInv m" "ms_index m = Some (cl, names)" "resolveLocked m cl name args = Inl e" "errors_is e ErrUnknownTool"
    and "gatherLocked m w = Inr ix" "ms_sources m sid = Some src" "src_Tools src w = Inr ds" "name \<in> td_Name ` set ds"
    and "\<forall>ow. listed m w ow \<and> td_Name (ow_Def ow) = name \<longrightarrow> ow_SourceID ow = sid"
  shows "multiCall m name args w = (src_Call src name args w, m\<lparr>ms_index := Some ix\<rparr>)"
proof -
  have ok: "claimsOk (listed m w) ix" by (rule gatherLocked_ok [OF assms(5)])
  have "sid \<in> set (ms_order m)" using assms(1,6) by (auto simp: multiInv_def)
  then obtain ow where ow: "ow \<in> set (fst ix name)" "ow_SourceID ow = sid"
    using gatherLocked_claims [OF assms(5) _ assms(6,7)] assms(8) by auto
  have "ow_SourceID ow' = sid" if "ow' \<in> set (fst ix name)" for ow'
    using that ok assms(9) by (auto simp: claimsOk_def)
  then have "set (map ow_SourceID (fst ix name)) = {sid}" using ow by auto
  moreover have "distinct (map ow_SourceID (fst ix name))" using ok by (simp add: claimsOk_def)
  ultimately have "length (fst ix name) = 1"
    by (metis card.empty card.insert distinct_card empty_iff finite.emptyI length_map One_nat_def)
  then have one: "fst ix name = [ow]" using ow by (auto simp: length_Suc_conv)
  have g: "gatherLocked (m\<lparr>ms_index := None\<rparr>) w = gatherLocked m w"
  proof -
    have "gatherLoop (m\<lparr>ms_index := None\<rparr>) w xs a = gatherLoop m w xs a" for xs a
      by (induction xs arbitrary: a) (auto split: option.splits sum.splits)
    then show ?thesis by (simp add: gatherLocked_def)
  qed
  show ?thesis
    using assms(2-6) g one ow(2)
    by (cases ix) (simp add: multiCall_def resolveFresh_def indexLocked_def resolve_single)
qed

theorem stale_index_recovers_witness:
  "multiCall ((sayers [(''fs'', [''read''])])\<lparr>ms_index := Some (\<lambda>_. [], [])\<rparr>) ''read'' [] () =
     (src_Call (sayer ''fs'' [''read'']) ''read'' [] (),
      (sayers [(''fs'', [''read''])])\<lparr>ms_index := Some ((\<lambda>_. [])(''read'' := [\<lparr>ow_SourceID = ''fs'', ow_Def = plainDef ''read''\<rparr>]), [''read''])\<rparr>)"
proof -
  let ?m = "(sayers [(''fs'', [''read''])])\<lparr>ms_index := Some (\<lambda>_. [], [])\<rparr>"
  let ?ix = "((\<lambda>_. [])(''read'' := [\<lparr>ow_SourceID = ''fs'', ow_Def = plainDef ''read''\<rparr>]), [''read''])"
  have a: "ms_index ?m = Some (\<lambda>_. [], [])"
    "resolveLocked ?m (\<lambda>_. []) ''read'' [] = Inl (unknownTool ''%w: %q'' ''read'')"
    by (simp_all add: sayer_defs resolveLocked_def splitQualified_def)
  have g: "gatherLocked ?m () = Inr ?ix"
    by (auto simp: sayer_defs multi_run_defs)
  have s: "ms_sources ?m ''fs'' = Some (sayer ''fs'' [''read''])"
    "src_Tools (sayer ''fs'' [''read'']) () = Inr [plainDef ''read'']"
    by (simp_all add: sayer_defs)
  have o: "\<forall>ow. listed ?m () ow \<and> td_Name (ow_Def ow) = ''read'' \<longrightarrow> ow_SourceID ow = ''fs''"
    by (simp add: listed_def sayer_defs)
  show ?thesis
    using stale_index_recovers [OF multiInv_index [OF sayers_inv] a errors_is_unknownTool g s _ o]
    by (simp add: plainDef_def)
qed

text \<open>
  The routing needs its hypothesis on tool names. When a source lists a tool whose own name has the
  form \<^verbatim>\<open>source/tool\<close> of a colliding pair, the list offers that name twice and both copies reach the first
  source; the colliding tool is unreachable.
\<close>

lemma slash_tool_name_shadows_qualified:
  "\<exists>defs notes m'. multiTools (sayers [(''x'', [''s/t'']), (''s'', [''t'']), (''r'', [''t''])]) () = (Inr defs, notes, m') \<and>
     map td_Name defs = [''s/t'', ''r/t'', ''s/t''] \<and>
     (\<forall>args. fst (multiCall m' ''s/t'' args ()) = (Inr (Some \<lparr>tr_Content = [\<lparr>ct_Type = ''text'', ct_Text = ''x''\<rparr>],
        tr_StructuredContent = None, tr_IsError = False\<rparr>), ()))"
  by (simp add: sayer_defs multi_run_defs less_list_code multiCall_def resolveFresh_def resolveLocked_def)

end
