(* ===== verification/Budget.thy ===== *)
theory Budget
  imports AgentTypes
begin

text \<open>
  The budgets a whole agent tree shares: \<^verbatim>\<open>src/tree_budget.go\<close> (steps and tokens), the sub-agent call
  budget and ancestry path of \<^verbatim>\<open>src/agent_source.go\<close>, and the run scope that reports them,
  \<^verbatim>\<open>src/runscope.go\<close>. The counters are atomics that many runners use at once, so besides the
  operations there is a step relation in which each atomic access of \<^verbatim>\<open>consumeStep\<close> is a step of its
  own and any number of agents interleave.
\<close>

record treeBudget =
  tb_MaxSteps :: int
  tb_MaxTokens :: int

definition treeBudgetZero :: "treeBudget \<Rightarrow> bool" where
  "treeBudgetZero b \<longleftrightarrow> tb_MaxSteps b \<le> 0 \<and> tb_MaxTokens b \<le> 0"

record treeBudgetState =
  stepsLeft :: int
  maxSteps :: int
  tokensUsed :: int
  maxTokens :: int

text \<open>\<^verbatim>\<open>WithTreeBudget\<close>: the state a context carries afterwards.\<close>

definition withTreeBudget :: "treeBudgetState option \<Rightarrow> treeBudget \<Rightarrow> treeBudgetState option" where
  "withTreeBudget ctx b =
     (if treeBudgetZero b then ctx
      else Some \<lparr>stepsLeft = tb_MaxSteps b, maxSteps = tb_MaxSteps b, tokensUsed = 0, maxTokens = tb_MaxTokens b\<rparr>)"

definition consumeStep :: "treeBudgetState option \<Rightarrow> bool \<times> treeBudgetState option" where
  "consumeStep st =
     (case st of
        None \<Rightarrow> (True, None)
      | Some s \<Rightarrow>
          if maxTokens s > 0 \<and> tokensUsed s \<ge> maxTokens s then (False, Some s)
          else if maxSteps s > 0
            then (let s' = s\<lparr>stepsLeft := stepsLeft s - 1\<rparr> in (\<not> stepsLeft s' < 0, Some s'))
          else (True, Some s))"

definition addTokens :: "treeBudgetState option \<Rightarrow> int \<Rightarrow> treeBudgetState option" where
  "addTokens st n =
     map_option (\<lambda>s. if maxTokens s > 0 \<and> n > 0 then s\<lparr>tokensUsed := tokensUsed s + n\<rparr> else s) st"

record treeUsage =
  StepsUsed :: int
  MaxSteps :: int
  TokensUsed :: int
  MaxTokens :: int

definition treeUsageOf :: "treeBudgetState option \<Rightarrow> treeUsage" where
  "treeUsageOf st =
     (case st of
        None \<Rightarrow> \<lparr>StepsUsed = 0, MaxSteps = 0, TokensUsed = 0, MaxTokens = 0\<rparr>
      | Some s \<Rightarrow>
          \<lparr>StepsUsed = (if maxSteps s > 0 then maxSteps s - stepsLeft s else 0),
           MaxSteps = maxSteps s,
           TokensUsed = (if maxTokens s > 0 then tokensUsed s else 0),
           MaxTokens = maxTokens s\<rparr>)"

subsection \<open>Agent path, call budget and run scope\<close>

type_synonym agentPath = "string list"

definition pathContains :: "agentPath \<Rightarrow> string \<Rightarrow> bool" where
  "pathContains p name \<longleftrightarrow> list_ex (\<lambda>h. h = name) p"

definition pathChild :: "agentPath \<Rightarrow> string \<Rightarrow> agentPath" where
  "pathChild p name = p @ [name]"

definition pathString :: "agentPath \<Rightarrow> string" where
  "pathString p = (if p = [] then [] else strJoin p ''/'')"

text \<open>The context values the scope reads: path, depth, call budget and tree budget.\<close>

record agentContext =
  cx_path :: agentPath
  cx_depth :: int
  cx_callBudget :: "int option"
  cx_tree :: "treeBudgetState option"

definition rootContext :: agentContext where
  "rootContext = \<lparr>cx_path = [], cx_depth = 0, cx_callBudget = None, cx_tree = None\<rparr>"

definition withAgentCallBudget :: "agentContext \<Rightarrow> int \<Rightarrow> agentContext" where
  "withAgentCallBudget ctx n = ctx\<lparr>cx_callBudget := Some n\<rparr>"

text \<open>\<^verbatim>\<open>b.Add(-1) < 0\<close> with the nil check of its callers: whether the call may go on.\<close>

definition takeCallBudget :: "agentContext \<Rightarrow> bool \<times> agentContext" where
  "takeCallBudget ctx =
     (case cx_callBudget ctx of
        None \<Rightarrow> (True, ctx)
      | Some b \<Rightarrow> (\<not> b - 1 < 0, ctx\<lparr>cx_callBudget := Some (b - 1)\<rparr>))"

record runScope =
  sc_Path :: agentPath
  sc_CallBudget :: int
  sc_Tree :: treeUsage

definition scopeFrom :: "agentContext \<Rightarrow> runScope" where
  "scopeFrom ctx = \<lparr>sc_Path = cx_path ctx,
                    sc_CallBudget = (case cx_callBudget ctx of None \<Rightarrow> -1 | Some b \<Rightarrow> b),
                    sc_Tree = treeUsageOf (cx_tree ctx)\<rparr>"

subsection \<open>Interleaved agents\<close>

text \<open>
  An agent is idle, or has passed the token check of \<^verbatim>\<open>consumeStep\<close>, or holds a granted step (it
  then calls the model and reports tokens), or was refused. \<open>granted\<close> counts the steps granted to the
  whole tree; it is a ghost variable.
\<close>

datatype agentPc = AgIdle | AgTokensOk | AgGranted | AgRefused

record budgetSys =
  bs_state :: treeBudgetState
  bs_pc :: "nat \<Rightarrow> agentPc"
  bs_granted :: nat

inductive budgetStep :: "budgetSys \<Rightarrow> budgetSys \<Rightarrow> bool" where
  token_refuse: "bs_pc s i = AgIdle \<Longrightarrow> maxTokens (bs_state s) > 0 \<Longrightarrow>
      tokensUsed (bs_state s) \<ge> maxTokens (bs_state s) \<Longrightarrow>
      budgetStep s (s\<lparr>bs_pc := (bs_pc s)(i := AgRefused)\<rparr>)"
| token_pass: "bs_pc s i = AgIdle \<Longrightarrow>
      \<not> (maxTokens (bs_state s) > 0 \<and> tokensUsed (bs_state s) \<ge> maxTokens (bs_state s)) \<Longrightarrow>
      budgetStep s (s\<lparr>bs_pc := (bs_pc s)(i := AgTokensOk)\<rparr>)"
| step_grant: "bs_pc s i = AgTokensOk \<Longrightarrow> maxSteps (bs_state s) > 0 \<Longrightarrow> \<not> stepsLeft (bs_state s) - 1 < 0 \<Longrightarrow>
      budgetStep s (s\<lparr>bs_state := (bs_state s)\<lparr>stepsLeft := stepsLeft (bs_state s) - 1\<rparr>,
                      bs_pc := (bs_pc s)(i := AgGranted), bs_granted := Suc (bs_granted s)\<rparr>)"
| step_refuse: "bs_pc s i = AgTokensOk \<Longrightarrow> maxSteps (bs_state s) > 0 \<Longrightarrow> stepsLeft (bs_state s) - 1 < 0 \<Longrightarrow>
      budgetStep s (s\<lparr>bs_state := (bs_state s)\<lparr>stepsLeft := stepsLeft (bs_state s) - 1\<rparr>,
                      bs_pc := (bs_pc s)(i := AgRefused)\<rparr>)"
| step_unbounded: "bs_pc s i = AgTokensOk \<Longrightarrow> \<not> maxSteps (bs_state s) > 0 \<Longrightarrow>
      budgetStep s (s\<lparr>bs_pc := (bs_pc s)(i := AgGranted), bs_granted := Suc (bs_granted s)\<rparr>)"
| report_tokens: "bs_pc s i = AgGranted \<Longrightarrow>
      budgetStep s (s\<lparr>bs_state := the (addTokens (Some (bs_state s)) n), bs_pc := (bs_pc s)(i := AgIdle)\<rparr>)"

inductive budgetReach :: "treeBudgetState \<Rightarrow> budgetSys \<Rightarrow> bool" for st where
  budget_start: "budgetReach st \<lparr>bs_state = st, bs_pc = (\<lambda>_. AgIdle), bs_granted = 0\<rparr>"
| budget_next: "budgetReach st s \<Longrightarrow> budgetStep s t \<Longrightarrow> budgetReach st t"

subsection \<open>Lemmas\<close>

text \<open>One agent alone: the two phases compose to \<^verbatim>\<open>consumeStep\<close>.\<close>

lemma consumeStep_phases:
  assumes "bs_pc s i = AgIdle"
  shows "\<exists>t. budgetStep\<^sup>*\<^sup>* s t \<and> Some (bs_state t) = snd (consumeStep (Some (bs_state s))) \<and>
           (bs_pc t i = AgGranted \<longleftrightarrow> fst (consumeStep (Some (bs_state s)))) \<and>
           bs_granted t = bs_granted s + (if fst (consumeStep (Some (bs_state s))) then 1 else 0)"
proof (cases "maxTokens (bs_state s) > 0 \<and> tokensUsed (bs_state s) \<ge> maxTokens (bs_state s)")
  case True
  then have "budgetStep s (s\<lparr>bs_pc := (bs_pc s)(i := AgRefused)\<rparr>)" using token_refuse [OF assms] by simp
  with True show ?thesis
    by (intro exI [of _ "s\<lparr>bs_pc := (bs_pc s)(i := AgRefused)\<rparr>"]) (auto simp: consumeStep_def)
next
  case False
  let ?s = "s\<lparr>bs_pc := (bs_pc s)(i := AgTokensOk)\<rparr>"
  have one: "budgetStep s ?s" using token_pass [OF assms False] .
  have pc: "bs_pc ?s i = AgTokensOk" by simp
  obtain t where t: "budgetStep ?s t" "Some (bs_state t) = snd (consumeStep (Some (bs_state s)))"
      "bs_pc t i = AgGranted \<longleftrightarrow> fst (consumeStep (Some (bs_state s)))"
      "bs_granted t = bs_granted s + (if fst (consumeStep (Some (bs_state s))) then 1 else 0)"
  proof (cases "maxSteps (bs_state s) > 0")
    case capped: True
    show thesis
    proof (cases "stepsLeft (bs_state s) - 1 < 0")
      case True
      with capped False step_refuse [OF pc] show thesis
        by (intro that) (auto simp: consumeStep_def Let_def)
    next
      case grant: False
      with capped False step_grant [OF pc] show thesis
        by (intro that) (auto simp: consumeStep_def Let_def)
    qed
  next
    case uncapped: False
    with False step_unbounded [OF pc] show thesis
      by (intro that) (auto simp: consumeStep_def Let_def)
  qed
  moreover have "budgetStep\<^sup>*\<^sup>* s t" using one t(1) by (meson converse_rtranclp_into_rtranclp r_into_rtranclp)
  ultimately show ?thesis by blast
qed

text \<open>Steps granted and steps left never exceed the cap; the caps themselves are constant.\<close>

definition budgetInv :: "treeBudgetState \<Rightarrow> budgetSys \<Rightarrow> bool" where
  "budgetInv st s \<longleftrightarrow> maxSteps (bs_state s) = maxSteps st \<and> maxTokens (bs_state s) = maxTokens st \<and>
     (maxSteps st > 0 \<longrightarrow> int (bs_granted s) + max 0 (stepsLeft (bs_state s)) \<le> max 0 (stepsLeft st))"

lemma budgetStep_inv: "budgetStep s t \<Longrightarrow> budgetInv st s \<Longrightarrow> budgetInv st t"
  by (induction rule: budgetStep.induct) (auto simp: budgetInv_def addTokens_def)

lemma budgetReach_inv: "budgetReach st s \<Longrightarrow> budgetInv st s"
  by (induction rule: budgetReach.induct) (auto simp: budgetInv_def [of st "\<lparr>bs_state = st, bs_pc = _, bs_granted = 0\<rparr>"] budgetStep_inv)

subsection \<open>Properties\<close>

text \<open>
  C8: under any interleaving of any number of agents, a tree budget with a step cap grants at most
  that many steps to the whole tree.
\<close>

theorem tree_budget_caps_steps:
  assumes "withTreeBudget ctx b = Some st" "0 < tb_MaxSteps b" "budgetReach st s"
  shows "int (bs_granted s) \<le> tb_MaxSteps b"
proof -
  have st: "maxSteps st = tb_MaxSteps b" "stepsLeft st = tb_MaxSteps b"
    using assms(1,2) by (auto simp: withTreeBudget_def treeBudgetZero_def split: if_splits)
  from budgetReach_inv [OF assms(3)] st assms(2) show ?thesis by (auto simp: budgetInv_def)
qed

theorem tree_budget_caps_steps_witness:
  "\<exists>st s. withTreeBudget None \<lparr>tb_MaxSteps = 1, tb_MaxTokens = 0\<rparr> = Some st \<and> budgetReach st s \<and>
     bs_granted s = 1 \<and> int (bs_granted s) \<le> 1"
proof -
  let ?b = "\<lparr>tb_MaxSteps = 1, tb_MaxTokens = 0\<rparr>"
  obtain st where st: "withTreeBudget None ?b = Some st" "maxSteps st = 1" "stepsLeft st = 1" "maxTokens st = 0"
    by (simp add: withTreeBudget_def treeBudgetZero_def)
  let ?s0 = "\<lparr>bs_state = st, bs_pc = (\<lambda>_. AgIdle), bs_granted = 0\<rparr>"
  have "budgetStep\<^sup>*\<^sup>* ?s0 t \<Longrightarrow> budgetReach st t" for t
    by (induction rule: rtranclp_induct) (auto intro: budget_start budget_next)
  with consumeStep_phases [of ?s0 0] obtain s where s: "budgetReach st s" "bs_granted s = 1"
    using st by (auto simp: consumeStep_def Let_def)
  with tree_budget_caps_steps [OF st(1) _ s(1)] st(1) show ?thesis by auto
qed

text \<open>
  An exhausted sub-agent call budget reads as unbounded. The refused call takes the shared
  counter from 0 to -1, and \<^verbatim>\<open>RunScope.CallBudget\<close> uses -1 for "no budget", so the scope of a context
  whose budget is used up equals the scope of one that never had a budget.
\<close>

lemma exhausted_call_budget_reads_unbounded:
  assumes "cx_callBudget ctx = Some 0"
  shows "\<not> fst (takeCallBudget ctx) \<and>
         scopeFrom (snd (takeCallBudget ctx)) = scopeFrom (ctx\<lparr>cx_callBudget := None\<rparr>)"
  using assms by (simp add: takeCallBudget_def scopeFrom_def)

lemma exhausted_call_budget_reads_unbounded_witness:
  "sc_CallBudget (scopeFrom (snd (takeCallBudget (withAgentCallBudget rootContext 0)))) = -1"
  using exhausted_call_budget_reads_unbounded [of "withAgentCallBudget rootContext 0"]
  by (simp add: withAgentCallBudget_def scopeFrom_def)

end
