(* ===== verification/ToolMiddleware.thy ===== *)
theory ToolMiddleware
  imports ToolSources Budget
begin

text \<open>
  The middleware around a tool call, \<^verbatim>\<open>src/toolmiddleware.go\<close>, with the call classes of
  \<^verbatim>\<open>src/approval.go\<close> that its information record carries. A middleware gets the rest of the chain as
  a function on the world and may call it, call it with changed information, or not call it.
\<close>

datatype callDisposition =
    DispositionUnknown | DispositionReadOnly | DispositionReversible | DispositionDestructive
  | DispositionForbidden | DispositionAlwaysAsk

record callClass =
  cc_Disposition :: callDisposition
  cc_Key :: string
  cc_Reason :: string

record toolCallInfo =
  ti_Step :: int
  ti_Call :: toolCall
  ti_Scope :: runScope
  ti_ReadOnly :: bool
  ti_Destructive :: bool
  ti_Idempotent :: bool
  ti_Class :: "callClass option"

type_synonym 'w toolCallFunc = "toolCallInfo \<Rightarrow> 'w \<Rightarrow> callResult \<times> 'w"
type_synonym 'w toolMiddleware = "toolCallInfo \<Rightarrow> 'w toolCallFunc \<Rightarrow> 'w \<Rightarrow> callResult \<times> 'w"

definition classified :: "callClass \<Rightarrow> toolCallInfo \<Rightarrow> toolCallInfo" where
  "classified c info =
     (let info = info\<lparr>ti_Class := Some c\<rparr>
      in case cc_Disposition c of
           DispositionReadOnly \<Rightarrow> info\<lparr>ti_ReadOnly := True, ti_Destructive := False, ti_Idempotent := True\<rparr>
         | DispositionReversible \<Rightarrow> info\<lparr>ti_ReadOnly := False, ti_Destructive := False\<rparr>
         | DispositionDestructive \<Rightarrow> info\<lparr>ti_ReadOnly := False, ti_Destructive := True\<rparr>
         | DispositionAlwaysAsk \<Rightarrow> info\<lparr>ti_ReadOnly := False, ti_Destructive := True\<rparr>
         | _ \<Rightarrow> info)"

definition denyTool :: "string \<Rightarrow> goerr" where
  "denyTool reason = ToolDeniedError reason []"

definition deniedReason :: "goerr \<Rightarrow> string option" where
  "deniedReason e =
     (case errors_as_denied e of
        None \<Rightarrow> None
      | Some (reason, _) \<Rightarrow> Some (if reason = [] then ''denied by policy'' else reason))"

definition deniedModelReason :: "goerr \<Rightarrow> string \<Rightarrow> string" where
  "deniedModelReason e surfaced =
     (case errors_as_denied e of
        Some (_, m) \<Rightarrow> if m \<noteq> [] then m else surfaced
      | None \<Rightarrow> surfaced)"

text \<open>The loop wraps from the last middleware to the first, so the first is the outermost.\<close>

fun chainToolMiddleware :: "'w toolMiddleware list \<Rightarrow> 'w toolCallFunc \<Rightarrow> 'w toolCallFunc" where
  "chainToolMiddleware [] base = base"
| "chainToolMiddleware (m # mw) base = (\<lambda>info w. m info (chainToolMiddleware mw base) w)"

text \<open>The hook of \<^verbatim>\<open>BeforeToolCall\<close> may rewrite the information through its pointer.\<close>

definition beforeToolCall ::
  "(toolCallInfo \<Rightarrow> 'w \<Rightarrow> (goerr option \<times> toolCallInfo) \<times> 'w) \<Rightarrow> 'w toolMiddleware" where
  "beforeToolCall fn info nxt w =
     (case fn info w of
        ((Some e, _), w') \<Rightarrow> (Inl e, w')
      | ((None, info'), w') \<Rightarrow> nxt info' w')"

text \<open>\<^verbatim>\<open>AfterToolCall\<close>: a nil result of the hook keeps the call's own.\<close>

definition afterToolCall ::
  "(toolCallInfo \<Rightarrow> toolResult option \<Rightarrow> 'w \<Rightarrow> callResult \<times> 'w) \<Rightarrow> 'w toolMiddleware" where
  "afterToolCall fn info nxt w =
     (case nxt info w of
        (Inl e, w') \<Rightarrow> (Inl e, w')
      | (Inr res, w') \<Rightarrow>
          (case fn info res w' of
             (Inl e, w'') \<Rightarrow> (Inl (Errorf ''tool middleware: %w'' [] (Some e)), w'')
           | (Inr (Some out), w'') \<Rightarrow> (Inr (Some out), w'')
           | (Inr None, w'') \<Rightarrow> (Inr res, w'')))"

subsection \<open>Composition\<close>

lemma chain_append:
  "chainToolMiddleware (m1 @ m2) base = chainToolMiddleware m1 (chainToolMiddleware m2 base)"
  by (induction m1) simp_all

text \<open>The loop as the code runs it, from the last index down, rebinding \<open>base\<close>.\<close>

lemma chain_is_loop:
  "chainToolMiddleware mw base = foldl (\<lambda>nxt m. (\<lambda>info w. m info nxt w)) base (rev mw)"
  by (simp add: foldl_conv_foldr) (induction mw, simp_all)

text \<open>
  The reference for a chain of hooks: run them in order, each seeing the rewrites of the earlier ones,
  until one refuses.
\<close>

fun runHooks ::
  "(toolCallInfo \<Rightarrow> 'w \<Rightarrow> (goerr option \<times> toolCallInfo) \<times> 'w) list \<Rightarrow> toolCallInfo \<Rightarrow> 'w \<Rightarrow> (goerr + toolCallInfo) \<times> 'w" where
  "runHooks [] info w = (Inr info, w)"
| "runHooks (fn # fns) info w =
     (case fn info w of
        ((Some e, _), w') \<Rightarrow> (Inl e, w')
      | ((None, info'), w') \<Rightarrow> runHooks fns info' w')"

lemma chain_before:
  "chainToolMiddleware (map beforeToolCall fns @ mw) base info w =
     (case runHooks fns info w of
        (Inl e, w') \<Rightarrow> (Inl e, w')
      | (Inr info', w') \<Rightarrow> chainToolMiddleware mw base info' w')"
  by (induction fns arbitrary: info w)
     (auto simp: beforeToolCall_def split: prod.splits option.splits sum.splits)

end
