(* ===== verification/Approval.thy ===== *)
theory Approval
  imports ToolMiddleware
begin

text \<open>
  The tiered approval policy of \<^verbatim>\<open>src/approval.go\<close>: \<open>WrapToolCall\<close> is a tool middleware that
  refuses a call, lets it pass, or asks a human. The human's answers and the rest of the chain act on a
  world \<open>'w\<close>; the policy's own mutable state (the default mode and the remembered approvals) is part
  of its record.
\<close>

datatype approvalMode = ModeAlwaysAsk | ModeReadOnlyAuto | ModeReversibleAuto | ModeAlwaysAllow
datatype toolRule = RuleAsk | RuleAllow | RuleDeny

record choice =
  ch_Claimed :: bool
  ch_Approved :: bool
  ch_Args :: rawjson
  ch_Note :: string

record 'w tieredApproval =
  ta_mode :: approvalMode
  ta_rules :: "string \<Rightarrow> toolRule option"
  ta_ask :: "(toolCallInfo \<Rightarrow> 'w \<Rightarrow> (goerr + bool) \<times> 'w) option"
  ta_choose :: "(toolCallInfo \<Rightarrow> 'w \<Rightarrow> (goerr + choice) \<times> 'w) option"
  ta_remember :: bool
  ta_key :: "(toolCallInfo \<Rightarrow> string option) option"
  ta_classify :: "(toolCallInfo \<Rightarrow> 'w \<Rightarrow> callClass option) option"
  ta_grant :: "(toolCallInfo \<Rightarrow> 'w \<Rightarrow> bool) option"
  ta_remembered :: "string \<Rightarrow> bool"

definition withDefaultMode :: "approvalMode \<Rightarrow> 'w tieredApproval \<Rightarrow> 'w tieredApproval" where
  "withDefaultMode m t = t\<lparr>ta_mode := m\<rparr>"

definition withToolRule :: "string \<Rightarrow> toolRule \<Rightarrow> 'w tieredApproval \<Rightarrow> 'w tieredApproval" where
  "withToolRule tool rule t = t\<lparr>ta_rules := (ta_rules t)(tool \<mapsto> rule)\<rparr>"

definition withAsk where "withAsk ask t = t\<lparr>ta_ask := ask\<rparr>"
definition withChooser where "withChooser fn t = t\<lparr>ta_choose := fn\<rparr>"
definition withRememberKey where "withRememberKey fn t = t\<lparr>ta_key := fn\<rparr>"
definition withClassifier where "withClassifier fn t = t\<lparr>ta_classify := fn\<rparr>"
definition withGrants where "withGrants fn t = t\<lparr>ta_grant := fn\<rparr>"
definition withRememberApprovals where "withRememberApprovals b t = t\<lparr>ta_remember := b\<rparr>"

definition newTieredApproval :: "('w tieredApproval \<Rightarrow> 'w tieredApproval) list \<Rightarrow> 'w tieredApproval" where
  "newTieredApproval opts =
     fold (\<lambda>opt t. opt t) opts
       \<lparr>ta_mode = ModeAlwaysAsk, ta_rules = Map.empty, ta_ask = None, ta_choose = None, ta_remember = False,
        ta_key = None, ta_classify = None, ta_grant = None, ta_remembered = (\<lambda>_. False)\<rparr>"

definition setDefaultMode :: "approvalMode \<Rightarrow> 'w tieredApproval \<Rightarrow> 'w tieredApproval" where
  "setDefaultMode m t = t\<lparr>ta_mode := m\<rparr>"

definition rememberKey :: "'w tieredApproval \<Rightarrow> toolCallInfo \<Rightarrow> string option" where
  "rememberKey t info =
     (case ti_Class info of
        Some c \<Rightarrow>
          if cc_Key c = [] \<or> cc_Disposition c = DispositionAlwaysAsk then None
          else Some (tc_Name (ti_Call info) @ [CHR 0x00] @ cc_Key c)
      | None \<Rightarrow> (case ta_key t of None \<Rightarrow> Some (tc_Name (ti_Call info)) | Some f \<Rightarrow> f info))"

definition userDeclined :: "string \<Rightarrow> goerr" where
  "userDeclined note =
     (let reason = ''declined by user'' @ (if note \<noteq> [] then '': '' @ note else [])
      in ToolDeniedError reason (reason @
           ''. The call did not run. Tell the user plainly that it was declined, and don't ask to run it again unless they bring it up.''))"

text \<open>An approval enters the cache when the policy remembers and the call has a key.\<close>

definition rememberCall :: "toolCallInfo \<Rightarrow> 'w tieredApproval \<Rightarrow> 'w tieredApproval" where
  "rememberCall info t =
     (if ta_remember t
      then case rememberKey t info of
             Some k \<Rightarrow> t\<lparr>ta_remembered := (ta_remembered t)(k := True)\<rparr>
           | None \<Rightarrow> t
      else t)"

definition doChoice ::
  "'w tieredApproval \<Rightarrow> toolCallInfo \<Rightarrow> choice \<Rightarrow> 'w toolCallFunc \<Rightarrow> 'w \<Rightarrow> (callResult \<times> 'w) \<times> 'w tieredApproval" where
  "doChoice t info c nxt w =
     (if \<not> ch_Approved c then ((Inl (userDeclined (ch_Note c)), w), t)
      else (let narrowed = ch_Args c \<noteq> [];
                info' = (if narrowed then info\<lparr>ti_Call := (ti_Call info)\<lparr>tc_Args := ch_Args c\<rparr>\<rparr> else info);
                t' = (if narrowed then t else rememberCall info t)
            in case nxt info' w of
                 (Inl e, w') \<Rightarrow> ((Inl e, w'), t')
               | (Inr None, w') \<Rightarrow> ((Inr None, w'), t')
               | (Inr (Some res), w') \<Rightarrow>
                   ((Inr (Some (if ch_Note c = [] then res
                                else res\<lparr>tr_Content := tr_Content res @ [\<lparr>ct_Type = ''text'', ct_Text = ch_Note c\<rparr>]\<rparr>)), w'), t')))"

definition askUser ::
  "'w tieredApproval \<Rightarrow> toolCallInfo \<Rightarrow> 'w toolCallFunc \<Rightarrow> 'w \<Rightarrow> (callResult \<times> 'w) \<times> 'w tieredApproval" where
  "askUser t info nxt w =
     (case ta_ask t of
        None \<Rightarrow> ((Inl (denyTool ''no approval UI available''), w), t)
      | Some ask \<Rightarrow>
          (case ask info w of
             (Inl e, w') \<Rightarrow> ((Inl e, w'), t)
           | (Inr False, w') \<Rightarrow> ((Inl (userDeclined []), w'), t)
           | (Inr True, w') \<Rightarrow> (nxt info w', rememberCall info t)))"

definition doAsk ::
  "'w tieredApproval \<Rightarrow> toolCallInfo \<Rightarrow> 'w toolCallFunc \<Rightarrow> 'w \<Rightarrow> (callResult \<times> 'w) \<times> 'w tieredApproval" where
  "doAsk t info nxt w =
     (case ta_choose t of
        None \<Rightarrow> askUser t info nxt w
      | Some ch \<Rightarrow>
          (case ch info w of
             (Inl e, w') \<Rightarrow> ((Inl e, w'), t)
           | (Inr c, w') \<Rightarrow> if ch_Claimed c then doChoice t info c nxt w' else askUser t info nxt w'))"

text \<open>The checks that follow the classifier.\<close>

definition applyPolicy ::
  "'w tieredApproval \<Rightarrow> toolCallInfo \<Rightarrow> 'w toolCallFunc \<Rightarrow> 'w \<Rightarrow> (callResult \<times> 'w) \<times> 'w tieredApproval" where
  "applyPolicy t info nxt w =
     (let remembered = ta_remember t \<and> (case rememberKey t info of None \<Rightarrow> False | Some k \<Rightarrow> ta_remembered t k);
          rule = ta_rules t (tc_Name (ti_Call info))
      in if remembered then (nxt info w, t)
         else if rule = Some RuleDeny then ((Inl (denyTool ''denied by approval policy''), w), t)
         else if (case ta_grant t of None \<Rightarrow> False | Some g \<Rightarrow> g info w) then (nxt info w, t)
         else case rule of
                Some RuleAllow \<Rightarrow> (nxt info w, t)
              | Some RuleDeny \<Rightarrow> ((Inl (denyTool ''denied by approval policy''), w), t)
              | Some RuleAsk \<Rightarrow> doAsk t info nxt w
              | None \<Rightarrow>
                  (case ta_mode t of
                     ModeAlwaysAllow \<Rightarrow> (nxt info w, t)
                   | ModeReadOnlyAuto \<Rightarrow> if ti_ReadOnly info then (nxt info w, t) else doAsk t info nxt w
                   | ModeReversibleAuto \<Rightarrow>
                       if ti_ReadOnly info \<or> \<not> ti_Destructive info then (nxt info w, t) else doAsk t info nxt w
                   | ModeAlwaysAsk \<Rightarrow> doAsk t info nxt w))"

definition wrapToolCall ::
  "'w tieredApproval \<Rightarrow> toolCallInfo \<Rightarrow> 'w toolCallFunc \<Rightarrow> 'w \<Rightarrow> (callResult \<times> 'w) \<times> 'w tieredApproval" where
  "wrapToolCall t info nxt w =
     (case (case ta_classify t of None \<Rightarrow> None | Some f \<Rightarrow> f info w) of
        None \<Rightarrow> applyPolicy t info nxt w
      | Some c \<Rightarrow>
          if cc_Disposition c = DispositionForbidden then
            ((Inl (denyTool (''forbidden by policy'' @ (if cc_Reason c \<noteq> [] then '': '' @ cc_Reason c else []))), w), t)
          else (let info' = classified c info
                in if cc_Disposition c = DispositionAlwaysAsk then
                     (if ta_rules t (tc_Name (ti_Call info')) = Some RuleDeny
                      then ((Inl (denyTool ''denied by approval policy''), w), t)
                      else doAsk t info' nxt w)
                   else applyPolicy t info' nxt w))"

subsection \<open>Consent\<close>

text \<open>
  Whether the human, asked about a call, lets it run: the chooser's claimed answer, else the plain ask.
\<close>

definition consent :: "'w tieredApproval \<Rightarrow> toolCallInfo \<Rightarrow> 'w \<Rightarrow> bool" where
  "consent t info w =
     (let asks = (\<lambda>w. case ta_ask t of None \<Rightarrow> False | Some ask \<Rightarrow> fst (ask info w) = Inr True)
      in case ta_choose t of
           None \<Rightarrow> asks w
         | Some ch \<Rightarrow>
             (case ch info w of
                (Inl _, _) \<Rightarrow> False
              | (Inr c, w') \<Rightarrow> if ch_Claimed c then ch_Approved c else asks w'))"

text \<open>A call is never dispatched when the outcome does not depend on what the rest of the chain does.\<close>

definition neverDispatched :: "'w tieredApproval \<Rightarrow> toolCallInfo \<Rightarrow> 'w \<Rightarrow> bool" where
  "neverDispatched t info w \<longleftrightarrow> (\<forall>n1 n2. wrapToolCall t info n1 w = wrapToolCall t info n2 w)"

definition verdictOf :: "'w tieredApproval \<Rightarrow> toolCallInfo \<Rightarrow> 'w \<Rightarrow> callClass option" where
  "verdictOf t info w = (case ta_classify t of None \<Rightarrow> None | Some f \<Rightarrow> f info w)"

definition seenInfo :: "'w tieredApproval \<Rightarrow> toolCallInfo \<Rightarrow> 'w \<Rightarrow> toolCallInfo" where
  "seenInfo t info w = (case verdictOf t info w of None \<Rightarrow> info | Some c \<Rightarrow> classified c info)"

lemma classified_Call [simp]: "ti_Call (classified c info) = ti_Call info"
  by (simp add: classified_def Let_def split: callDisposition.split)

lemma classified_Class [simp]: "ti_Class (classified c info) = Some c"
  by (simp add: classified_def Let_def split: callDisposition.split)

lemma askUser_refuses:
  "(case ta_ask t of None \<Rightarrow> False | Some ask \<Rightarrow> fst (ask info w) = Inr True) = False \<Longrightarrow>
   askUser t info n1 w = askUser t info n2 w \<and> snd (askUser t info n1 w) = t"
  by (auto simp: askUser_def split: option.splits prod.splits sum.splits bool.splits)

lemma doAsk_refuses:
  "\<not> consent t info w \<Longrightarrow> doAsk t info n1 w = doAsk t info n2 w \<and> snd (doAsk t info n1 w) = t"
proof (cases "ta_choose t")
  case None
  then show "\<not> consent t info w \<Longrightarrow> ?thesis" using askUser_refuses [of info w t n1 n2]
    by (auto simp: doAsk_def consent_def Let_def)
next
  case (Some ch)
  assume c: "\<not> consent t info w"
  obtain r w' where r: "ch info w = (r, w')" by fastforce
  show ?thesis
    using c Some r askUser_refuses [of info w' t n1 n2]
    by (cases r) (auto simp: doAsk_def consent_def doChoice_def Let_def)
qed

lemma wrap_cases:
  "wrapToolCall t info nxt w =
     (case verdictOf t info w of
        None \<Rightarrow> applyPolicy t (seenInfo t info w) nxt w
      | Some c \<Rightarrow>
          if cc_Disposition c = DispositionForbidden then
            ((Inl (denyTool (''forbidden by policy'' @ (if cc_Reason c \<noteq> [] then '': '' @ cc_Reason c else []))), w), t)
          else if cc_Disposition c = DispositionAlwaysAsk then
            (if ta_rules t (tc_Name (ti_Call info)) = Some RuleDeny
             then ((Inl (denyTool ''denied by approval policy''), w), t)
             else doAsk t (seenInfo t info w) nxt w)
          else applyPolicy t (seenInfo t info w) nxt w)"
  by (simp add: wrapToolCall_def verdictOf_def seenInfo_def Let_def split: option.split)

lemma seenInfo_Call [simp]: "ti_Call (seenInfo t info w) = ti_Call info"
  by (simp add: seenInfo_def split: option.split)

definition rememberedCall :: "'w tieredApproval \<Rightarrow> toolCallInfo \<Rightarrow> bool" where
  "rememberedCall t info \<longleftrightarrow> ta_remember t \<and> (case rememberKey t info of None \<Rightarrow> False | Some k \<Rightarrow> ta_remembered t k)"

definition granted :: "'w tieredApproval \<Rightarrow> toolCallInfo \<Rightarrow> 'w \<Rightarrow> bool" where
  "granted t info w = (case ta_grant t of None \<Rightarrow> False | Some g \<Rightarrow> g info w)"

fun modeAdmits :: "approvalMode \<Rightarrow> toolCallInfo \<Rightarrow> bool" where
  "modeAdmits ModeAlwaysAllow info \<longleftrightarrow> True"
| "modeAdmits ModeReadOnlyAuto info \<longleftrightarrow> ti_ReadOnly info"
| "modeAdmits ModeReversibleAuto info \<longleftrightarrow> ti_ReadOnly info \<or> \<not> ti_Destructive info"
| "modeAdmits ModeAlwaysAsk info \<longleftrightarrow> False"

lemma applyPolicy_cases:
  "applyPolicy t info nxt w =
     (let rule = ta_rules t (tc_Name (ti_Call info))
      in if rememberedCall t info then (nxt info w, t)
         else if rule = Some RuleDeny then ((Inl (denyTool ''denied by approval policy''), w), t)
         else if granted t info w \<or> rule = Some RuleAllow \<or> (rule = None \<and> modeAdmits (ta_mode t) info)
         then (nxt info w, t)
         else doAsk t info nxt w)"
  by (simp add: applyPolicy_def rememberedCall_def granted_def Let_def
      split: option.split toolRule.split approvalMode.split)

text \<open>
  C3: a tool call is dispatched only with a reason. A call the classifier forbids never is. An
  always-ask call is only when the human consents to it. Any other call is only when an earlier
  approval of its key is remembered, or no deny rule names its tool and a grant, an allow rule, the
  default mode or the human's consent admits it.
\<close>

theorem approval_dispatch_needs_reason:
  assumes "\<not> neverDispatched t info w"
  shows "(case verdictOf t info w of
            Some c \<Rightarrow> cc_Disposition c \<noteq> DispositionForbidden \<and>
              (cc_Disposition c = DispositionAlwaysAsk \<longrightarrow>
                 ta_rules t (tc_Name (ti_Call info)) \<noteq> Some RuleDeny \<and> consent t (seenInfo t info w) w)
          | None \<Rightarrow> True) \<and>
    (let seen = seenInfo t info w; rule = ta_rules t (tc_Name (ti_Call info))
     in consent t seen w \<and> rule \<noteq> Some RuleDeny \<or> rememberedCall t seen \<or>
        rule \<noteq> Some RuleDeny \<and> (granted t seen w \<or> rule = Some RuleAllow \<or> rule = None \<and> modeAdmits (ta_mode t) seen))"
proof -
  have d: "doAsk t (seenInfo t info w) n1 w = doAsk t (seenInfo t info w) n2 w"
    if "\<not> consent t (seenInfo t info w) w" for n1 n2
    using doAsk_refuses [OF that] by blast
  obtain n1 n2 where n: "wrapToolCall t info n1 w \<noteq> wrapToolCall t info n2 w"
    using assms by (auto simp: neverDispatched_def)
  show ?thesis
  proof (cases "verdictOf t info w")
    case None
    then show ?thesis using n d [of n1 n2] by (auto simp: wrap_cases applyPolicy_cases Let_def split: if_splits)
  next
    case (Some c)
    then show ?thesis using n d [of n1 n2] by (auto simp: wrap_cases applyPolicy_cases Let_def split: if_splits)
  qed
qed

subsection \<open>The cache over a history of calls\<close>

datatype approvalOp = OpCall toolCallInfo | OpSetMode approvalMode

fun approvalRun :: "'w toolCallFunc \<Rightarrow> approvalOp list \<Rightarrow> 'w tieredApproval \<times> 'w \<Rightarrow> 'w tieredApproval \<times> 'w" where
  "approvalRun nxt [] (t, w) = (t, w)"
| "approvalRun nxt (OpCall info # ops) (t, w) =
     (case wrapToolCall t info nxt w of ((_, w'), t') \<Rightarrow> approvalRun nxt ops (t', w'))"
| "approvalRun nxt (OpSetMode m # ops) (t, w) = approvalRun nxt ops (setDefaultMode m t, w)"

text \<open>A wrapped call leaves the policy as it was, or remembers the call it consented to.\<close>

lemma askUser_state: "snd (askUser t info nxt w) = t \<or> snd (askUser t info nxt w) = rememberCall info t"
proof (cases "ta_ask t")
  case (Some ask)
  obtain r w' where r: "ask info w = (r, w')" by fastforce
  show ?thesis
  proof (cases r)
    case (Inr b)
    then show ?thesis using Some r by (cases b) (simp_all add: askUser_def)
  qed (use Some r in \<open>simp add: askUser_def\<close>)
qed (simp add: askUser_def)

lemma doChoice_state: "snd (doChoice t info c nxt w) = t \<or> snd (doChoice t info c nxt w) = rememberCall info t"
proof -
  obtain r w' where r: "nxt (if ch_Args c \<noteq> [] then info\<lparr>ti_Call := (ti_Call info)\<lparr>tc_Args := ch_Args c\<rparr>\<rparr> else info) w = (r, w')"
    by fastforce
  then show ?thesis
    by (cases r) (simp_all add: doChoice_def Let_def split: option.split)
qed

lemma doAsk_state: "snd (doAsk t info nxt w) = t \<or> snd (doAsk t info nxt w) = rememberCall info t"
proof (cases "ta_choose t")
  case None
  then show ?thesis using askUser_state by (simp add: doAsk_def)
next
  case (Some ch)
  obtain r w' where "ch info w = (r, w')" by fastforce
  then show ?thesis using Some askUser_state [of t info nxt w'] doChoice_state [of t info _ nxt w']
    by (cases r) (simp_all add: doAsk_def)
qed

lemma applyPolicy_state:
  "snd (applyPolicy t info nxt w) = t \<or>
   ta_rules t (tc_Name (ti_Call info)) \<noteq> Some RuleDeny \<and> snd (applyPolicy t info nxt w) = snd (doAsk t info nxt w)"
  by (simp add: applyPolicy_cases Let_def)

lemma wrap_state:
  "snd (wrapToolCall t info nxt w) = t \<or>
   ta_rules t (tc_Name (ti_Call info)) \<noteq> Some RuleDeny \<and> consent t (seenInfo t info w) w \<and>
   snd (wrapToolCall t info nxt w) = rememberCall (seenInfo t info w) t"
proof -
  let ?i = "seenInfo t info w"
  have "snd (wrapToolCall t info nxt w) = t \<or>
     ta_rules t (tc_Name (ti_Call info)) \<noteq> Some RuleDeny \<and> snd (wrapToolCall t info nxt w) = snd (doAsk t ?i nxt w)"
    using applyPolicy_state [of t ?i nxt w] by (cases "verdictOf t info w") (auto simp: wrap_cases)
  moreover have "snd (doAsk t ?i nxt w) = t \<or> consent t ?i w \<and> snd (doAsk t ?i nxt w) = rememberCall ?i t"
    using doAsk_state [of t ?i nxt w] doAsk_refuses [of t ?i w nxt nxt] by blast
  ultimately show ?thesis by auto
qed

definition toolOfKey :: "string \<Rightarrow> string" where
  "toolOfKey k = takeWhile (\<lambda>c. c \<noteq> CHR 0x00) k"

lemma rememberKey_tool:
  "ta_key t = None \<Longrightarrow> CHR 0x00 \<notin> set (tc_Name (ti_Call info)) \<Longrightarrow> rememberKey t info = Some k \<Longrightarrow>
   toolOfKey k = tc_Name (ti_Call info)"
  by (auto simp: rememberKey_def toolOfKey_def takeWhile_append split: option.splits if_splits)

definition cacheOk :: "'w tieredApproval \<Rightarrow> bool" where
  "cacheOk t \<longleftrightarrow> ta_key t = None \<and> (\<forall>k. ta_remembered t k \<longrightarrow> ta_rules t (toolOfKey k) \<noteq> Some RuleDeny)"

lemma cacheOk_remember:
  assumes "cacheOk t" "ta_rules t (tc_Name (ti_Call info)) \<noteq> Some RuleDeny" "CHR 0x00 \<notin> set (tc_Name (ti_Call info))"
  shows "cacheOk (rememberCall info t)"
  using assms rememberKey_tool [of t info] by (auto simp: cacheOk_def rememberCall_def split: option.split)

lemma cacheOk_wrap:
  assumes "cacheOk t" "CHR 0x00 \<notin> set (tc_Name (ti_Call info))"
  shows "cacheOk (snd (wrapToolCall t info nxt w)) \<and> ta_rules (snd (wrapToolCall t info nxt w)) = ta_rules t"
proof -
  have "ta_rules (rememberCall i t) = ta_rules t" for i
    by (simp add: rememberCall_def split: option.split)
  moreover have "cacheOk (rememberCall (seenInfo t info w) t)"
    if "ta_rules t (tc_Name (ti_Call info)) \<noteq> Some RuleDeny"
    using assms that by (intro cacheOk_remember) simp_all
  ultimately show ?thesis using wrap_state [of t info nxt w] assms(1) by auto
qed

fun opNameOk :: "approvalOp \<Rightarrow> bool" where
  "opNameOk (OpCall info) \<longleftrightarrow> CHR 0x00 \<notin> set (tc_Name (ti_Call info))"
| "opNameOk (OpSetMode _) \<longleftrightarrow> True"

lemma cacheOk_run:
  "cacheOk t \<Longrightarrow> list_all opNameOk ops \<Longrightarrow>
   cacheOk (fst (approvalRun nxt ops (t, w))) \<and> ta_rules (fst (approvalRun nxt ops (t, w))) = ta_rules t"
proof (induction ops arbitrary: t w)
  case (Cons op ops)
  show ?case
  proof (cases op)
    case (OpCall info)
    obtain r w' t' where e: "wrapToolCall t info nxt w = ((r, w'), t')" by (metis prod.collapse)
    have "cacheOk t' \<and> ta_rules t' = ta_rules t"
      using cacheOk_wrap [of t info nxt w] Cons.prems OpCall e by simp
    then show ?thesis using Cons.IH [of t' w'] Cons.prems OpCall e by simp
  next
    case (OpSetMode m)
    have "cacheOk (setDefaultMode m t)" "ta_rules (setDefaultMode m t) = ta_rules t"
      using Cons.prems by (auto simp: cacheOk_def setDefaultMode_def)
    then show ?thesis using Cons.IH [of "setDefaultMode m t" w] Cons.prems OpSetMode by simp
  qed
qed simp

lemma denied_by_rule:
  assumes "cacheOk t" "ta_rules t (tc_Name (ti_Call info)) = Some RuleDeny" "CHR 0x00 \<notin> set (tc_Name (ti_Call info))"
  shows "\<exists>reason. wrapToolCall t info nxt w = ((Inl (denyTool reason), w), t)"
proof -
  have "\<not> rememberedCall t (seenInfo t info w)"
    using assms rememberKey_tool [of t "seenInfo t info w"]
    by (auto simp: rememberedCall_def cacheOk_def split: option.splits)
  then show ?thesis using assms(2)
    by (auto simp: wrap_cases applyPolicy_cases Let_def split: option.split)
qed

text \<open>
  C7: with the default keys, a deny rule holds over every history: whatever calls were approved,
  remembered or granted before and whatever mode is set, a call to a tool under a deny rule is
  refused without asking anyone and without any effect. (Tool names have no NUL byte, the separator
  of the cache's keys.)
\<close>

theorem approval_deny_rule_permanent:
  assumes "ta_key t = None" "ta_remembered t = (\<lambda>_. False)" "list_all opNameOk ops"
    and "ta_rules t (tc_Name (ti_Call info)) = Some RuleDeny" "CHR 0x00 \<notin> set (tc_Name (ti_Call info))"
    and "approvalRun nxt ops (t, w) = (t', w')"
  shows "\<exists>reason. wrapToolCall t' info nxt w' = ((Inl (denyTool reason), w'), t')"
proof -
  have "cacheOk t" using assms(1,2) by (simp add: cacheOk_def)
  then have "cacheOk t'" "ta_rules t' = ta_rules t"
    using cacheOk_run [of t ops nxt w] assms(3,6) by auto
  then show ?thesis using denied_by_rule assms(4,5) by metis
qed

text \<open>
  An always-ask verdict is asked anew every time: the outcome does not depend on the default mode,
  the remembered approvals, the grants or allow rules, and nothing is remembered.
\<close>

lemma approval_always_ask_never_remembered:
  assumes "verdictOf t info w = Some c" "cc_Disposition c = DispositionAlwaysAsk"
    and "ta_rules t (tc_Name (ti_Call info)) \<noteq> Some RuleDeny"
  shows "wrapToolCall t info nxt w = doAsk t (seenInfo t info w) nxt w \<and>
    snd (wrapToolCall t info nxt w) = t \<and>
    fst (wrapToolCall (t\<lparr>ta_mode := m, ta_remembered := r, ta_remember := b, ta_grant := g\<rparr>) info nxt w) =
      fst (wrapToolCall t info nxt w)"
proof -
  have w: "wrapToolCall t info nxt w = doAsk t (seenInfo t info w) nxt w"
    using assms by (simp add: wrap_cases)
  have k: "rememberCall (seenInfo t info w) t = t"
    using assms(1,2) by (simp add: rememberCall_def rememberKey_def seenInfo_def)
  have s: "snd (doAsk t (seenInfo t info w) nxt w) = t" using doAsk_state [of t "seenInfo t info w" nxt w] k by auto
  let ?t = "t\<lparr>ta_mode := m, ta_remembered := r, ta_remember := b, ta_grant := g\<rparr>"
  have i: "verdictOf ?t info w = Some c" "seenInfo ?t info w = seenInfo t info w"
    using assms(1) by (simp_all add: verdictOf_def seenInfo_def)
  have "fst (doAsk ?t i nxt w) = fst (doAsk t i nxt w)" for i
    by (auto simp: doAsk_def askUser_def doChoice_def Let_def split: option.splits prod.splits sum.splits bool.splits)
  then show ?thesis using w s i assms(2,3) by (simp add: wrap_cases)
qed

subsection \<open>Concrete policies\<close>

definition callInfo :: "string \<Rightarrow> toolCallInfo" where
  "callInfo n = \<lparr>ti_Step = 0, ti_Call = \<lparr>tc_ID = ''1'', tc_Name = n, tc_Args = []\<rparr>,
     ti_Scope = \<lparr>sc_Path = [], sc_CallBudget = -1, sc_Tree = treeUsageOf None\<rparr>,
     ti_ReadOnly = False, ti_Destructive = False, ti_Idempotent = False, ti_Class = None\<rparr>"

definition yesPolicy :: "nat tieredApproval" where
  "yesPolicy = newTieredApproval [withToolRule ''rm'' RuleDeny, withRememberApprovals True,
     withAsk (Some (\<lambda>_ w. (Inr True, w + 1))),
     withClassifier (Some (\<lambda>info w. if tc_Name (ti_Call info) = ''sudo''
       then Some \<lparr>cc_Disposition = DispositionAlwaysAsk, cc_Key = ''k'', cc_Reason = []\<rparr> else None))]"

definition countCall :: "nat toolCallFunc" where
  "countCall info w = (Inr None, w + 10)"

lemmas policy_eval = yesPolicy_def newTieredApproval_def withToolRule_def withRememberApprovals_def withAsk_def
  withClassifier_def callInfo_def countCall_def verdictOf_def consent_def seenInfo_def

theorem approval_dispatch_needs_reason_witness:
  "\<not> neverDispatched yesPolicy (callInfo ''ls'') 0 \<and> consent yesPolicy (callInfo ''ls'') 0"
proof -
  have "wrapToolCall yesPolicy (callInfo ''ls'') countCall 0 \<noteq> wrapToolCall yesPolicy (callInfo ''ls'') (\<lambda>_ w. (Inr None, w)) 0"
    by (simp add: wrapToolCall_def applyPolicy_def doAsk_def askUser_def rememberKey_def policy_eval Let_def)
  then have n: "\<not> neverDispatched yesPolicy (callInfo ''ls'') 0" unfolding neverDispatched_def by blast
  show ?thesis
    using approval_dispatch_needs_reason [OF n] n
    by (simp add: policy_eval rememberedCall_def granted_def rememberKey_def Let_def)
qed

theorem approval_deny_rule_permanent_witness:
  "\<exists>t' w' reason. approvalRun countCall [OpCall (callInfo ''ls''), OpSetMode ModeAlwaysAllow] (yesPolicy, 0) = (t', w') \<and>
     wrapToolCall t' (callInfo ''rm'') countCall w' = ((Inl (denyTool reason), w'), t')"
proof -
  obtain t' w' where r: "approvalRun countCall [OpCall (callInfo ''ls''), OpSetMode ModeAlwaysAllow] (yesPolicy, 0) = (t', w')"
    by fastforce
  show ?thesis
    using approval_deny_rule_permanent [OF _ _ _ _ _ r, of "callInfo ''rm''"] r by (simp add: policy_eval)
qed

theorem approval_always_ask_never_remembered_witness:
  "wrapToolCall yesPolicy (callInfo ''sudo'') countCall 0 = ((Inr None, 11), yesPolicy)"
proof -
  let ?c = "\<lparr>cc_Disposition = DispositionAlwaysAsk, cc_Key = ''k'', cc_Reason = []\<rparr>"
  have v: "verdictOf yesPolicy (callInfo ''sudo'') 0 = Some ?c"
    "ta_rules yesPolicy (tc_Name (ti_Call (callInfo ''sudo''))) \<noteq> Some RuleDeny"
    by (simp_all add: policy_eval)
  have "cc_Disposition ?c = DispositionAlwaysAsk" by simp
  note ask = approval_always_ask_never_remembered [OF v(1) this v(2), of countCall None False "\<lambda>_. False" ModeAlwaysAsk]
  have "wrapToolCall yesPolicy (callInfo ''sudo'') countCall 0 =
      doAsk yesPolicy (seenInfo yesPolicy (callInfo ''sudo'') 0) countCall 0"
    by (rule ask [THEN conjunct1])
  moreover have "snd (wrapToolCall yesPolicy (callInfo ''sudo'') countCall 0) = yesPolicy"
    by (rule ask [THEN conjunct2, THEN conjunct1])
  moreover have "fst (doAsk yesPolicy (seenInfo yesPolicy (callInfo ''sudo'') 0) countCall 0) = (Inr None, 11)"
    by (simp add: doAsk_def askUser_def policy_eval)
  ultimately show ?thesis by (metis prod.collapse)
qed

end
