(* ===== verification/Failover.thy ===== *)
theory Failover
  imports Streams
begin

text \<open>
  The failover provider of \<^verbatim>\<open>src/failover.go\<close>. A provider reads and changes a world \<open>'w\<close>; \<open>now\<close> reads
  the clock of the world, in nanoseconds since the zero \<^verbatim>\<open>time.Time\<close>. The provider's own state is the
  record under the mutex; every operation holds the mutex for its whole access to it.
\<close>

record ('w, 's) provider =
  pv_Stream :: "providerRequest \<Rightarrow> 'w \<Rightarrow> (goerr + 's) \<times> 'w"
  pv_Generate :: "providerRequest \<Rightarrow> 'w \<Rightarrow> (goerr + providerResponse) \<times> 'w"

record failover =
  fo_Cooldown :: int
  fo_failures :: int
  fo_lastErr :: "goerr option"
  fo_lastFailure :: gotime
  fo_benchedUntil :: gotime

record providerHealth =
  ph_Active :: string
  ph_ConsecutiveFailures :: int
  ph_LastError :: string
  ph_LastFailureAt :: gotime

definition defaultFailoverCooldown :: int where
  "defaultFailoverCooldown = 30 * 10 ^ 9"

text \<open>The constructor: \<open>prim\<close> and \<open>back\<close> say whether the two providers are set.\<close>

definition newFailoverProvider :: "bool \<Rightarrow> bool \<Rightarrow> int \<Rightarrow> goerr + failover" where
  "newFailoverProvider prim back cooldown =
     (if \<not> prim \<or> \<not> back then Inl (ErrNew ''agent: FailoverConfig requires Primary and Backup'')
      else Inr \<lparr>fo_Cooldown = (if cooldown \<le> 0 then defaultFailoverCooldown else cooldown),
                fo_failures = 0, fo_lastErr = None, fo_lastFailure = 0, fo_benchedUntil = 0\<rparr>)"

definition primaryBenched :: "gotime \<Rightarrow> failover \<Rightarrow> bool" where
  "primaryBenched t f \<longleftrightarrow> t < fo_benchedUntil f"

definition health :: "gotime \<Rightarrow> failover \<Rightarrow> providerHealth" where
  "health t f =
     \<lparr>ph_Active = (if t < fo_benchedUntil f then ''backup'' else ''primary''),
      ph_ConsecutiveFailures = fo_failures f,
      ph_LastError = (case fo_lastErr f of None \<Rightarrow> [] | Some e \<Rightarrow> errText e),
      ph_LastFailureAt = fo_lastFailure f\<rparr>"

definition recordFailure :: "gotime \<Rightarrow> goerr \<Rightarrow> failover \<Rightarrow> failover" where
  "recordFailure t e f = f\<lparr>fo_failures := fo_failures f + 1, fo_lastErr := Some e,
     fo_lastFailure := t, fo_benchedUntil := t + fo_Cooldown f\<rparr>"

definition recordRecovery :: "failover \<Rightarrow> failover" where
  "recordRecovery f = f\<lparr>fo_failures := 0, fo_lastErr := None, fo_benchedUntil := 0\<rparr>"

text \<open>The stream the provider returns: the backup's own, or the primary's with the outcome recorded.\<close>

datatype 's failoverOpen = BackupStream 's | PrimaryStream 's

definition failoverOpenStream ::
  "('w \<Rightarrow> gotime) \<Rightarrow> ('w, 's) provider \<Rightarrow> ('w, 's) provider \<Rightarrow> providerRequest \<Rightarrow> failover \<Rightarrow> 'w \<Rightarrow>
   (goerr + 's failoverOpen) \<times> failover \<times> 'w" where
  "failoverOpenStream now prim back req f w =
     (let viaBackup = (\<lambda>f w. case pv_Stream back req w of
                                (Inl e, w') \<Rightarrow> (Inl e, f, w')
                              | (Inr s, w') \<Rightarrow> (Inr (BackupStream s), f, w'))
      in if primaryBenched (now w) f then viaBackup f w
         else case pv_Stream prim req w of
                (Inl e, w') \<Rightarrow> viaBackup (recordFailure (now w') e f) w'
              | (Inr s, w') \<Rightarrow> (Inr (PrimaryStream s), f, w'))"

definition failoverGenerate ::
  "('w \<Rightarrow> gotime) \<Rightarrow> ('w, 's) provider \<Rightarrow> ('w, 's) provider \<Rightarrow> providerRequest \<Rightarrow> failover \<Rightarrow> 'w \<Rightarrow>
   (goerr + providerResponse) \<times> failover \<times> 'w" where
  "failoverGenerate now prim back req f w =
     (let viaBackup = (\<lambda>f w. case pv_Generate back req w of (r, w') \<Rightarrow> (r, f, w'))
      in if primaryBenched (now w) f then viaBackup f w
         else case pv_Generate prim req w of
                (Inl e, w') \<Rightarrow> viaBackup (recordFailure (now w') e f) w'
              | (Inr r, w') \<Rightarrow> (Inr r, recordRecovery f, w'))"

definition failoverCapabilities :: "capabilities \<Rightarrow> capabilities \<Rightarrow> capabilities" where
  "failoverCapabilities prim back = capIntersect prim back"

text \<open>One tick of the reconciler; \<open>probe\<close> is the probe's outcome.\<close>

definition reconcileTick ::
  "('w \<Rightarrow> gotime) \<Rightarrow> ('w \<Rightarrow> goerr option \<times> 'w) \<Rightarrow> failover \<Rightarrow> 'w \<Rightarrow> failover \<times> 'w" where
  "reconcileTick now probe f w =
     (if \<not> primaryBenched (now w) f then (f, w)
      else case probe w of
             (None, w') \<Rightarrow> (recordRecovery f, w')
           | (Some _, w') \<Rightarrow> (f, w'))"

record 's failoverStream =
  fst_f :: failover
  fst_inner :: 's
  fst_delivered :: bool

definition failoverRecv ::
  "gotime \<Rightarrow> ('s \<Rightarrow> (goerr + delta) \<times> 's) \<Rightarrow> 's failoverStream \<Rightarrow> (goerr + delta) \<times> 's failoverStream" where
  "failoverRecv t recv s =
     (case recv (fst_inner s) of
        (Inr d, i) \<Rightarrow> (Inr d, s\<lparr>fst_inner := i, fst_delivered := True\<rparr>)
      | (Inl e, i) \<Rightarrow>
          if errors_is e IoEOF then (Inl e, s\<lparr>fst_inner := i, fst_f := recordRecovery (fst_f s)\<rparr>)
          else (Inl e, s\<lparr>fst_inner := i, fst_f := recordFailure t e (fst_f s)\<rparr>))"

subsection \<open>The health record\<close>

definition failoverInv :: "failover \<Rightarrow> bool" where
  "failoverInv f \<longleftrightarrow> 0 < fo_Cooldown f \<and> 0 \<le> fo_failures f \<and> (fo_failures f = 0 \<longleftrightarrow> fo_lastErr f = None) \<and>
     (fo_failures f = 0 \<longrightarrow> fo_benchedUntil f = 0) \<and>
     (fo_failures f \<noteq> 0 \<longrightarrow> fo_benchedUntil f = fo_lastFailure f + fo_Cooldown f)"

lemma failoverInv_new: "newFailoverProvider p b c = Inr f \<Longrightarrow> failoverInv f"
  by (auto simp: newFailoverProvider_def failoverInv_def defaultFailoverCooldown_def split: if_splits)

lemma failoverInv_failure: "failoverInv f \<Longrightarrow> failoverInv (recordFailure t e f)"
  by (auto simp: failoverInv_def recordFailure_def)

lemma failoverInv_recovery: "failoverInv f \<Longrightarrow> failoverInv (recordRecovery f)"
  by (auto simp: failoverInv_def recordRecovery_def)

text \<open>
  What any interleaving of requests, stream receptions and reconciler ticks can do to the state: the
  label is the primary's outcome that the step records, if it consulted the primary.
\<close>

datatype outcome = PrimaryFailed gotime goerr | PrimaryWorked | ProbeWorked

inductive failoverStep :: "gotime \<Rightarrow> failover \<Rightarrow> outcome option \<Rightarrow> failover \<Rightarrow> bool" where
  benchedCall: "primaryBenched t f \<Longrightarrow> failoverStep t f None f"
| callFails: "\<not> primaryBenched t f \<Longrightarrow> failoverStep t f (Some (PrimaryFailed t' e)) (recordFailure t' e f)"
| callWorks: "\<not> primaryBenched t f \<Longrightarrow> failoverStep t f (Some PrimaryWorked) (recordRecovery f)"
| probeWorks: "primaryBenched t f \<Longrightarrow> failoverStep t f (Some ProbeWorked) (recordRecovery f)"
| streamOpens: "failoverStep t f None f"
| streamEnds: "failoverStep t f (Some PrimaryWorked) (recordRecovery f)"
| streamBreaks: "failoverStep t f (Some (PrimaryFailed t e)) (recordFailure t e f)"

inductive_cases failoverStep_NoneE: "failoverStep t f None f'"

lemma failoverStep_inv: "failoverStep t f l f' \<Longrightarrow> failoverInv f \<Longrightarrow> failoverInv f'"
  by (induction rule: failoverStep.induct) (auto intro: failoverInv_failure failoverInv_recovery)

lemma failoverGenerate_step:
  "\<exists>l. failoverStep (now w) f l (fst (snd (failoverGenerate now prim back req f w)))"
  by (auto simp: failoverGenerate_def Let_def split: prod.splits sum.splits
      intro: failoverStep.intros)

lemma failoverOpenStream_step:
  "\<exists>l. failoverStep (now w) f l (fst (snd (failoverOpenStream now prim back req f w)))"
  by (auto simp: failoverOpenStream_def Let_def split: prod.splits sum.splits
      intro: failoverStep.intros)

lemma failoverRecv_step: "fst_f (snd (failoverRecv t recv s)) = fst_f s \<or>
    (\<exists>l. failoverStep t (fst_f s) l (fst_f (snd (failoverRecv t recv s))))"
  by (auto simp: failoverRecv_def split: prod.splits sum.splits intro: failoverStep.intros)

lemma reconcileTick_step: "fst (reconcileTick now probe f w) = f \<or>
    (\<exists>l. failoverStep (now w) f l (fst (reconcileTick now probe f w)))"
  by (auto simp: reconcileTick_def split: prod.splits option.splits intro: failoverStep.intros)

inductive failoverReach :: "failover \<Rightarrow> outcome list \<Rightarrow> failover \<Rightarrow> bool" where
  start: "newFailoverProvider True True c = Inr f \<Longrightarrow> failoverReach f [] f"
| quiet: "failoverReach f0 ls f \<Longrightarrow> failoverStep t f None f' \<Longrightarrow> failoverReach f0 ls f'"
| step: "failoverReach f0 ls f \<Longrightarrow> failoverStep t f (Some l) f' \<Longrightarrow> failoverReach f0 (l # ls) f'"

fun isFailure :: "outcome \<Rightarrow> bool" where
  "isFailure (PrimaryFailed _ _) = True"
| "isFailure _ = False"

lemma failoverReach_inv: "failoverReach f0 ls f \<Longrightarrow> failoverInv f"
  by (induction rule: failoverReach.induct) (auto intro: failoverInv_new failoverStep_inv)

lemma failoverStep_failures:
  "failoverStep t f (Some l) f' \<Longrightarrow> fo_failures f' = (if isFailure l then fo_failures f + 1 else 0)"
  by (cases rule: failoverStep.cases) (auto simp: recordFailure_def recordRecovery_def)

lemma failoverReach_failures:
  "failoverReach f0 ls f \<Longrightarrow> fo_failures f = int (length (takeWhile isFailure ls))"
proof (induction rule: failoverReach.induct)
  case (start c f)
  then show ?case by (auto simp: newFailoverProvider_def)
next
  case (quiet f0 ls f t f')
  then show ?case by (auto elim: failoverStep_NoneE)
next
  case (step f0 ls f t l f')
  then show ?case by (simp add: failoverStep_failures)
qed



subsection \<open>Requests during an outage\<close>

fun generateAll ::
  "('w \<Rightarrow> gotime) \<Rightarrow> ('w, 's) provider \<Rightarrow> ('w, 's) provider \<Rightarrow> providerRequest list \<Rightarrow> failover \<Rightarrow> 'w \<Rightarrow>
   (goerr + providerResponse) list \<times> failover \<times> 'w" where
  "generateAll now prim back [] f w = ([], f, w)"
| "generateAll now prim back (r # rs) f w =
     (case failoverGenerate now prim back r f w of
        (a, f', w') \<Rightarrow> (case generateAll now prim back rs f' w' of (as, f'', w'') \<Rightarrow> (a # as, f'', w'')))"

fun backupAll :: "('w, 's) provider \<Rightarrow> providerRequest list \<Rightarrow> 'w \<Rightarrow> (goerr + providerResponse) list \<times> 'w" where
  "backupAll back [] w = ([], w)"
| "backupAll back (r # rs) w =
     (case pv_Generate back r w of (a, w') \<Rightarrow> (case backupAll back rs w' of (as, w'') \<Rightarrow> (a # as, w'')))"

lemma backupAll_clock:
  fixes now :: "'w \<Rightarrow> gotime"
  shows "(\<And>r w. now w \<le> now (snd (pv_Generate back r w))) \<Longrightarrow> now w \<le> now (snd (backupAll back rs w))"
proof (induction rs arbitrary: w)
  case (Cons r rs)
  obtain a w' where e: "pv_Generate back r w = (a, w')" by fastforce
  have "now w \<le> now w'" using Cons.prems [of w r] e by simp
  also have "now w' \<le> now (snd (backupAll back rs w'))" by (rule Cons.IH [OF Cons.prems])
  finally show ?case using e by (auto split: prod.split)
qed simp

lemma generateAll_benched:
  assumes "\<And>r w. now w \<le> now (snd (pv_Generate back r w))"
    and "now (snd (backupAll back rs w)) < fo_benchedUntil f"
  shows "generateAll now prim back rs f w = (fst (backupAll back rs w), f, snd (backupAll back rs w))"
  using assms(2)
proof (induction rs arbitrary: w)
  case (Cons r rs)
  obtain a w' where e: "pv_Generate back r w = (a, w')" by fastforce
  have "now w' \<le> now (snd (backupAll back rs w'))" by (rule backupAll_clock [OF assms(1)])
  moreover have "now w \<le> now w'" using assms(1) [of w r] e by simp
  moreover have l: "now (snd (backupAll back rs w')) < fo_benchedUntil f"
    using Cons.prems e by (simp split: prod.splits)
  ultimately have "failoverGenerate now prim back r f w = (a, f, w')"
    using e by (simp add: failoverGenerate_def primaryBenched_def Let_def)
  with Cons.IH [OF l] e show ?case by (simp split: prod.splits)
qed simp

text \<open>
  Once the primary failed a request, that request and all later ones that complete before the
  cooldown has passed are answered by the backup alone, with exactly the backup's answers, and the
  primary is not consulted again.
\<close>

lemma failover_outage_served_by_backup:
  assumes clock: "\<forall>r w. now w \<le> now (snd (pv_Generate back r w))"
    and "\<not> primaryBenched (now w) f" "pv_Generate prim r w = (Inl e, w')"
    and "now (snd (backupAll back (r # rs) w')) < now w' + fo_Cooldown f"
  shows "generateAll now prim back (r # rs) f w =
    (fst (backupAll back (r # rs) w'), recordFailure (now w') e f, snd (backupAll back (r # rs) w'))"
proof -
  obtain a w2 where b: "pv_Generate back r w' = (a, w2)" by fastforce
  have "failoverGenerate now prim back r f w = (a, recordFailure (now w') e f, w2)"
    using assms(2,3) b by (simp add: failoverGenerate_def Let_def)
  moreover have "now (snd (backupAll back rs w2)) < fo_benchedUntil (recordFailure (now w') e f)"
    using assms(4) b by (simp add: recordFailure_def split: prod.splits)
  ultimately show ?thesis
    using generateAll_benched [of now "back" rs w2 "recordFailure (now w') e f" prim] clock b
    by (simp split: prod.splits)
qed

definition tickingProvider :: "(goerr + providerResponse) \<Rightarrow> (int, unit) provider" where
  "tickingProvider a = \<lparr>pv_Stream = (\<lambda>r w. (Inr (), w + 1)), pv_Generate = (\<lambda>r w. (a, w + 1))\<rparr>"

definition freshFailover :: failover where
  "freshFailover = \<lparr>fo_Cooldown = 10, fo_failures = 0, fo_lastErr = None, fo_lastFailure = 0, fo_benchedUntil = 0\<rparr>"

definition pingRequest :: providerRequest where
  "pingRequest = \<lparr>rq_Instructions = [], rq_Messages = [textMessage RoleUser ''ping''], rq_Tools = [],
     rq_Temperature = None, rq_MaxTokens = 1, rq_ToolChoice = \<lparr>tch_Mode = [], tch_Name = []\<rparr>, rq_Seed = None,
     rq_Penalties = None, rq_Guided = None, rq_ResponseSchema = []\<rparr>"

theorem failover_outage_served_by_backup_witness:
  "fst (generateAll id (tickingProvider (Inl (ErrNew ''down''))) (tickingProvider (Inl (ErrNew ''backup'')))
      [pingRequest, pingRequest] freshFailover 0) = [Inl (ErrNew ''backup''), Inl (ErrNew ''backup'')]"
  using failover_outage_served_by_backup [of id "tickingProvider (Inl (ErrNew ''backup''))" 0 freshFailover
        "tickingProvider (Inl (ErrNew ''down''))" pingRequest "ErrNew ''down''" 1 "[pingRequest]"]
  by (simp add: tickingProvider_def freshFailover_def primaryBenched_def)

subsection \<open>The primary's stream behind the provider\<close>

interpretation fo_stream: delta_stream "failoverRecv t streamRecv" "\<lambda>s. st_deltas (fst_inner s)" "\<lambda>s. st_end (fst_inner s)"
  for t
  by unfold_locales (auto simp: failoverRecv_def streamRecv_def split: list.splits)

fun recvAll :: "('s \<Rightarrow> (goerr + delta) \<times> 's) \<Rightarrow> nat \<Rightarrow> 's \<Rightarrow> 's" where
  "recvAll recv 0 s = s"
| "recvAll recv (Suc n) s = recvAll recv n (snd (recv s))"

lemma recvAll_delivers:
  "fst_inner s = \<lparr>st_deltas = ds, st_end = e\<rparr> \<Longrightarrow>
   let s' = recvAll (failoverRecv t streamRecv) (length ds) s
   in fst_f s' = fst_f s \<and> fst_inner s' = \<lparr>st_deltas = [], st_end = e\<rparr>"
proof (induction ds arbitrary: s)
  case (Cons d ds)
  then show ?case by (simp add: failoverRecv_def streamRecv_def Let_def)
qed (simp add: Let_def)

text \<open>
  The stream behind the failover provider is the primary's: a turn consuming it to its EOF gets the
  text and reasoning of the primary's deltas and the state records a recovery; one that breaks passes
  the primary's error on, without a second delivery, and benches the primary for the cooldown.
\<close>

lemma failover_stream_transparent:
  assumes "fst_inner s = \<lparr>st_deltas = ds, st_end = e\<rparr>"
  shows "(if errors_is e IoEOF
          then \<exists>r evs. consumeStream argsOf (failoverRecv t streamRecv) step s = Some (Inr r, evs) \<and>
                 rs_Text r = textOf ds \<and> rs_Reasoning r = reasoningOf ds
          else \<exists>evs. consumeStream argsOf (failoverRecv t streamRecv) step s = Some (Inl e, evs)) \<and>
    fst_f (recvAll (failoverRecv t streamRecv) (Suc (length ds)) s) =
      (if errors_is e IoEOF then recordRecovery (fst_f s) else recordFailure t e (fst_f s))"
proof -
  have r: "recvAll recv (Suc n) s = snd (recv (recvAll recv n s))" for recv :: "stream failoverStream \<Rightarrow> _" and n s
    by (induction n arbitrary: s) simp_all
  let ?s' = "recvAll (failoverRecv t streamRecv) (length ds) s"
  have "fst_f ?s' = fst_f s" "fst_inner ?s' = \<lparr>st_deltas = [], st_end = e\<rparr>"
    using recvAll_delivers [OF assms, of t] by (auto simp: Let_def)
  then have "fst_f (recvAll (failoverRecv t streamRecv) (Suc (length ds)) s) =
      (if errors_is e IoEOF then recordRecovery (fst_f s) else recordFailure t e (fst_f s))"
    unfolding r by (simp add: failoverRecv_def streamRecv_def)
  then show ?thesis
    using fo_stream.consumeStream_eof [of s argsOf t step] fo_stream.consumeStream_broken [of s argsOf t step] assms
    by (auto simp del: recvAll.simps)
qed

theorem failover_stream_transparent_witness:
  "\<exists>r evs. consumeStream (\<lambda>_. []) (failoverRecv 7 streamRecv) 0
     \<lparr>fst_f = freshFailover, fst_inner = \<lparr>st_deltas = [textDelta DeltaText ''hi''], st_end = ErrSentinel IoEOF\<rparr>, fst_delivered = False\<rparr> =
     Some (Inr r, evs) \<and> rs_Text r = ''hi''"
  using failover_stream_transparent [of "\<lparr>fst_f = freshFailover, fst_inner = \<lparr>st_deltas = [textDelta DeltaText ''hi''], st_end = ErrSentinel IoEOF\<rparr>, fst_delivered = False\<rparr>"
        "[textDelta DeltaText ''hi'']" "ErrSentinel IoEOF" "\<lambda>_. []" 7 0]
  by (auto simp: textOf_def textDelta_def)

end
