(* ===== verification/Compaction.thy ===== *)
theory Compaction
  imports Failover
begin

text \<open>
  The summarizing compactor of \<^verbatim>\<open>src/compaction.go\<close>: when the estimate of a conversation passes its
  budget, the head is replaced by a model-written summary and a recent tail is kept.
\<close>

definition defaultCharsPerToken :: int where "defaultCharsPerToken = 4"
definition defaultKeepRecent :: int where "defaultKeepRecent = 6"

definition messageChars :: "message \<Rightarrow> nat" where
  "messageChars m = length (m_Text m) + sum_list (map (\<lambda>tc. length (tc_Args tc)) (m_ToolCalls m))"

definition charEstimate :: "int \<Rightarrow> message list \<Rightarrow> int" where
  "charEstimate perToken msgs =
     (let per = (if perToken \<le> 0 then defaultCharsPerToken else perToken)
      in int (sum_list (map messageChars msgs)) div per)"

record 'w summarizingCompactor =
  cmp_Generate :: "providerRequest \<Rightarrow> 'w \<Rightarrow> (goerr + providerResponse option) \<times> 'w"
  cmp_Estimate :: "message list \<Rightarrow> int"
  cmp_MaxTokens :: int
  cmp_KeepRecent :: int
  cmp_Instructions :: string

definition defaultSummarizerInstructions :: string where
  "defaultSummarizerInstructions = ''You compress the earlier part of a conversation into a compact summary '' @
     ''an AI assistant will carry forward in place of the original messages. Preserve durable facts, decisions, '' @
     ''user preferences, names, numbers, identifiers, and any open threads or pending tasks. Write terse notes, '' @
     ''not prose, and do not invent anything that is not in the text.''"

definition newSummarizingCompactor ::
  "(providerRequest \<Rightarrow> 'w \<Rightarrow> (goerr + providerResponse option) \<times> 'w) option \<Rightarrow> (message list \<Rightarrow> int) option \<Rightarrow>
   int \<Rightarrow> int \<Rightarrow> string \<Rightarrow> goerr + 'w summarizingCompactor" where
  "newSummarizingCompactor prov est maxTokens keepRecent instructions =
     (case prov of
        None \<Rightarrow> Inl (ErrNew ''agent: SummarizingCompactor needs a Provider'')
      | Some g \<Rightarrow>
          if maxTokens \<le> 0 then Inl (ErrNew ''agent: SummarizingCompactor needs MaxTokens > 0'')
          else Inr \<lparr>cmp_Generate = g,
                    cmp_Estimate = (case est of None \<Rightarrow> charEstimate 0 | Some e \<Rightarrow> e),
                    cmp_MaxTokens = maxTokens,
                    cmp_KeepRecent = (if keepRecent \<le> 0 then defaultKeepRecent else keepRecent),
                    cmp_Instructions = (if instructions = [] then defaultSummarizerInstructions else instructions)\<rparr>)"

text \<open>The loop that moves the cut before a run of tool results.\<close>

fun cutBack :: "message list \<Rightarrow> nat \<Rightarrow> nat" where
  "cutBack history 0 = 0"
| "cutBack history (Suc c) = (if m_Role (history ! Suc c) = RoleTool then cutBack history c else Suc c)"

definition renderMessage :: "message \<Rightarrow> string" where
  "renderMessage m = m_Role m @ '': '' @ m_Text m @
     concat (map (\<lambda>tc. [CHR 0x0A] @ ''  [calls '' @ tc_Name tc @ '' '' @ trimSpace (tc_Args tc) @ '']'') (m_ToolCalls m))"

definition renderHistory :: "message list \<Rightarrow> string" where
  "renderHistory msgs = strJoin (map renderMessage msgs) [CHR 0x0A]"

definition summarizeRequest :: "string \<Rightarrow> message list \<Rightarrow> providerRequest" where
  "summarizeRequest instructions head =
     \<lparr>rq_Instructions = instructions,
      rq_Messages = [textMessage RoleUser (''Conversation excerpt to summarize:'' @ [CHR 0x0A, CHR 0x0A] @ renderHistory head)],
      rq_Tools = [], rq_Temperature = None, rq_MaxTokens = 0, rq_ToolChoice = \<lparr>tch_Mode = [], tch_Name = []\<rparr>,
      rq_Seed = None, rq_Penalties = None, rq_Guided = None, rq_ResponseSchema = []\<rparr>"

definition summarize :: "'w summarizingCompactor \<Rightarrow> message list \<Rightarrow> 'w \<Rightarrow> (goerr + string) \<times> 'w" where
  "summarize c head w =
     (case cmp_Generate c (summarizeRequest (cmp_Instructions c) head) w of
        (Inl e, w') \<Rightarrow> (Inl (Errorf ''agent: summarizing head: %w'' [] (Some e)), w')
      | (Inr None, w') \<Rightarrow> (Inl (ErrNew ''agent: summarizer returned no text''), w')
      | (Inr (Some resp), w') \<Rightarrow>
          if trimSpace (rs_Text resp) = [] then (Inl (ErrNew ''agent: summarizer returned no text''), w')
          else (Inr (''Summary of earlier conversation:'' @ [CHR 0x0A] @ trimSpace (rs_Text resp)), w'))"

definition compact :: "'w summarizingCompactor \<Rightarrow> message list \<Rightarrow> 'w \<Rightarrow> (goerr + message list) \<times> 'w" where
  "compact c history w =
     (if cmp_Estimate c history \<le> cmp_MaxTokens c then (Inr history, w)
      else (let cut = cutBack history (nat (int (length history) - cmp_KeepRecent c))
            in if cut = 0 then (Inr history, w)
               else case summarize c (take cut history) w of
                      (Inl e, w') \<Rightarrow> (Inl e, w')
                    | (Inr summary, w') \<Rightarrow> (Inr (textMessage RoleSystem summary # drop cut history), w')))"

definition fits :: "'w summarizingCompactor \<Rightarrow> message list \<Rightarrow> bool" where
  "fits c msgs \<longleftrightarrow> cmp_Estimate c msgs \<le> cmp_MaxTokens c"

subsection \<open>Pairing of tool results\<close>

text \<open>
  A conversation is well paired when every tool message answers a call of the nearest message before it
  that is not a tool message. Providers refuse other conversations.
\<close>

fun paired :: "string list \<Rightarrow> message list \<Rightarrow> bool" where
  "paired ids [] \<longleftrightarrow> True"
| "paired ids (m # ms) \<longleftrightarrow>
     (if m_Role m = RoleTool then m_ToolCallID m \<in> set ids \<and> paired ids ms
      else paired (map tc_ID (m_ToolCalls m)) ms)"

lemma paired_append:
  "paired ids (xs @ ys) \<Longrightarrow> paired ids xs \<and> (\<exists>ids'. paired ids' ys)"
  by (induction xs arbitrary: ids) (auto split: if_splits)

lemma paired_any_start: "paired ids ms \<Longrightarrow> ms = [] \<or> m_Role (hd ms) \<noteq> RoleTool \<Longrightarrow> paired ids' ms"
  by (cases ms) auto

lemma cutBack_le: "cutBack h c \<le> c"
  by (induction c) auto

lemma cutBack_head: "cutBack h c \<noteq> 0 \<Longrightarrow> m_Role (h ! cutBack h c) \<noteq> RoleTool"
  by (induction c) (auto split: if_splits)

lemma cutBack_skipped:
  "cutBack h c < i \<Longrightarrow> i \<le> c \<Longrightarrow> m_Role (h ! i) = RoleTool"
  by (induction c) (auto simp: le_Suc_eq split: if_splits)

lemma compact_result:
  assumes "compact c h w = (Inr out, w')" "0 < cmp_KeepRecent c"
  shows "out = h \<or> (\<exists>summary cut. 0 < cut \<and> cut < length h \<and> int cut \<le> int (length h) - cmp_KeepRecent c \<and>
           out = textMessage RoleSystem summary # drop cut h \<and> m_Role (h ! cut) \<noteq> RoleTool \<and>
           (\<forall>i. cut < i \<and> int i \<le> int (length h) - cmp_KeepRecent c \<longrightarrow> m_Role (h ! i) = RoleTool))"
proof -
  let ?k = "nat (int (length h) - cmp_KeepRecent c)"
  let ?cut = "cutBack h ?k"
  show ?thesis
  proof (cases "cmp_Estimate c h \<le> cmp_MaxTokens c \<or> ?cut = 0")
    case True
    then show ?thesis using assms(1) by (auto simp: compact_def Let_def split: if_splits)
  next
    case False
    then obtain s where "out = textMessage RoleSystem s # drop ?cut h"
      using assms(1) by (auto simp: compact_def Let_def split: prod.splits sum.splits)
    moreover have "?cut \<le> ?k" by (rule cutBack_le)
    moreover have "m_Role (h ! ?cut) \<noteq> RoleTool" using False by (intro cutBack_head) simp
    moreover have "m_Role (h ! i) = RoleTool" if "?cut < i" "int i \<le> int (length h) - cmp_KeepRecent c" for i
      using cutBack_skipped [of h ?k i] that by simp
    ultimately show ?thesis using False assms(2)
      by (intro disjI2 exI [of _ s] exI [of _ ?cut]) auto
  qed
qed

text \<open>
  C16: compacting a well paired conversation gives a well paired one: it is the conversation itself, or
  one system message followed by the conversation from a cut on that keeps at least the configured
  number of recent messages, never starts inside a run of tool results and is otherwise as late as
  possible.
\<close>

theorem compact_keeps_recent_and_pairing:
  assumes "newSummarizingCompactor prov est mt kr ins = Inr c" "compact c h w = (Inr out, w')" "paired [] h"
  shows "paired [] out \<and>
    (out = h \<or> (\<exists>summary cut. 0 < cut \<and> int cut \<le> int (length h) - cmp_KeepRecent c \<and>
       out = textMessage RoleSystem summary # drop cut h \<and> m_Role (h ! cut) \<noteq> RoleTool \<and>
       (\<forall>i. cut < i \<and> int i \<le> int (length h) - cmp_KeepRecent c \<longrightarrow> m_Role (h ! i) = RoleTool)))"
proof -
  have k: "0 < cmp_KeepRecent c"
    using assms(1) by (auto simp: newSummarizingCompactor_def defaultKeepRecent_def split: option.splits if_splits)
  from compact_result [OF assms(2) k] show ?thesis
  proof
    assume "out = h" then show ?thesis using assms(3) by simp
  next
    assume "\<exists>summary cut. 0 < cut \<and> cut < length h \<and> int cut \<le> int (length h) - cmp_KeepRecent c \<and>
           out = textMessage RoleSystem summary # drop cut h \<and> m_Role (h ! cut) \<noteq> RoleTool \<and>
           (\<forall>i. cut < i \<and> int i \<le> int (length h) - cmp_KeepRecent c \<longrightarrow> m_Role (h ! i) = RoleTool)"
    then obtain s cut where c: "0 < cut" "cut < length h" "int cut \<le> int (length h) - cmp_KeepRecent c"
      "out = textMessage RoleSystem s # drop cut h" "m_Role (h ! cut) \<noteq> RoleTool"
      "\<forall>i. cut < i \<and> int i \<le> int (length h) - cmp_KeepRecent c \<longrightarrow> m_Role (h ! i) = RoleTool" by blast
    have "paired [] (take cut h @ drop cut h)" using assms(3) by simp
    then obtain ids where "paired ids (drop cut h)"
      using paired_append by blast
    then have "paired [] (drop cut h)"
      by (rule paired_any_start) (use c(2,5) in \<open>simp add: hd_drop_conv_nth\<close>)
    then have "paired [] out" unfolding c(4) by (simp add: textMessage_def)
    then show ?thesis using c(1,3-6) by (intro conjI disjI2 exI [of _ s] exI [of _ cut])
  qed
qed

definition exCompactor :: "unit summarizingCompactor" where
  "exCompactor = \<lparr>cmp_Generate = (\<lambda>_ w. (Inr (Some \<lparr>rs_Text = ''talk'', rs_Reasoning = [], rs_ToolCalls = [], rs_FinishReason = [], rs_Usage = None\<rparr>), w)),
     cmp_Estimate = charEstimate 0, cmp_MaxTokens = 10, cmp_KeepRecent = 1, cmp_Instructions = defaultSummarizerInstructions\<rparr>"

definition exHistory :: "message list" where
  "exHistory = [textMessage RoleUser ''a rather long question, which does not fit the budget'',
     \<lparr>m_Role = RoleAssistant, m_Text = [], m_ToolCalls = [\<lparr>tc_ID = ''1'', tc_Name = ''t'', tc_Args = []\<rparr>], m_ToolCallID = [], m_Timestamp = 0\<rparr>,
     \<lparr>m_Role = RoleTool, m_Text = ''r'', m_ToolCalls = [], m_ToolCallID = ''1'', m_Timestamp = 0\<rparr>]"

lemmas compact_eval = exCompactor_def exHistory_def charEstimate_def defaultCharsPerToken_def messageChars_def
  textMessage_def

lemma exCompactor_new: "newSummarizingCompactor (Some (cmp_Generate exCompactor)) None 10 1 [] = Inr exCompactor"
  by (simp add: newSummarizingCompactor_def exCompactor_def)

lemma trim_talk [simp]: "trimSpace ''talk'' = ''talk''"
  by (rule trimSpace_id) (simp_all add: space_seqs_def hasPrefix_iff hasSuffix_def)

lemma exCompactor_run:
  "compact exCompactor exHistory () =
     (Inr (textMessage RoleSystem (''Summary of earlier conversation:'' @ [CHR 0x0A] @ ''talk'') # tl exHistory), ())"
proof -
  have "cutBack exHistory 2 = 1" by (simp add: exHistory_def numeral_2_eq_2)
  moreover have "cmp_Estimate exCompactor exHistory > cmp_MaxTokens exCompactor"
    by (simp add: exCompactor_def exHistory_def charEstimate_def defaultCharsPerToken_def messageChars_def textMessage_def)
  moreover have "length exHistory = 3" by (simp add: exHistory_def)
  ultimately show ?thesis
    by (simp add: compact_def summarize_def exCompactor_def Let_def drop_Suc)
qed

theorem compact_keeps_recent_and_pairing_witness:
  "\<exists>out. compact exCompactor exHistory () = (Inr out, ()) \<and> paired [] out"
  using compact_keeps_recent_and_pairing [OF exCompactor_new exCompactor_run] exCompactor_run
  by (auto simp: exHistory_def textMessage_def)

end
