(* ===== verification/StepStage.thy ===== *)
theory StepStage
  imports Compaction
begin

text \<open>
  The stages that shape each step of a turn, \<^verbatim>\<open>src/stepstage.go\<close>: their scopes and order, the chain that
  runs them and checks what each scope may change, and the built-in stages.
\<close>

datatype stepScope = ScopeSession | ScopeTurn | ScopeRequest

fun scopeRank :: "stepScope \<Rightarrow> nat" where
  "scopeRank ScopeSession = 0"
| "scopeRank ScopeTurn = 1"
| "scopeRank ScopeRequest = 2"

lemma scopeRank_inject [simp]: "scopeRank a = scopeRank b \<longleftrightarrow> a = b"
  by (cases a; cases b) simp_all

instantiation stepScope :: linorder
begin

definition less_eq_stepScope :: "stepScope \<Rightarrow> stepScope \<Rightarrow> bool" where
  "less_eq_stepScope a b \<longleftrightarrow> scopeRank a \<le> scopeRank b"

definition less_stepScope :: "stepScope \<Rightarrow> stepScope \<Rightarrow> bool" where
  "less_stepScope a b \<longleftrightarrow> scopeRank a < scopeRank b"

instance
  by standard (auto simp: less_eq_stepScope_def less_stepScope_def)

end

record stepInfo =
  si_Step :: int
  si_MaxSteps :: int
  si_Usage :: usage
  si_Turn :: "message list"

record 'p stepView =
  sv_Messages :: "message list"
  sv_Tools :: "toolDef list"
  sv_Provider :: "'p option"
  sv_ProviderName :: string
  sv_Guided :: "guidedDecoding ptr option"
  sv_Generation :: generationParams

record ('p, 'w) stepStage =
  sg_Name :: string
  sg_Scope :: stepScope
  sg_Run :: "stepInfo \<Rightarrow> 'p stepView \<Rightarrow> 'w \<Rightarrow> (goerr + 'p stepView) \<times> 'w"

subsection \<open>Built-in stages\<close>

text \<open>A compactor may also say whether messages fit; \<open>emit\<close> delivers an event to the world.\<close>

record 'w compactor =
  co_Compact :: "message list \<Rightarrow> 'w \<Rightarrow> (goerr + message list) \<times> 'w"
  co_Fits :: "(message list \<Rightarrow> bool) option"

definition summarizingAsCompactor :: "'w summarizingCompactor \<Rightarrow> 'w compactor" where
  "summarizingAsCompactor c = \<lparr>co_Compact = compact c, co_Fits = Some (fits c)\<rparr>"

definition compactionRun ::
  "'w compactor \<Rightarrow> (event \<Rightarrow> 'w \<Rightarrow> 'w) \<Rightarrow> stepInfo \<Rightarrow> 'p stepView \<Rightarrow> 'w \<Rightarrow> (goerr + 'p stepView) \<times> 'w" where
  "compactionRun c emit info v w =
     (let before = length (sv_Messages v)
      in case co_Compact c (sv_Messages v) w of
           (Inl e, w1) \<Rightarrow> (Inl (Errorf ''agent: compaction: %w'' [] (Some e)), w1)
         | (Inr compacted, w1) \<Rightarrow>
             (let changed = length compacted \<noteq> before;
                  v1 = (if changed then v\<lparr>sv_Messages := compacted\<rparr> else v);
                  w2 = (if changed then emit (EventCompaction (si_Step info) (int before) (int (length compacted))) w1 else w1)
              in if (case co_Fits c of None \<Rightarrow> False | Some f \<Rightarrow> 1 < si_Step info \<and> \<not> f (sv_Messages v1))
                 then (Inl (Errorf ''%w at step %d, even after compacting'' [itoa (si_Step info)] (Some (ErrSentinel ErrContextBudget))), w2)
                 else (Inr v1, w2)))"

definition compactionStage :: "'w compactor \<Rightarrow> (event \<Rightarrow> 'w \<Rightarrow> 'w) \<Rightarrow> ('p, 'w) stepStage" where
  "compactionStage c emit = \<lparr>sg_Name = ''agent.compaction'', sg_Scope = ScopeTurn, sg_Run = compactionRun c emit\<rparr>"

type_synonym 'w toolSelector = "message list \<Rightarrow> toolDef list \<Rightarrow> 'w \<Rightarrow> (goerr + toolDef list) \<times> 'w"

definition selectorStage :: "'w toolSelector \<Rightarrow> ('p, 'w) stepStage" where
  "selectorStage sel = \<lparr>sg_Name = ''agent.selector'', sg_Scope = ScopeRequest,
     sg_Run = (\<lambda>_ v w. case sel (sv_Messages v) (sv_Tools v) w of
                         (Inl e, w') \<Rightarrow> (Inl (Errorf ''agent: tool selector: %w'' [] (Some e)), w')
                       | (Inr tools, w') \<Rightarrow> (Inr (v\<lparr>sv_Tools := tools\<rparr>), w'))\<rparr>"

definition stepBudgetText :: "int \<Rightarrow> int \<Rightarrow> int \<Rightarrow> string" where
  "stepBudgetText stp mx left =
     (if left = 0 then ''Step '' @ itoa stp @ '' of '' @ itoa mx @ '': this is the last step in this turn.''
      else ''Step '' @ itoa stp @ '' of '' @ itoa mx @ '' in this turn: '' @ itoa left @ '' left after this one.'')
     @ '' If the task won't fit, finish the step you're on and tell the user where you got to and what's left, rather than starting something new.''"

definition stepBudgetStage :: "int \<Rightarrow> ('p, 'w) stepStage" where
  "stepBudgetStage within = \<lparr>sg_Name = ''agent.step_budget'', sg_Scope = ScopeRequest,
     sg_Run = (\<lambda>info v w.
       let lim = (if within \<le> 0 then max (si_MaxSteps info div 4) 3 else within);
           left = si_MaxSteps info - si_Step info
       in if left > lim then (Inr v, w)
          else (Inr (v\<lparr>sv_Messages := sv_Messages v @ [textMessage RoleSystem (stepBudgetText (si_Step info) (si_MaxSteps info) left)]\<rparr>), w))\<rparr>"

subsection \<open>The chain\<close>

definition stepChain ::
  "'w compactor option \<Rightarrow> 'w toolSelector option \<Rightarrow> ('p, 'w) stepStage list \<Rightarrow> (event \<Rightarrow> 'w \<Rightarrow> 'w) \<Rightarrow> ('p, 'w) stepStage list" where
  "stepChain cmp sel stages emit =
     sort_key sg_Scope
       ((case cmp of None \<Rightarrow> [] | Some c \<Rightarrow> [compactionStage c emit]) @
        (case sel of None \<Rightarrow> [] | Some s \<Rightarrow> [selectorStage s]) @ stages)"

definition sameMessage :: "message \<Rightarrow> message \<Rightarrow> bool" where
  "sameMessage a b \<longleftrightarrow> m_Role a = m_Role b \<and> m_Text a = m_Text b \<and> m_ToolCallID a = m_ToolCallID b \<and>
     length (m_ToolCalls a) = length (m_ToolCalls b)"

definition stageError :: "string \<Rightarrow> string \<Rightarrow> goerr" where
  "stageError name what = Errorf (''step stage %q: '' @ what) [name] None"

text \<open>
  What one stage's output means: the new working messages, the messages it adds to the record and the
  next view, or the refusal.
\<close>

definition checkStage ::
  "('p, 'w) stepStage \<Rightarrow> message list \<Rightarrow> 'p stepView \<Rightarrow> 'p stepView \<Rightarrow> goerr + (message list \<times> message list \<times> 'p stepView)" where
  "checkStage st working view out =
     (let inm = sv_Messages view; outm = sv_Messages out
      in if sg_Scope st \<noteq> ScopeRequest \<and> (sv_Provider out \<noteq> None \<or> sv_ProviderName out \<noteq> []) then
           Inl (stageError (sg_Name st) ''only a request stage may route a call to another provider'')
         else if sg_Scope st \<noteq> ScopeRequest \<and> sv_Guided out \<noteq> sv_Guided view then
           Inl (stageError (sg_Name st) ''only a request stage may set a call's grammar'')
         else if sg_Scope st \<noteq> ScopeRequest \<and> sv_Generation out \<noteq> sv_Generation view then
           Inl (stageError (sg_Name st) ''only a request stage may set a call's generation params'')
         else case sg_Scope st of
                ScopeSession \<Rightarrow>
                  if length outm < length inm \<or> \<not> list_all2 sameMessage (take (length inm) outm) inm then
                    Inl (stageError (sg_Name st) ''a session stage may only append to the record'')
                  else Inr (outm, drop (length inm) outm, out\<lparr>sv_Tools := sv_Tools view\<rparr>)
              | ScopeTurn \<Rightarrow> Inr (outm, [], out\<lparr>sv_Tools := sv_Tools view\<rparr>)
              | ScopeRequest \<Rightarrow> Inr (working, [], out))"

fun chainLoop ::
  "('p, 'w) stepStage list \<Rightarrow> stepInfo \<Rightarrow> message list \<Rightarrow> message list \<Rightarrow> 'p stepView \<Rightarrow> 'w \<Rightarrow>
   (goerr + (message list \<times> message list \<times> 'p stepView)) \<times> 'w" where
  "chainLoop [] info working recorded view w = (Inr (working, recorded, view), w)"
| "chainLoop (st # chain) info working recorded view w =
     (case sg_Run st info view w of
        (Inl e, w') \<Rightarrow> (Inl (Errorf ''step stage %q: %w'' [sg_Name st] (Some e)), w')
      | (Inr out, w') \<Rightarrow>
          (case checkStage st working view out of
             Inl e \<Rightarrow> (Inl e, w')
           | Inr (working', added, view') \<Rightarrow> chainLoop chain info working' (recorded @ added) view' w'))"

definition runStepChain ::
  "('p, 'w) stepStage list \<Rightarrow> stepInfo \<Rightarrow> message list \<Rightarrow> toolDef list \<Rightarrow> guidedDecoding ptr option \<Rightarrow> generationParams \<Rightarrow> 'w \<Rightarrow>
   (goerr + (message list \<times> message list \<times> 'p stepView)) \<times> 'w" where
  "runStepChain chain info working tools guided gen w =
     chainLoop chain info working []
       \<lparr>sv_Messages = working, sv_Tools = tools, sv_Provider = None, sv_ProviderName = [], sv_Guided = guided, sv_Generation = gen\<rparr> w"

subsection \<open>Scopes are kept\<close>

lemma chainLoop_append:
  "chainLoop (c1 @ c2) info wk rc v w =
     (case chainLoop c1 info wk rc v w of
        (Inl e, w') \<Rightarrow> (Inl e, w')
      | (Inr (wk', rc', v'), w') \<Rightarrow> chainLoop c2 info wk' rc' v' w')"
  by (induction c1 arbitrary: wk rc v w) (auto split: prod.splits sum.splits)

lemma chainLoop_requests:
  "\<forall>st\<in>set c. sg_Scope st = ScopeRequest \<Longrightarrow> chainLoop c info wk rc v w = (Inr (wk', rc', v'), w') \<Longrightarrow> wk' = wk \<and> rc' = rc"
proof (induction c arbitrary: v w)
  case (Cons st c)
  obtain out w1 where r: "sg_Run st info v w = (Inr out, w1)"
    using Cons.prems(2) by (auto split: prod.splits sum.splits)
  have "checkStage st wk v out = Inr (wk, [], out)"
    using Cons.prems(1) by (simp add: checkStage_def Let_def)
  then show ?case using Cons.IH [of out w1] Cons.prems r by simp
qed simp

text \<open>While only session and turn stages run, the view is the working messages with the settings of the turn.\<close>

definition plainView :: "message list \<Rightarrow> toolDef list \<Rightarrow> guidedDecoding ptr option \<Rightarrow> generationParams \<Rightarrow> 'p stepView" where
  "plainView msgs tools guided gen =
     \<lparr>sv_Messages = msgs, sv_Tools = tools, sv_Provider = None, sv_ProviderName = [], sv_Guided = guided, sv_Generation = gen\<rparr>"

lemma checkStage_plain:
  assumes "checkStage st wk (plainView wk tools g p) out = Inr (wk', added, v')" "sg_Scope st \<noteq> ScopeRequest"
  shows "v' = plainView wk' tools g p \<and>
    (sg_Scope st = ScopeSession \<longrightarrow>
       length wk \<le> length wk' \<and> list_all2 sameMessage (take (length wk) wk') wk \<and> added = drop (length wk) wk') \<and>
    (sg_Scope st = ScopeTurn \<longrightarrow> added = [])"
  using assms by (cases "sg_Scope st") (auto simp: checkStage_def plainView_def Let_def split: if_splits)

lemma chainLoop_plain:
  "\<forall>st\<in>set c. sg_Scope st \<noteq> ScopeRequest \<Longrightarrow>
   chainLoop c info wk rc (plainView wk tools g p) w = (Inr (wk', rc', v'), w') \<Longrightarrow> v' = plainView wk' tools g p"
proof (induction c arbitrary: wk rc w)
  case (Cons st c)
  then obtain out w1 wk1 ad v1 where "sg_Run st info (plainView wk tools g p) w = (Inr out, w1)"
    and c: "checkStage st wk (plainView wk tools g p) out = Inr (wk1, ad, v1)"
    and l: "chainLoop c info wk1 (rc @ ad) v1 w1 = (Inr (wk', rc', v'), w')"
    by (auto split: prod.splits sum.splits)
  then have "v1 = plainView wk1 tools g p" using checkStage_plain [OF c] Cons.prems(1) by auto
  then show ?case using Cons.IH [of wk1 "rc @ ad" w1] l Cons.prems(1) by simp
qed simp

lemma sameMessage_refl: "list_all2 sameMessage xs xs"
  by (rule list_all2_refl) (simp add: sameMessage_def)

lemma sameMessage_trans: "sameMessage a b \<Longrightarrow> sameMessage b c \<Longrightarrow> sameMessage a c"
  by (simp add: sameMessage_def)

lemma chainLoop_session:
  "\<forall>st\<in>set c. sg_Scope st = ScopeSession \<Longrightarrow>
   chainLoop c info wk rc (plainView wk tools g p) w = (Inr (wk', rc', v'), w') \<Longrightarrow>
   length wk \<le> length wk' \<and> list_all2 sameMessage (take (length wk) wk') wk \<and>
   (\<exists>added. rc' = rc @ added \<and> list_all2 sameMessage (drop (length wk) wk') added)"
proof (induction c arbitrary: wk rc w)
  case Nil
  then show ?case by (simp add: sameMessage_refl)
next
  case (Cons st c)
  then obtain out w1 wk1 ad v1 where "sg_Run st info (plainView wk tools g p) w = (Inr out, w1)"
    and c: "checkStage st wk (plainView wk tools g p) out = Inr (wk1, ad, v1)"
    and l: "chainLoop c info wk1 (rc @ ad) v1 w1 = (Inr (wk', rc', v'), w')"
    by (auto split: prod.splits sum.splits)
  have s: "v1 = plainView wk1 tools g p" "length wk \<le> length wk1"
    "list_all2 sameMessage (take (length wk) wk1) wk" "ad = drop (length wk) wk1"
    using checkStage_plain [OF c] Cons.prems(1) by auto
  obtain a2 where i: "length wk1 \<le> length wk'" "list_all2 sameMessage (take (length wk1) wk') wk1"
    "rc' = (rc @ ad) @ a2" "list_all2 sameMessage (drop (length wk1) wk') a2"
    using Cons.IH [of wk1 "rc @ ad" w1] l Cons.prems(1) s(1) by auto
  have t: "list_all2 sameMessage (take (length wk) wk') (take (length wk) wk1)"
    using list_all2_takeI [OF i(2), of "length wk"] s(2) by (simp add: min_def)
  have d: "list_all2 sameMessage (drop (length wk) (take (length wk1) wk')) ad"
    using list_all2_dropI [OF i(2), of "length wk"] s(4) by simp
  have "drop (length wk) wk' = drop (length wk) (take (length wk1) wk') @ drop (length wk1) wk'"
    using s(2) i(1) by (metis append_take_drop_id drop_append length_take min.absorb2 diff_is_0_eq drop_0)
  then have "list_all2 sameMessage (drop (length wk) wk') (ad @ a2)"
    using list_all2_appendI [OF d i(4)] by simp
  then show ?case
    using s(2) i(1,3) list_all2_trans [of sameMessage sameMessage sameMessage, OF sameMessage_trans t s(3)] by auto
qed

lemma chainLoop_turn:
  "\<forall>st\<in>set c. sg_Scope st = ScopeTurn \<Longrightarrow>
   chainLoop c info wk rc (plainView wk tools g p) w = (Inr (wk', rc', v'), w') \<Longrightarrow> rc' = rc"
proof (induction c arbitrary: wk rc w)
  case (Cons st c)
  then obtain out w1 wk1 ad v1 where "sg_Run st info (plainView wk tools g p) w = (Inr out, w1)"
    and c: "checkStage st wk (plainView wk tools g p) out = Inr (wk1, ad, v1)"
    and l: "chainLoop c info wk1 (rc @ ad) v1 w1 = (Inr (wk', rc', v'), w')"
    by (auto split: prod.splits sum.splits)
  then have "v1 = plainView wk1 tools g p" "ad = []" using checkStage_plain [OF c] Cons.prems(1) by auto
  then show ?case using Cons.IH [of wk1 rc w1] l Cons.prems(1) by simp
qed simp

lemma sorted_scopes:
  "sorted (map sg_Scope ys) \<Longrightarrow>
   ys = filter (\<lambda>s. sg_Scope s = ScopeSession) ys @ filter (\<lambda>s. sg_Scope s = ScopeTurn) ys @ filter (\<lambda>s. sg_Scope s = ScopeRequest) ys"
proof (induction ys)
  case (Cons y ys)
  have le: "scopeRank (sg_Scope y) \<le> scopeRank (sg_Scope x)" if "x \<in> set ys" for x
    using Cons.prems that by (auto simp: less_eq_stepScope_def)
  have r: "scopeRank s = 0 \<longleftrightarrow> s = ScopeSession" "scopeRank s \<le> 1 \<longleftrightarrow> s \<noteq> ScopeRequest" for s by (cases s; simp)+
  have "filter (\<lambda>s. sg_Scope s = ScopeSession) ys = []" if "sg_Scope y \<noteq> ScopeSession"
    using le that r by (auto simp: filter_empty_conv) (metis le_zero_eq r(1))
  moreover have "filter (\<lambda>s. sg_Scope s = ScopeTurn) ys = []" if "sg_Scope y = ScopeRequest"
    using le that by (fastforce simp: filter_empty_conv)
  ultimately show ?case using Cons.IH Cons.prems by (cases "sg_Scope y") auto
qed simp

definition scopeStages :: "stepScope \<Rightarrow> 'w compactor option \<Rightarrow> 'w toolSelector option \<Rightarrow> ('p, 'w) stepStage list \<Rightarrow> (event \<Rightarrow> 'w \<Rightarrow> 'w) \<Rightarrow> ('p, 'w) stepStage list" where
  "scopeStages k cmp sel stages emit =
     filter (\<lambda>s. sg_Scope s = k)
       ((case cmp of None \<Rightarrow> [] | Some c \<Rightarrow> [compactionStage c emit]) @
        (case sel of None \<Rightarrow> [] | Some s \<Rightarrow> [selectorStage s]) @ stages)"

lemma stepChain_scopes:
  "stepChain cmp sel stages emit =
     scopeStages ScopeSession cmp sel stages emit @ scopeStages ScopeTurn cmp sel stages emit @ scopeStages ScopeRequest cmp sel stages emit"
  unfolding stepChain_def scopeStages_def
  by (subst sorted_scopes, simp) (simp only: sort_key_stable)


definition exGen :: generationParams where
  "exGen = \<lparr>gp_Temperature = None, gp_MaxTokens = 0, gp_ToolChoice = \<lparr>tch_Mode = [], tch_Name = []\<rparr>, gp_Seed = None, gp_Penalties = None\<rparr>"

definition exInfo :: "int \<Rightarrow> stepInfo" where
  "exInfo n = \<lparr>si_Step = n, si_MaxSteps = 10, si_Usage = zeroUsage, si_Turn = []\<rparr>"

definition noteStage :: "(unit, unit) stepStage" where
  "noteStage = \<lparr>sg_Name = ''note'', sg_Scope = ScopeSession,
     sg_Run = (\<lambda>_ v w. (Inr (v\<lparr>sv_Messages := sv_Messages v @ [textMessage RoleUser ''note'']\<rparr>), w))\<rparr>"


subsection \<open>What the checks let through\<close>

text \<open>
  The compaction stage tells a compaction by the number of messages. When the summary replaces
  exactly one message the count is the same, so the stage drops the summary the model was asked for;
  after the first step the turn then ends with the context-budget error although the compacted messages
  fit.
\<close>

lemma compaction_stage_drops_equal_length_summary:
  "\<exists>out e. compact exCompactor exHistory () = (Inr out, ()) \<and> fits exCompactor out \<and>
     sg_Run (compactionStage (summarizingAsCompactor exCompactor) (\<lambda>_ w. w)) (exInfo 2)
       (plainView exHistory [] None exGen :: unit stepView) () = (Inl e, ()) \<and> errors_is e ErrContextBudget"
proof -
  let ?out = "textMessage RoleSystem (''Summary of earlier conversation:'' @ [CHR 0x0A] @ ''talk'') # tl exHistory"
  have f: "fits exCompactor ?out"
    by (simp add: fits_def compact_eval Let_def)
  have "\<not> fits exCompactor exHistory" by (simp add: fits_def compact_eval Let_def)
  moreover have "length ?out = length exHistory" by (simp add: exHistory_def)
  ultimately show ?thesis
    using f exCompactor_run
    by (simp add: compactionStage_def compactionRun_def summarizingAsCompactor_def plainView_def exInfo_def Let_def)
qed

text \<open>
  The check of session stages compares messages by role, text, call id and the number of tool calls
  only: a session stage that changes the arguments of a recorded tool call passes it.
\<close>

lemma session_stage_can_rewrite_call_args:
  "\<exists>st :: (unit, unit) stepStage. \<exists>m m'. sg_Scope st = ScopeSession \<and> m_ToolCalls m' \<noteq> m_ToolCalls m \<and>
     fst (runStepChain [st] (exInfo 1) [m] [] None exGen ()) = Inr ([m'], [], plainView [m'] [] None exGen)"
proof -
  let ?m = "\<lambda>a. \<lparr>m_Role = RoleAssistant, m_Text = [], m_ToolCalls = [\<lparr>tc_ID = ''1'', tc_Name = ''t'', tc_Args = a\<rparr>], m_ToolCallID = [], m_Timestamp = 0\<rparr>"
  let ?st = "\<lparr>sg_Name = ''s'', sg_Scope = ScopeSession, sg_Run = (\<lambda>_ v w. (Inr (v\<lparr>sv_Messages := [?m ''2'']\<rparr>), w))\<rparr> :: (unit, unit) stepStage"
  show ?thesis
    by (rule exI [of _ ?st], rule exI [of _ "?m ''1''"], rule exI [of _ "?m ''2''"])
       (simp add: runStepChain_def checkStage_def sameMessage_def plainView_def Let_def)
qed

end
