(* ===== verification/Stuck.thy ===== *)
theory Stuck
  imports StepStage
begin

text \<open>
  The stuck detector of \<^verbatim>\<open>src/stuck.go\<close>: a request stage that keys the steps of a turn and reports when
  the last ones repeat, fail the same way or alternate. JSON canonicalisation and the SHA-256 hex digest
  of Go's library are parameters of the default key.
\<close>

abbreviation "toolErrorPrefix \<equiv> ''tool reported an error: ''"
abbreviation "toolFailedPrefix \<equiv> ''tool call failed: ''"
abbreviation "toolDeniedPrefix \<equiv> ''tool call not permitted: ''"

record stepRecord =
  sr_Step :: int
  sr_Assistant :: message
  sr_Results :: "message list"

record stuckKey =
  sk_Call :: string
  sk_Result :: string
  sk_Error :: bool
  sk_Tools :: "string list"

text \<open>Appending the values not seen yet, as the loops over \<^verbatim>\<open>slices.Contains\<close> do.\<close>

fun addNew :: "string list \<Rightarrow> string list \<Rightarrow> string list" where
  "addNew acc [] = acc"
| "addNew acc (t # ts) = addNew (if t \<in> set acc then acc else acc @ [t]) ts"

definition isToolFailure :: "message \<Rightarrow> bool" where
  "isToolFailure m \<longleftrightarrow> hasPrefix (m_Text m) toolErrorPrefix \<or> hasPrefix (m_Text m) toolFailedPrefix \<or>
     hasPrefix (m_Text m) toolDeniedPrefix"

definition defaultStuckKey :: "(string \<Rightarrow> string) \<Rightarrow> (string \<Rightarrow> string) \<Rightarrow> stepRecord \<Rightarrow> stuckKey option" where
  "defaultStuckKey canonicalArgs sha256hex rec =
     (let calls = m_ToolCalls (sr_Assistant rec);
          results = filter (\<lambda>m. m_Role m = RoleTool) (sr_Results rec)
      in if calls = [] then None
         else Some \<lparr>sk_Call = strJoin (map (\<lambda>tc. tc_Name tc @ '' '' @ canonicalArgs (tc_Args tc)) calls) [CHR 0x0A],
                    sk_Result = sha256hex (concat (map (\<lambda>m. m_Text m @ [CHR 0x00]) results)),
                    sk_Error = list_ex isToolFailure results,
                    sk_Tools = addNew [] (map tc_Name calls)\<rparr>)"

abbreviation "StuckRepeat \<equiv> ''repeat''"
abbreviation "StuckAlternate \<equiv> ''alternate''"
abbreviation "StuckSameError \<equiv> ''same-error''"

definition stuckString :: "stuckFinding \<Rightarrow> string" where
  "stuckString f =
     (let what = (if sf_Tools f \<noteq> [] then strJoin (sf_Tools f) '', '' else ''the same step'');
          n = itoa (int (sf_Count f))
      in if sf_Pattern f = StuckAlternate then
           ''alternated between the same two calls ('' @ what @ '') '' @ n @ '' times, with the same results each time''
         else if sf_Pattern f = StuckSameError then
           ''got the same error '' @ n @ '' times in a row ('' @ what @ '')''
         else ''repeated '' @ what @ '' '' @ n @ '' times with the same result'')"

text \<open>The loop over the turn: a result belongs to the last assistant message before it.\<close>

fun recordsLoop :: "message list \<Rightarrow> stepRecord list \<Rightarrow> stepRecord list" where
  "recordsLoop [] out = out"
| "recordsLoop (m # ms) out =
     (if m_Role m = RoleAssistant
      then recordsLoop ms (out @ [\<lparr>sr_Step = int (length out) + 1, sr_Assistant = m, sr_Results = []\<rparr>])
      else if out \<noteq> []
      then recordsLoop ms (butlast out @ [(last out)\<lparr>sr_Results := sr_Results (last out) @ [m]\<rparr>])
      else recordsLoop ms out)"

definition stepRecords :: "message list \<Rightarrow> stepRecord list" where
  "stepRecords turn = recordsLoop turn []"

record keyedStep =
  ks_step :: int
  ks_key :: stuckKey

definition sameStep :: "keyedStep \<Rightarrow> keyedStep \<Rightarrow> bool" where
  "sameStep k o' \<longleftrightarrow> sk_Call (ks_key k) = sk_Call (ks_key o') \<and> sk_Result (ks_key k) = sk_Result (ks_key o')"

fun segment :: "(stepRecord \<Rightarrow> stuckKey option) \<Rightarrow> stepRecord list \<Rightarrow> keyedStep list \<Rightarrow> keyedStep list" where
  "segment keyOf [] seg = seg"
| "segment keyOf (r # rs) seg =
     (case keyOf r of
        None \<Rightarrow> segment keyOf rs []
      | Some k \<Rightarrow> segment keyOf rs (seg @ [\<lparr>ks_step = sr_Step r, ks_key = k\<rparr>]))"

text \<open>The counting loops: advance while below \<open>n\<close> and the condition holds.\<close>

function countWhile :: "(nat \<Rightarrow> bool) \<Rightarrow> nat \<Rightarrow> nat \<Rightarrow> nat" where
  "countWhile P n i = (if i < n \<and> P i then countWhile P n (Suc i) else i)"
  by pat_completeness auto
termination
  by (relation "measure (\<lambda>(_, n, i). n - i)") auto

declare countWhile.simps [simp del]

definition finding :: "string \<Rightarrow> nat \<Rightarrow> keyedStep list \<Rightarrow> stuckFinding" where
  "finding pattern count steps =
     \<lparr>sf_Pattern = pattern, sf_Count = count, sf_Steps = map ks_step steps,
      sf_Tools = addNew [] (concat (map (\<lambda>s. sk_Tools (ks_key s)) steps)),
      sf_Call = take 200 (sk_Call (ks_key (last steps)))\<rparr>"

definition detectStuck ::
  "stepRecord list \<Rightarrow> (stepRecord \<Rightarrow> stuckKey option) \<Rightarrow> int \<Rightarrow> int \<Rightarrow> int \<Rightarrow> stuckFinding option" where
  "detectStuck recs keyOf repeats alternations errs =
     (let seg = segment keyOf recs []; n = length seg
      in if n = 0 then None
         else let lst = seg ! (n - 1);
                  tail = (\<lambda>len. drop (n - len) seg);
                  run = countWhile (\<lambda>r. sameStep (seg ! (n - 1 - r)) lst) n 1;
                  runE = countWhile (\<lambda>r. sk_Error (ks_key (seg ! (n - 1 - r))) \<and>
                                         sk_Result (ks_key (seg ! (n - 1 - r))) = sk_Result (ks_key lst)) n 1;
                  len = countWhile (\<lambda>l. sameStep (seg ! (n - 1 - l)) (seg ! (n - 1 - l + 2))) n 2;
                  pairs = len div 2
              in if repeats > 0 \<and> int run \<ge> repeats then Some (finding StuckRepeat run (tail run))
                 else if errs > 0 \<and> sk_Error (ks_key lst) \<and> int runE \<ge> errs then Some (finding StuckSameError runE (tail runE))
                 else if alternations > 0 \<and> n \<ge> 2 \<and> \<not> sameStep (seg ! (n - 2)) lst \<and> int pairs \<ge> alternations
                 then Some (finding StuckAlternate pairs (tail (2 * pairs)))
                 else None)"

type_synonym ('p, 'w) stuckPolicy = "stepInfo \<Rightarrow> 'p stepView \<Rightarrow> stuckFinding \<Rightarrow> 'w \<Rightarrow> (goerr + 'p stepView) \<times> 'w"

definition stuckNote :: "('p, 'w) stuckPolicy" where
  "stuckNote info v f w =
     (Inr (v\<lparr>sv_Messages := sv_Messages v @ [textMessage RoleSystem (''You have '' @ stuckString f @
        ''. Doing it again will give the same result. Try a different approach, or stop and say what is blocking you.'')]\<rparr>), w)"

definition stuckGeneration :: "nat \<Rightarrow> generationParams \<Rightarrow> ('p, 'w) stuckPolicy" where
  "stuckGeneration fresh over info v f w = (Inr (v\<lparr>sv_Generation := genMerge fresh (sv_Generation v) over\<rparr>), w)"

definition stuckDropTools :: "('p, 'w) stuckPolicy" where
  "stuckDropTools info v f w = (Inr (v\<lparr>sv_Tools := filter (\<lambda>td. td_Name td \<notin> set (sf_Tools f)) (sv_Tools v)\<rparr>), w)"

definition stuckRoute :: "'p \<Rightarrow> string \<Rightarrow> ('p, 'w) stuckPolicy" where
  "stuckRoute p name info v f w = (Inr (v\<lparr>sv_Provider := Some p, sv_ProviderName := name\<rparr>), w)"

definition stuckStop :: "('p, 'w) stuckPolicy" where
  "stuckStop info v f w = (Inl (Errorf ''%w: the model %s'' [stuckString f] (Some (ErrSentinel ErrTurnStopped))), w)"

fun stuckAll :: "('p, 'w) stuckPolicy list \<Rightarrow> ('p, 'w) stuckPolicy" where
  "stuckAll [] info v f w = (Inr v, w)"
| "stuckAll (p # ps) info v f w =
     (case p info v f w of
        (Inl e, w') \<Rightarrow> (Inl e, w')
      | (Inr v', w') \<Rightarrow> stuckAll ps info v' f w')"

definition stuckThreshold :: "int \<Rightarrow> int" where
  "stuckThreshold n = (if n = 0 then 3 else n)"

definition newStuckDetector ::
  "(stepRecord \<Rightarrow> stuckKey option) \<Rightarrow> int \<Rightarrow> int \<Rightarrow> int \<Rightarrow> ('p, 'w) stuckPolicy option \<Rightarrow> (event \<Rightarrow> 'w \<Rightarrow> 'w) \<Rightarrow> ('p, 'w) stepStage" where
  "newStuckDetector key repeats alternations errs policy emit =
     \<lparr>sg_Name = ''agent.stuck'', sg_Scope = ScopeRequest,
      sg_Run = (\<lambda>info v w.
        case detectStuck (stepRecords (si_Turn info)) key (stuckThreshold repeats) (stuckThreshold alternations) (stuckThreshold errs) of
          None \<Rightarrow> (Inr v, w)
        | Some f \<Rightarrow> (case policy of None \<Rightarrow> stuckNote | Some p \<Rightarrow> p) info v f (emit (EventStuck (si_Step info) f) w))\<rparr>"

subsection \<open>What the loops count\<close>

lemma countWhile_ge: "i \<le> countWhile P n i"
  by (induction P n i rule: countWhile.induct) (subst countWhile.simps, auto)

lemma countWhile_le: "i \<le> n \<Longrightarrow> countWhile P n i \<le> n"
  by (induction P n i rule: countWhile.induct) (subst countWhile.simps, auto)

lemma countWhile_all: "i \<le> j \<Longrightarrow> j < countWhile P n i \<Longrightarrow> P j"
proof (induction P n i rule: countWhile.induct)
  case (1 P n i)
  show ?case
  proof (cases "i < n \<and> P i")
    case True
    then show ?thesis using "1.IH" "1.prems" by (cases "i = j") (simp_all add: countWhile.simps [of P n i])
  next
    case False
    then show ?thesis using "1.prems" by (subst (asm) countWhile.simps) auto
  qed
qed

lemma countWhile_stop: "countWhile P n i < n \<Longrightarrow> \<not> P (countWhile P n i)"
proof (induction P n i rule: countWhile.induct)
  case (1 P n i)
  then show ?case by (cases "i < n \<and> P i") (auto simp: countWhile.simps [of P n i])
qed

text \<open>The loop finds every length all of whose positions satisfy the condition.\<close>

lemma countWhile_max:
  assumes "k \<le> n" "\<And>j. i \<le> j \<Longrightarrow> j < k \<Longrightarrow> P j"
  shows "k \<le> countWhile P n i"
proof (rule ccontr)
  assume a: "\<not> k \<le> countWhile P n i"
  then have "\<not> P (countWhile P n i)" using assms(1) by (intro countWhile_stop) simp
  then show False using assms(2) [OF countWhile_ge] a by auto
qed

lemma countWhile_iff:
  assumes "i \<le> n"
  shows "k \<le> countWhile P n i \<longleftrightarrow> k \<le> i \<or> k \<le> n \<and> (\<forall>j. i \<le> j \<and> j < k \<longrightarrow> P j)"
proof
  assume k: "k \<le> countWhile P n i"
  show "k \<le> i \<or> k \<le> n \<and> (\<forall>j. i \<le> j \<and> j < k \<longrightarrow> P j)"
    using k countWhile_le [OF assms, of P] countWhile_all [of i _ P n] by (meson le_trans less_le_trans)
next
  assume "k \<le> i \<or> k \<le> n \<and> (\<forall>j. i \<le> j \<and> j < k \<longrightarrow> P j)"
  then show "k \<le> countWhile P n i"
    using countWhile_ge [of i P n] countWhile_max [of k n i P] by (meson le_trans)
qed

subsection \<open>The patterns\<close>

definition fromEnd :: "keyedStep list \<Rightarrow> nat \<Rightarrow> keyedStep" where
  "fromEnd seg i = seg ! (length seg - 1 - i)"

text \<open>The last \<open>k\<close> keyed steps are the same call with the same result; failed with the same result; alternate.\<close>

definition repeating :: "keyedStep list \<Rightarrow> nat \<Rightarrow> bool" where
  "repeating seg k \<longleftrightarrow> 1 \<le> k \<and> k \<le> length seg \<and> (\<forall>i<k. sameStep (fromEnd seg i) (fromEnd seg 0))"

definition failingAlike :: "keyedStep list \<Rightarrow> nat \<Rightarrow> bool" where
  "failingAlike seg k \<longleftrightarrow> 1 \<le> k \<and> k \<le> length seg \<and>
     (\<forall>i<k. sk_Error (ks_key (fromEnd seg i)) \<and> sk_Result (ks_key (fromEnd seg i)) = sk_Result (ks_key (fromEnd seg 0)))"

definition alternating :: "keyedStep list \<Rightarrow> nat \<Rightarrow> bool" where
  "alternating seg k \<longleftrightarrow> 1 \<le> k \<and> 2 * k \<le> length seg \<and> \<not> sameStep (fromEnd seg 1) (fromEnd seg 0) \<and>
     (\<forall>i. 2 \<le> i \<and> i < 2 * k \<longrightarrow> sameStep (fromEnd seg i) (fromEnd seg (i - 2)))"

lemma sameStep_refl [simp]: "sameStep k k"
  by (simp add: sameStep_def)

lemma all_less_split: "1 \<le> k \<Longrightarrow> (\<forall>i<k. P i) \<longleftrightarrow> P 0 \<and> (\<forall>i. 1 \<le> i \<and> i < k \<longrightarrow> P i)" for k :: nat
  by (metis less_one linorder_not_less less_le_trans zero_less_one)

lemma repeating_iff:
  assumes "seg \<noteq> []"
  shows "repeating seg k \<longleftrightarrow> 1 \<le> k \<and> k \<le> countWhile (\<lambda>r. sameStep (fromEnd seg r) (fromEnd seg 0)) (length seg) 1"
proof (cases "1 \<le> k")
  case True
  have "1 \<le> length seg" using assms by (simp add: Suc_le_eq)
  then show ?thesis
    using True unfolding repeating_def countWhile_iff [OF \<open>1 \<le> length seg\<close>] all_less_split [OF True]
    by (cases "k = 1") (auto simp: le_Suc_eq)
qed (simp add: repeating_def)

lemma failingAlike_iff:
  assumes "seg \<noteq> []" "sk_Error (ks_key (fromEnd seg 0))"
  shows "failingAlike seg k \<longleftrightarrow> 1 \<le> k \<and>
     k \<le> countWhile (\<lambda>r. sk_Error (ks_key (fromEnd seg r)) \<and> sk_Result (ks_key (fromEnd seg r)) = sk_Result (ks_key (fromEnd seg 0)))
           (length seg) 1"
proof (cases "1 \<le> k")
  case True
  have "1 \<le> length seg" using assms(1) by (simp add: Suc_le_eq)
  then show ?thesis
    using True assms(2) unfolding failingAlike_def countWhile_iff [OF \<open>1 \<le> length seg\<close>] all_less_split [OF True]
    by (cases "k = 1") (auto simp: le_Suc_eq)
qed (simp add: failingAlike_def)

lemma alternating_iff:
  assumes "2 \<le> length seg" "\<not> sameStep (fromEnd seg 1) (fromEnd seg 0)"
  shows "alternating seg k \<longleftrightarrow> 1 \<le> k \<and>
     k \<le> countWhile (\<lambda>l. sameStep (fromEnd seg l) (fromEnd seg (l - 2))) (length seg) 2 div 2"
proof -
  have d: "k \<le> m div 2 \<longleftrightarrow> 2 * k \<le> m" for m :: nat by linarith
  show ?thesis
    using assms unfolding d countWhile_iff [OF assms(1)] alternating_def by auto
qed

lemma countWhile_cong: "(\<And>j. i \<le> j \<Longrightarrow> j < n \<Longrightarrow> P j = Q j) \<Longrightarrow> countWhile P n i = countWhile Q n i"
proof (induction P n i rule: countWhile.induct)
  case (1 P n i)
  show ?case
  proof (cases "i < n \<and> P i")
    case True
    then have "countWhile P n (Suc i) = countWhile Q n (Suc i)" using "1.prems" by (intro "1.IH") auto
    then show ?thesis using True "1.prems" [of i] by (simp add: countWhile.simps [of _ n i])
  next
    case False
    then show ?thesis using "1.prems" [of i] by (auto simp: countWhile.simps [of _ n i])
  qed
qed

text \<open>
  The detector reports a pattern exactly when it is there. A finding names a pattern that holds for
  the last steps of the unbroken segment of keyed steps, with a count that reaches its threshold and that
  no longer suffix would beat; the steps it lists are those steps. When nothing is reported, no enabled
  pattern holds for any number of last steps that reaches its threshold.
\<close>

lemma stuck_detection_exact:
  "let seg = segment keyOf recs []
   in case detectStuck recs keyOf repeats alternations errs of
        Some f \<Rightarrow>
          sf_Pattern f = StuckRepeat \<and> 0 < repeats \<and> repeats \<le> int (sf_Count f) \<and>
            repeating seg (sf_Count f) \<and> \<not> repeating seg (Suc (sf_Count f)) \<and>
            sf_Steps f = map ks_step (drop (length seg - sf_Count f) seg) \<or>
          sf_Pattern f = StuckSameError \<and> 0 < errs \<and> errs \<le> int (sf_Count f) \<and>
            failingAlike seg (sf_Count f) \<and> \<not> failingAlike seg (Suc (sf_Count f)) \<and>
            sf_Steps f = map ks_step (drop (length seg - sf_Count f) seg) \<or>
          sf_Pattern f = StuckAlternate \<and> 0 < alternations \<and> alternations \<le> int (sf_Count f) \<and>
            alternating seg (sf_Count f) \<and> \<not> alternating seg (Suc (sf_Count f)) \<and>
            sf_Steps f = map ks_step (drop (length seg - 2 * sf_Count f) seg)
      | None \<Rightarrow>
          (\<forall>k. 0 < repeats \<and> repeats \<le> int k \<longrightarrow> \<not> repeating seg k) \<and>
          (\<forall>k. 0 < errs \<and> errs \<le> int k \<longrightarrow> \<not> failingAlike seg k) \<and>
          (\<forall>k. 0 < alternations \<and> alternations \<le> int k \<longrightarrow> \<not> alternating seg k)"
proof -
  define seg where "seg = segment keyOf recs []"
  define n where "n = length seg"
  define r where "r = countWhile (\<lambda>r. sameStep (fromEnd seg r) (fromEnd seg 0)) n 1"
  define e where "e = countWhile (\<lambda>r. sk_Error (ks_key (fromEnd seg r)) \<and>
      sk_Result (ks_key (fromEnd seg r)) = sk_Result (ks_key (fromEnd seg 0))) n 1"
  define a where "a = countWhile (\<lambda>l. sameStep (fromEnd seg l) (fromEnd seg (l - 2))) n 2"
  have A: "countWhile (\<lambda>l. sameStep (seg ! (n - 1 - l)) (seg ! (n - 1 - l + 2))) n 2 = a"
    unfolding a_def
  proof (rule countWhile_cong)
    fix j assume "2 \<le> j" "j < n"
    then have "n - 1 - j + 2 = n - 1 - (j - 2)" by simp
    then show "sameStep (seg ! (n - 1 - j)) (seg ! (n - 1 - j + 2)) = sameStep (fromEnd seg j) (fromEnd seg (j - 2))"
      by (simp only: fromEnd_def n_def)
  qed
  have det: "detectStuck recs keyOf repeats alternations errs =
     (if n = 0 then None
      else if repeats > 0 \<and> int r \<ge> repeats then Some (finding StuckRepeat r (drop (n - r) seg))
      else if errs > 0 \<and> sk_Error (ks_key (fromEnd seg 0)) \<and> int e \<ge> errs then Some (finding StuckSameError e (drop (n - e) seg))
      else if alternations > 0 \<and> n \<ge> 2 \<and> \<not> sameStep (fromEnd seg 1) (fromEnd seg 0) \<and> int (a div 2) \<ge> alternations
      then Some (finding StuckAlternate (a div 2) (drop (n - 2 * (a div 2)) seg)) else None)"
    unfolding detectStuck_def Let_def seg_def [symmetric] n_def [symmetric] A
    by (simp add: r_def e_def fromEnd_def n_def [symmetric] numeral_2_eq_2)
  have R: "repeating seg k \<longleftrightarrow> 1 \<le> k \<and> k \<le> r" if "n \<noteq> 0" for k
    using repeating_iff [of seg k] that by (simp add: r_def n_def)
  have E: "failingAlike seg k \<longleftrightarrow> sk_Error (ks_key (fromEnd seg 0)) \<and> 1 \<le> k \<and> k \<le> e" if "n \<noteq> 0" for k
    using failingAlike_iff [of seg k] that by (auto simp: e_def n_def failingAlike_def)
  have L: "alternating seg k \<longleftrightarrow> 2 \<le> n \<and> \<not> sameStep (fromEnd seg 1) (fromEnd seg 0) \<and> 1 \<le> k \<and> k \<le> a div 2" for k
    using alternating_iff [of seg k] by (auto simp: a_def n_def alternating_def)
  have Z: "\<not> repeating seg k" "\<not> failingAlike seg k" if "n = 0" for k
    using that by (auto simp: repeating_def failingAlike_def n_def)
  show ?thesis
    unfolding Let_def seg_def [symmetric] n_def [symmetric] det
    using R E L Z by (auto simp: finding_def)
qed

definition exTurn :: "message list" where
  "exTurn = concat (replicate 3
     [\<lparr>m_Role = RoleAssistant, m_Text = [], m_ToolCalls = [\<lparr>tc_ID = ''1'', tc_Name = ''t'', tc_Args = ''{}''\<rparr>], m_ToolCallID = [], m_Timestamp = 0\<rparr>,
      \<lparr>m_Role = RoleTool, m_Text = ''same'', m_ToolCalls = [], m_ToolCallID = ''1'', m_Timestamp = 0\<rparr>])"

theorem stuck_detection_exact_witness:
  "\<exists>f. detectStuck (stepRecords exTurn) (defaultStuckKey (\<lambda>s. s) (\<lambda>s. s)) 3 3 3 = Some f \<and>
     sf_Pattern f = StuckRepeat \<and> repeating (segment (defaultStuckKey (\<lambda>s. s) (\<lambda>s. s)) (stepRecords exTurn) []) (sf_Count f)"
proof -
  let ?d = "detectStuck (stepRecords exTurn) (defaultStuckKey (\<lambda>s. s) (\<lambda>s. s)) 3 3 3"
  have "map_option sf_Pattern ?d = Some StuckRepeat" by code_simp
  then obtain f where f: "?d = Some f" "sf_Pattern f = StuckRepeat" by blast
  show ?thesis
    using stuck_detection_exact [of "defaultStuckKey (\<lambda>s. s) (\<lambda>s. s)" "stepRecords exTurn" 3 3 3] f
    by (simp add: Let_def)
qed

end
