(* ===== verification/Signal.thy ===== *)
theory Signal
  imports ToolMiddleware Streams
begin

text \<open>
  Signals a sub-agent raises to its parent, \<^verbatim>\<open>src/signal.go\<close>: the sink a dispatch collects them in, the
  policies that read them, the tool a child raises them with and the text the model sees.
\<close>

abbreviation "SignalEscalate \<equiv> ''escalate''"
abbreviation "SignalCustom \<equiv> ''custom''"
abbreviation "SignalPreempt \<equiv> ''preempt''"

definition interrupts :: "string \<Rightarrow> bool" where
  "interrupts k \<longleftrightarrow> k = SignalPreempt \<or> k = SignalEscalate"

record signalAction =
  act_AbortTurn :: bool
  act_Reason :: string

fun abortOnEscalate :: "signal list \<Rightarrow> signalAction" where
  "abortOnEscalate [] = \<lparr>act_AbortTurn = False, act_Reason = []\<rparr>"
| "abortOnEscalate (s # ss) =
     (if sig_Kind s = SignalEscalate
      then \<lparr>act_AbortTurn = True,
            act_Reason = (if sig_Note s = [] then ''escalated by '' @ sig_Source s else sig_Note s)\<rparr>
      else abortOnEscalate ss)"

text \<open>The sink: \<open>sk_notify\<close> says whether the channel exists, \<open>sk_closed\<close> whether it was closed.\<close>

record signalSink =
  snk_signals :: "signal list"
  snk_notify :: bool
  snk_closed :: bool
  snk_breakOn :: "(signal \<Rightarrow> bool) option"

definition raiseSig :: "signal \<Rightarrow> signalSink \<Rightarrow> signalSink" where
  "raiseSig sig s =
     (let s' = s\<lparr>snk_signals := snk_signals s @ [sig]\<rparr>
      in if snk_notify s \<and> (case snk_breakOn s of None \<Rightarrow> False | Some b \<Rightarrow> b sig)
         then s'\<lparr>snk_closed := True\<rparr> else s')"

definition drainSignals :: "signalSink \<Rightarrow> signal list \<times> signalSink" where
  "drainSignals s = (snk_signals s, s\<lparr>snk_signals := []\<rparr>)"

text \<open>\<^verbatim>\<open>RaiseSignal\<close>: \<open>parent\<close> is the sink of the context, \<open>path\<close> the agent's own path.\<close>

definition raiseSignal :: "agentPath \<Rightarrow> signal \<Rightarrow> signalSink option \<Rightarrow> bool \<times> signalSink option" where
  "raiseSignal path sig parent =
     (case parent of
        None \<Rightarrow> (False, None)
      | Some s \<Rightarrow>
          (True, Some (raiseSig (if sig_Source sig = [] then sig\<lparr>sig_Source := pathString path\<rparr> else sig) s)))"

record signalParentArgs =
  spa_Kind :: string
  spa_Note :: string
  spa_Name :: string

definition signalParent :: "agentPath \<Rightarrow> signalParentArgs \<Rightarrow> signalSink option \<Rightarrow> (goerr + string) \<times> signalSink option" where
  "signalParent path inp parent =
     (if spa_Kind inp \<noteq> SignalEscalate \<and> spa_Kind inp \<noteq> SignalPreempt \<and> spa_Kind inp \<noteq> SignalCustom then
        (Inl (Errorf ''unknown signal kind %q (want escalate, preempt, or custom)'' [spa_Kind inp] None), parent)
      else case raiseSignal path \<lparr>sig_Kind = spa_Kind inp, sig_Name = spa_Name inp, sig_Note = spa_Note inp,
                                  sig_Data = [], sig_Source = []\<rparr> parent of
             (True, p) \<Rightarrow> (Inr (''signalled parent: '' @ spa_Kind inp), p)
           | (False, p) \<Rightarrow> (Inr ''no parent to signal (you are the top-level agent)'', p))"

definition renderSignal :: "signal \<Rightarrow> string" where
  "renderSignal s = [CHR 0x0A] @ ''- '' @ sig_Kind s @
     (if sig_Name s \<noteq> [] then '' ('' @ sig_Name s @ '')'' else []) @
     (if sig_Source s \<noteq> [] then '' from '' @ sig_Source s else []) @
     (if sig_Note s \<noteq> [] then '': '' @ sig_Note s else [])"

definition renderSignals :: "signal list \<Rightarrow> string" where
  "renderSignals ss = ''Sub-agent signals received:'' @ concat (map renderSignal ss)"

text \<open>\<^verbatim>\<open>shouldBreakOn\<close> of \<^verbatim>\<open>src/runner.go\<close>: a preempt signal needs the parent's grant.\<close>

definition shouldBreakOn :: "(signal \<Rightarrow> bool) option \<Rightarrow> signal \<Rightarrow> bool" where
  "shouldBreakOn grant sig =
     (if \<not> interrupts (sig_Kind sig) then False
      else if sig_Kind sig = SignalPreempt then (case grant of None \<Rightarrow> False | Some g \<Rightarrow> g sig)
      else True)"

definition dispatchSink :: "bool \<Rightarrow> (signal \<Rightarrow> bool) option \<Rightarrow> signalSink" where
  "dispatchSink interruptible grant =
     \<lparr>snk_signals = [], snk_notify = interruptible, snk_closed = False,
      snk_breakOn = (if interruptible then Some (shouldBreakOn grant) else None)\<rparr>"

subsection \<open>What reaches the parent\<close>

fun raiseAll :: "signal list \<Rightarrow> signalSink \<Rightarrow> signalSink" where
  "raiseAll [] s = s"
| "raiseAll (x # xs) s = raiseAll xs (raiseSig x s)"

lemma raiseSig_fields [simp]:
  "snk_signals (raiseSig x s) = snk_signals s @ [x]" "snk_notify (raiseSig x s) = snk_notify s"
  "snk_breakOn (raiseSig x s) = snk_breakOn s"
  by (simp_all add: raiseSig_def Let_def)

lemma raiseAll_signals: "snk_signals (raiseAll xs s) = snk_signals s @ xs"
  by (induction xs arbitrary: s) simp_all

lemma raiseAll_closed:
  "snk_closed (raiseAll xs s) \<longleftrightarrow>
     snk_closed s \<or> snk_notify s \<and> (case snk_breakOn s of None \<Rightarrow> False | Some b \<Rightarrow> list_ex b xs)"
  by (induction xs arbitrary: s) (auto simp: raiseSig_def Let_def split: option.splits)

lemma shouldBreakOn_iff:
  "shouldBreakOn grant x \<longleftrightarrow> sig_Kind x = SignalEscalate \<or> sig_Kind x = SignalPreempt \<and> (\<exists>g. grant = Some g \<and> g x)"
  by (cases grant) (auto simp: shouldBreakOn_def interrupts_def)

text \<open>
  Signals raised by the calls of one dispatch, in whatever order the sink took them, are all
  drained, in that order; the fan-out is interrupted exactly when the runner is interruptible and one of
  them escalates, or preempts with the parent's grant; and without a grant no preempt signal interrupts.
\<close>

lemma signals_delivered_and_interrupt:
  "fst (drainSignals (raiseAll xs (dispatchSink interruptible grant))) = xs \<and>
   (snk_closed (raiseAll xs (dispatchSink interruptible grant)) \<longleftrightarrow>
      interruptible \<and> list_ex (\<lambda>x. sig_Kind x = SignalEscalate \<or>
         sig_Kind x = SignalPreempt \<and> (\<exists>g. grant = Some g \<and> g x)) xs)"
proof
  show "fst (drainSignals (raiseAll xs (dispatchSink interruptible grant))) = xs"
    by (simp add: drainSignals_def raiseAll_signals dispatchSink_def)
  show "snk_closed (raiseAll xs (dispatchSink interruptible grant)) \<longleftrightarrow>
      interruptible \<and> list_ex (\<lambda>x. sig_Kind x = SignalEscalate \<or>
         sig_Kind x = SignalPreempt \<and> (\<exists>g. grant = Some g \<and> g x)) xs"
    unfolding shouldBreakOn_iff [symmetric] by (simp add: raiseAll_closed dispatchSink_def)
qed

end
