(* ===== verification/Runner.thy ===== *)
theory Runner
  imports Stuck Signal "HOL-Library.AList"
begin

text \<open>
  The turn loop of \<^verbatim>\<open>src/runner.go\<close> with the turn-end hooks of \<^verbatim>\<open>src/turnend.go\<close>. The world of a turn
  holds the shared tree budget, the events delivered so far, the signal sink of the running dispatch and
  whatever else tools, providers and hooks act on. A provider is named by a number, its identity, and
  reached through the environment record, which also holds the code outside the repository: JSON
  decoding and schema validation, the state of the contexts, and the order in which the Go scheduler
  runs the concurrent calls of one step. Tracing spans and metrics have no effect on the turn and are
  left out. \<open>None\<close> stands for the crash of the process when a tool returns neither result nor error.
\<close>

record 'x world =
  wd_tree :: "treeBudgetState option"
  wd_events :: "event list"
  wd_sink :: signalSink
  wd_ext :: 'x

definition emitEv :: "event \<Rightarrow> 'x world \<Rightarrow> 'x world" where
  "emitEv e w = w\<lparr>wd_events := wd_events w @ [e]\<rparr>"

subsection \<open>Turn-end hooks\<close>

record turnEndInfo =
  te_Step :: int
  te_MaxSteps :: int
  te_Text :: string
  te_Draft :: string
  te_StructuredError :: string
  te_Messages :: "message list"
  te_Usage :: usage

record turnEndVerdict =
  tv_Continue :: string
  tv_AsUser :: bool
  tv_Stop :: string

definition zeroVerdict :: turnEndVerdict where
  "zeroVerdict = \<lparr>tv_Continue = [], tv_AsUser = False, tv_Stop = []\<rparr>"

type_synonym 'w turnEndHook = "turnEndInfo \<Rightarrow> 'w \<Rightarrow> (goerr + turnEndVerdict) \<times> 'w"

fun turnEnd :: "'w turnEndHook list \<Rightarrow> turnEndInfo \<Rightarrow> 'w \<Rightarrow> (goerr + turnEndVerdict) \<times> 'w" where
  "turnEnd [] info w = (Inr zeroVerdict, w)"
| "turnEnd (h # hs) info w =
     (case h info w of
        (Inl e, w') \<Rightarrow> (Inl e, w')
      | (Inr v, w') \<Rightarrow>
          if tv_Continue v \<noteq> [] \<and> tv_Stop v \<noteq> [] then (Inl (ErrNew ''verdict sets both Continue and Stop''), w')
          else if tv_Continue v \<noteq> [] \<or> tv_Stop v \<noteq> [] then (Inr v, w')
          else turnEnd hs info w')"

subsection \<open>Configuration and environment\<close>

datatype dispatchAct = BeginCall nat | FinishCall nat

type_synonym schemaCheck = "string \<Rightarrow> (string \<times> string) list"

record 'x runnerConfig =
  rc_Provider :: nat
  rc_Tools :: "'x world toolSource option"
  rc_Instructions :: string
  rc_InstructionsFunc :: "('x world \<Rightarrow> string) option"
  rc_MaxSteps :: int
  rc_TreeBudget :: treeBudget
  rc_Selector :: "'x world toolSelector option"
  rc_ToolMiddleware :: "'x world toolMiddleware list"
  rc_Generation :: generationParams
  rc_Compactor :: "'x world compactor option"
  rc_StepStages :: "(nat, 'x world) stepStage list"
  rc_Interruptible :: bool
  rc_SignalPolicy :: "(signal list \<Rightarrow> signalAction) option"
  rc_PreemptGrant :: "(signal \<Rightarrow> bool) option"
  rc_ResponseSchema :: rawjson
  rc_ResponseGuided :: "guidedDecoding ptr option"
  rc_TurnEnd :: "'x world turnEndHook list"

definition defaultMaxSteps :: int where "defaultMaxSteps = 8"

definition newRunner :: "'x runnerConfig \<Rightarrow> 'x runnerConfig" where
  "newRunner cfg = (if rc_MaxSteps cfg \<le> 0 then cfg\<lparr>rc_MaxSteps := defaultMaxSteps\<rparr> else cfg)"

record 'x runnerEnv =
  en_provider :: "nat \<Rightarrow> ('x world, stream) provider"
  en_caps :: "nat \<Rightarrow> capabilities"
  en_argsOf :: "string \<Rightarrow> rawjson"
  en_decodeArgs :: "rawjson \<Rightarrow> goerr + toolArgs"
  en_compile :: "rawjson \<Rightarrow> goerr + schemaCheck"
  en_jsonValid :: "string \<Rightarrow> bool"
  en_scope :: "'x world \<Rightarrow> runScope"
  en_callErr :: "toolCall \<Rightarrow> 'x world \<Rightarrow> bool"
  en_ctxErr :: "'x world \<Rightarrow> goerr option"
  en_sched :: "int \<Rightarrow> toolCall list \<Rightarrow> 'x world \<Rightarrow> dispatchAct list"
  en_fresh :: nat

record turnRequest =
  tq_History :: "message list"
  tq_Generation :: generationParams
  tq_ResponseSchema :: rawjson
  tq_ResponseGuided :: "guidedDecoding ptr option"

subsection \<open>Tool calls\<close>

definition annotBool :: "toolDef \<Rightarrow> string \<Rightarrow> bool option" where
  "annotBool t k = (case map_of (td_Annotations t) k of Some (ABool b) \<Rightarrow> Some b | _ \<Rightarrow> None)"

text \<open>The result is (read-only, destructive, idempotent).\<close>

fun toolHints :: "toolDef list \<Rightarrow> string \<Rightarrow> bool \<times> bool \<times> bool" where
  "toolHints [] name = (False, True, False)"
| "toolHints (t # ts) name =
     (if td_Name t \<noteq> name then toolHints ts name
      else if annotBool t ''readOnlyHint'' = Some True then (True, False, True)
      else (False,
            (case annotBool t ''destructiveHint'' of Some d \<Rightarrow> d | None \<Rightarrow> True),
            annotBool t ''idempotentHint'' = Some True))"

definition callCancelled :: "'x runnerEnv \<Rightarrow> toolCall \<Rightarrow> 'x world \<Rightarrow> bool" where
  "callCancelled env call w \<longleftrightarrow> en_callErr env call w \<and> en_ctxErr env w = None"

definition cancelledText :: "int \<Rightarrow> toolCall \<Rightarrow> 'x world \<Rightarrow> string \<times> 'x world" where
  "cancelledText stp call w = (''cancelled by user'', emitEv (EventToolCancelled stp call ''cancelled by user'') w)"

definition failedText :: "'x runnerEnv \<Rightarrow> int \<Rightarrow> toolCall \<Rightarrow> goerr \<Rightarrow> 'x world \<Rightarrow> string \<times> 'x world" where
  "failedText env stp call err w =
     (if callCancelled env call w then cancelledText stp call w
      else (toolFailedPrefix @ errText err, emitEv (EventToolError stp call (errText err)) w))"

definition dispatchBase :: "'x runnerEnv \<Rightarrow> 'x world toolSource \<Rightarrow> 'x world toolCallFunc" where
  "dispatchBase env src info w =
     (case en_decodeArgs env (tc_Args (ti_Call info)) of
        Inl e \<Rightarrow> (Inr (Some (errorToolResult (''invalid arguments: '' @ errText e))), w)
      | Inr args \<Rightarrow> src_Call src (tc_Name (ti_Call info)) args w)"

definition callInfoOf :: "'x runnerEnv \<Rightarrow> int \<Rightarrow> toolCall \<Rightarrow> toolDef list \<Rightarrow> 'x world \<Rightarrow> toolCallInfo" where
  "callInfoOf env stp call tools w =
     (case toolHints tools (tc_Name call) of (ro, de, ide) \<Rightarrow>
        \<lparr>ti_Step = stp, ti_Call = call, ti_Scope = en_scope env w, ti_ReadOnly = ro, ti_Destructive = de,
         ti_Idempotent = ide, ti_Class = None\<rparr>)"

definition callTool ::
  "'x runnerEnv \<Rightarrow> 'x runnerConfig \<Rightarrow> int \<Rightarrow> toolCall \<Rightarrow> toolDef list \<Rightarrow> 'x world \<Rightarrow> (string \<times> 'x world) option" where
  "callTool env cfg stp call tools w =
     (case rc_Tools cfg of
        None \<Rightarrow> Some (failedText env stp call
                  (Errorf ''%w: %q (no tools offered)'' [tc_Name call] (Some (ErrSentinel ErrUnknownTool))) w)
      | Some src \<Rightarrow>
          (case chainToolMiddleware (rc_ToolMiddleware cfg) (dispatchBase env src) (callInfoOf env stp call tools w) w of
             (Inl err, w') \<Rightarrow>
               (case deniedReason err of
                  Some reason \<Rightarrow>
                    if \<not> callCancelled env call w'
                    then Some (toolDeniedPrefix @ deniedModelReason err reason, emitEv (EventToolDenied stp call reason) w')
                    else Some (failedText env stp call err w')
                | None \<Rightarrow>
                    if errors_is err ErrNotAvailableNow \<and> \<not> callCancelled env call w'
                    then Some (errText err, emitEv (EventToolUnavailable stp call (errText err)) w')
                    else Some (failedText env stp call err w'))
           | (Inr res, w') \<Rightarrow>
               if callCancelled env call w' then Some (cancelledText stp call w')
               else (case res of
                       None \<Rightarrow> None
                     | Some r \<Rightarrow>
                         Some ((if tr_IsError r then toolErrorPrefix @ toolResultText r else toolResultText r),
                               emitEv (EventToolEnd stp call r) w'))))"

definition toolMessage :: "toolCall \<Rightarrow> string \<Rightarrow> message" where
  "toolMessage call text = \<lparr>m_Role = RoleTool, m_Text = text, m_ToolCalls = [], m_ToolCallID = tc_ID call, m_Timestamp = 0\<rparr>"

text \<open>The goroutines of one fan-out, in the order the scheduler runs their two parts.\<close>

fun runActs ::
  "'x runnerEnv \<Rightarrow> 'x runnerConfig \<Rightarrow> int \<Rightarrow> toolCall list \<Rightarrow> toolDef list \<Rightarrow> dispatchAct list \<Rightarrow> message list \<Rightarrow> 'x world \<Rightarrow>
   (message list \<times> 'x world) option" where
  "runActs env cfg stp calls tools [] results w = Some (results, w)"
| "runActs env cfg stp calls tools (BeginCall i # acts) results w =
     runActs env cfg stp calls tools acts results (emitEv (EventToolBegin stp (calls ! i)) w)"
| "runActs env cfg stp calls tools (FinishCall i # acts) results w =
     (case callTool env cfg stp (calls ! i) tools w of
        None \<Rightarrow> None
      | Some (text, w') \<Rightarrow> runActs env cfg stp calls tools acts (results[i := toolMessage (calls ! i) text]) w')"

definition dispatch ::
  "'x runnerEnv \<Rightarrow> 'x runnerConfig \<Rightarrow> int \<Rightarrow> toolCall list \<Rightarrow> toolDef list \<Rightarrow> 'x world \<Rightarrow>
   (message list \<times> signal list \<times> 'x world) option" where
  "dispatch env cfg stp calls tools w =
     (let w1 = w\<lparr>wd_sink := dispatchSink (rc_Interruptible cfg) (rc_PreemptGrant cfg)\<rparr>
      in case runActs env cfg stp calls tools (en_sched env stp calls w1)
                (replicate (length calls) (textMessage [] [])) w1 of
           None \<Rightarrow> None
         | Some (results, w2) \<Rightarrow>
             Some (results, fst (drainSignals (wd_sink w2)), w2\<lparr>wd_sink := wd_sink w\<rparr>))"

subsection \<open>Usage accounting\<close>

type_synonym usageByModel = "(string \<times> usage) list"

definition subUsage :: "usage \<Rightarrow> usage \<Rightarrow> usage" where
  "subUsage a b = \<lparr>InputTokens = InputTokens a - InputTokens b, OutputTokens = OutputTokens a - OutputTokens b,
                   CachedInputTokens = CachedInputTokens a - CachedInputTokens b\<rparr>"

definition byModelAdd :: "string \<Rightarrow> usage option \<Rightarrow> usageByModel \<Rightarrow> usageByModel" where
  "byModelAdd name u m =
     (let t = (case map_of m name of None \<Rightarrow> zeroUsage | Some t \<Rightarrow> t)
      in AList.update name (case u of None \<Rightarrow> t | Some v \<Rightarrow> addUsage t v) m)"

definition byModelAddDelta :: "string \<Rightarrow> usage \<Rightarrow> usage \<Rightarrow> usageByModel \<Rightarrow> usageByModel" where
  "byModelAddDelta name before after m = byModelAdd name (Some (subUsage after before)) m"

definition byModelResult :: "usageByModel \<Rightarrow> usageByModel option" where
  "byModelResult m = (if list_ex (\<lambda>(n, _). n \<noteq> []) m then Some m else None)"

text \<open>What every model call does with the usage the provider reported.\<close>

definition account :: "usage option \<Rightarrow> usage \<Rightarrow> 'x world \<Rightarrow> usage \<times> 'x world" where
  "account u tot w =
     (case u of
        None \<Rightarrow> (tot, w)
      | Some v \<Rightarrow> (addUsage tot v, w\<lparr>wd_tree := addTokens (wd_tree w) (InputTokens v + OutputTokens v)\<rparr>))"

subsection \<open>Partial results and the finalizing calls\<close>

function dropUnansweredToolCalls :: "message list \<Rightarrow> message list" where
  "dropUnansweredToolCalls msgs =
     (if msgs = [] then []
      else if m_Role (last msgs) \<noteq> RoleAssistant \<or> m_ToolCalls (last msgs) = [] then msgs
      else dropUnansweredToolCalls (butlast msgs))"
  by pat_completeness auto
termination
  by (relation "measure length") auto

declare dropUnansweredToolCalls.simps [simp del]

text \<open>A turn returns a result, an error, or both.\<close>

type_synonym turnOutcome = "turnResult option \<times> goerr option"

definition partialResult ::
  "message list \<Rightarrow> usage \<Rightarrow> usageByModel \<Rightarrow> int \<Rightarrow> goerr \<Rightarrow> 'x world \<Rightarrow> turnOutcome \<times> 'x world" where
  "partialResult added usage byModel steps err w =
     ((Some \<lparr>res_Text = [], res_Messages = dropUnansweredToolCalls added, res_Usage = usage,
             res_UsageByModel = byModelResult byModel, res_Steps = steps, res_FinishReason = [],
             res_Structured = [], res_StructuredError = []\<rparr>, Some err),
      emitEv (EventError (errText err)) w)"

definition failSpan :: "goerr \<Rightarrow> 'x world \<Rightarrow> turnOutcome \<times> 'x world" where
  "failSpan err w = ((None, Some err), emitEv (EventError (errText err)) w)"

definition structuredMaxAttempts :: nat where "structuredMaxAttempts = 2"

abbreviation "fence \<equiv> [CHR 0x60, CHR 0x60, CHR 0x60]"

definition stripJSONFence :: "string \<Rightarrow> string" where
  "stripJSONFence text =
     (let t = trimSpace text
      in if \<not> hasPrefix t fence then text
         else (let t1 = trimPrefix t fence;
                   t2 = (case strIndex t1 [CHR 0x0A] of Some nl \<Rightarrow> drop (nl + 1) t1 | None \<Rightarrow> t1)
               in trimSpace (trimSuffix (trimSpace t2) fence)))"

definition checkStructured :: "'x runnerEnv \<Rightarrow> string \<Rightarrow> schemaCheck \<Rightarrow> string" where
  "checkStructured env text compiled =
     (if \<not> en_jsonValid env text then ''it is not valid JSON''
      else strJoin (map (\<lambda>(path, msg). (if path = [] then ''/'' else path) @ '': '' @ msg) (compiled text)) ''; '')"

definition baseRequest :: "string \<Rightarrow> message list \<Rightarrow> providerRequest" where
  "baseRequest instructions msgs =
     \<lparr>rq_Instructions = instructions, rq_Messages = msgs, rq_Tools = [], rq_Temperature = None, rq_MaxTokens = 0,
      rq_ToolChoice = \<lparr>tch_Mode = [], tch_Name = []\<rparr>, rq_Seed = None, rq_Penalties = None, rq_Guided = None,
      rq_ResponseSchema = []\<rparr>"

definition noToolChoice :: "providerRequest \<Rightarrow> providerRequest" where
  "noToolChoice req = req\<lparr>rq_ToolChoice := \<lparr>tch_Mode = [], tch_Name = []\<rparr>\<rparr>"

text \<open>The finalizing loop; the result is (document, why it is invalid) and the summed usage.\<close>

fun structuredLoop ::
  "'x runnerEnv \<Rightarrow> 'x runnerConfig \<Rightarrow> nat \<Rightarrow> string \<Rightarrow> generationParams \<Rightarrow> rawjson \<Rightarrow> schemaCheck \<Rightarrow>
   message list \<Rightarrow> string \<times> string \<Rightarrow> usage \<Rightarrow> 'x world \<Rightarrow> (goerr + (string \<times> string)) \<times> usage \<times> 'x world" where
  "structuredLoop env cfg 0 instr gen schema compiled msgs lst usage w = (Inr lst, usage, w)"
| "structuredLoop env cfg (Suc n) instr gen schema compiled msgs lst usage w =
     (let req = noToolChoice (applyTo gen ((baseRequest instr msgs)\<lparr>rq_ResponseSchema := schema\<rparr>))
      in case pv_Generate (en_provider env (rc_Provider cfg)) req w of
           (Inl e, w1) \<Rightarrow> (Inl e, usage, w1)
         | (Inr resp, w1) \<Rightarrow>
             (case account (rs_Usage resp) usage w1 of
                (usage', w2) \<Rightarrow>
                  (let doc = stripJSONFence (rs_Text resp);
                       invalid = checkStructured env doc compiled
                   in if invalid = [] then (Inr (doc, []), usage', w2)
                      else structuredLoop env cfg n instr gen schema compiled
                             (msgs @ [textMessage RoleAssistant (rs_Text resp),
                                      textMessage RoleUser (''That answer doesn't match the required JSON schema: '' @ invalid @
                                        ''. Reply with only a JSON document that matches it.'')])
                             (doc, invalid) usage' w2)))"

definition finalizeStructured where
  "finalizeStructured env cfg instr msgs usage gen schema compiled w =
     structuredLoop env cfg structuredMaxAttempts instr gen schema compiled msgs ([], []) usage w"

definition finalizeGuided ::
  "'x runnerEnv \<Rightarrow> 'x runnerConfig \<Rightarrow> string \<Rightarrow> message list \<Rightarrow> usage \<Rightarrow> generationParams \<Rightarrow> guidedDecoding ptr option \<Rightarrow> 'x world \<Rightarrow>
   (goerr + string) \<times> usage \<times> 'x world" where
  "finalizeGuided env cfg instr msgs usage gen g w =
     (case pv_Generate (en_provider env (rc_Provider cfg))
             (noToolChoice (applyTo gen ((baseRequest instr msgs)\<lparr>rq_Guided := g\<rparr>))) w of
        (Inl e, w1) \<Rightarrow> (Inl e, usage, w1)
      | (Inr resp, w1) \<Rightarrow>
          (case account (rs_Usage resp) usage w1 of (usage', w2) \<Rightarrow> (Inr (rs_Text resp), usage', w2)))"

definition checkStepGuided ::
  "'x runnerEnv \<Rightarrow> 'x runnerConfig \<Rightarrow> guidedDecoding ptr option \<Rightarrow> guidedDecoding ptr option \<Rightarrow> bool \<Rightarrow> nat \<Rightarrow> bool \<Rightarrow> int \<Rightarrow> string \<Rightarrow>
   goerr option" where
  "checkStepGuided env cfg g turn send prov hasSchema stp provName =
     (case g of
        None \<Rightarrow> None
      | Some p \<Rightarrow>
          if g \<noteq> turn \<and> hasSchema then
            Some (Errorf ''agent: step %d: a stage set a grammar beside ResponseSchema; a turn's answer takes one constraint'' [itoa stp] None)
          else
            (case (if g \<noteq> turn then guidedKind (deref p) else Inr []) of
               Inl e \<Rightarrow> Some (Errorf ''agent: step %d's grammar: %w'' [itoa stp] (Some e))
             | Inr _ \<Rightarrow>
                 (let target = (if send then prov else rc_Provider cfg)
                  in if canGuide (en_caps env target) g then None
                     else if target \<noteq> rc_Provider cfg then
                       Some (Errorf ''%w: step %d's grammar (the step is routed to %q, which can't send this kind of constraint)''
                               [itoa stp, provName] (Some (ErrSentinel ErrUnsupportedParam)))
                     else Some (Errorf ''%w: step %d's grammar (the provider can't send this kind of constraint)''
                               [itoa stp] (Some (ErrSentinel ErrUnsupportedParam))))))"

subsection \<open>One step of the loop\<close>

record loopState =
  ls_msgs :: "message list"
  ls_added :: "message list"
  ls_usage :: usage
  ls_byModel :: usageByModel
  ls_defaultName :: string

record turnSetup =
  ts_instr :: string
  ts_gen :: generationParams
  ts_guided :: "guidedDecoding ptr option"
  ts_schema :: rawjson
  ts_compiled :: "schemaCheck option"

datatype 'x stepOutcome = Finished turnOutcome "'x world" | Continue loopState "'x world"

definition finish :: "turnOutcome \<times> 'x world \<Rightarrow> 'x stepOutcome" where
  "finish r = Finished (fst r) (snd r)"

text \<open>
  The hooks' verdict on an answer: \<open>st\<close> has the messages and totals after the finalizing calls, \<open>doc\<close>
  the structured document, if any.
\<close>

definition closeTurn ::
  "'x runnerConfig \<Rightarrow> turnEndInfo \<Rightarrow> string \<Rightarrow> string \<Rightarrow> string \<Rightarrow> loopState \<Rightarrow> 'x world \<Rightarrow> 'x stepOutcome" where
  "closeTurn cfg info answer finishReason doc st w =
     (case turnEnd (rc_TurnEnd cfg) info w of
        (Inl e, w1) \<Rightarrow> finish (failSpan (Errorf ''agent: turn-end hook: %w'' [] (Some e)) w1)
      | (Inr v, w1) \<Rightarrow>
          if tv_Stop v \<noteq> [] then
            finish (partialResult (ls_added st) (ls_usage st) (ls_byModel st) (te_Step info)
              (Errorf ''%w: %s'' [tv_Stop v] (Some (ErrSentinel ErrTurnStopped))) w1)
          else if tv_Continue v \<noteq> [] then
            (let cont = textMessage (if tv_AsUser v then RoleUser else RoleSystem) (tv_Continue v)
             in Continue (st\<lparr>ls_msgs := ls_msgs st @ [cont], ls_added := ls_added st @ [cont]\<rparr>)
                  (emitEv (EventTurnContinued (te_Step info) (tv_Continue v)) w1))
          else
            (let r = \<lparr>res_Text = answer, res_Messages = ls_added st, res_Usage = ls_usage st,
                      res_UsageByModel = byModelResult (ls_byModel st), res_Steps = te_Step info,
                      res_FinishReason = finishReason, res_Structured = doc,
                      res_StructuredError = te_StructuredError info\<rparr>
             in Finished (Some r, None) (emitEv (EventTurnEnd r) w1)))"

text \<open>
  The finalizing calls on an answer: a guided decode the step could not send replaces the answer's text;
  a structured turn asks for the document. Both book their usage on the default model.
\<close>

definition guidedAnswer ::
  "'x runnerEnv \<Rightarrow> 'x runnerConfig \<Rightarrow> turnSetup \<Rightarrow> guidedDecoding ptr option \<Rightarrow> bool \<Rightarrow> string \<Rightarrow> loopState \<Rightarrow> 'x world \<Rightarrow>
   (goerr + (string \<times> loopState)) \<times> 'x world" where
  "guidedAnswer env cfg su stepGuided sendGuided answer st w =
     (if stepGuided = None \<or> sendGuided then (Inr (answer, st), w)
      else case finalizeGuided env cfg (ts_instr su) (butlast (ls_msgs st)) (ls_usage st) (ts_gen su) stepGuided w of
             (Inl e, _, w1) \<Rightarrow> (Inl (Errorf ''agent: guided finalize: %w'' [] (Some e)), w1)
           | (Inr x, usage, w1) \<Rightarrow>
               (let setText = (\<lambda>ms. butlast ms @ [(last ms)\<lparr>m_Text := x\<rparr>])
                in (Inr (x, st\<lparr>ls_msgs := setText (ls_msgs st), ls_added := setText (ls_added st), ls_usage := usage,
                               ls_byModel := byModelAddDelta (ls_defaultName st) (ls_usage st) usage (ls_byModel st)\<rparr>), w1)))"

definition structuredAnswer ::
  "'x runnerEnv \<Rightarrow> 'x runnerConfig \<Rightarrow> turnSetup \<Rightarrow> loopState \<Rightarrow> 'x world \<Rightarrow> (goerr + (string \<times> string \<times> loopState)) \<times> 'x world" where
  "structuredAnswer env cfg su st w =
     (case ts_compiled su of
        None \<Rightarrow> (Inr ([], [], st), w)
      | Some c \<Rightarrow>
          (case finalizeStructured env cfg (ts_instr su) (ls_msgs st) (ls_usage st) (ts_gen su) (ts_schema su) c w of
             (Inl e, _, w1) \<Rightarrow> (Inl (Errorf ''agent: structured finalize: %w'' [] (Some e)), w1)
           | (Inr (doc, invalid), usage, w1) \<Rightarrow>
               (Inr (doc, invalid, st\<lparr>ls_usage := usage,
                  ls_byModel := byModelAddDelta (ls_defaultName st) (ls_usage st) usage (ls_byModel st)\<rparr>), w1)))"

text \<open>The end of a turn whose last answer called no tool.\<close>

definition answerTurn ::
  "'x runnerEnv \<Rightarrow> 'x runnerConfig \<Rightarrow> turnSetup \<Rightarrow> int \<Rightarrow> guidedDecoding ptr option \<Rightarrow> bool \<Rightarrow> providerResponse \<Rightarrow>
   loopState \<Rightarrow> 'x world \<Rightarrow> 'x stepOutcome" where
  "answerTurn env cfg su stp stepGuided sendGuided resp st w =
     (case guidedAnswer env cfg su stepGuided sendGuided (rs_Text resp) st w of
        (Inl e, w1) \<Rightarrow> finish (failSpan e w1)
      | (Inr (answer, st1), w1) \<Rightarrow>
          (case structuredAnswer env cfg su st1 w1 of
             (Inl e, w2) \<Rightarrow> finish (failSpan e w2)
           | (Inr (doc, invalid, st2), w2) \<Rightarrow>
               closeTurn cfg
                 \<lparr>te_Step = stp, te_MaxSteps = rc_MaxSteps cfg,
                  te_Text = (if ts_compiled su \<noteq> None then doc else answer),
                  te_Draft = (if ts_compiled su \<noteq> None then answer
                              else if stepGuided \<noteq> None \<and> \<not> sendGuided then rs_Text resp else []),
                  te_StructuredError = invalid, te_Messages = ls_added st2, te_Usage = ls_usage st2\<rparr>
                 answer (rs_FinishReason resp) doc st2 w2))"

fun emitSignals :: "int \<Rightarrow> signal list \<Rightarrow> 'x world \<Rightarrow> 'x world" where
  "emitSignals stp [] w = w"
| "emitSignals stp (s # ss) w = emitSignals stp ss (emitEv (EventSignal stp s) w)"

text \<open>The fan-out of a step's tool calls and what follows it.\<close>

definition toolPhase ::
  "'x runnerEnv \<Rightarrow> 'x runnerConfig \<Rightarrow> int \<Rightarrow> toolCall list \<Rightarrow> toolDef list \<Rightarrow> loopState \<Rightarrow> 'x world \<Rightarrow> 'x stepOutcome option" where
  "toolPhase env cfg stp calls tools st w =
     (case dispatch env cfg stp calls tools w of
        None \<Rightarrow> None
      | Some (toolMsgs, signals, w1) \<Rightarrow>
          Some (case en_ctxErr env w1 of
                  Some err \<Rightarrow> finish (failSpan err w1)
                | None \<Rightarrow>
                    (let st1 = st\<lparr>ls_msgs := ls_msgs st @ toolMsgs, ls_added := ls_added st @ toolMsgs\<rparr>;
                         w2 = emitSignals stp signals w1;
                         act = (case rc_SignalPolicy cfg of None \<Rightarrow> \<lparr>act_AbortTurn = False, act_Reason = []\<rparr> | Some p \<Rightarrow> p signals);
                         sigMsg = textMessage RoleSystem (renderSignals signals)
                     in if signals = [] then Continue st1 w1
                        else if act_AbortTurn act then
                          finish (failSpan (Errorf ''%w: %s''
                            [if act_Reason act = [] then ''child signalled abort'' else act_Reason act]
                            (Some (ErrSentinel ErrSignalAbort))) w2)
                        else Continue (st1\<lparr>ls_msgs := ls_msgs st1 @ [sigMsg], ls_added := ls_added st1 @ [sigMsg]\<rparr>) w2)))"

text \<open>What follows a model's response: the accounting, the record, and the answer or the tool calls.\<close>

definition assistantMessage :: "providerResponse \<Rightarrow> message" where
  "assistantMessage resp = \<lparr>m_Role = RoleAssistant, m_Text = rs_Text resp, m_ToolCalls = rs_ToolCalls resp,
     m_ToolCallID = [], m_Timestamp = 0\<rparr>"

definition respond ::
  "'x runnerEnv \<Rightarrow> 'x runnerConfig \<Rightarrow> turnSetup \<Rightarrow> int \<Rightarrow> nat stepView \<Rightarrow> bool \<Rightarrow> providerResponse \<Rightarrow> loopState \<Rightarrow> 'x world \<Rightarrow>
   'x stepOutcome option" where
  "respond env cfg su stp view sendGuided resp st w =
     (let (usage', w1) = account (rs_Usage resp) (ls_usage st) w;
          w2 = emitEv (EventStep stp (sv_ProviderName view) (rs_Usage resp)) w1;
          st1 = st\<lparr>ls_msgs := ls_msgs st @ [assistantMessage resp], ls_added := ls_added st @ [assistantMessage resp],
                   ls_usage := usage', ls_byModel := byModelAdd (sv_ProviderName view) (rs_Usage resp) (ls_byModel st)\<rparr>
      in if rs_ToolCalls resp = []
         then Some (answerTurn env cfg su stp (sv_Guided view) sendGuided resp st1 w2)
         else toolPhase env cfg stp (rs_ToolCalls resp) (sv_Tools view) st1 w2)"

text \<open>The model call of a step.\<close>

definition modelPhase ::
  "'x runnerEnv \<Rightarrow> 'x runnerConfig \<Rightarrow> turnSetup \<Rightarrow> int \<Rightarrow> nat stepView \<Rightarrow> loopState \<Rightarrow> 'x world \<Rightarrow> 'x stepOutcome option" where
  "modelPhase env cfg su stp view st w =
     (let tools = sv_Tools view;
          prov = (case sv_Provider view of Some p \<Rightarrow> p | None \<Rightarrow> rc_Provider cfg);
          st0 = (if sv_Provider view = None \<and> sv_ProviderName view \<noteq> [] then st\<lparr>ls_defaultName := sv_ProviderName view\<rparr> else st);
          stepGuided = sv_Guided view;
          sendGuided = (stepGuided \<noteq> None \<and> tools = []);
          req0 = applyTo (sv_Generation view) ((baseRequest (ts_instr su) (sv_Messages view))\<lparr>rq_Tools := tools\<rparr>);
          req = (if sendGuided then req0\<lparr>rq_Guided := stepGuided\<rparr> else req0)
      in case checkStepGuided env cfg stepGuided (ts_guided su) sendGuided prov (ts_compiled su \<noteq> None) stp (sv_ProviderName view) of
           Some err \<Rightarrow> Some (finish (failSpan err w))
         | None \<Rightarrow>
             (case pv_Stream (en_provider env prov) req w of
                (Inl e, w1) \<Rightarrow> Some (finish (failSpan e w1))
              | (Inr s, w1) \<Rightarrow>
                  (case consumeStream (en_argsOf env) streamRecv stp s of
                     None \<Rightarrow> None
                   | Some (Inl e, evs) \<Rightarrow> Some (finish (failSpan e (w1\<lparr>wd_events := wd_events w1 @ evs\<rparr>)))
                   | Some (Inr resp, evs) \<Rightarrow>
                       respond env cfg su stp view sendGuided resp st0 (w1\<lparr>wd_events := wd_events w1 @ evs\<rparr>))))"

definition runStep ::
  "'x runnerEnv \<Rightarrow> 'x runnerConfig \<Rightarrow> (nat, 'x world) stepStage list \<Rightarrow> turnSetup \<Rightarrow> int \<Rightarrow> loopState \<Rightarrow> 'x world \<Rightarrow> 'x stepOutcome option" where
  "runStep env cfg chain su stp st w =
     (let (ok, tree) = consumeStep (wd_tree w); w1 = w\<lparr>wd_tree := tree\<rparr>
      in if \<not> ok then
           Some (finish (failSpan (Errorf ''%w (aggregate across the agent tree)'' [] (Some (ErrSentinel ErrTreeBudget))) w1))
         else
           (case (case rc_Tools cfg of None \<Rightarrow> Inr [] | Some src \<Rightarrow> src_Tools src w1) of
              Inl e \<Rightarrow> Some (finish (failSpan (Errorf ''agent: listing tools: %w'' [] (Some e)) w1))
            | Inr tools \<Rightarrow>
                (let info = \<lparr>si_Step = stp, si_MaxSteps = rc_MaxSteps cfg, si_Usage = ls_usage st, si_Turn = ls_added st\<rparr>
                 in case runStepChain chain info (ls_msgs st) tools (ts_guided su) (ts_gen su) w1 of
                      (Inl err, w2) \<Rightarrow>
                        Some (finish
                          (if errors_is err ErrContextBudget \<or> errors_is err ErrTurnStopped
                           then partialResult (ls_added st) (ls_usage st) (ls_byModel st) (stp - 1) err w2
                           else failSpan err w2))
                    | (Inr (working, recorded, view), w2) \<Rightarrow>
                        modelPhase env cfg su stp view
                          (st\<lparr>ls_msgs := working, ls_added := ls_added st @ recorded\<rparr>) w2)))"

text \<open>The loop: \<open>left\<close> is the number of steps that may still start.\<close>

fun runLoop ::
  "'x runnerEnv \<Rightarrow> 'x runnerConfig \<Rightarrow> (nat, 'x world) stepStage list \<Rightarrow> turnSetup \<Rightarrow> nat \<Rightarrow> int \<Rightarrow> loopState \<Rightarrow> 'x world \<Rightarrow>
   (turnOutcome \<times> 'x world) option" where
  "runLoop env cfg chain su 0 stp st w =
     Some (partialResult (ls_added st) (ls_usage st) (ls_byModel st) (rc_MaxSteps cfg)
       (Errorf ''%w (%d steps)'' [itoa (rc_MaxSteps cfg)] (Some (ErrSentinel ErrMaxSteps))) w)"
| "runLoop env cfg chain su (Suc left) stp st w =
     (case runStep env cfg chain su stp st w of
        None \<Rightarrow> None
      | Some (Finished r w') \<Rightarrow> Some (r, w')
      | Some (Continue st' w') \<Rightarrow> runLoop env cfg chain su left (stp + 1) st' w')"

text \<open>The checks before a turn begins; an error here is returned without any event.\<close>

definition setupTurn :: "'x runnerEnv \<Rightarrow> 'x runnerConfig \<Rightarrow> turnRequest \<Rightarrow> goerr + turnSetup" where
  "setupTurn env cfg req =
     (let schema = (if tq_ResponseSchema req \<noteq> [] then tq_ResponseSchema req else rc_ResponseSchema cfg);
          guided = (case tq_ResponseGuided req of None \<Rightarrow> rc_ResponseGuided cfg | Some g \<Rightarrow> Some g);
          compiled = (if schema = [] then Inr None
                      else case en_compile env schema of
                             Inl e \<Rightarrow> Inl (Errorf ''agent: response schema: %w'' [] (Some e))
                           | Inr c \<Rightarrow> Inr (Some c))
      in case compiled of
           Inl e \<Rightarrow> Inl e
         | Inr c \<Rightarrow>
             (let su = \<lparr>ts_instr = rc_Instructions cfg, ts_gen = genMerge (en_fresh env) (rc_Generation cfg) (tq_Generation req),
                        ts_guided = guided, ts_schema = schema, ts_compiled = c\<rparr>
              in case guided of
                   None \<Rightarrow> Inr su
                 | Some g \<Rightarrow>
                     if schema \<noteq> [] then
                       Inl (ErrNew ''agent: ResponseGuided and ResponseSchema both set; a turn's answer takes one constraint'')
                     else (case guidedKind (deref g) of
                             Inl e \<Rightarrow> Inl (Errorf ''agent: ResponseGuided: %w'' [] (Some e))
                           | Inr _ \<Rightarrow>
                               if canGuide (en_caps env (rc_Provider cfg)) guided then Inr su
                               else Inl (Errorf ''%w: ResponseGuided (the provider can't send this kind of constraint)'' []
                                           (Some (ErrSentinel ErrUnsupportedParam))))))"

text \<open>\<^verbatim>\<open>RunTurn\<close>: a budget that this turn itself opens lives in its context only.\<close>

definition runTurn ::
  "'x runnerEnv \<Rightarrow> 'x runnerConfig \<Rightarrow> turnRequest \<Rightarrow> 'x world \<Rightarrow> (turnOutcome \<times> 'x world) option" where
  "runTurn env cfg req w =
     (case setupTurn env cfg req of
        Inl e \<Rightarrow> Some ((None, Some e), w)
      | Inr su \<Rightarrow>
          (let opens = (\<not> treeBudgetZero (rc_TreeBudget cfg) \<and> wd_tree w = None);
               w1 = (if opens then w\<lparr>wd_tree := withTreeBudget None (rc_TreeBudget cfg)\<rparr> else w);
               w2 = emitEv EventTurnBegin w1;
               su' = (case rc_InstructionsFunc cfg of None \<Rightarrow> su | Some f \<Rightarrow> su\<lparr>ts_instr := f w2\<rparr>);
               chain = stepChain (rc_Compactor cfg) (rc_Selector cfg) (rc_StepStages cfg) emitEv;
               st = \<lparr>ls_msgs = tq_History req, ls_added = [], ls_usage = zeroUsage, ls_byModel = [], ls_defaultName = []\<rparr>
           in map_option (\<lambda>(r, w'). (r, if opens then w'\<lparr>wd_tree := None\<rparr> else w'))
                (runLoop env cfg chain su' (nat (rc_MaxSteps cfg)) 1 st w2)))"

end
