(* ===== verification/TurnProps.thy ===== *)
theory TurnProps
  imports Runner
begin

text \<open>
  Invariants of the turn loop: what one step keeps of the record, the usage totals and the events, and
  the properties of whole turns that follow.
\<close>

subsection \<open>Answered conversations\<close>

text \<open>
  Every assistant message with tool calls is followed at once by one tool message per call, in call
  order, and no other tool messages occur.
\<close>

function answered :: "message list \<Rightarrow> bool" where
  "answered [] \<longleftrightarrow> True"
| "answered (m # ms) \<longleftrightarrow>
     (if m_Role m = RoleAssistant \<and> m_ToolCalls m \<noteq> []
      then map (\<lambda>t. (m_Role t, m_ToolCallID t)) (take (length (m_ToolCalls m)) ms) =
             map (\<lambda>c. (RoleTool, tc_ID c)) (m_ToolCalls m) \<and>
           answered (drop (length (m_ToolCalls m)) ms)
      else m_Role m \<noteq> RoleTool \<and> answered ms)"
  by pat_completeness auto
termination
  by (relation "measure length") auto

definition plainMsg :: "message \<Rightarrow> bool" where
  "plainMsg m \<longleftrightarrow> m_Role m \<noteq> RoleTool \<and> (m_Role m = RoleAssistant \<longrightarrow> m_ToolCalls m = [])"

lemma answered_take_len:
  assumes "map (\<lambda>t. (m_Role t, m_ToolCallID t)) (take (length cs) ms) = map (\<lambda>c. (RoleTool, tc_ID c)) cs"
  shows "length cs \<le> length ms"
  using arg_cong [OF assms, of length] by simp

lemma answered_append: "answered xs \<Longrightarrow> answered ys \<Longrightarrow> answered (xs @ ys)"
proof (induction xs rule: answered.induct)
  case (2 m ms)
  show ?case
  proof (cases "m_Role m = RoleAssistant \<and> m_ToolCalls m \<noteq> []")
    case True
    have l: "length (m_ToolCalls m) \<le> length ms"
      using "2.prems"(1) True answered_take_len [of "m_ToolCalls m" ms] by simp
    then show ?thesis using "2.IH"(1) [OF True] "2.prems" True by simp
  next
    case False
    then show ?thesis using "2.IH"(2) "2.prems" by (auto split: if_splits)
  qed
qed simp

lemma answered_plain: "list_all plainMsg xs \<Longrightarrow> answered xs"
  by (induction xs) (auto simp: plainMsg_def)

lemma answered_calls:
  assumes "m_Role m = RoleAssistant" "map (\<lambda>t. (m_Role t, m_ToolCallID t)) ts = map (\<lambda>c. (RoleTool, tc_ID c)) (m_ToolCalls m)"
  shows "answered (m # ts)"
proof -
  have "length ts = length (m_ToolCalls m)" using arg_cong [OF assms(2), of length] by simp
  then show ?thesis using assms by auto
qed

lemma answered_last:
  "answered xs \<Longrightarrow> xs \<noteq> [] \<Longrightarrow> m_Role (last xs) \<noteq> RoleAssistant \<or> m_ToolCalls (last xs) = []"
proof (induction xs rule: answered.induct)
  case (2 m ms)
  show ?case
  proof (cases "m_Role m = RoleAssistant \<and> m_ToolCalls m \<noteq> []")
    case True
    let ?n = "length (m_ToolCalls m)"
    have t: "map (\<lambda>t. (m_Role t, m_ToolCallID t)) (take ?n ms) = map (\<lambda>c. (RoleTool, tc_ID c)) (m_ToolCalls m)"
      using "2.prems"(1) True by simp
    have l: "?n \<le> length ms" "0 < ?n" using answered_take_len [OF t] True by auto
    show ?thesis
    proof (cases "length ms = ?n")
      case F: True
      then have "map m_Role ms = map (\<lambda>c. RoleTool) (m_ToolCalls m)"
        using arg_cong [OF t, of "map fst"] by (simp add: comp_def)
      then have "m_Role (last ms) = RoleTool"
        using l F last_map [of ms m_Role] last_map [of "m_ToolCalls m" "\<lambda>c. RoleTool"] by (cases "ms = []") auto
      then show ?thesis using l F by auto
    next
      case False
      then have "drop ?n ms \<noteq> []" using l by simp
      then show ?thesis using "2.IH"(1) [OF True] "2.prems"(1) True by (simp add: last_drop) auto
    qed
  next
    case False
    then show ?thesis using "2.IH"(2) "2.prems" by (cases "ms = []") auto
  qed
qed simp

lemma dropUnanswered_id: "answered xs \<Longrightarrow> dropUnansweredToolCalls xs = xs"
  using answered_last [of xs] by (subst dropUnansweredToolCalls.simps) auto

subsection \<open>Usage totals\<close>

definition sumUsage :: "usageByModel \<Rightarrow> usage" where
  "sumUsage m = foldr (\<lambda>(_, u) acc. addUsage u acc) m zeroUsage"

lemma usage_eqI:
  "InputTokens a = InputTokens b \<Longrightarrow> OutputTokens a = OutputTokens b \<Longrightarrow> CachedInputTokens a = CachedInputTokens b \<Longrightarrow>
   a = (b :: usage)"
  by simp

lemma addUsage_assoc: "addUsage (addUsage a b) c = addUsage a (addUsage b c)"
  by (simp add: addUsage_def)

lemma addUsage_commute: "addUsage a b = addUsage b a"
  by (simp add: addUsage_def)

lemma addUsage_left_commute: "addUsage a (addUsage b c) = addUsage b (addUsage a c)"
  by (simp add: addUsage_def)

lemma addUsage_zero [simp]: "addUsage u zeroUsage = u" "addUsage zeroUsage u = u"
  by (simp_all add: addUsage_def zeroUsage_def)

lemmas usage_ac = addUsage_assoc addUsage_commute addUsage_left_commute

lemma sumUsage_simps [simp]:
  "sumUsage [] = zeroUsage" "sumUsage ((n, u) # m) = addUsage u (sumUsage m)"
  by (simp_all add: sumUsage_def)

lemma sumUsage_update:
  "sumUsage (AList.update k (addUsage (case map_of m k of None \<Rightarrow> zeroUsage | Some t \<Rightarrow> t) v) m) = addUsage (sumUsage m) v"
  by (induction m) (auto simp: usage_ac)

lemma sumUsage_byModelAdd:
  "sumUsage (byModelAdd n u m) = (case u of None \<Rightarrow> sumUsage m | Some v \<Rightarrow> addUsage (sumUsage m) v)"
  using sumUsage_update [of n m zeroUsage] sumUsage_update [of n m]
  by (auto simp: byModelAdd_def Let_def split: option.split)

lemma addUsage_subUsage [simp]: "addUsage a (subUsage b a) = b"
  by (simp add: addUsage_def subUsage_def)

lemma account_total: "account u tot w = (tot', w') \<Longrightarrow> tot' = (case u of None \<Rightarrow> tot | Some v \<Rightarrow> addUsage tot v)"
  by (auto simp: account_def split: option.splits)

subsection \<open>Dispatch\<close>

definition legalSchedule :: "nat \<Rightarrow> dispatchAct list \<Rightarrow> bool" where
  "legalSchedule n acts \<longleftrightarrow> distinct acts \<and>
     (\<forall>i<n. FinishCall i \<in> set acts \<and> BeginCall i \<in> set (takeWhile (\<lambda>a. a \<noteq> FinishCall i) acts)) \<and>
     (\<forall>i. (FinishCall i \<in> set acts \<or> BeginCall i \<in> set acts) \<longrightarrow> i < n)"

lemma runActs_length: "runActs env cfg stp calls tools acts rs w = Some (rs', w') \<Longrightarrow> length rs' = length rs"
proof (induction env cfg stp calls tools acts rs w rule: runActs.induct)
  case (3 env cfg stp calls tools i acts rs w)
  then show ?case by (auto split: option.splits)
qed auto

text \<open>A slot that holds the answer to its call keeps one; a finished call's slot holds one.\<close>

lemma runActs_results:
  "runActs env cfg stp calls tools acts rs w = Some (rs', w') \<Longrightarrow> j < length rs \<Longrightarrow>
   (\<exists>tx. rs ! j = toolMessage (calls ! j) tx) \<or> FinishCall j \<in> set acts \<Longrightarrow>
   \<exists>tx. rs' ! j = toolMessage (calls ! j) tx"
proof (induction env cfg stp calls tools acts rs w rule: runActs.induct)
  case (3 env cfg stp calls tools i acts rs w)
  then obtain tx w1 where c: "callTool env cfg stp (calls ! i) tools w = Some (tx, w1)"
    and r: "runActs env cfg stp calls tools acts (rs[i := toolMessage (calls ! i) tx]) w1 = Some (rs', w')"
    by (auto split: option.splits)
  show ?case using "3.IH" [OF c refl r] "3.prems"(2,3) by (cases "i = j") auto
qed auto

lemma dispatch_results:
  assumes "dispatch env cfg stp calls tools w = Some (msgs, sigs, w')"
    and "\<And>w. legalSchedule (length calls) (en_sched env stp calls w)"
  shows "map (\<lambda>t. (m_Role t, m_ToolCallID t)) msgs = map (\<lambda>c. (RoleTool, tc_ID c)) calls"
proof -
  obtain w1 w2 where r: "runActs env cfg stp calls tools (en_sched env stp calls w1)
      (replicate (length calls) (textMessage [] [])) w1 = Some (msgs, w2)"
    using assms(1) by (auto simp: dispatch_def Let_def split: option.splits)
  have "length msgs = length calls" using runActs_length [OF r] by simp
  moreover have "\<exists>tx. msgs ! j = toolMessage (calls ! j) tx" if "j < length calls" for j
    using runActs_results [OF r, of j] assms(2) [of w1] that by (auto simp: legalSchedule_def)
  ultimately show ?thesis
    by (intro nth_equalityI) (force simp: toolMessage_def)+
qed

subsection \<open>The invariant of the loop\<close>

text \<open>\<open>H\<close> is the hypothesis under which the record is answered; the rest needs none.\<close>

definition loopInv :: "bool \<Rightarrow> loopState \<Rightarrow> bool" where
  "loopInv H st \<longleftrightarrow> (H \<longrightarrow> answered (ls_added st)) \<and> sumUsage (ls_byModel st) = ls_usage st"

definition resultOk :: "bool \<Rightarrow> int \<Rightarrow> turnResult \<Rightarrow> bool" where
  "resultOk H mx r \<longleftrightarrow> (H \<longrightarrow> answered (res_Messages r)) \<and>
     (\<forall>m. res_UsageByModel r = Some m \<longrightarrow> sumUsage m = res_Usage r) \<and> 0 \<le> res_Steps r \<and> res_Steps r \<le> mx"

definition turnOk :: "bool \<Rightarrow> int \<Rightarrow> turnOutcome \<Rightarrow> 'x world \<Rightarrow> bool" where
  "turnOk H mx out w \<longleftrightarrow>
     (case out of
        (Some r, None) \<Rightarrow> resultOk H mx r \<and> 1 \<le> res_Steps r \<and> wd_events w \<noteq> [] \<and> last (wd_events w) = EventTurnEnd r
      | (Some r, Some e) \<Rightarrow> resultOk H mx r \<and> wd_events w \<noteq> [] \<and> last (wd_events w) = EventError (errText e)
      | (None, Some e) \<Rightarrow> wd_events w \<noteq> [] \<and> last (wd_events w) = EventError (errText e)
      | (None, None) \<Rightarrow> False)"

fun outcomeOk :: "bool \<Rightarrow> int \<Rightarrow> 'x stepOutcome \<Rightarrow> bool" where
  "outcomeOk H mx (Finished out w) \<longleftrightarrow> turnOk H mx out w"
| "outcomeOk H mx (Continue st w) \<longleftrightarrow> loopInv H st"

lemma failSpan_ok [simp]: "outcomeOk H mx (finish (failSpan e w))"
  by (simp add: finish_def failSpan_def turnOk_def emitEv_def)

lemma byModelResult_sum: "byModelResult m = Some m' \<Longrightarrow> m' = m"
  by (simp add: byModelResult_def split: if_splits)

lemma partialResult_ok:
  assumes "H \<longrightarrow> answered added" "sumUsage bm = u" "0 \<le> s" "s \<le> mx"
  shows "turnOk H mx (fst (partialResult added u bm s e w)) (snd (partialResult added u bm s e w))"
  using assms by (auto simp: partialResult_def turnOk_def resultOk_def emitEv_def dropUnanswered_id dest!: byModelResult_sum)

lemma partialResult_finish_ok:
  "H \<longrightarrow> answered added \<Longrightarrow> sumUsage bm = u \<Longrightarrow> 0 \<le> s \<Longrightarrow> s \<le> mx \<Longrightarrow> outcomeOk H mx (finish (partialResult added u bm s e w))"
  using partialResult_ok by (simp add: finish_def)

text \<open>The record of an answer: an answered base and the model's last message, which calls no tool.\<close>

definition answerInv :: "bool \<Rightarrow> loopState \<Rightarrow> bool" where
  "answerInv H st \<longleftrightarrow> sumUsage (ls_byModel st) = ls_usage st \<and>
     (\<exists>base m. ls_added st = base @ [m] \<and> plainMsg m \<and> (H \<longrightarrow> answered base))"

lemma answerInv_loop: "answerInv H st \<Longrightarrow> loopInv H st"
  by (auto simp: answerInv_def loopInv_def answered_append answered_plain simp del: answered.simps)

lemma plainMsg_text: "r \<noteq> RoleTool \<Longrightarrow> plainMsg (textMessage r s)"
  by (simp add: plainMsg_def textMessage_def)

lemma loopInv_cont:
  "loopInv H st \<Longrightarrow> r \<noteq> RoleTool \<Longrightarrow> loopInv H (st\<lparr>ls_msgs := ms, ls_added := ls_added st @ [textMessage r s]\<rparr>)"
  by (auto simp: loopInv_def answered_append answered_plain plainMsg_text simp del: answered.simps)

lemma closeTurn_ok:
  assumes "loopInv H st" "1 \<le> te_Step info" "te_Step info \<le> mx"
  shows "outcomeOk H mx (closeTurn cfg info answer fr doc st w)"
proof -
  obtain r w1 where t: "turnEnd (rc_TurnEnd cfg) info w = (r, w1)" by fastforce
  show ?thesis
  proof (cases r)
    case (Inl e)
    then show ?thesis using t by (simp add: closeTurn_def)
  next
    case (Inr v)
    have "loopInv H (st\<lparr>ls_msgs := ls_msgs st @ [c], ls_added := ls_added st @ [c]\<rparr>)"
      if "c = textMessage (if tv_AsUser v then RoleUser else RoleSystem) (tv_Continue v)" for c
      using loopInv_cont [OF assms(1)] that by simp
    moreover have "outcomeOk H mx (finish (partialResult (ls_added st) (ls_usage st) (ls_byModel st) (te_Step info) e w1))" for e
      using assms by (intro partialResult_finish_ok) (auto simp: loopInv_def)
    ultimately show ?thesis using t Inr assms
      by (auto simp: closeTurn_def Let_def turnOk_def resultOk_def loopInv_def emitEv_def dest!: byModelResult_sum)
  qed
qed

lemma answerInv_text:
  assumes "answerInv H st"
  shows "answerInv H (st\<lparr>ls_msgs := ms, ls_added := butlast (ls_added st) @ [(last (ls_added st))\<lparr>m_Text := x\<rparr>],
     ls_usage := u, ls_byModel := byModelAddDelta n (ls_usage st) u (ls_byModel st)\<rparr>)"
  using assms by (auto simp: answerInv_def byModelAddDelta_def sumUsage_byModelAdd plainMsg_def)

lemma answerInv_usage:
  "answerInv H st \<Longrightarrow> answerInv H (st\<lparr>ls_usage := u, ls_byModel := byModelAddDelta n (ls_usage st) u (ls_byModel st)\<rparr>)"
  by (auto simp: answerInv_def byModelAddDelta_def sumUsage_byModelAdd)

lemma guidedAnswer_inv:
  "guidedAnswer env cfg su sg send x st w = (Inr (y, st'), w') \<Longrightarrow> answerInv H st \<Longrightarrow> answerInv H st'"
  by (auto simp: guidedAnswer_def Let_def answerInv_text split: if_splits prod.splits sum.splits)

lemma structuredAnswer_inv:
  "structuredAnswer env cfg su st w = (Inr (d, i, st'), w') \<Longrightarrow> answerInv H st \<Longrightarrow> answerInv H st'"
  by (auto simp: structuredAnswer_def answerInv_usage split: option.splits prod.splits sum.splits)

lemma answerTurn_ok:
  assumes "answerInv H st" "1 \<le> stp" "stp \<le> mx"
  shows "outcomeOk H mx (answerTurn env cfg su stp sg send resp st w)"
proof -
  have close: "outcomeOk H mx (closeTurn cfg info answer fr doc st2 w2)" if "answerInv H st2" "te_Step info = stp" for info answer fr doc st2 w2
    using that(2) assms(2,3) by (intro closeTurn_ok answerInv_loop [OF that(1)]) simp_all
  obtain g w1 where g: "guidedAnswer env cfg su sg send (rs_Text resp) st w = (g, w1)" by fastforce
  show ?thesis
  proof (cases g)
    case (Inl e)
    then show ?thesis using g by (simp add: answerTurn_def)
  next
    case G: (Inr p)
    obtain answer st1 where p: "p = (answer, st1)" by fastforce
    have i1: "answerInv H st1" using guidedAnswer_inv [OF _ assms(1)] g G p by metis
    obtain s w2 where s: "structuredAnswer env cfg su st1 w1 = (s, w2)" by fastforce
    show ?thesis
    proof (cases s)
      case (Inl e)
      then show ?thesis using g G p s by (simp add: answerTurn_def)
    next
      case S: (Inr q)
      obtain doc inv st2 where q: "q = (doc, inv, st2)" by (metis prod_cases3)
      have "answerInv H st2" using structuredAnswer_inv [OF _ i1] s S q by metis
      then have "outcomeOk H mx (closeTurn cfg info answer fr doc st2 w2)" if "te_Step info = stp" for info fr
        using close that by blast
      then show ?thesis using g G p s S q by (simp add: answerTurn_def del: outcomeOk.simps)
    qed
  qed
qed

lemma toolPhase_ok:
  assumes "toolPhase env cfg stp calls tools st w = Some o'"
    and "ls_added st = base @ [m]" "m_Role m = RoleAssistant" "m_ToolCalls m = calls"
    and "H \<longrightarrow> answered base" "H \<Longrightarrow> \<forall>w. legalSchedule (length calls) (en_sched env stp calls w)"
    and "sumUsage (ls_byModel st) = ls_usage st"
  shows "outcomeOk H mx o'"
proof -
  obtain msgs sigs w1 where d: "dispatch env cfg stp calls tools w = Some (msgs, sigs, w1)"
    using assms(1) by (auto simp: toolPhase_def split: option.splits)
  have "H \<longrightarrow> answered (m # msgs)"
    using dispatch_results [OF d] assms(3,4,6) by (auto intro!: answered_calls simp del: answered.simps)
  then have "H \<longrightarrow> answered (base @ (m # msgs))" using assms(5) answered_append by blast
  then have i: "loopInv H (st\<lparr>ls_msgs := ms, ls_added := ls_added st @ msgs\<rparr>)" for ms
    using assms(2,7) by (simp add: loopInv_def)
  then have "loopInv H (st\<lparr>ls_msgs := ms, ls_added := (ls_added st @ msgs) @ [textMessage RoleSystem s]\<rparr>)" for ms s
    using loopInv_cont [OF i, of RoleSystem] by simp
  with i show ?thesis using assms(1) d
    by (auto simp: toolPhase_def Let_def split: option.splits)
qed

lemma consumeStream_list: "\<exists>r evs. consumeStream argsOf streamRecv stp s = Some (r, evs)"
proof (cases "errors_is (st_end s) IoEOF")
  case True
  then show ?thesis using list_stream.consumeStream_eof [of s argsOf stp] by blast
next
  case False
  then show ?thesis using list_stream.consumeStream_broken [of s argsOf stp] by blast
qed

lemma respond_ok:
  assumes run: "respond env cfg su stp view send resp st w = Some o'"
    and inv: "loopInv H st" and stp: "1 \<le> stp" "stp \<le> mx"
    and sched: "H \<Longrightarrow> \<forall>calls w. legalSchedule (length calls) (en_sched env stp calls w)"
  shows "outcomeOk H mx o'"
proof -
  obtain u w1 where a: "account (rs_Usage resp) (ls_usage st) w = (u, w1)" by fastforce
  define st1 where "st1 = st\<lparr>ls_msgs := ls_msgs st @ [assistantMessage resp], ls_added := ls_added st @ [assistantMessage resp],
      ls_usage := u, ls_byModel := byModelAdd (sv_ProviderName view) (rs_Usage resp) (ls_byModel st)\<rparr>"
  have "sumUsage (ls_byModel st) = ls_usage st" using inv by (simp add: loopInv_def)
  then have sum: "sumUsage (ls_byModel st1) = ls_usage st1"
    unfolding st1_def using account_total [OF a] by (simp add: sumUsage_byModelAdd split: option.split)
  have rec: "ls_added st1 = ls_added st @ [assistantMessage resp]" by (simp add: st1_def)
  show ?thesis
  proof (cases "rs_ToolCalls resp = []")
    case True
    have "answerInv H st1"
      using True sum rec inv by (auto simp: answerInv_def loopInv_def assistantMessage_def plainMsg_def)
    then have "outcomeOk H mx (answerTurn env cfg su stp sg send resp st1 v)" for sg v
      by (rule answerTurn_ok [OF _ stp])
    then show ?thesis using run True a by (auto simp: respond_def st1_def Let_def)
  next
    case False
    show ?thesis
    proof (rule toolPhase_ok)
      show "toolPhase env cfg stp (rs_ToolCalls resp) (sv_Tools view) st1
          (emitEv (EventStep stp (sv_ProviderName view) (rs_Usage resp)) w1) = Some o'"
        using run False a by (simp add: respond_def st1_def Let_def)
    qed (use rec sum inv sched in \<open>auto simp: assistantMessage_def loopInv_def\<close>)
  qed
qed

lemma modelPhase_ok:
  assumes run: "modelPhase env cfg su stp view st w = Some o'"
    and inv: "loopInv H st" and stp: "1 \<le> stp" "stp \<le> mx"
    and sched: "H \<Longrightarrow> \<forall>calls w. legalSchedule (length calls) (en_sched env stp calls w)"
  shows "outcomeOk H mx o'"
proof -
  define st0 where "st0 = (if sv_Provider view = None \<and> sv_ProviderName view \<noteq> [] then st\<lparr>ls_defaultName := sv_ProviderName view\<rparr> else st)"
  have i0: "loopInv H st0" using inv by (simp add: st0_def loopInv_def)
  have "(\<exists>e v. o' = finish (failSpan e v)) \<or> (\<exists>send resp v. respond env cfg su stp view send resp st0 v = Some o')"
    using run unfolding modelPhase_def Let_def st0_def [symmetric]
    by (auto split: option.splits prod.splits sum.splits)
  then show ?thesis using respond_ok [OF _ i0 stp sched] by auto
qed

subsection \<open>Steps and turns\<close>

text \<open>Session stages record plain messages only: no tool result and no assistant message with tool calls.\<close>

definition recordsPlain :: "(nat, 'w) stepStage list \<Rightarrow> bool" where
  "recordsPlain stages \<longleftrightarrow>
     (\<forall>s\<in>set stages. sg_Scope s = ScopeSession \<longrightarrow>
        (\<forall>info v w out w'. sg_Run s info v w = (Inr out, w') \<longrightarrow>
           list_all plainMsg (drop (length (sv_Messages v)) (sv_Messages out))))"

lemma checkStage_added:
  "checkStage s wk v out = Inr (wk', ad, v') \<Longrightarrow>
   ad = (if sg_Scope s = ScopeSession then drop (length (sv_Messages v)) (sv_Messages out) else [])"
  by (auto simp: checkStage_def Let_def split: if_splits stepScope.splits)

lemma chainLoop_plain_records:
  "recordsPlain c \<Longrightarrow> chainLoop c info wk rc v w = (Inr (wk', rc', v'), w') \<Longrightarrow> \<exists>ad. rc' = rc @ ad \<and> list_all plainMsg ad"
proof (induction c arbitrary: wk rc v w)
  case (Cons s c)
  then obtain out w1 wk1 ad v1 where r: "sg_Run s info v w = (Inr out, w1)"
    and k: "checkStage s wk v out = Inr (wk1, ad, v1)"
    and l: "chainLoop c info wk1 (rc @ ad) v1 w1 = (Inr (wk', rc', v'), w')"
    by (auto split: prod.splits sum.splits)
  have "list_all plainMsg ad"
    using checkStage_added [OF k] Cons.prems(1) r unfolding recordsPlain_def
    by (cases "sg_Scope s = ScopeSession") (simp, blast, simp)
  moreover have "recordsPlain c" using Cons.prems(1) by (simp add: recordsPlain_def)
  ultimately show ?case using Cons.IH [OF _ l] by auto
qed simp

lemma recordsPlain_chain: "recordsPlain stages \<Longrightarrow> recordsPlain (stepChain cmp sel stages emit)"
proof -
  assume a: "recordsPlain stages"
  have "s \<in> set stages" if "s \<in> set (stepChain cmp sel stages emit)" "sg_Scope s = ScopeSession" for s
    using that by (auto simp: stepChain_def compactionStage_def selectorStage_def split: option.splits)
  then show ?thesis using a unfolding recordsPlain_def by blast
qed

lemma runStep_ok:
  fixes o' :: "'x stepOutcome"
  assumes run: "runStep env cfg chain su stp st w = Some o'"
    and inv: "loopInv H st" and stp: "1 \<le> stp" "stp \<le> mx"
    and sched: "H \<Longrightarrow> \<forall>calls w. legalSchedule (length calls) (en_sched env stp calls w)"
    and plain: "H \<Longrightarrow> recordsPlain chain"
  shows "outcomeOk H mx o'"
proof -
  have part: "outcomeOk H mx (finish (partialResult (ls_added st) (ls_usage st) (ls_byModel st) (stp - 1) e v))" for e and v :: "'x world"
    using inv stp by (intro partialResult_finish_ok) (auto simp: loopInv_def)
  have "(\<exists>e v. o' = finish (failSpan e v)) \<or>
    (\<exists>e v. o' = finish (partialResult (ls_added st) (ls_usage st) (ls_byModel st) (stp - 1) e v)) \<or>
    (\<exists>info tools v wk rc view v'. runStepChain chain info (ls_msgs st) tools (ts_guided su) (ts_gen su) v = (Inr (wk, rc, view), v') \<and>
       modelPhase env cfg su stp view (st\<lparr>ls_msgs := wk, ls_added := ls_added st @ rc\<rparr>) v' = Some o')"
    using run unfolding runStep_def Let_def
    by (simp split: prod.splits sum.splits if_splits option.splits) blast+
  then consider "outcomeOk H mx o'"
    | info tools v wk rc view v' where "runStepChain chain info (ls_msgs st) tools (ts_guided su) (ts_gen su) v = (Inr (wk, rc, view), v')"
      "modelPhase env cfg su stp view (st\<lparr>ls_msgs := wk, ls_added := ls_added st @ rc\<rparr>) v' = Some o'"
    using part failSpan_ok by metis
  then show ?thesis
  proof cases
    case 2
    have "H \<longrightarrow> list_all plainMsg rc"
      using chainLoop_plain_records [OF plain, of info "ls_msgs st" "[]" _ v wk rc view v'] 2(1)
      by (auto simp: runStepChain_def)
    then have "loopInv H (st\<lparr>ls_msgs := wk, ls_added := ls_added st @ rc\<rparr>)"
      using inv answered_append [OF _ answered_plain] by (auto simp: loopInv_def simp del: answered.simps)
    then show ?thesis by (rule modelPhase_ok [OF 2(2) _ stp sched])
  qed
qed

lemma runLoop_ok:
  assumes "runLoop env cfg chain su left stp st w = Some (out, w')"
    and "loopInv H st" "1 \<le> stp" "stp + int left = rc_MaxSteps cfg + 1"
    and sched: "H \<Longrightarrow> \<forall>stp calls w. legalSchedule (length calls) (en_sched env stp calls w)"
    and plain: "H \<Longrightarrow> recordsPlain chain"
  shows "turnOk H (rc_MaxSteps cfg) out w'"
  using assms(1-4)
proof (induction left arbitrary: stp st w)
  case 0
  then have part: "turnOk H (rc_MaxSteps cfg)
      (fst (partialResult (ls_added st) (ls_usage st) (ls_byModel st) (rc_MaxSteps cfg) e w))
      (snd (partialResult (ls_added st) (ls_usage st) (ls_byModel st) (rc_MaxSteps cfg) e w))" for e
    by (intro partialResult_ok) (auto simp: loopInv_def)
  obtain e where "partialResult (ls_added st) (ls_usage st) (ls_byModel st) (rc_MaxSteps cfg) e w = (out, w')"
    using 0(1) by (auto simp del: errText.simps)
  then show ?case using part [of e] by simp
next
  case (Suc left)
  obtain o' where r: "runStep env cfg chain su stp st w = Some o'"
    using Suc.prems(1) by (auto split: option.splits)
  have ok: "outcomeOk H (rc_MaxSteps cfg) o'"
    using Suc.prems(2-4) sched plain by (intro runStep_ok [OF r]) auto
  show ?case
  proof (cases o')
    case (Finished x v)
    then show ?thesis using Suc.prems(1) r ok by simp
  next
    case (Continue st1 v)
    then show ?thesis using Suc.IH [of "stp + 1" st1 v] Suc.prems r ok by simp
  qed
qed

text \<open>A turn passes its setup checks or returns their error with nothing done.\<close>

lemma runTurn_ok:
  assumes run: "runTurn env cfg req w = Some (out, w')" and mx: "0 < rc_MaxSteps cfg"
    and pre: "setupTurn env cfg req = Inr su"
    and sched: "H \<Longrightarrow> \<forall>stp calls w. legalSchedule (length calls) (en_sched env stp calls w)"
    and plain: "H \<Longrightarrow> recordsPlain (rc_StepStages cfg)"
  shows "turnOk H (rc_MaxSteps cfg) out w'"
proof -
  let ?chain = "stepChain (rc_Compactor cfg) (rc_Selector cfg) (rc_StepStages cfg) emitEv"
  let ?st = "\<lparr>ls_msgs = tq_History req, ls_added = [], ls_usage = zeroUsage, ls_byModel = [], ls_defaultName = []\<rparr>"
  obtain su' w2 w3 b where l: "runLoop env cfg ?chain su' (nat (rc_MaxSteps cfg)) 1 ?st w2 = Some (out, w3)"
    and w': "w' = (if b then w3\<lparr>wd_tree := None\<rparr> else w3)"
    using run pre by (auto simp: runTurn_def Let_def)
  have "turnOk H (rc_MaxSteps cfg) out w3"
    using mx sched plain recordsPlain_chain by (intro runLoop_ok [OF l]) (auto simp: loopInv_def)
  then show ?thesis by (auto simp: w' turnOk_def split: option.splits prod.splits)
qed

subsection \<open>A turn returns\<close>

text \<open>No call of the chain returns neither result nor error.\<close>

definition neverNil :: "'x runnerEnv \<Rightarrow> 'x runnerConfig \<Rightarrow> bool" where
  "neverNil env cfg \<longleftrightarrow>
     (\<forall>src. rc_Tools cfg = Some src \<longrightarrow>
        (\<forall>info w. fst (chainToolMiddleware (rc_ToolMiddleware cfg) (dispatchBase env src) info w) \<noteq> Inr None))"

lemma callTool_defined: "neverNil env cfg \<Longrightarrow> callTool env cfg stp call tools w \<noteq> None"
proof (cases "rc_Tools cfg")
  case (Some src)
  assume n: "neverNil env cfg"
  obtain r w' where r: "chainToolMiddleware (rc_ToolMiddleware cfg) (dispatchBase env src) (callInfoOf env stp call tools w) w = (r, w')"
    by fastforce
  have "r \<noteq> Inr None" using n Some r unfolding neverNil_def by (metis fst_conv)
  then show ?thesis using Some r by (auto simp: callTool_def split: sum.splits option.splits)
qed (simp add: callTool_def)

lemma runActs_defined: "neverNil env cfg \<Longrightarrow> runActs env cfg stp calls tools acts rs w \<noteq> None"
proof (induction env cfg stp calls tools acts rs w rule: runActs.induct)
  case (3 env cfg stp calls tools i acts rs w)
  then show ?case using callTool_defined [OF "3.prems", of stp "calls ! i" tools w] by (auto split: option.split)
qed auto

lemma toolPhase_defined: "neverNil env cfg \<Longrightarrow> toolPhase env cfg stp calls tools st w \<noteq> None"
proof -
  assume n: "neverNil env cfg"
  have "dispatch env cfg stp calls tools w \<noteq> None"
    using runActs_defined [OF n] by (auto simp: dispatch_def Let_def split: option.split)
  then show ?thesis by (auto simp: toolPhase_def)
qed

lemma modelPhase_defined: "neverNil env cfg \<Longrightarrow> modelPhase env cfg su stp view st w \<noteq> None"
proof -
  assume n: "neverNil env cfg"
  have "respond env cfg su stp view b resp s v \<noteq> None" for b resp s v
    using toolPhase_defined [OF n] by (auto simp: respond_def Let_def split: prod.split)
  moreover have "consumeStream (en_argsOf env) streamRecv stp s \<noteq> None" for s
    using consumeStream_list [of "en_argsOf env" stp s] by auto
  moreover have "(\<exists>b resp s v. respond env cfg su stp view b resp s v = None) \<or>
      (\<exists>s. consumeStream (en_argsOf env) streamRecv stp s = None)" if "modelPhase env cfg su stp view st w = None"
    using that unfolding modelPhase_def Let_def by (auto split: option.splits prod.splits sum.splits)
  ultimately show ?thesis by blast
qed

lemma runLoop_defined: "neverNil env cfg \<Longrightarrow> \<exists>r. runLoop env cfg chain su left stp st w = Some r"
proof (induction left arbitrary: stp st w)
  case (Suc left)
  have "runStep env cfg chain su stp st w \<noteq> None"
    using modelPhase_defined [OF Suc.prems] by (auto simp: runStep_def Let_def split: prod.split sum.split)
  then obtain o' where "runStep env cfg chain su stp st w = Some o'" by blast
  then show ?case using Suc.IH [OF Suc.prems] by (cases o') simp_all
qed simp

lemma newRunner_steps: "0 < rc_MaxSteps (newRunner cfg)"
  by (simp add: newRunner_def defaultMaxSteps_def)

subsection \<open>Properties of a turn\<close>

text \<open>
  C1: whatever order the concurrent tool calls of a step run in, the messages a turn reports, on success
  or with a partial result, form an answered conversation: every assistant message with tool calls is
  followed by exactly one tool message per call, in call order, with the call's id. Threading them after
  an answered history keeps it answered.
\<close>

theorem turn_record_answered:
  assumes "\<forall>stp calls v. legalSchedule (length calls) (en_sched env stp calls v)"
    and "recordsPlain (rc_StepStages cfg)" "0 < rc_MaxSteps cfg"
    and "runTurn env cfg req w = Some ((Some r, err), w')"
  shows "answered (res_Messages r) \<and> (answered (tq_History req) \<longrightarrow> answered (tq_History req @ res_Messages r))"
proof -
  obtain su where "setupTurn env cfg req = Inr su"
    using assms(4) by (auto simp: runTurn_def split: sum.splits)
  then have "turnOk True (rc_MaxSteps cfg) (Some r, err) w'"
    using assms(1,2) by (intro runTurn_ok [OF assms(4,3)])
  then have "answered (res_Messages r)" by (auto simp: turnOk_def resultOk_def split: option.splits)
  then show ?thesis using answered_append by blast
qed

text \<open>
  C19: the per-model usage a turn reports adds up to its total usage, on every kind of return, finalizing
  calls and continued turns included.
\<close>

theorem turn_usage_adds_up:
  assumes "0 < rc_MaxSteps cfg" "runTurn env cfg req w = Some ((Some r, err), w')" "res_UsageByModel r = Some m"
  shows "sumUsage m = res_Usage r"
proof -
  obtain su where "setupTurn env cfg req = Inr su"
    using assms(2) by (auto simp: runTurn_def split: sum.splits)
  then have "turnOk False (rc_MaxSteps cfg) (Some r, err) w'"
    by (rule runTurn_ok [OF assms(2,1)]) auto
  then show ?thesis using assms(3) by (auto simp: turnOk_def resultOk_def split: option.splits)
qed


subsection \<open>A concrete runner\<close>

text \<open>
  A model that asks for two tool calls and then answers, reporting usage each time, with the calls
  finishing in the opposite order; and a stage that names the model.
\<close>

definition exDelta :: "string \<Rightarrow> int \<Rightarrow> string \<Rightarrow> string \<Rightarrow> delta" where
  "exDelta k i cid name = \<lparr>d_Kind = k, d_Text = ''ok'', d_Index = i, d_ToolCallID = cid, d_ToolName = name,
     d_FinishReason = ''stop'', d_Usage = Some \<lparr>InputTokens = 3, OutputTokens = 2, CachedInputTokens = 1\<rparr>\<rparr>"

definition exProvider :: "(nat world, stream) provider" where
  "exProvider = \<lparr>pv_Stream = (\<lambda>_ w. (Inr \<lparr>st_deltas =
       (if wd_ext w = 0 then [exDelta DeltaToolCallStart 0 ''c1'' ''echo'', exDelta DeltaToolCallStart 1 ''c2'' ''echo'']
        else [exDelta DeltaText 0 [] []]) @ [exDelta DeltaUsage 0 [] []],
       st_end = ErrSentinel IoEOF\<rparr>, w\<lparr>wd_ext := Suc (wd_ext w)\<rparr>)),
     pv_Generate = (\<lambda>_ w. (Inl (ErrNew ''unused''), w))\<rparr>"

definition exSource :: "nat world toolSource" where
  "exSource = \<lparr>src_Tools = (\<lambda>_. Inr [plainDef ''echo'']), src_Call = (\<lambda>_ _ w. (Inr (Some (errorToolResult ''no'')), w))\<rparr>"

fun pairActs :: "nat \<Rightarrow> dispatchAct list" where
  "pairActs 0 = []"
| "pairActs (Suc n) = BeginCall n # FinishCall n # pairActs n"

definition exEnv :: "nat runnerEnv" where
  "exEnv = \<lparr>en_provider = (\<lambda>_. exProvider), en_caps = (\<lambda>_. \<lparr>cap_Guided = [], cap_Seed = False, cap_Temperature = False, cap_Penalties = []\<rparr>),
     en_argsOf = (\<lambda>s. s), en_decodeArgs = (\<lambda>_. Inr []), en_compile = (\<lambda>_. Inl (ErrNew ''unused'')), en_jsonValid = (\<lambda>_. True),
     en_scope = (\<lambda>w. \<lparr>sc_Path = [], sc_CallBudget = -1, sc_Tree = treeUsageOf (wd_tree w)\<rparr>),
     en_callErr = (\<lambda>_ _. False), en_ctxErr = (\<lambda>_. None), en_sched = (\<lambda>_ calls _. pairActs (length calls)), en_fresh = 0\<rparr>"

definition namingStage :: "(nat, nat world) stepStage" where
  "namingStage = \<lparr>sg_Name = ''name'', sg_Scope = ScopeRequest, sg_Run = (\<lambda>_ v w. (Inr (v\<lparr>sv_ProviderName := ''m''\<rparr>), w))\<rparr>"

definition exConfig :: "int \<Rightarrow> nat runnerConfig" where
  "exConfig n = \<lparr>rc_Provider = 0, rc_Tools = Some exSource, rc_Instructions = [], rc_InstructionsFunc = None, rc_MaxSteps = n,
     rc_TreeBudget = \<lparr>tb_MaxSteps = 0, tb_MaxTokens = 0\<rparr>, rc_Selector = None, rc_ToolMiddleware = [], rc_Generation = exGen,
     rc_Compactor = None, rc_StepStages = [namingStage], rc_Interruptible = False, rc_SignalPolicy = None, rc_PreemptGrant = None,
     rc_ResponseSchema = [], rc_ResponseGuided = None, rc_TurnEnd = []\<rparr>"

definition exRequest :: turnRequest where
  "exRequest = \<lparr>tq_History = [textMessage RoleUser ''hi''], tq_Generation = exGen, tq_ResponseSchema = [], tq_ResponseGuided = None\<rparr>"

definition exWorld :: "nat world" where
  "exWorld = \<lparr>wd_tree = None, wd_events = [], wd_sink = dispatchSink False None, wd_ext = 0\<rparr>"

lemma pairActs_sets: "FinishCall i \<in> set (pairActs n) \<longleftrightarrow> i < n" "BeginCall i \<in> set (pairActs n) \<longleftrightarrow> i < n"
  by (induction n) (auto simp: less_Suc_eq)

lemma pairActs_order: "i < n \<Longrightarrow> BeginCall i \<in> set (takeWhile (\<lambda>a. a \<noteq> FinishCall i) (pairActs n))"
  by (induction n) (auto simp: less_Suc_eq)

lemma pairActs_legal: "legalSchedule n (pairActs n)"
proof -
  have "distinct (pairActs n)" by (induction n) (auto simp: pairActs_sets)
  then show ?thesis by (simp add: legalSchedule_def pairActs_sets pairActs_order)
qed

lemma exEnv_sched: "\<forall>stp calls v. legalSchedule (length calls) (en_sched exEnv stp calls v)"
  by (simp add: exEnv_def pairActs_legal)

lemma exConfig_plain: "recordsPlain (rc_StepStages (exConfig n))"
  by (simp add: recordsPlain_def exConfig_def namingStage_def)

text \<open>What the properties look at in an outcome, for evaluation.\<close>

definition turnView :: "(turnOutcome \<times> nat world) option \<Rightarrow> ((int \<times> string list \<times> int \<times> bool) option \<times> bool) option" where
  "turnView = map_option (\<lambda>((r, e), w).
     (map_option (\<lambda>r. (res_Steps r, map m_ToolCallID (res_Messages r), InputTokens (res_Usage r), res_UsageByModel r \<noteq> None)) r,
      case e of None \<Rightarrow> False | Some e \<Rightarrow> errors_is e ErrMaxSteps))"

lemma turnView_SomeE:
  assumes "turnView x = Some (Some (s, ids, u, m), b)"
  obtains r e w' where "x = Some ((Some r, e), w')" "res_Steps r = s" "map m_ToolCallID (res_Messages r) = ids"
    "InputTokens (res_Usage r) = u" "res_UsageByModel r \<noteq> None \<longleftrightarrow> m"
    "(case e of None \<Rightarrow> \<not> b | Some e \<Rightarrow> errors_is e ErrMaxSteps = b)"
  using assms by (auto simp: turnView_def split: option.splits)

lemma exRun8:
  "turnView (runTurn exEnv (exConfig 8) exRequest exWorld) = Some (Some (2, [[], ''c1'', ''c2'', []], 6, True), False)"
  by code_simp

lemma exRun1:
  "turnView (runTurn exEnv (exConfig 1) exRequest exWorld) = Some (Some (1, [[], ''c1'', ''c2''], 3, True), True)"
  by code_simp

lemma exConfig_steps: "0 < n \<Longrightarrow> 0 < rc_MaxSteps (exConfig n)"
  by (simp add: exConfig_def)

theorem turn_record_answered_witness:
  "\<exists>r err w'. runTurn exEnv (exConfig 8) exRequest exWorld = Some ((Some r, err), w') \<and>
     map m_ToolCallID (res_Messages r) = [[], ''c1'', ''c2'', []] \<and> answered (res_Messages r)"
proof -
  obtain r e w' where r: "runTurn exEnv (exConfig 8) exRequest exWorld = Some ((Some r, e), w')"
    "map m_ToolCallID (res_Messages r) = [[], ''c1'', ''c2'', []]"
    by (rule turnView_SomeE [OF exRun8])
  have "answered (res_Messages r)"
    using turn_record_answered [OF exEnv_sched exConfig_plain exConfig_steps r(1)] by simp
  then show ?thesis using r by (intro exI [of _ r] exI [of _ e] exI [of _ w'] conjI)
qed

theorem turn_usage_adds_up_witness:
  "\<exists>r err w' m. runTurn exEnv (exConfig 8) exRequest exWorld = Some ((Some r, err), w') \<and>
     res_UsageByModel r = Some m \<and> sumUsage m = res_Usage r \<and> InputTokens (res_Usage r) = 6"
proof -
  obtain r e w' where r: "runTurn exEnv (exConfig 8) exRequest exWorld = Some ((Some r, e), w')"
    "InputTokens (res_Usage r) = 6" "res_UsageByModel r \<noteq> None \<longleftrightarrow> True"
    by (rule turnView_SomeE [OF exRun8])
  obtain m where m: "res_UsageByModel r = Some m" using r(3) by blast
  have "sumUsage m = res_Usage r" using turn_usage_adds_up [OF exConfig_steps r(1) m] by simp
  then show ?thesis using r(1,2) m by (intro exI [of _ r] exI [of _ e] exI [of _ w'] exI [of _ m] conjI)
qed


text \<open>
  A turn that runs out of steps returns a result beside the error: the messages and usage of the
  steps it took, with the maximum as its step count.
\<close>

lemma max_steps_returns_partial_result:
  "\<exists>r e w'. runTurn exEnv (exConfig 1) exRequest exWorld = Some ((Some r, Some e), w') \<and> errors_is e ErrMaxSteps \<and>
     res_Steps r = 1 \<and> map m_ToolCallID (res_Messages r) = [[], ''c1'', ''c2'']"
proof -
  obtain r e w' where r: "runTurn exEnv (exConfig 1) exRequest exWorld = Some ((Some r, e), w')" "res_Steps r = 1"
    "map m_ToolCallID (res_Messages r) = [[], ''c1'', ''c2'']"
    "(case e of None \<Rightarrow> \<not> True | Some e \<Rightarrow> errors_is e ErrMaxSteps = True)"
    by (rule turnView_SomeE [OF exRun1])
  then obtain e' where "e = Some e'" "errors_is e' ErrMaxSteps" by (cases e) auto
  then show ?thesis using r(1-3) by (intro exI [of _ r] exI [of _ e'] exI [of _ w'] conjI) simp_all
qed

end
