(* ===== verification/BoundedStore.thy ===== *)
theory BoundedStore
  imports ToolSources
begin

text \<open>
  The in-memory tool-result store (\<^verbatim>\<open>src/toolresultstore.go\<close>) and what it shares with the memory
  store: a map bounded by evicting the key that was inserted first. The order is a linked list in the
  code and a list of keys here; \<^verbatim>\<open>elems\<close>, the handles into that list, holds a key exactly when the
  list does and is not kept apart. The locale \<open>fifo_store\<close> states the contract both stores meet.
\<close>

subsection \<open>Eviction\<close>

text \<open>The loop that pops the front while the list is longer than the bound.\<close>

fun evictOldest :: "int \<Rightarrow> string list \<Rightarrow> (string \<rightharpoonup> 'v) \<Rightarrow> string list \<times> (string \<rightharpoonup> 'v)" where
  "evictOldest mx [] items = ([], items)"
| "evictOldest mx (k # ks) items =
     (if int (length (k # ks)) > mx then evictOldest mx ks (items(k := None)) else (k # ks, items))"

lemma evictOldest_fst: "0 \<le> mx \<Longrightarrow> fst (evictOldest mx ks items) = drop (length ks - nat mx) ks"
  by (induction mx ks items rule: evictOldest.induct) (auto simp: Suc_diff_le nat_le_iff)

lemma evictOldest_snd:
  "0 \<le> mx \<Longrightarrow> distinct ks \<Longrightarrow>
   snd (evictOldest mx ks items) = items |` (- set (take (length ks - nat mx) ks))"
proof (induction mx ks items rule: evictOldest.induct)
  case (2 mx k ks items)
  show ?case
  proof (cases "int (length (k # ks)) > mx")
    case True
    then have "length (k # ks) - nat mx = Suc (length ks - nat mx)" using "2.prems" by (simp; linarith)
    moreover have "snd (evictOldest mx ks (items(k := None)))
        = (items(k := None)) |` (- set (take (length ks - nat mx) ks))"
      by (rule "2.IH") (use "2.prems" True in auto)
    ultimately show ?thesis using True
      by (simp add: restrict_map_def fun_eq_iff)
  next
    case False
    then show ?thesis by (simp add: restrict_map_def)
  qed
qed (simp add: restrict_map_def)

subsection \<open>The contract of a bounded store\<close>

definition lastN :: "nat option \<Rightarrow> 'a list \<Rightarrow> 'a list" where
  "lastN c xs = (case c of None \<Rightarrow> xs | Some n \<Rightarrow> drop (length xs - n) xs)"

text \<open>The specification: an association list in insertion order that keeps its newest entries.\<close>

definition fifoPut :: "nat option \<Rightarrow> string \<Rightarrow> 'v \<Rightarrow> (string \<times> 'v) list \<Rightarrow> (string \<times> 'v) list" where
  "fifoPut c k v xs =
     (if k \<in> fst ` set xs then map (\<lambda>(a, b). (a, if a = k then v else b)) xs else lastN c (xs @ [(k, v)]))"

lemma lastN_map: "lastN c (map f xs) = map f (lastN c xs)"
  by (simp add: lastN_def drop_map split: option.split)

lemma set_lastN: "set (lastN c xs) \<subseteq> set xs"
  by (auto simp: lastN_def dest: in_set_dropD split: option.splits)

lemma distinct_lastN: "distinct xs \<Longrightarrow> distinct (lastN c xs)"
  by (simp add: lastN_def split: option.split)

lemma length_lastN: "length (lastN (Some n) xs) \<le> n"
  by (simp add: lastN_def)

lemma lastN_snoc_mem: "c \<noteq> Some 0 \<Longrightarrow> x \<in> set (lastN c (xs @ [x]))"
  by (cases c) (auto simp: lastN_def)

lemma lastN_keeps: "length bs < n \<Longrightarrow> \<exists>as'. lastN (Some n) (as @ x # bs) = as' @ x # bs"
  by (auto simp: lastN_def)

locale fifo_store =
  fixes inv :: "'s \<Rightarrow> bool"
    and cap :: "'s \<Rightarrow> nat option"
    and keys :: "'s \<Rightarrow> string list"
    and look :: "'s \<Rightarrow> string \<Rightarrow> 'v option"
    and put :: "string \<Rightarrow> 'v \<Rightarrow> 's \<Rightarrow> 's"
  assumes distinct_keys: "inv s \<Longrightarrow> distinct (keys s)"
    and set_keys: "inv s \<Longrightarrow> set (keys s) = dom (look s)"
    and cap_pos: "inv s \<Longrightarrow> cap s \<noteq> Some 0"
    and put_inv: "inv s \<Longrightarrow> inv (put k v s)"
    and put_cap: "inv s \<Longrightarrow> cap (put k v s) = cap s"
    and put_old: "inv s \<Longrightarrow> look s k = Some u \<Longrightarrow>
      keys (put k v s) = keys s \<and> look (put k v s) = (look s)(k \<mapsto> v)"
    and put_new: "inv s \<Longrightarrow> look s k = None \<Longrightarrow>
      keys (put k v s) = lastN (cap s) (keys s @ [k]) \<and>
      look (put k v s) = ((look s)(k \<mapsto> v)) |` set (keys (put k v s))"
begin

definition entries :: "'s \<Rightarrow> (string \<times> 'v) list" where
  "entries s = map (\<lambda>k. (k, the (look s k))) (keys s)"

lemma get_put: "inv s \<Longrightarrow> look (put k v s) k = Some v"
  using put_old [of s k _ v] put_new [of s k v] lastN_snoc_mem [OF cap_pos]
  by (cases "look s k") (auto simp: restrict_map_def)

lemma get_put_other: "inv s \<Longrightarrow> j \<noteq> k \<Longrightarrow> look (put k v s) j = look s j \<or> look (put k v s) j = None"
  using put_old [of s k _ v] put_new [of s k v]
  by (cases "look s k") (auto simp: restrict_map_def)

text \<open>Putting refines the specification.\<close>

lemma entries_put:
  assumes "inv s"
  shows "entries (put k v s) = fifoPut (cap s) k v (entries s)"
proof (cases "look s k")
  case None
  then have "k \<notin> set (keys s)" using set_keys [OF assms] by auto
  moreover have "entries (put k v s)
    = map (\<lambda>j. (j, the (((look s)(k \<mapsto> v)) j))) (lastN (cap s) (keys s @ [k]))"
    using put_new [OF assms None, of v] by (simp add: entries_def)
  ultimately show ?thesis
    by (auto simp: fifoPut_def entries_def lastN_map [symmetric] image_image intro!: arg_cong [of _ _ "lastN (cap s)"])
next
  case (Some u)
  then have "k \<in> set (keys s)" using set_keys [OF assms] by auto
  with put_old [OF assms Some, of v] show ?thesis
    by (auto simp: fifoPut_def entries_def image_image)
qed

lemma puts_entries:
  assumes "inv s"
  shows "entries (fold (\<lambda>(j, v). put j v) ps s) = fold (\<lambda>(j, v). fifoPut (cap s) j v) ps (entries s)"
  using assms
proof (induction ps arbitrary: s)
  case (Cons p ps)
  then show ?case by (cases p) (simp add: put_inv put_cap entries_put)
qed (simp add: entries_def)

lemma look_entries:
  assumes "inv s"
  shows "map_of (entries s) k = look s k"
proof -
  have "map_of (map (\<lambda>k. (k, the (look s k))) ks) k = (if k \<in> set ks then Some (the (look s k)) else None)" for ks
    by (induction ks) auto
  then show ?thesis using set_keys [OF assms] by (auto simp: entries_def dom_def)
qed

text \<open>A key with few keys behind it outlives the next puts.\<close>

lemma put_keeps:
  assumes "inv s" "cap s = Some n" "keys s = as @ k # bs" "Suc (length bs) < n"
  shows "\<exists>as' bs'. keys (put j v s) = as' @ k # bs' \<and> length bs' \<le> Suc (length bs)"
proof (cases "look s j")
  case None
  obtain as' where "lastN (Some n) (as @ k # bs @ [j]) = as' @ k # bs @ [j]"
    using lastN_keeps [of "bs @ [j]" n as k] assms(4) by auto
  then have "keys (put j v s) = as' @ k # bs @ [j]"
    using put_new [OF assms(1) None, of v] assms(2,3) by simp
  then show ?thesis
    by (intro exI [of _ as'] exI [of _ "bs @ [j]"]) simp
next
  case (Some u)
  with put_old [OF assms(1) Some, of v] assms(3) show ?thesis
    by (intro exI [of _ as] exI [of _ bs]) simp
qed

lemma puts_keep:
  assumes "inv s" "cap s = Some n" "keys s = as @ k # bs" "length bs + length ps < n"
  shows "look (fold (\<lambda>(j, v). put j v) ps s) k \<noteq> None"
  using assms
proof (induction ps arbitrary: s as bs)
  case Nil
  then show ?case using set_keys [OF Nil.prems(1)] by auto
next
  case (Cons p ps)
  obtain j v where p: "p = (j, v)" by (cases p)
  from put_keeps [OF Cons.prems(1-3), of j v] Cons.prems(4)
  obtain as' bs' where "keys (put j v s) = as' @ k # bs'" "length bs' \<le> Suc (length bs)" by auto
  with Cons.IH [OF put_inv [OF Cons.prems(1)], of j v as' bs'] put_cap [OF Cons.prems(1)] Cons.prems(2,4) p
  show ?case by simp
qed

lemma puts_inv: "inv s \<Longrightarrow> inv (fold (\<lambda>(j, v). put j v) ps s)"
  by (induction ps arbitrary: s) (auto simp: put_inv)

lemma puts_value:
  assumes "inv s" "look s k = Some v" "k \<notin> fst ` set ps"
  shows "look (fold (\<lambda>(j, v). put j v) ps s) k \<in> {Some v, None}"
proof -
  have "look s k \<in> {Some v, None} \<Longrightarrow> ?thesis"
    using assms(1,3)
  proof (induction ps arbitrary: s)
    case (Cons p ps)
    then have "look (put (fst p) (snd p) s) k \<in> {Some v, None}"
      using get_put_other [OF Cons.prems(2), of k "fst p" "snd p"] by auto
    with Cons.IH [OF this put_inv] Cons.prems show ?case by (auto simp: split_beta)
  qed simp
  with assms(2) show ?thesis by simp
qed

text \<open>A value just put stays readable through fewer than \<open>n\<close> puts of other keys.\<close>

lemma just_put_survives:
  assumes "inv s" "cap s = Some n" "look s k = None" "k \<notin> fst ` set ps" "length ps < n"
  shows "look (fold (\<lambda>(j, v). put j v) ps (put k v s)) k = Some v"
proof -
  obtain as where as: "lastN (Some n) (keys s @ k # []) = as @ k # []"
    using lastN_keeps [of "[]" n "keys s" k] assms(5) by auto
  then have "keys (put k v s) = as @ k # []"
    using put_new [OF assms(1,3), of v] assms(2) by simp
  from puts_keep [OF put_inv [OF assms(1)] _ this, of n ps] put_cap [OF assms(1)] assms(2,5)
  have "look (fold (\<lambda>(j, v). put j v) ps (put k v s)) k \<noteq> None" by simp
  with puts_value [OF put_inv [OF assms(1)] get_put [OF assms(1), of k v] assms(4)] show ?thesis by auto
qed

end

subsection \<open>The in-memory tool-result store\<close>

record inMemoryToolResultStore =
  irs_results :: "string \<rightharpoonup> toolResult"
  irs_order :: "string list option"
  irs_maxEntries :: int

definition withMaxToolResults :: "int \<Rightarrow> inMemoryToolResultStore \<Rightarrow> inMemoryToolResultStore" where
  "withMaxToolResults n s = (if n > 0 then s\<lparr>irs_maxEntries := n, irs_order := Some []\<rparr> else s)"

definition newInMemoryToolResultStore ::
  "(inMemoryToolResultStore \<Rightarrow> inMemoryToolResultStore) list \<Rightarrow> inMemoryToolResultStore" where
  "newInMemoryToolResultStore opts =
     foldl (\<lambda>s opt. opt s) \<lparr>irs_results = Map.empty, irs_order = None, irs_maxEntries = 0\<rparr> opts"

definition putToolResult :: "string \<Rightarrow> toolResult \<Rightarrow> inMemoryToolResultStore \<Rightarrow> inMemoryToolResultStore" where
  "putToolResult ref res s =
     (let s1 = (case (irs_results s ref, irs_order s) of
                  (None, Some ks) \<Rightarrow>
                    (case evictOldest (irs_maxEntries s) (ks @ [ref]) (irs_results s) of
                       (ks', items) \<Rightarrow> s\<lparr>irs_order := Some ks', irs_results := items\<rparr>)
                | _ \<Rightarrow> s)
      in s1\<lparr>irs_results := (irs_results s1)(ref \<mapsto> res)\<rparr>)"

definition getToolResult :: "string \<Rightarrow> inMemoryToolResultStore \<Rightarrow> toolResult option" where
  "getToolResult ref s = irs_results s ref"

text \<open>The invariant of a bounded store.\<close>

definition irsInv :: "inMemoryToolResultStore \<Rightarrow> bool" where
  "irsInv s \<longleftrightarrow>
     (case irs_order s of
        None \<Rightarrow> False
      | Some ks \<Rightarrow> 0 < irs_maxEntries s \<and> distinct ks \<and> set ks = dom (irs_results s))"

lemma irsInv_new: "0 < n \<Longrightarrow> irsInv (newInMemoryToolResultStore [withMaxToolResults n])"
  by (simp add: irsInv_def newInMemoryToolResultStore_def withMaxToolResults_def)

lemma restrict_insert_dom: "m(k \<mapsto> v) = (m(k \<mapsto> v)) |` (insert k (dom m))"
  by (auto simp: restrict_map_def fun_eq_iff)

lemma restrict_upd_last:
  assumes "distinct (as @ bs)" "k \<in> set bs" "dom m \<subseteq> set as \<union> set bs"
  shows "(m |` (- set as))(k \<mapsto> v) = (m(k \<mapsto> v)) |` set bs"
  using assms by (auto simp: restrict_map_def fun_eq_iff)

text \<open>What one bounded insertion does, in the shape both stores use it.\<close>

lemma evict_insert:
  assumes "0 < mx" "distinct ks" "set ks = dom items" "items k = None"
    and "evictOldest mx (ks @ [k]) items = (ks', items')"
  shows "ks' = lastN (Some (nat mx)) (ks @ [k])"
    and "items'(k \<mapsto> v) = (items(k \<mapsto> v)) |` set ks'"
    and "set ks' = dom (items'(k \<mapsto> v))"
proof -
  let ?n = "length (ks @ [k]) - nat mx"
  show ks': "ks' = lastN (Some (nat mx)) (ks @ [k])"
    using evictOldest_fst [of mx "ks @ [k]" items] assms(1,5) by (simp add: lastN_def)
  have k: "k \<notin> set ks" using assms(3,4) by auto
  have d: "distinct (take ?n (ks @ [k]) @ drop ?n (ks @ [k]))"
    unfolding append_take_drop_id using assms(2) k by simp
  have kin: "k \<in> set ks'" unfolding ks' using assms(1) by (intro lastN_snoc_mem) simp
  have items': "items' = items |` (- set (take ?n (ks @ [k])))"
    using evictOldest_snd [of mx "ks @ [k]" items] assms(1,2,5) k by simp
  have "dom items \<subseteq> set (take ?n (ks @ [k])) \<union> set (drop ?n (ks @ [k]))"
    using assms(3) by (metis append_take_drop_id set_append Un_upper1)
  from restrict_upd_last [OF d _ this, of k v] kin
  show eq: "items'(k \<mapsto> v) = (items(k \<mapsto> v)) |` set ks'"
    unfolding items' ks' by (simp add: lastN_def)
  show "set ks' = dom (items'(k \<mapsto> v))"
    unfolding eq using set_lastN [of "Some (nat mx)" "ks @ [k]"] assms(3) by (auto simp: ks')
qed

lemma put_fresh:
  assumes "irsInv s" "irs_results s k = None" "irs_order s = Some ks"
  obtains ks' items' where
    "evictOldest (irs_maxEntries s) (ks @ [k]) (irs_results s) = (ks', items')"
    "putToolResult k v s = s\<lparr>irs_order := Some ks', irs_results := items'(k \<mapsto> v)\<rparr>"
  using assms by (cases "evictOldest (irs_maxEntries s) (ks @ [k]) (irs_results s)")
    (auto simp: putToolResult_def)

lemma put_known: "irs_results s k = Some u \<Longrightarrow>
    putToolResult k v s = s\<lparr>irs_results := (irs_results s)(k \<mapsto> v)\<rparr>"
  by (simp add: putToolResult_def)

interpretation results: fifo_store irsInv "\<lambda>s. Some (nat (irs_maxEntries s))"
    "\<lambda>s. the (irs_order s)" "\<lambda>s k. getToolResult k s" putToolResult
proof
  fix s k v u
  assume inv: "irsInv s"
  then obtain ks where ks: "irs_order s = Some ks" "0 < irs_maxEntries s" "distinct ks" "set ks = dom (irs_results s)"
    by (auto simp: irsInv_def split: option.splits)
  show "distinct (the (irs_order s))" "set (the (irs_order s)) = dom (\<lambda>k. getToolResult k s)"
    "Some (nat (irs_maxEntries s)) \<noteq> Some 0"
    using ks by (simp_all add: getToolResult_def)
  have new: "irsInv (putToolResult k v s) \<and> irs_maxEntries (putToolResult k v s) = irs_maxEntries s \<and>
      the (irs_order (putToolResult k v s)) = lastN (Some (nat (irs_maxEntries s))) (ks @ [k]) \<and>
      irs_results (putToolResult k v s)
        = ((irs_results s)(k \<mapsto> v)) |` set (the (irs_order (putToolResult k v s)))"
    if none: "irs_results s k = None"
  proof -
    from put_fresh [OF inv none ks(1)] obtain ks' items' where
      ev: "evictOldest (irs_maxEntries s) (ks @ [k]) (irs_results s) = (ks', items')"
      and put: "putToolResult k v s = s\<lparr>irs_order := Some ks', irs_results := items'(k \<mapsto> v)\<rparr>" .
    have "k \<notin> set ks" using ks(4) none by auto
    then have "distinct ks'"
      unfolding evict_insert(1) [OF ks(2-4) none ev] using ks(3) by (intro distinct_lastN) simp
    with evict_insert(1) [OF ks(2-4) none ev] evict_insert(2,3) [OF ks(2-4) none ev, of v] ks(2) show ?thesis
      by (simp add: put irsInv_def)
  qed
  have old: "putToolResult k v s = s\<lparr>irs_results := (irs_results s)(k \<mapsto> v)\<rparr>"
    if "irs_results s k = Some u" for u
    using that by (rule put_known)
  show "irsInv (putToolResult k v s)"
  proof (cases "irs_results s k")
    case (Some u)
    then show ?thesis using ks by (auto simp: old irsInv_def insert_absorb domI)
  qed (use new in simp)
  show "Some (nat (irs_maxEntries (putToolResult k v s))) = Some (nat (irs_maxEntries s))"
  proof (cases "irs_results s k")
    case (Some u)
    then show ?thesis by (simp add: old)
  qed (use new in simp)
  show "getToolResult k s = Some u \<Longrightarrow> the (irs_order (putToolResult k v s)) = the (irs_order s) \<and>
      (\<lambda>j. getToolResult j (putToolResult k v s)) = (\<lambda>j. getToolResult j s)(k \<mapsto> v)"
    by (auto simp: old getToolResult_def)
  show "getToolResult k s = None \<Longrightarrow>
      the (irs_order (putToolResult k v s)) = lastN (Some (nat (irs_maxEntries s))) (the (irs_order s) @ [k]) \<and>
      (\<lambda>j. getToolResult j (putToolResult k v s))
        = ((\<lambda>j. getToolResult j s)(k \<mapsto> v)) |` set (the (irs_order (putToolResult k v s)))"
    using new ks(1) by (simp add: getToolResult_def)
qed

definition resultEntries :: "inMemoryToolResultStore \<Rightarrow> (string \<times> toolResult) list" where
  "resultEntries s = map (\<lambda>k. (k, the (getToolResult k s))) (the (irs_order s))"

lemma length_fifo: "length xs \<le> Suc m \<Longrightarrow> length (fold (\<lambda>(k, v). fifoPut (Some (Suc m)) k v) ps xs) \<le> Suc m"
  by (induction ps arbitrary: xs) (auto simp: fifoPut_def lastN_def)

text \<open>
  The bounded tool-result store is a queue of its newest results. After any puts into a store bounded
  by \<open>m + 1\<close> entries, the store holds exactly what the specification holds: putting a known reference
  replaces its result in place, putting a new one appends it and drops the oldest, and a lookup finds
  exactly the entries held.
\<close>

lemma result_store_keeps_newest:
  "let s = fold (\<lambda>(k, v). putToolResult k v) ps (newInMemoryToolResultStore [withMaxToolResults (int (Suc m))])
   in resultEntries s = fold (\<lambda>(k, v). fifoPut (Some (Suc m)) k v) ps [] \<and>
      (\<forall>k. getToolResult k s = map_of (resultEntries s) k) \<and> length (resultEntries s) \<le> Suc m"
proof -
  let ?s0 = "newInMemoryToolResultStore [withMaxToolResults (int (Suc m))]"
  have inv: "irsInv ?s0" by (rule irsInv_new) simp
  have s0: "nat (irs_maxEntries ?s0) = Suc m" "the (irs_order ?s0) = []"
    by (simp_all add: newInMemoryToolResultStore_def withMaxToolResults_def)
  have re: "results.entries = resultEntries" by (simp add: fun_eq_iff results.entries_def resultEntries_def)
  have e0: "resultEntries ?s0 = []" unfolding resultEntries_def s0 by simp
  from results.puts_entries [OF inv, of ps]
  have "resultEntries (fold (\<lambda>(k, v). putToolResult k v) ps ?s0)
      = fold (\<lambda>(k, v). fifoPut (Some (Suc m)) k v) ps []"
    by (simp only: re s0 e0)
  moreover have "map_of (resultEntries (fold (\<lambda>(k, v). putToolResult k v) ps ?s0)) k
      = getToolResult k (fold (\<lambda>(k, v). putToolResult k v) ps ?s0)" for k
    using results.look_entries [OF results.puts_inv [OF inv]] by (simp add: re)
  ultimately show ?thesis
    using length_fifo [of "[]" m ps] by (simp add: Let_def)
qed

text \<open>
  A stored result is not evicted early: in a store bounded by \<open>n\<close> entries a result put under a new
  reference is still found, unchanged, after fewer than \<open>n\<close> puts of other references.
\<close>

lemma stored_result_not_evicted_early:
  assumes "irsInv s" "getToolResult ref s = None" "ref \<notin> fst ` set ps" "length ps < nat (irs_maxEntries s)"
  shows "getToolResult ref (fold (\<lambda>(k, v). putToolResult k v) ps (putToolResult ref res s)) = Some res"
  using results.just_put_survives [OF assms(1) _ assms(2-4)] by simp

end
