(* ===== verification/Offloading.thy ===== *)
theory Offloading
  imports BoundedStore
begin

text \<open>
  Offloading of large tool results (\<^verbatim>\<open>src/offloading_source.go\<close>): a result over a threshold is stored
  under a reference to its content and replaced by a stub; \<^verbatim>\<open>read_tool_result\<close> reads it back by window
  or by pattern. The store is the \<^verbatim>\<open>ToolResultStore\<close> interface, a record of operations on the world;
  \<open>sha\<close> is SHA-256, \<open>compile\<close> is \<^verbatim>\<open>regexp.Compile\<close> followed by \<^verbatim>\<open>MatchString\<close>, and \<open>decode\<close> the
  conversion of the arguments. \<open>None\<close> is a panic: nothing in the repository recovers from one.
\<close>

subsection \<open>The store interface\<close>

record 'w toolResultStore =
  trs_Put :: "string \<Rightarrow> toolResult \<Rightarrow> 'w \<Rightarrow> goerr option \<times> 'w"
  trs_Get :: "string \<Rightarrow> 'w \<Rightarrow> (goerr + toolResult option) \<times> 'w"

definition inMemoryStore :: "inMemoryToolResultStore toolResultStore" where
  "inMemoryStore = \<lparr>trs_Put = (\<lambda>ref res s. (None, putToolResult ref res s)),
                    trs_Get = (\<lambda>ref s. (Inr (getToolResult ref s), s))\<rparr>"

subsection \<open>Configuration and stubs\<close>

abbreviation "ReadToolResultName \<equiv> ''read_tool_result''"
abbreviation "defaultOffloadThreshold \<equiv> 4096 :: int"
abbreviation "defaultOffloadPreview \<equiv> 400 :: int"
abbreviation "defaultReadLimit \<equiv> 4000 :: int"
abbreviation "defaultGrepMaxLines \<equiv> 200 :: int"

record offloadConfig =
  oc_Threshold :: int
  oc_PreviewLen :: int
  oc_PerToolThreshold :: "string \<rightharpoonup> int"

record 'w offloadingSource =
  os_src :: "'w toolSource"
  os_store :: "'w toolResultStore"
  os_cfg :: offloadConfig

definition newOffloadingSource ::
  "'w toolSource \<Rightarrow> 'w toolResultStore option \<Rightarrow> offloadConfig \<Rightarrow> 'w offloadingSource option" where
  "newOffloadingSource src store cfg =
     map_option (\<lambda>st.
       \<lparr>os_src = src, os_store = st,
        os_cfg = cfg\<lparr>oc_Threshold := (if oc_Threshold cfg = 0 then defaultOffloadThreshold else oc_Threshold cfg),
                     oc_PreviewLen := (if oc_PreviewLen cfg = 0 then defaultOffloadPreview else oc_PreviewLen cfg)\<rparr>\<rparr>)
       store"

definition contentRef :: "(string \<Rightarrow> string) \<Rightarrow> string \<Rightarrow> string" where
  "contentRef sha body = ''res:'' @ hexEncode (take 6 (sha body))"

definition stub :: "offloadConfig \<Rightarrow> string \<Rightarrow> string \<Rightarrow> bool \<Rightarrow> string option" where
  "stub cfg ref body seen =
     (if seen then
        Some (render_fmt
          (''[tool result %dB, stored as %s]'' @ [newline] @
           ''This is identical to an earlier result stored under the same ref. If you already read it in this conversation, nothing has changed and you don't need to read it again. Otherwise call %s(ref=%q) ''
           @ emDash @ '' add offset+limit for a window, or pattern to grep.'')
          [itoa (int (length body)), ref, ReadToolResultName, ref] [])
      else
        (let truncated = int (length body) > oc_PreviewLen cfg
         in map_option (\<lambda>preview.
              render_fmt
                (''[tool result %dB, stored as %s]'' @ [newline] @ ''preview: %s%s'' @ [newline] @
                 ''call %s(ref=%q) for the full output '' @ emDash @
                 '' add offset+limit for a window, or pattern to grep (with context=N for the lines around each match).'')
                [itoa (int (length body)), ref, preview, if truncated then ellipsis else [], ReadToolResultName, ref] [])
              (if truncated then goSlice body 0 (oc_PreviewLen cfg) else Some body)))"

definition maybeOffload ::
  "(string \<Rightarrow> string) \<Rightarrow> 'w toolResultStore \<Rightarrow> offloadConfig \<Rightarrow> string \<Rightarrow> toolResult \<Rightarrow> 'w \<Rightarrow>
   (callResult \<times> 'w) option" where
  "maybeOffload sha store cfg name res w =
     (let inline = Some (Inr (Some res), w);
          over = (\<lambda>threshold.
            let body = toolResultText res in
            if int (length body) < threshold then inline
            else
              let ref = contentRef sha body;
                  (got, w1) = trs_Get store ref w;
                  seen = (case got of Inr (Some _) \<Rightarrow> True | _ \<Rightarrow> False)
              in case (if seen then (None, w1) else trs_Put store ref res w1) of
                   (Some e, w2) \<Rightarrow> Some (Inl (Errorf ''agent: offloading %q result: %w'' [name] (Some e)), w2)
                 | (None, w2) \<Rightarrow>
                     map_option (\<lambda>st. (Inr (Some \<lparr>tr_Content = [\<lparr>ct_Type = ''text'', ct_Text = st\<rparr>],
                                                   tr_StructuredContent = None, tr_IsError = False\<rparr>), w2))
                       (stub cfg ref body seen))
      in if tr_IsError res then inline
         else case oc_PerToolThreshold cfg name of
                Some t \<Rightarrow> if t \<le> 0 then inline else over t
              | None \<Rightarrow> over (oc_Threshold cfg))"

subsection \<open>Reading back\<close>

record readToolResultArgs =
  ra_Ref :: string
  ra_Offset :: int
  ra_Limit :: int
  ra_Pattern :: string
  ra_Context :: int

text \<open>
  \<^verbatim>\<open>grepLines\<close> in the order of the code: the numbers of the matching lines, the window of each hit
  merged into the last span when it touches it, the blocks that fit the limit, and the note on the rest.
  The end of a window is a 64-bit sum.
\<close>

definition grepHits :: "(string \<Rightarrow> bool) \<Rightarrow> string list \<Rightarrow> int list" where
  "grepHits re lines = map int (filter (\<lambda>i. re (lines ! i)) [0..<length lines])"

definition hitSpan :: "int \<Rightarrow> int \<Rightarrow> int \<Rightarrow> int \<times> int" where
  "hitSpan n ctx h = (max 0 (wrap64 (h - ctx)), min n (wrap64 (wrap64 (h + ctx) + 1)))"

text \<open>\<^verbatim>\<open>spans\<close> is built with the last span first.\<close>

definition addSpan :: "int \<times> int \<Rightarrow> (int \<times> int) list \<Rightarrow> (int \<times> int) list" where
  "addSpan s spans =
     (case spans of
        (a, b) # rest \<Rightarrow> if fst s \<le> b then (a, if snd s > b then snd s else b) # rest else s # spans
      | [] \<Rightarrow> [s])"

definition mergeSpans :: "int \<Rightarrow> int \<Rightarrow> int list \<Rightarrow> (int \<times> int) list" where
  "mergeSpans n ctx hits = rev (fold (\<lambda>h. addSpan (hitSpan n ctx h)) hits [])"

text \<open>
  The loop over the spans: it returns the lines collected and the spans not shown. The counters
  stay within the sum of the span lengths and the limit, so only the slice can panic.
\<close>

fun showBlocks ::
  "string list \<Rightarrow> int \<Rightarrow> (int \<times> int) list \<Rightarrow> int \<Rightarrow> bool \<Rightarrow> string list \<Rightarrow>
   (string list \<times> (int \<times> int) list) option" where
  "showBlocks lines limit [] shown later out = Some (out, [])"
| "showBlocks lines limit ((a, b) # spans) shown later out =
     (if shown + (b - a) > limit then Some (out, (a, b) # spans)
      else case goSlice lines a b of
             None \<Rightarrow> None
           | Some ls \<Rightarrow>
               showBlocks lines limit spans (shown + (b - a)) True (out @ (if later then [''--''] else []) @ ls))"

definition grepLines ::
  "string list \<Rightarrow> (string \<Rightarrow> bool) \<Rightarrow> int \<Rightarrow> int \<Rightarrow> string \<Rightarrow> string \<Rightarrow> string option" where
  "grepLines lines re ctx0 limit0 ref pattern =
     (let ctx = (if ctx0 < 0 then 0 else ctx0);
          limit = (if limit0 \<le> 0 then defaultGrepMaxLines else limit0);
          hits = grepHits re lines
      in if hits = [] then Some (render_fmt ''no lines in %s match %q.'' [ref, pattern] [])
         else map_option (\<lambda>(out, rest).
                strJoin
                  (out @ (if rest = [] then []
                          else [render_fmt
                                  (ellipsis @ '' %d more matching line(s) in %d more block(s) not shown (limit %d); narrow the pattern or raise limit.'')
                                  [itoa (sum_list (map (\<lambda>(a, b). b - a) rest)), itoa (int (length rest)), itoa limit] []]))
                  [newline])
              (showBlocks lines limit (mergeSpans (int (length lines)) ctx hits) 0 False []))"

definition readWindow :: "string \<Rightarrow> string \<Rightarrow> int \<Rightarrow> int \<Rightarrow> string option" where
  "readWindow ref body offset0 limit0 =
     (let n = int (length body);
          offset = (if offset0 < 0 then 0 else offset0)
      in if offset \<ge> n then
           Some (render_fmt ''offset %d is past the end of %s (%d chars).'' [itoa offset, ref, itoa n] [])
         else
           (let limit = (if limit0 \<le> 0 then defaultReadLimit else limit0);
                sum = wrap64 (offset + limit);
                e = (if sum > n then n else sum)
            in map_option (\<lambda>win.
                 if e < n
                 then win @ [newline] @ render_fmt (ellipsis @ '' (%d more chars; call again with offset=%d)'')
                                          [itoa (n - e), itoa e] []
                 else win)
               (goSlice body offset e)))"

definition readToolResult ::
  "(string \<Rightarrow> goerr + (string \<Rightarrow> bool)) \<Rightarrow> 'w toolResultStore \<Rightarrow> readToolResultArgs \<Rightarrow> 'w \<Rightarrow>
   ((goerr + string) \<times> 'w) option" where
  "readToolResult compile store rq w =
     (case trs_Get store (ra_Ref rq) w of
        (Inl e, w1) \<Rightarrow> Some (Inl (Errorf ''reading tool result %q: %w'' [ra_Ref rq] (Some e)), w1)
      | (Inr None, w1) \<Rightarrow>
          Some (Inr (render_fmt ''tool result %q is no longer available (expired or evicted); re-run the tool if you still need it.''
                       [ra_Ref rq] []), w1)
      | (Inr (Some res), w1) \<Rightarrow>
          (let body = toolResultText res
           in if ra_Pattern rq \<noteq> [] then
                (case compile (ra_Pattern rq) of
                   Inl e \<Rightarrow> Some (Inl (Errorf ''invalid pattern %q: %w'' [ra_Pattern rq] (Some e)), w1)
                 | Inr re \<Rightarrow>
                     map_option (\<lambda>out. (Inr out, w1))
                       (grepLines (strSplit newline body) re (ra_Context rq) (ra_Limit rq) (ra_Ref rq) (ra_Pattern rq)))
              else map_option (\<lambda>out. (Inr out, w1)) (readWindow (ra_Ref rq) body (ra_Offset rq) (ra_Limit rq))))"

subsection \<open>The source\<close>

definition readToolDef :: toolDef where
  "readToolDef = \<lparr>td_Name = ReadToolResultName,
     td_Description = ''Fetch a previously offloaded tool result by its ref. Give offset+limit for a character window, or pattern (a regular expression) to return only matching lines. With pattern, add context=N to also get N lines either side of each match, which is how you see why something failed rather than only that it did. Refs appear in tool-result stubs like [tool result 52KB, stored as res:ab12].'',
     td_Annotations = [(''readOnlyHint'', ABool True)]\<rparr>"

definition offloadTools :: "'w offloadingSource \<Rightarrow> 'w \<Rightarrow> goerr + toolDef list" where
  "offloadTools off w =
     (case src_Tools (os_src off) w of Inl e \<Rightarrow> Inl e | Inr defs \<Rightarrow> Inr (defs @ [readToolDef]))"

definition offloadCall ::
  "(string \<Rightarrow> string) \<Rightarrow> (string \<Rightarrow> goerr + (string \<Rightarrow> bool)) \<Rightarrow> (toolArgs \<Rightarrow> goerr + readToolResultArgs) \<Rightarrow>
   'w offloadingSource \<Rightarrow> string \<Rightarrow> toolArgs \<Rightarrow> 'w \<Rightarrow> (callResult \<times> 'w) option" where
  "offloadCall sha compile decode off name args w =
     (if name = ReadToolResultName then
        (case decode args of
           Inl e \<Rightarrow> Some (wrapFunc (\<lambda>_. Inl e) (\<lambda>i. Pair (Inr [])) args w)
         | Inr rq \<Rightarrow>
             map_option (\<lambda>r. wrapFunc (\<lambda>_. Inr rq) (\<lambda>_ _. r) args w) (readToolResult compile (os_store off) rq w))
      else
        (case src_Call (os_src off) name args w of
           (Inl e, w1) \<Rightarrow> Some (Inl e, w1)
         | (Inr None, w1) \<Rightarrow> Some (Inr None, w1)
         | (Inr (Some res), w1) \<Rightarrow> maybeOffload sha (os_store off) (os_cfg off) name res w1))"

subsection \<open>Spans of a pattern search\<close>

definition spanCover :: "(int \<times> int) list \<Rightarrow> int set" where
  "spanCover spans = (\<Union>(a, b)\<in>set spans. {a..<b})"

definition spansApart :: "(int \<times> int) list \<Rightarrow> bool" where
  "spansApart spans \<longleftrightarrow> sorted_wrt (\<lambda>x y. snd x < fst y) spans \<and> (\<forall>(a, b)\<in>set spans. a < b)"

lemma spanCover_simps [simp]:
  "spanCover [] = {}" "spanCover ((a, b) # ss) = {a..<b} \<union> spanCover ss" "spanCover (rev ss) = spanCover ss"
  by (auto simp: spanCover_def)

lemma spansApart_rev_Cons:
  "spansApart (rev ((a, b) # rest)) \<longleftrightarrow> spansApart (rev rest) \<and> (\<forall>x\<in>set rest. snd x < a) \<and> a < b"
  by (auto simp: spansApart_def sorted_wrt_append)

lemma hitSpan_nowrap:
  assumes "0 \<le> h" "h < n" "0 \<le> ctx" "n + ctx < 2 ^ 63"
  shows "hitSpan n ctx h = (max 0 (h - ctx), min n (h + ctx + 1))"
proof -
  have "wrap64 (h - ctx) = h - ctx" "wrap64 (h + ctx) = h + ctx" "wrap64 (h + ctx + 1) = h + ctx + 1"
    using assms by (auto intro!: wrap64_id)
  then show ?thesis by (simp add: hitSpan_def)
qed

text \<open>One step of the merge, on the spans with the last one first.\<close>

lemma addSpan_step:
  assumes "spansApart (rev acc)" "c < d"
    and "acc \<noteq> [] \<Longrightarrow> fst (hd acc) \<le> c \<and> snd (hd acc) \<le> d"
  shows "spansApart (rev (addSpan (c, d) acc))"
    and "spanCover (addSpan (c, d) acc) = {c..<d} \<union> spanCover acc"
    and "addSpan (c, d) acc \<noteq> [] \<and> fst (hd (addSpan (c, d) acc)) \<le> c \<and> snd (hd (addSpan (c, d) acc)) = d"
proof -
  consider "acc = []" | a b rest where "acc = (a, b) # rest" by (cases acc) auto
  then have "spansApart (rev (addSpan (c, d) acc)) \<and>
      spanCover (addSpan (c, d) acc) = {c..<d} \<union> spanCover acc \<and>
      addSpan (c, d) acc \<noteq> [] \<and> fst (hd (addSpan (c, d) acc)) \<le> c \<and> snd (hd (addSpan (c, d) acc)) = d"
  proof cases
    case 1
    then show ?thesis using assms(2) by (simp add: addSpan_def spansApart_def)
  next
    case (2 a b rest)
    with assms(1) have apart: "spansApart (rev rest)" "\<forall>x\<in>set rest. snd x < a" "a < b"
      unfolding 2 spansApart_rev_Cons by simp_all
    from 2 assms(3) have "a \<le> c" "b \<le> d" by simp_all
    show ?thesis
    proof (cases "c \<le> b")
      case True
      with \<open>b \<le> d\<close> have add: "addSpan (c, d) acc = (a, d) # rest" by (simp add: 2 addSpan_def)
      have "{a..<d} = {c..<d} \<union> {a..<b}" using True \<open>a \<le> c\<close> \<open>b \<le> d\<close> apart(3) assms(2) by auto
      then show ?thesis
        unfolding add spansApart_rev_Cons using apart \<open>a \<le> c\<close> \<open>b \<le> d\<close> by (simp add: 2 Un_assoc)
    next
      case False
      then have add: "addSpan (c, d) acc = (c, d) # acc" by (simp add: 2 addSpan_def)
      have "\<forall>x\<in>set acc. snd x < c" using apart False by (auto simp: 2)
      then show ?thesis
        unfolding add spansApart_rev_Cons using assms(1,2) by simp
    qed
  qed
  then show "spansApart (rev (addSpan (c, d) acc))"
    "spanCover (addSpan (c, d) acc) = {c..<d} \<union> spanCover acc"
    "addSpan (c, d) acc \<noteq> [] \<and> fst (hd (addSpan (c, d) acc)) \<le> c \<and> snd (hd (addSpan (c, d) acc)) = d"
    by auto
qed

definition around :: "int \<Rightarrow> int \<Rightarrow> int \<Rightarrow> int set" where
  "around n ctx h = {i. 0 \<le> i \<and> i < n \<and> \<bar>i - h\<bar> \<le> ctx}"

lemma merge_fold:
  assumes "0 \<le> ctx" "n + ctx < 2 ^ 63" "sorted hits" "\<forall>h\<in>set hits. 0 \<le> h \<and> h < n"
    and "spansApart (rev acc)" "hits \<noteq> [] \<Longrightarrow> acc \<noteq> [] \<Longrightarrow>
      fst (hd acc) \<le> max 0 (hd hits - ctx) \<and> snd (hd acc) \<le> min n (hd hits + ctx + 1)"
  shows "spansApart (rev (fold (\<lambda>h. addSpan (hitSpan n ctx h)) hits acc)) \<and>
    spanCover (fold (\<lambda>h. addSpan (hitSpan n ctx h)) hits acc)
      = (\<Union>h\<in>set hits. around n ctx h) \<union> spanCover acc"
  using assms(3-)
proof (induction hits arbitrary: acc)
  case Nil
  then show ?case by simp
next
  case (Cons h hits)
  let ?c = "max 0 (h - ctx)" and ?d = "min n (h + ctx + 1)"
  have span: "hitSpan n ctx h = (?c, ?d)" using Cons.prems(2) assms(1,2) by (intro hitSpan_nowrap) auto
  have "?c < ?d" using Cons.prems(2) assms(1) by auto
  from addSpan_step [OF Cons.prems(3) this] Cons.prems(4)
  have step: "spansApart (rev (addSpan (?c, ?d) acc))"
    "spanCover (addSpan (?c, ?d) acc) = {?c..<?d} \<union> spanCover acc"
    "fst (hd (addSpan (?c, ?d) acc)) \<le> ?c \<and> snd (hd (addSpan (?c, ?d) acc)) = ?d" by auto
  have "{?c..<?d} = around n ctx h" by (auto simp: around_def)
  have next_hit: "hits \<noteq> [] \<Longrightarrow> ?c \<le> max 0 (hd hits - ctx) \<and> ?d \<le> min n (hd hits + ctx + 1)"
    using Cons.prems(1) by (cases hits) auto
  have "spansApart (rev (fold (\<lambda>h. addSpan (hitSpan n ctx h)) hits (addSpan (?c, ?d) acc))) \<and>
    spanCover (fold (\<lambda>h. addSpan (hitSpan n ctx h)) hits (addSpan (?c, ?d) acc))
      = (\<Union>h\<in>set hits. around n ctx h) \<union> ({?c..<?d} \<union> spanCover acc)"
    unfolding step(2) [symmetric] using Cons.prems(1,2) step(3)
    by (intro Cons.IH step(1)) (use next_hit in \<open>auto simp del: max.bounded_iff min.bounded_iff\<close>)
  with \<open>{?c..<?d} = around n ctx h\<close> show ?case by (simp add: span Un_assoc Un_left_commute)
qed

lemma grepHits_props: "sorted (grepHits re lines)" "\<forall>h\<in>set (grepHits re lines). 0 \<le> h \<and> h < int (length lines)"
  by (auto simp: grepHits_def sorted_map intro!: sorted_wrt_filter sorted_wrt_mono_rel [OF _ sorted_upt])

lemma mergeSpans_exact:
  assumes "0 \<le> ctx" "int (length lines) + ctx < 2 ^ 63"
  shows "spansApart (mergeSpans (int (length lines)) ctx (grepHits re lines))"
    and "spanCover (mergeSpans (int (length lines)) ctx (grepHits re lines))
         = (\<Union>h\<in>set (grepHits re lines). around (int (length lines)) ctx h)"
  using merge_fold [OF assms grepHits_props [of re lines], where acc = "[]"] by (auto simp: mergeSpans_def spansApart_def)

text \<open>The blocks shown are the longest run of spans that fits the limit, with a separator between blocks.\<close>

definition spanLen :: "(int \<times> int) list \<Rightarrow> int" where
  "spanLen spans = sum_list (map (\<lambda>(a, b). b - a) spans)"

definition blockLines :: "string list \<Rightarrow> int \<times> int \<Rightarrow> string list" where
  "blockLines lines s = drop (nat (fst s)) (take (nat (snd s)) lines)"

fun blockText :: "string list \<Rightarrow> bool \<Rightarrow> (int \<times> int) list \<Rightarrow> string list" where
  "blockText lines later [] = []"
| "blockText lines later (s # spans) =
     (if later then [''--''] else []) @ blockLines lines s @ blockText lines True spans"

lemma showBlocks_fits:
  assumes "\<forall>(a, b)\<in>set spans. 0 \<le> a \<and> a \<le> b \<and> b \<le> int (length lines)" "shown \<le> limit"
  shows "\<exists>vis rest. spans = vis @ rest \<and>
    showBlocks lines limit spans shown later out = Some (out @ blockText lines later vis, rest) \<and>
    shown + spanLen vis \<le> limit \<and>
    (rest \<noteq> [] \<longrightarrow> limit < shown + spanLen vis + (snd (hd rest) - fst (hd rest)))"
  using assms
proof (induction lines limit spans shown later out rule: showBlocks.induct)
  case (1 lines limit shown later out)
  then show ?case by (simp add: spanLen_def)
next
  case (2 lines limit a b spans shown later out)
  show ?case
  proof (cases "shown + (b - a) > limit")
    case True
    then show ?thesis using "2.prems"
      by - (rule exI [of _ "[]"], rule exI [of _ "(a, b) # spans"], simp add: spanLen_def)
  next
    case False
    have slice: "goSlice lines a b = Some (blockLines lines (a, b))"
      using "2.prems"(1) by (simp add: goSlice_def blockLines_def)
    from "2.IH" [OF False slice] "2.prems"(1) False obtain vis rest where IH: "spans = vis @ rest"
      "showBlocks lines limit spans (shown + (b - a)) True
         (out @ (if later then [''--''] else []) @ blockLines lines (a, b))
       = Some ((out @ (if later then [''--''] else []) @ blockLines lines (a, b)) @ blockText lines True vis, rest)"
      "shown + (b - a) + spanLen vis \<le> limit"
      "rest \<noteq> [] \<longrightarrow> limit < shown + (b - a) + spanLen vis + (snd (hd rest) - fst (hd rest))"
      by auto
    then show ?thesis using False slice
      by - (rule exI [of _ "(a, b) # vis"], rule exI [of _ rest], simp add: spanLen_def add.assoc)
  qed
qed

lemma span_bounds:
  assumes "spansApart spans" "spanCover spans \<subseteq> {0..<n}"
  shows "\<forall>(a, b)\<in>set spans. 0 \<le> a \<and> a \<le> b \<and> b \<le> n"
proof safe
  fix a b
  assume ab: "(a, b) \<in> set spans"
  with assms(1) have "a < b" by (auto simp: spansApart_def)
  then have "a \<in> spanCover spans" "b - 1 \<in> spanCover spans"
    using ab by (force simp: spanCover_def)+
  with assms(2) \<open>a < b\<close> show "0 \<le> a" "a \<le> b" "b \<le> n" by auto
qed

text \<open>
  A pattern search reports exactly the lines near a match. For a context that does not overflow, the
  blocks of \<^verbatim>\<open>grepLines\<close> are separated by at least one line, together hold exactly the lines within
  the context of some matching line, and are shown in order while they fit the limit; what follows is
  reported as hidden, and it is hidden only because its first block does not fit.
\<close>

lemma grep_blocks_exact:
  assumes "0 \<le> ctx" "int (length lines) + ctx < 2 ^ 63" "0 < limit" "grepHits re lines \<noteq> []"
  shows "\<exists>vis rest. spansApart (vis @ rest) \<and>
    spanCover (vis @ rest) = (\<Union>h\<in>set (grepHits re lines). around (int (length lines)) ctx h) \<and>
    grepLines lines re ctx limit ref pat
      = Some (strJoin (blockText lines False vis @
          (if rest = [] then []
           else [render_fmt (ellipsis @ '' %d more matching line(s) in %d more block(s) not shown (limit %d); narrow the pattern or raise limit.'')
                   [itoa (spanLen rest), itoa (int (length rest)), itoa limit] []])) [newline]) \<and>
    spanLen vis \<le> limit \<and>
    (rest \<noteq> [] \<longrightarrow> limit < spanLen vis + (snd (hd rest) - fst (hd rest)))"
proof -
  let ?spans = "mergeSpans (int (length lines)) ctx (grepHits re lines)"
  note ex = mergeSpans_exact [OF assms(1,2), of re]
  have "spanCover ?spans \<subseteq> {0..<int (length lines)}" unfolding ex(2) by (auto simp: around_def)
  from showBlocks_fits [OF span_bounds [OF ex(1) this], of 0 limit False "[]"] assms(3)
  have "\<exists>vis rest. ?spans = vis @ rest \<and>
    showBlocks lines limit ?spans 0 False [] = Some (blockText lines False vis, rest) \<and>
    spanLen vis \<le> limit \<and> (rest \<noteq> [] \<longrightarrow> limit < spanLen vis + (snd (hd rest) - fst (hd rest)))"
    by simp
  then obtain vis rest where sb: "?spans = vis @ rest"
    "showBlocks lines limit ?spans 0 False [] = Some (blockText lines False vis, rest)"
    "spanLen vis \<le> limit" "rest \<noteq> [] \<longrightarrow> limit < spanLen vis + (snd (hd rest) - fst (hd rest))"
    by blast
  have "grepLines lines re ctx limit ref pat
    = map_option (\<lambda>(out, rest).
        strJoin (out @ (if rest = [] then []
           else [render_fmt (ellipsis @ '' %d more matching line(s) in %d more block(s) not shown (limit %d); narrow the pattern or raise limit.'')
                   [itoa (spanLen rest), itoa (int (length rest)), itoa limit] []])) [newline])
        (showBlocks lines limit ?spans 0 False [])"
    unfolding grepLines_def spanLen_def Let_def using assms(1,3,4) by simp
  with sb(2-4) ex show ?thesis
    unfolding sb(1) by - (rule exI [of _ vis], rule exI [of _ rest], simp)
qed

text \<open>A search for lines that start with an exclamation mark, with one line of context.\<close>

definition exLines :: "string list" where
  "exLines = [''a'', ''!b'', ''c'', ''d'', ''e'', ''f'', ''!g'']"

definition exRe :: "string \<Rightarrow> bool" where
  "exRe l \<longleftrightarrow> hasPrefix l ''!''"

lemma exHits: "grepHits exRe exLines = [1, 6]"
  by code_simp

theorem grep_blocks_exact_witness:
  "\<exists>vis rest. spansApart (vis @ rest) \<and>
    spanCover (vis @ rest) = (\<Union>h\<in>set (grepHits exRe exLines). around (int (length exLines)) 1 h) \<and>
    grepLines exLines exRe 1 4 ''r'' ''^!''
      = Some (strJoin (blockText exLines False vis @
          (if rest = [] then []
           else [render_fmt (ellipsis @ '' %d more matching line(s) in %d more block(s) not shown (limit %d); narrow the pattern or raise limit.'')
                   [itoa (spanLen rest), itoa (int (length rest)), itoa 4] []])) [newline]) \<and>
    spanLen vis \<le> 4"
proof -
  have "(0 :: int) \<le> 1" "int (length exLines) + 1 < 2 ^ 63" "(0 :: int) < 4" "grepHits exRe exLines \<noteq> []"
    by (simp_all add: exHits) (simp add: exLines_def)
  from grep_blocks_exact [OF this, of "''r''" "''^!''"] show ?thesis by blast
qed

subsection \<open>Reading a stored result by windows\<close>

lemma readWindow_eq:
  assumes "0 < l" "off < length body" "int (length body) + l < 2 ^ 63"
  shows "readWindow ref body (int off) l = Some (take (nat l) (drop off body) @
    (if int off + l < int (length body)
     then [newline] @ render_fmt (ellipsis @ '' (%d more chars; call again with offset=%d)'')
            [itoa (int (length body) - (int off + l)), itoa (int off + l)] []
     else []))"
proof -
  have sum: "wrap64 (int off + l) = int off + l" using assms by (intro wrap64_id) simp_all
  show ?thesis
  proof (cases "int off + l < int (length body)")
    case True
    then have "goSlice body (int off) (int off + l) = Some (take (nat l) (drop off body))"
      using assms by (simp add: goSlice_def nat_add_distrib drop_take)
    then show ?thesis using assms True unfolding readWindow_def by (simp add: sum Let_def)
  next
    case False
    then have "goSlice body (int off) (int (length body)) = Some (take (nat l) (drop off body))"
      using assms by (simp add: goSlice_def)
    then show ?thesis using assms False unfolding readWindow_def
      by (cases "int (length body) = int off + l") (simp_all add: sum Let_def)
  qed
qed

text \<open>A reader that asks for windows of \<open>l\<close> characters up to the size the stub announces.\<close>

fun readAll :: "nat \<Rightarrow> (int \<Rightarrow> string option) \<Rightarrow> nat \<Rightarrow> nat \<Rightarrow> string option" where
  "readAll 0 rd l off = Some []"
| "readAll (Suc k) rd l off =
     (case (rd (int off), readAll k rd l (off + l)) of
        (Some win, Some rest) \<Rightarrow> Some (take l win @ rest)
      | _ \<Rightarrow> None)"

lemma readAll_windows:
  assumes "0 < l" "int (length body) + int l < 2 ^ 63" "off + (k - 1) * l < length body \<or> k = 0"
    and "\<And>o'. rd o' = readWindow ref body o' (int l)"
  shows "readAll k rd l off = Some (take (k * l) (drop off body))"
  using assms(3)
proof (induction k arbitrary: off)
  case 0
  then show ?case by simp
next
  case (Suc k)
  then have "off < length body" by simp
  from readWindow_eq [OF _ this, of "int l" ref] assms(1,2,4)
  obtain hint where wn: "rd (int off) = Some (take l (drop off body) @ hint)"
    and full: "length body \<le> off + l \<Longrightarrow> hint = []"
    by auto
  have IH: "readAll k rd l (off + l) = Some (take (k * l) (drop (off + l) body))"
  proof (rule Suc.IH)
    show "off + l + (k - 1) * l < length body \<or> k = 0" using Suc.prems by (cases k) auto
  qed
  have "take (Suc k * l) (drop off body) = take l (drop off body) @ take (k * l) (drop (off + l) body)"
    by (simp add: take_add add.commute)
  then show ?case using wn full IH by (cases "length body \<le> off + l") auto
qed

subsection \<open>The contract of a result store\<close>

text \<open>When a result of tool \<open>name\<close> is offloaded: the threshold that applies to it, if any.\<close>

definition offloadAt :: "offloadConfig \<Rightarrow> string \<Rightarrow> int option" where
  "offloadAt cfg name =
     (case oc_PerToolThreshold cfg name of
        Some t \<Rightarrow> if t \<le> 0 then None else Some t
      | None \<Rightarrow> Some (oc_Threshold cfg))"

definition offloads :: "offloadConfig \<Rightarrow> string \<Rightarrow> toolResult \<Rightarrow> bool" where
  "offloads cfg name res \<longleftrightarrow>
     \<not> tr_IsError res \<and>
     (case offloadAt cfg name of None \<Rightarrow> False | Some t \<Rightarrow> t \<le> int (length (toolResultText res)))"

definition stubResult :: "string \<Rightarrow> toolResult" where
  "stubResult st = \<lparr>tr_Content = [\<lparr>ct_Type = ''text'', ct_Text = st\<rparr>], tr_StructuredContent = None, tr_IsError = False\<rparr>"

lemma maybeOffload_inline: "\<not> offloads cfg name res \<Longrightarrow> maybeOffload sha store cfg name res w = Some (Inr (Some res), w)"
  by (auto simp: maybeOffload_def offloads_def offloadAt_def Let_def split: option.splits if_splits)

lemma maybeOffload_over:
  assumes "offloads cfg name res" "trs_Get store (contentRef sha (toolResultText res)) w = (got, w1)"
  shows "maybeOffload sha store cfg name res w =
    (let ref = contentRef sha (toolResultText res);
         seen = (case got of Inr (Some _) \<Rightarrow> True | _ \<Rightarrow> False)
     in case (if seen then (None, w1) else trs_Put store ref res w1) of
          (Some e, w2) \<Rightarrow> Some (Inl (Errorf ''agent: offloading %q result: %w'' [name] (Some e)), w2)
        | (None, w2) \<Rightarrow> map_option (\<lambda>st. (Inr (Some (stubResult st)), w2)) (stub cfg ref (toolResultText res) seen))"
proof (cases "oc_PerToolThreshold cfg name")
  case None
  with assms(1) have "\<not> tr_IsError res" "\<not> int (length (toolResultText res)) < oc_Threshold cfg"
    by (auto simp: offloads_def offloadAt_def)
  with None assms(2) show ?thesis unfolding maybeOffload_def stubResult_def Let_def by simp
next
  case (Some t)
  with assms(1) have "\<not> tr_IsError res" "\<not> t \<le> 0" "\<not> int (length (toolResultText res)) < t"
    by (auto simp: offloads_def offloadAt_def split: if_splits)
  with Some assms(2) show ?thesis unfolding maybeOffload_def stubResult_def Let_def by simp
qed

definition stubHead :: "nat \<Rightarrow> string \<Rightarrow> string" where
  "stubHead n ref = ''[tool result '' @ itoa (int n) @ ''B, stored as '' @ ref @ '']''"

lemma stub_prefix:
  "stub cfg ref body seen = Some st \<Longrightarrow> hasPrefix st (stubHead (length body) ref)"
  by (auto simp: stubHead_def stub_def Let_def hasPrefix_iff split: if_splits)

lemma stub_some: "0 \<le> oc_PreviewLen cfg \<Longrightarrow> \<exists>st. stub cfg ref body seen = Some st"
  by (auto simp: stub_def Let_def goSlice_def)

text \<open>One read of \<open>l\<close> characters at an offset, as a reader sees it.\<close>

definition readAt ::
  "(string \<Rightarrow> goerr + (string \<Rightarrow> bool)) \<Rightarrow> 'w toolResultStore \<Rightarrow> string \<Rightarrow> nat \<Rightarrow> 'w \<Rightarrow> int \<Rightarrow> string option" where
  "readAt compile store ref l w off =
     (case readToolResult compile store
             \<lparr>ra_Ref = ref, ra_Offset = off, ra_Limit = int l, ra_Pattern = [], ra_Context = 0\<rparr> w of
        Some (Inr s, _) \<Rightarrow> Some s
      | _ \<Rightarrow> None)"

lemma readAll_found:
  assumes "fst (trs_Get store ref w) = Inr (Some res)" "0 < l" "int (length (toolResultText res)) + int l < 2 ^ 63"
  shows "readAll ((length (toolResultText res) + l - 1) div l) (readAt compile store ref l w) l 0
         = Some (toolResultText res)"
proof -
  let ?n = "length (toolResultText res)" and ?k = "(length (toolResultText res) + l - 1) div l"
  have rd: "readAt compile store ref l w off = readWindow ref (toolResultText res) off (int l)" for off
    using assms(1) by (cases "readWindow ref (toolResultText res) off (int l)")
      (auto simp: readAt_def readToolResult_def Let_def split: prod.splits)
  have "0 + (?k - 1) * l < ?n \<or> ?k = 0"
  proof (cases ?k)
    case (Suc j)
    have "?k * l \<le> ?n + l - 1" by (rule div_times_less_eq_dividend)
    with Suc assms(2) show ?thesis by simp
  qed simp
  from readAll_windows [OF assms(2,3) this rd]
  have "readAll ?k (readAt compile store ref l w) l 0 = Some (take (?k * l) (toolResultText res))" by simp
  moreover have "?n \<le> ?k * l"
    using assms(2) dividend_less_div_times [of l "?n + l - 1"] by simp
  ultimately show ?thesis by simp
qed

locale result_store =
  fixes store :: "'w toolResultStore"
  assumes get_keeps: "snd (trs_Get store ref w) = w"
    and put_get: "trs_Put store ref res w = (None, w') \<Longrightarrow> fst (trs_Get store ref w') = Inr (Some res)"
begin

lemma offload_stored:
  assumes "offloads cfg name res" "maybeOffload sha store cfg name res w = Some (Inr r, w')"
    and "\<And>old. fst (trs_Get store (contentRef sha (toolResultText res)) w) = Inr (Some old) \<Longrightarrow>
      toolResultText old = toolResultText res"
  shows "(\<exists>old. fst (trs_Get store (contentRef sha (toolResultText res)) w') = Inr (Some old) \<and>
            toolResultText old = toolResultText res) \<and>
         (\<exists>st. r = Some (stubResult st) \<and>
            hasPrefix st (stubHead (length (toolResultText res)) (contentRef sha (toolResultText res))))"
proof -
  let ?ref = "contentRef sha (toolResultText res)"
  obtain got where got: "trs_Get store ?ref w = (got, w)"
    using get_keeps [of ?ref w] by (cases "trs_Get store ?ref w") auto
  note over = maybeOffload_over [OF assms(1) got]
  show ?thesis
  proof (cases "\<exists>old. got = Inr (Some old)")
    case True
    then obtain old where old: "got = Inr (Some old)" by blast
    with over have "maybeOffload sha store cfg name res w
        = map_option (\<lambda>st. (Inr (Some (stubResult st)), w)) (stub cfg ?ref (toolResultText res) True)"
      by (simp add: Let_def)
    from trans [OF this [symmetric] assms(2)] obtain st where "stub cfg ?ref (toolResultText res) True = Some st"
      "r = Some (stubResult st)" "w' = w" by auto
    with got old assms(3) show ?thesis by (auto dest: stub_prefix)
  next
    case False
    then have seen: "(case got of Inr (Some _) \<Rightarrow> True | _ \<Rightarrow> False) = False"
      by (auto split: sum.splits option.splits)
    obtain e w2 where tp: "trs_Put store ?ref res w = (e, w2)" by fastforce
    note eq = trans [OF over [unfolded seen Let_def, simplified tp if_False prod.case, symmetric] assms(2)]
    have "e = None" using eq by (cases e) simp_all
    with eq obtain st where st: "stub cfg ?ref (toolResultText res) False = Some st" "r = Some (stubResult st)"
      and put: "trs_Put store ?ref res w = (None, w')"
      by (auto simp: tp)
    then show ?thesis using put_get [OF put] stub_prefix [OF st(1)] by blast
  qed
qed

lemma offload_readback:
  assumes "offloads cfg name res" "maybeOffload sha store cfg name res w = Some (Inr r, w')"
    and "\<And>old. fst (trs_Get store (contentRef sha (toolResultText res)) w) = Inr (Some old) \<Longrightarrow>
      toolResultText old = toolResultText res"
    and "0 < l" "int (length (toolResultText res)) + int l < 2 ^ 63"
  shows "readAll ((length (toolResultText res) + l - 1) div l)
           (readAt compile store (contentRef sha (toolResultText res)) l w') l 0 = Some (toolResultText res)"
proof -
  from offload_stored [OF assms(1-3)] obtain old
    where "fst (trs_Get store (contentRef sha (toolResultText res)) w') = Inr (Some old)"
      "toolResultText old = toolResultText res" by blast
  from readAll_found [OF this(1) assms(4), of compile] assms(5) this(2) show ?thesis by simp
qed

end

lemma put_get_any: "getToolResult ref (putToolResult ref res s) = Some res"
  by (simp add: putToolResult_def getToolResult_def Let_def split: option.split prod.split)

interpretation memstore: result_store inMemoryStore
  by unfold_locales (auto simp: inMemoryStore_def put_get_any)

text \<open>
  C11: offloading loses nothing. When a result over its threshold is replaced by a stub, the stub names the
  size and the reference, and reading windows of any positive length under that reference gives
  back exactly the text of the result, provided the store holds no other text under the same 48-bit
  reference.
\<close>

theorem offload_roundtrip:
  assumes offl: "offloads cfg name res" "maybeOffload sha inMemoryStore cfg name res s = Some (Inr r, s')"
    and no_collision: "\<And>old. getToolResult (contentRef sha (toolResultText res)) s = Some old \<Longrightarrow>
      toolResultText old = toolResultText res"
    and window: "0 < l" "int (length (toolResultText res)) + int l < 2 ^ 63"
  shows "(\<exists>st. r = Some (stubResult st) \<and>
            hasPrefix st (stubHead (length (toolResultText res)) (contentRef sha (toolResultText res)))) \<and>
         readAll ((length (toolResultText res) + l - 1) div l)
           (readAt compile inMemoryStore (contentRef sha (toolResultText res)) l s') l 0 = Some (toolResultText res)"
proof
  have nc: "toolResultText old = toolResultText res"
    if "fst (trs_Get inMemoryStore (contentRef sha (toolResultText res)) s) = Inr (Some old)" for old
    using that no_collision by (simp add: inMemoryStore_def)
  from memstore.offload_stored [OF offl nc]
  show "\<exists>st. r = Some (stubResult st) \<and>
            hasPrefix st (stubHead (length (toolResultText res)) (contentRef sha (toolResultText res)))" by blast
  show "readAll ((length (toolResultText res) + l - 1) div l)
      (readAt compile inMemoryStore (contentRef sha (toolResultText res)) l s') l 0 = Some (toolResultText res)"
    by (rule memstore.offload_readback [OF offl nc window])
qed

definition exOffCfg :: offloadConfig where
  "exOffCfg = \<lparr>oc_Threshold = 5, oc_PreviewLen = 4, oc_PerToolThreshold = Map.empty\<rparr>"

definition exBig :: toolResult where
  "exBig = \<lparr>tr_Content = [\<lparr>ct_Type = ''text'', ct_Text = ''a long result''\<rparr>], tr_StructuredContent = None, tr_IsError = False\<rparr>"

definition exStore :: inMemoryToolResultStore where
  "exStore = newInMemoryToolResultStore [withMaxToolResults 2]"

lemma exBig_text [simp]: "toolResultText exBig = ''a long result''"
  by (simp add: toolResultText_def exBig_def)

lemma exBig_offloads: "offloads exOffCfg ''cat'' exBig"
  by (simp add: offloads_def offloadAt_def exOffCfg_def) (simp add: exBig_def)

lemma exStore_empty [simp]: "getToolResult ref exStore = None"
  by (simp add: getToolResult_def exStore_def newInMemoryToolResultStore_def withMaxToolResults_def)

theorem offload_roundtrip_witness:
  "\<exists>r s'. maybeOffload id inMemoryStore exOffCfg ''cat'' exBig exStore = Some (Inr r, s') \<and>
     (\<exists>st. r = Some (stubResult st) \<and>
            hasPrefix st (stubHead (length (toolResultText exBig)) (contentRef id (toolResultText exBig)))) \<and>
     readAll ((length (toolResultText exBig) + 4 - 1) div 4)
       (readAt (\<lambda>_. Inl (ErrNew ''no regexp'')) inMemoryStore (contentRef id (toolResultText exBig)) 4 s') 4 0
       = Some (toolResultText exBig)"
proof -
  obtain st where st: "stub exOffCfg (contentRef id ''a long result'') ''a long result'' False = Some st"
    using stub_some [of exOffCfg "contentRef id ''a long result''" "''a long result''" False]
    by (auto simp: exOffCfg_def)
  have "trs_Get inMemoryStore (contentRef id (toolResultText exBig)) exStore = (Inr None, exStore)"
    by (simp add: inMemoryStore_def)
  from maybeOffload_over [OF exBig_offloads this] st
  have m: "maybeOffload id inMemoryStore exOffCfg ''cat'' exBig exStore
      = Some (Inr (Some (stubResult st)), putToolResult (contentRef id ''a long result'') exBig exStore)"
    by (simp add: inMemoryStore_def)
  have nc: "toolResultText old = toolResultText exBig"
    if "getToolResult (contentRef id (toolResultText exBig)) exStore = Some old" for old
    using that by simp
  have win: "(0::nat) < 4" "int (length (toolResultText exBig)) + int 4 < 2 ^ 63" by simp_all
  from offload_roundtrip [OF exBig_offloads m nc win] m show ?thesis by blast
qed

lemma hitSpan_wraps:
  assumes "0 \<le> h" "h < n" "n < 2 ^ 63"
  shows "fst (hitSpan n maxInt64 h) = 0" "snd (hitSpan n maxInt64 h) < 0"
proof -
  have "wrap64 (h - maxInt64) = h - maxInt64"
    using assms by (intro wrap64_id) (simp_all add: maxInt64_def)
  then show "fst (hitSpan n maxInt64 h) = 0" using assms by (simp add: hitSpan_def maxInt64_def)
  have "wrap64 (wrap64 (h + maxInt64) + 1) = h + maxInt64 + 1 - 2 ^ 64"
    using assms wrap64_over [of "h + maxInt64 + 1"] by (simp add: wrap64_add_left maxInt64_def)
  then show "snd (hitSpan n maxInt64 h) < 0" using assms by (simp add: hitSpan_def maxInt64_def)
qed

lemma fold_addSpan_apart:
  assumes "\<forall>s\<in>set ss. fst s = 0 \<and> snd s < 0" "\<forall>s\<in>set acc. snd s < 0"
  shows "fold addSpan ss acc = rev ss @ acc"
  using assms
proof (induction ss arbitrary: acc)
  case (Cons s ss)
  then have "addSpan s acc = s # acc" by (cases acc) (auto simp: addSpan_def)
  with Cons show ?case by simp
qed simp

lemma grep_overflow:
  assumes "grepHits re lines \<noteq> []" "int (length lines) < 2 ^ 63"
  shows "grepLines lines re maxInt64 limit ref pat = None"
proof -
  let ?sp = "hitSpan (int (length lines)) maxInt64"
  obtain h hs where hits: "grepHits re lines = h # hs" using assms(1) by (cases "grepHits re lines") auto
  have ok: "\<forall>s\<in>set (map ?sp (h # hs)). fst s = 0 \<and> snd s < 0"
    using grepHits_props(2) [of re lines] hitSpan_wraps [OF _ _ assms(2)] by (auto simp: hits)
  have "mergeSpans (int (length lines)) maxInt64 (h # hs) = map ?sp (h # hs)"
    using fold_addSpan_apart [OF ok, of "[]"] by (simp add: mergeSpans_def fold_map comp_def)
  moreover obtain b where "?sp h = (0, b)" "b < 0" using ok by (cases "?sp h") auto
  ultimately show ?thesis
    by (simp add: grepLines_def hits goSlice_def Let_def maxInt64_def)
qed

lemma length_strSplit: "length (strSplit c s) \<le> Suc (length s)"
  by (induction s) (auto split: list.split)

text \<open>
  The arguments of \<^verbatim>\<open>read_tool_result\<close> can crash the process. For any stored result with a matching
  line, a pattern search whose context is the largest int slices with a negative end and panics; so
  does a window at a positive offset whose limit is the largest int.
\<close>

lemma read_tool_result_overflow_panics:
  assumes "compile pat = Inr re" "pat \<noteq> []" "getToolResult ref s = Some res"
    and "grepHits re (strSplit newline (toolResultText res)) \<noteq> []"
    and "0 < off" "off < int (length (toolResultText res))" "int (length (toolResultText res)) + 1 < 2 ^ 63"
  shows "readToolResult compile inMemoryStore
       \<lparr>ra_Ref = ref, ra_Offset = 0, ra_Limit = 0, ra_Pattern = pat, ra_Context = maxInt64\<rparr> s = None \<and>
     readToolResult compile inMemoryStore
       \<lparr>ra_Ref = ref, ra_Offset = off, ra_Limit = maxInt64, ra_Pattern = [], ra_Context = 0\<rparr> s = None"
proof
  have "int (length (strSplit newline (toolResultText res))) < 2 ^ 63"
    using length_strSplit [of newline "toolResultText res"] assms(7) by linarith
  from grep_overflow [OF assms(4) this] assms(1-3)
  show "readToolResult compile inMemoryStore
       \<lparr>ra_Ref = ref, ra_Offset = 0, ra_Limit = 0, ra_Pattern = pat, ra_Context = maxInt64\<rparr> s = None"
    by (simp add: readToolResult_def inMemoryStore_def Let_def)
  have "wrap64 (off + maxInt64) = off + maxInt64 - 2 ^ 64"
    using assms(5-7) by (intro wrap64_over) (simp_all add: maxInt64_def)
  then have "readWindow ref (toolResultText res) off maxInt64 = None"
    using assms(5-7) by (simp add: readWindow_def Let_def goSlice_def maxInt64_def)
  then show "readToolResult compile inMemoryStore
       \<lparr>ra_Ref = ref, ra_Offset = off, ra_Limit = maxInt64, ra_Pattern = [], ra_Context = 0\<rparr> s = None"
    using assms(3) by (simp add: readToolResult_def inMemoryStore_def Let_def)
qed

theorem read_tool_result_overflow_panics_witness:
  "readToolResult (\<lambda>p. Inr (\<lambda>l. strContains l p)) inMemoryStore
     \<lparr>ra_Ref = ''r'', ra_Offset = 0, ra_Limit = 0, ra_Pattern = ''long'', ra_Context = maxInt64\<rparr>
     (putToolResult ''r'' exBig exStore) = None \<and>
   readToolResult (\<lambda>p. Inr (\<lambda>l. strContains l p)) inMemoryStore
     \<lparr>ra_Ref = ''r'', ra_Offset = 3, ra_Limit = maxInt64, ra_Pattern = [], ra_Context = 0\<rparr>
     (putToolResult ''r'' exBig exStore) = None"
proof (rule read_tool_result_overflow_panics [where re = "\<lambda>l. strContains l ''long''" and res = exBig])
  show "grepHits (\<lambda>l. strContains l ''long'') (strSplit newline (toolResultText exBig)) \<noteq> []"
    by (simp add: grepHits_def strContains_def hasPrefix_def)
qed (simp_all add: put_get_any)

end
