(* ===== verification/Memory.thy ===== *)
theory Memory
  imports Complex_Main BoundedStore
begin

text \<open>
  Working memory (\<^verbatim>\<open>src/memory.go\<close>): the in-memory store of notes per namespace and the source that
  offers it to the model as three tools and as text for the prompt. The clock is an argument of a put;
  the score, a \<^verbatim>\<open>float64\<close> that is only compared, is a rational.
\<close>

subsection \<open>The store\<close>

record memoryItem =
  mi_Key :: string
  mi_Value :: string
  mi_CreatedAt :: gotime

definition zeroMemoryItem :: memoryItem where
  "zeroMemoryItem = \<lparr>mi_Key = [], mi_Value = [], mi_CreatedAt = 0\<rparr>"

record scoredMemory =
  sm_Item :: memoryItem
  sm_Score :: rat

record nsMemory =
  nm_items :: "string \<rightharpoonup> memoryItem"
  nm_order :: "string list"

definition newNSMemory :: nsMemory where
  "newNSMemory = \<lparr>nm_items = Map.empty, nm_order = []\<rparr>"

record inMemoryMemoryStore =
  ims_ns :: "string \<rightharpoonup> nsMemory"
  ims_maxEntries :: int

definition withMaxMemories :: "int \<Rightarrow> inMemoryMemoryStore \<Rightarrow> inMemoryMemoryStore" where
  "withMaxMemories n s = (if n > 0 then s\<lparr>ims_maxEntries := n\<rparr> else s)"

definition newInMemoryMemoryStore ::
  "(inMemoryMemoryStore \<Rightarrow> inMemoryMemoryStore) list \<Rightarrow> inMemoryMemoryStore" where
  "newInMemoryMemoryStore opts = foldl (\<lambda>s opt. opt s) \<lparr>ims_ns = Map.empty, ims_maxEntries = 0\<rparr> opts"

text \<open>The namespace's notes, created when missing.\<close>

definition memBucket :: "string \<Rightarrow> inMemoryMemoryStore \<Rightarrow> nsMemory \<times> inMemoryMemoryStore" where
  "memBucket ns s =
     (case ims_ns s ns of
        Some m \<Rightarrow> (m, s)
      | None \<Rightarrow> (newNSMemory, s\<lparr>ims_ns := (ims_ns s)(ns \<mapsto> newNSMemory)\<rparr>))"

text \<open>What a put does to one namespace.\<close>

definition nsPut :: "int \<Rightarrow> string \<Rightarrow> memoryItem \<Rightarrow> nsMemory \<Rightarrow> nsMemory" where
  "nsPut mx key item m =
     (let m1 = (if nm_items m key = None then
                  (case (if mx > 0 then evictOldest mx (nm_order m @ [key]) (nm_items m)
                         else (nm_order m @ [key], nm_items m)) of
                     (ks, items) \<Rightarrow> m\<lparr>nm_order := ks, nm_items := items\<rparr>)
                else m)
      in m1\<lparr>nm_items := (nm_items m1)(key \<mapsto> item)\<rparr>)"

definition putMemory :: "gotime \<Rightarrow> memoryItem \<Rightarrow> string \<Rightarrow> inMemoryMemoryStore \<Rightarrow> inMemoryMemoryStore" where
  "putMemory now item0 ns s =
     (let item = (if mi_CreatedAt item0 = 0 then item0\<lparr>mi_CreatedAt := now\<rparr> else item0);
          (m, s1) = memBucket ns s
      in s1\<lparr>ims_ns := (ims_ns s1)(ns \<mapsto> nsPut (ims_maxEntries s1) (mi_Key item) item m)\<rparr>)"

definition memMatches :: "string \<Rightarrow> memoryItem \<Rightarrow> bool" where
  "memMatches q item \<longleftrightarrow>
     q = [] \<or> strContains (toLowerAscii (mi_Key item)) q \<or> strContains (toLowerAscii (mi_Value item)) q"

fun listLoop ::
  "string \<Rightarrow> int \<Rightarrow> (string \<rightharpoonup> memoryItem) \<Rightarrow> string list \<Rightarrow> scoredMemory list \<Rightarrow> scoredMemory list" where
  "listLoop q limit items [] out = out"
| "listLoop q limit items (k # ks) out =
     (if limit > 0 \<and> int (length out) \<ge> limit then out
      else let item = (case items k of Some i \<Rightarrow> i | None \<Rightarrow> zeroMemoryItem)
           in listLoop q limit items ks
                (if memMatches q item then out @ [\<lparr>sm_Item = item, sm_Score = 1\<rparr>] else out))"

definition listMemories ::
  "string \<Rightarrow> int \<Rightarrow> string \<Rightarrow> inMemoryMemoryStore \<Rightarrow> scoredMemory list \<times> inMemoryMemoryStore" where
  "listMemories query limit ns s =
     (let (m, s1) = memBucket ns s in (listLoop (toLowerAscii query) limit (nm_items m) (nm_order m) [], s1))"

definition nsDelete :: "string \<Rightarrow> nsMemory \<Rightarrow> bool \<times> nsMemory" where
  "nsDelete key m =
     (if nm_items m key = None then (False, m)
      else (True, m\<lparr>nm_items := (nm_items m)(key := None), nm_order := remove1 key (nm_order m)\<rparr>))"

definition deleteMemory :: "string \<Rightarrow> string \<Rightarrow> inMemoryMemoryStore \<Rightarrow> bool \<times> inMemoryMemoryStore" where
  "deleteMemory key ns s =
     (let (m, s1) = memBucket ns s; (del, m') = nsDelete key m
      in (del, s1\<lparr>ims_ns := (ims_ns s1)(ns \<mapsto> m')\<rparr>))"

subsection \<open>The namespace as a bounded store\<close>

definition nsInv :: "nsMemory \<Rightarrow> bool" where
  "nsInv m \<longleftrightarrow> distinct (nm_order m) \<and> set (nm_order m) = dom (nm_items m)"

definition memCap :: "int \<Rightarrow> nat option" where
  "memCap mx = (if mx > 0 then Some (nat mx) else None)"

lemma nsInv_new: "nsInv newNSMemory"
  by (simp add: nsInv_def newNSMemory_def)

lemma nsPut_old: "nm_items m k = Some u \<Longrightarrow> nsPut mx k v m = m\<lparr>nm_items := (nm_items m)(k \<mapsto> v)\<rparr>"
  by (simp add: nsPut_def)

lemma nsPut_new:
  assumes "nsInv m" "nm_items m k = None"
  shows "nm_order (nsPut mx k v m) = lastN (memCap mx) (nm_order m @ [k])"
    and "nm_items (nsPut mx k v m) = ((nm_items m)(k \<mapsto> v)) |` set (nm_order (nsPut mx k v m))"
    and "nsInv (nsPut mx k v m)"
proof -
  have inv: "distinct (nm_order m)" "set (nm_order m) = dom (nm_items m)" using assms(1) by (simp_all add: nsInv_def)
  have k: "k \<notin> set (nm_order m)" using inv(2) assms(2) by auto
  have "nm_order (nsPut mx k v m) = lastN (memCap mx) (nm_order m @ [k]) \<and>
    nm_items (nsPut mx k v m) = ((nm_items m)(k \<mapsto> v)) |` set (nm_order (nsPut mx k v m)) \<and>
    set (nm_order (nsPut mx k v m)) = dom (nm_items (nsPut mx k v m))"
  proof (cases "mx > 0")
    case True
    obtain ks items where ev: "evictOldest mx (nm_order m @ [k]) (nm_items m) = (ks, items)" by fastforce
    from evict_insert(1) [OF True inv assms(2) ev] evict_insert(2,3) [OF True inv assms(2) ev, of v] True ev assms(2)
    show ?thesis by (simp add: nsPut_def memCap_def)
  next
    case False
    have "(nm_items m)(k \<mapsto> v) = ((nm_items m)(k \<mapsto> v)) |` (insert k (dom (nm_items m)))"
      by (auto simp: restrict_map_def fun_eq_iff)
    with False assms(2) inv show ?thesis by (auto simp: nsPut_def memCap_def lastN_def Let_def)
  qed
  note put = this
  from put show "nm_order (nsPut mx k v m) = lastN (memCap mx) (nm_order m @ [k])" by blast
  from put show "nm_items (nsPut mx k v m) = ((nm_items m)(k \<mapsto> v)) |` set (nm_order (nsPut mx k v m))" by blast
  have "distinct (nm_order (nsPut mx k v m))"
    using put distinct_lastN [of "nm_order m @ [k]" "memCap mx"] inv(1) k by simp
  with put show "nsInv (nsPut mx k v m)" unfolding nsInv_def by blast
qed

lemma nsInv_put: "nsInv m \<Longrightarrow> nsInv (nsPut mx k v m)"
proof (cases "nm_items m k")
  case (Some u)
  then show "nsInv m \<Longrightarrow> ?thesis" by (auto simp: nsPut_old nsInv_def)
qed (rule nsPut_new(3))

interpretation memns: fifo_store "\<lambda>(mx, m). nsInv m" "\<lambda>(mx, m). memCap mx" "\<lambda>(mx, m). nm_order m"
    "\<lambda>(mx, m). nm_items m" "\<lambda>k v (mx, m). (mx, nsPut mx k v m)"
  by unfold_locales (auto simp: nsInv_put nsPut_new nsPut_old, auto simp: nsInv_def memCap_def split: if_splits)

subsection \<open>Refinement of a notebook\<close>

text \<open>The specification: per namespace, an association list of notes in the order they were first saved.\<close>

type_synonym notebook = "string \<Rightarrow> (string \<times> memoryItem) list"

datatype memOp = MemPut gotime memoryItem string | MemList string int string | MemDelete string string
datatype memResp = MemOk | MemItems "memoryItem list" | MemDeleted bool

definition stamped :: "gotime \<Rightarrow> memoryItem \<Rightarrow> memoryItem" where
  "stamped now item = (if mi_CreatedAt item = 0 then item\<lparr>mi_CreatedAt := now\<rparr> else item)"

fun notebookStep :: "int \<Rightarrow> memOp \<Rightarrow> notebook \<Rightarrow> memResp \<times> notebook" where
  "notebookStep mx (MemPut now item ns) nb =
     (MemOk, nb(ns := fifoPut (memCap mx) (mi_Key item) (stamped now item) (nb ns)))"
| "notebookStep mx (MemList q limit ns) nb =
     (let found = filter (memMatches (toLowerAscii q)) (map snd (nb ns))
      in (MemItems (if limit > 0 then take (nat limit) found else found), nb))"
| "notebookStep mx (MemDelete key ns) nb =
     (MemDeleted (key \<in> fst ` set (nb ns)), nb(ns := filter (\<lambda>e. fst e \<noteq> key) (nb ns)))"

fun memStep :: "memOp \<Rightarrow> inMemoryMemoryStore \<Rightarrow> memResp \<times> inMemoryMemoryStore" where
  "memStep (MemPut now item ns) s = (MemOk, putMemory now item ns s)"
| "memStep (MemList q limit ns) s = map_prod (\<lambda>out. MemItems (map sm_Item out)) id (listMemories q limit ns s)"
| "memStep (MemDelete key ns) s = map_prod MemDeleted id (deleteMemory key ns s)"

fun runOps :: "('op \<Rightarrow> 's \<Rightarrow> 'r \<times> 's) \<Rightarrow> 'op list \<Rightarrow> 's \<Rightarrow> 'r list \<times> 's" where
  "runOps stp [] s = ([], s)"
| "runOps stp (op # ops) s = (let (r, s1) = stp op s; (rs, s2) = runOps stp ops s1 in (r # rs, s2))"

definition nsOf :: "inMemoryMemoryStore \<Rightarrow> string \<Rightarrow> nsMemory" where
  "nsOf s ns = (case ims_ns s ns of Some m \<Rightarrow> m | None \<Rightarrow> newNSMemory)"

definition nsEntries :: "nsMemory \<Rightarrow> (string \<times> memoryItem) list" where
  "nsEntries m = map (\<lambda>k. (k, the (nm_items m k))) (nm_order m)"

definition notebookOf :: "inMemoryMemoryStore \<Rightarrow> notebook" where
  "notebookOf s ns = nsEntries (nsOf s ns)"

definition memInv :: "inMemoryMemoryStore \<Rightarrow> bool" where
  "memInv s \<longleftrightarrow> (\<forall>ns. nsInv (nsOf s ns))"

lemma memBucket_eq: "memBucket ns s = (nsOf s ns, s\<lparr>ims_ns := (ims_ns s)(ns \<mapsto> nsOf s ns)\<rparr>)"
  by (auto simp: memBucket_def nsOf_def fun_upd_idem split: option.split)

lemma nsOf_upd: "nsOf (s\<lparr>ims_ns := (ims_ns s)(ns \<mapsto> m)\<rparr>) = (nsOf s)(ns := m)"
  by (auto simp: nsOf_def fun_eq_iff)

lemma nsEntries_put:
  assumes "nsInv m"
  shows "nsEntries (nsPut mx k v m) = fifoPut (memCap mx) k v (nsEntries m)"
  using memns.entries_put [of "(mx, m)" k v] assms by (simp add: memns.entries_def nsEntries_def)

lemma nsEntries_delete:
  assumes "nsInv m"
  shows "fst (nsDelete k m) \<longleftrightarrow> k \<in> fst ` set (nsEntries m)"
    and "nsEntries (snd (nsDelete k m)) = filter (\<lambda>e. fst e \<noteq> k) (nsEntries m)"
    and "nsInv (snd (nsDelete k m))"
proof -
  have inv: "distinct (nm_order m)" "set (nm_order m) = dom (nm_items m)" using assms by (simp_all add: nsInv_def)
  have keys: "fst ` set (nsEntries m) = dom (nm_items m)"
    unfolding inv(2) [symmetric] by (force simp: nsEntries_def)
  then show "fst (nsDelete k m) \<longleftrightarrow> k \<in> fst ` set (nsEntries m)"
    unfolding keys by (auto simp: nsDelete_def)
  have rm: "remove1 k (nm_order m) = filter (\<lambda>j. j \<noteq> k) (nm_order m)"
    using inv(1) by (simp add: distinct_remove1_removeAll removeAll_filter_not_eq eq_commute)
  show "nsEntries (snd (nsDelete k m)) = filter (\<lambda>e. fst e \<noteq> k) (nsEntries m)"
  proof (cases "nm_items m k = None")
    case True
    then have "k \<notin> set (nm_order m)" using inv(2) by auto
    then have "filter (\<lambda>e. fst e \<noteq> k) (nsEntries m) = nsEntries m"
      by (intro filter_True) (auto simp: nsEntries_def)
    with True show ?thesis by (simp add: nsDelete_def)
  next
    case False
    then show ?thesis by (auto simp: nsDelete_def nsEntries_def rm filter_map comp_def)
  qed
  show "nsInv (snd (nsDelete k m))" using inv by (auto simp: nsDelete_def nsInv_def rm)
qed

lemma listLoop_eq:
  assumes "\<forall>k\<in>set ks. items k \<noteq> None"
  shows "map sm_Item (listLoop q limit items ks out) =
    (let found = filter (memMatches q) (map (\<lambda>k. the (items k)) ks)
     in map sm_Item out @ (if limit > 0 then take (nat limit - length out) found else found))"
  using assms
proof (induction q limit items ks out rule: listLoop.induct)
  case (2 q limit items k ks out)
  show ?case
  proof (cases "limit > 0 \<and> int (length out) \<ge> limit")
    case True
    then have "nat limit - length out = 0" by linarith
    with True show ?thesis by (simp add: Let_def)
  next
    case False
    from "2.prems" obtain i where i: "items k = Some i" by auto
    have "limit > 0 \<Longrightarrow> nat limit - length out = Suc (nat limit - Suc (length out))" using False by linarith
    with False i "2.IH" [OF False refl] "2.prems" show ?thesis by (auto simp: Let_def)
  qed
qed simp

lemma memStep_refines:
  assumes "memInv s"
  shows "memInv (snd (memStep op s))"
    and "fst (memStep op s) = fst (notebookStep (ims_maxEntries s) op (notebookOf s))"
    and "notebookOf (snd (memStep op s)) = snd (notebookStep (ims_maxEntries s) op (notebookOf s))"
    and "ims_maxEntries (snd (memStep op s)) = ims_maxEntries s"
proof -
  have inv: "nsInv (nsOf s ns)" for ns using assms by (simp add: memInv_def)
  have "memInv (snd (memStep op s)) \<and>
    fst (memStep op s) = fst (notebookStep (ims_maxEntries s) op (notebookOf s)) \<and>
    notebookOf (snd (memStep op s)) = snd (notebookStep (ims_maxEntries s) op (notebookOf s)) \<and>
    ims_maxEntries (snd (memStep op s)) = ims_maxEntries s"
  proof (cases op)
    case (MemPut now item ns)
    have key: "mi_Key (stamped now item) = mi_Key item" by (simp add: stamped_def)
    have "putMemory now item ns s
      = s\<lparr>ims_ns := (ims_ns s)(ns \<mapsto> nsPut (ims_maxEntries s) (mi_Key item) (stamped now item) (nsOf s ns))\<rparr>"
      unfolding putMemory_def memBucket_eq Let_def stamped_def [symmetric] key by simp
    with inv show ?thesis
      by (simp add: MemPut memInv_def nsOf_upd nsInv_put notebookOf_def fun_eq_iff nsEntries_put)
  next
    case (MemList q limit ns)
    have "\<forall>k\<in>set (nm_order (nsOf s ns)). nm_items (nsOf s ns) k \<noteq> None"
      using inv [of ns] by (auto simp: nsInv_def)
    from listLoop_eq [OF this] inv show ?thesis
      by (simp add: MemList memInv_def listMemories_def memBucket_eq nsOf_upd notebookOf_def fun_eq_iff
          nsEntries_def comp_def Let_def)
  next
    case (MemDelete k ns)
    obtain del m' where del: "nsDelete k (nsOf s ns) = (del, m')" by fastforce
    with nsEntries_delete [OF inv, of k ns] inv show ?thesis
      by (simp add: MemDelete memInv_def deleteMemory_def memBucket_eq nsOf_upd notebookOf_def fun_eq_iff Let_def)
  qed
  then show "memInv (snd (memStep op s))"
    and "fst (memStep op s) = fst (notebookStep (ims_maxEntries s) op (notebookOf s))"
    and "notebookOf (snd (memStep op s)) = snd (notebookStep (ims_maxEntries s) op (notebookOf s))"
    and "ims_maxEntries (snd (memStep op s)) = ims_maxEntries s"
    by auto
qed

lemma memRun_refines:
  "memInv s \<Longrightarrow> fst (runOps memStep ops s) = fst (runOps (notebookStep (ims_maxEntries s)) ops (notebookOf s))"
proof (induction ops arbitrary: s)
  case (Cons op ops)
  from Cons.IH [OF memStep_refines(1) [OF Cons.prems, of op]] memStep_refines(2-4) [OF Cons.prems, of op]
  show ?case by (simp add: split_beta Let_def)
qed simp

text \<open>
  C12: the memory store is a notebook per namespace. Any sequence of puts, listings and deletions on a
  store bounded by \<open>n\<close> notes (unbounded when \<open>n\<close> is not positive) gives the answers of the
  specification: notes are listed in the order they were first saved, filtered by a case-insensitive
  query and cut at the limit; saving over a key keeps its place; the oldest note is dropped when a
  namespace is full; and no operation is visible in another namespace.
\<close>

theorem memory_store_refines_notebook:
  "fst (runOps memStep ops (newInMemoryMemoryStore [withMaxMemories n]))
   = fst (runOps (notebookStep (max n 0)) ops (\<lambda>ns. []))"
proof -
  let ?s = "newInMemoryMemoryStore [withMaxMemories n]"
  have "ims_ns ?s = Map.empty" "ims_maxEntries ?s = max n 0"
    by (simp_all add: newInMemoryMemoryStore_def withMaxMemories_def)
  then have "memInv ?s" "notebookOf ?s = (\<lambda>ns. [])" "ims_maxEntries ?s = max n 0"
    by (simp_all add: memInv_def nsOf_def nsInv_new notebookOf_def nsEntries_def newNSMemory_def fun_eq_iff)
      (simp add: nsInv_def)
  with memRun_refines [of ?s ops] show ?thesis by simp
qed

subsection \<open>The memory source\<close>

text \<open>The \<^verbatim>\<open>MemoryStore\<close> interface on a world, and the in-memory store as one.\<close>

record 'w memoryStore =
  mst_Put :: "memoryItem \<Rightarrow> string \<Rightarrow> 'w \<Rightarrow> goerr option \<times> 'w"
  mst_List :: "string \<Rightarrow> int \<Rightarrow> string \<Rightarrow> 'w \<Rightarrow> (goerr + scoredMemory list) \<times> 'w"
  mst_Delete :: "string \<Rightarrow> string \<Rightarrow> 'w \<Rightarrow> (goerr + bool) \<times> 'w"

definition inMemoryMem :: "gotime \<Rightarrow> inMemoryMemoryStore memoryStore" where
  "inMemoryMem now =
     \<lparr>mst_Put = (\<lambda>item ns s. (None, putMemory now item ns s)),
      mst_List = (\<lambda>q limit ns s. map_prod Inr id (listMemories q limit ns s)),
      mst_Delete = (\<lambda>key ns s. map_prod Inr id (deleteMemory key ns s))\<rparr>"

record 'w memorySource =
  mso_store :: "'w memoryStore"
  mso_fs :: "'w funcSource"
  mso_nsFn :: "('w \<Rightarrow> string) option"

definition withMemoryNamespaceFunc :: "('w \<Rightarrow> string) option \<Rightarrow> 'w memorySource \<Rightarrow> 'w memorySource" where
  "withMemoryNamespaceFunc fn m = m\<lparr>mso_nsFn := fn\<rparr>"

definition memNs :: "'w memorySource \<Rightarrow> 'w \<Rightarrow> string" where
  "memNs m w = (case mso_nsFn m of Some fn \<Rightarrow> fn w | None \<Rightarrow> [])"

definition renderMemories :: "memoryItem list \<Rightarrow> string" where
  "renderMemories items = strJoin (map (\<lambda>it. ''- '' @ mi_Key it @ '': '' @ mi_Value it) items) [newline]"

text \<open>\<open>rnd\<close> draws bytes from \<^verbatim>\<open>crypto/rand\<close>.\<close>

definition randHex :: "(nat \<Rightarrow> 'w \<Rightarrow> string \<times> 'w) \<Rightarrow> nat \<Rightarrow> 'w \<Rightarrow> string \<times> 'w" where
  "randHex rnd n w = map_prod hexEncode id (rnd n w)"

definition remember ::
  "(nat \<Rightarrow> 'w \<Rightarrow> string \<times> 'w) \<Rightarrow> 'w memorySource \<Rightarrow> string \<times> string \<Rightarrow> 'w \<Rightarrow> (goerr + string) \<times> 'w" where
  "remember rnd m rq w =
     (let (key, w1) = (if trimSpace (fst rq) = [] then map_prod ((@) ''mem-'') id (randHex rnd 4 w)
                       else (trimSpace (fst rq), w))
      in case mst_Put (mso_store m) \<lparr>mi_Key = key, mi_Value = snd rq, mi_CreatedAt = 0\<rparr> (memNs m w1) w1 of
           (Some e, w2) \<Rightarrow> (Inl e, w2)
         | (None, w2) \<Rightarrow> (Inr (''remembered: '' @ key), w2))"

definition recall :: "'w memorySource \<Rightarrow> string \<Rightarrow> 'w \<Rightarrow> (goerr + string) \<times> 'w" where
  "recall m query w =
     (case mst_List (mso_store m) query 0 (memNs m w) w of
        (Inl e, w1) \<Rightarrow> (Inl e, w1)
      | (Inr items, w1) \<Rightarrow>
          (Inr (if items = [] then (if query = [] then ''working memory is empty'' else ''no memories match '' @ query)
                else renderMemories (map sm_Item items)), w1))"

definition forget :: "'w memorySource \<Rightarrow> string \<Rightarrow> 'w \<Rightarrow> (goerr + string) \<times> 'w" where
  "forget m key w =
     (case mst_Delete (mso_store m) key (memNs m w) w of
        (Inl e, w1) \<Rightarrow> (Inl e, w1)
      | (Inr del, w1) \<Rightarrow> (Inr (if del then ''forgot: '' @ key else ''no memory with key '' @ key), w1))"

text \<open>
  \<^verbatim>\<open>NewMemorySource\<close> registers the three tools; the decoders convert the arguments of each.
\<close>

definition memTool :: "string \<Rightarrow> string \<Rightarrow> bool \<Rightarrow> toolDef" where
  "memTool name desc ro = \<lparr>td_Name = name, td_Description = desc,
     td_Annotations = (if ro then [(''readOnlyHint'', ABool True)] else [])\<rparr>"

definition newMemorySource ::
  "(toolArgs \<Rightarrow> goerr + string \<times> string) \<Rightarrow> (toolArgs \<Rightarrow> goerr + string) \<Rightarrow> (toolArgs \<Rightarrow> goerr + string) \<Rightarrow>
   (nat \<Rightarrow> 'w \<Rightarrow> string \<times> 'w) \<Rightarrow> 'w memoryStore \<Rightarrow> ('w memorySource \<Rightarrow> 'w memorySource) list \<Rightarrow>
   goerr + 'w memorySource" where
  "newMemorySource decRemember decRecall decForget rnd store opts =
     (let m = foldl (\<lambda>m opt. opt m) \<lparr>mso_store = store, mso_fs = newFuncSource, mso_nsFn = None\<rparr> opts
      in case addToolFunc (memTool ''remember'' ''Save a note to your working memory so you can recall it on a later turn. Provide a short key to label it (optional; used to update or forget it later) and the value to store.'' False)
                (wrapFunc decRemember (remember rnd m)) (mso_fs m) of
           (Some e, _) \<Rightarrow> Inl e
         | (None, fs1) \<Rightarrow>
             (case addToolFunc (memTool ''recall'' ''Read from your working memory. Optionally pass a query to filter notes by a substring of the key or value; omit it to list everything you have stored.'' True)
                     (wrapFunc decRecall (recall m)) fs1 of
                (Some e, _) \<Rightarrow> Inl e
              | (None, fs2) \<Rightarrow>
                  (case addToolFunc (memTool ''forget'' ''Delete a note from your working memory by its key.'' False)
                          (wrapFunc decForget (forget m)) fs2 of
                     (Some e, _) \<Rightarrow> Inl e
                   | (None, fs3) \<Rightarrow> Inr (m\<lparr>mso_fs := fs3\<rparr>))))"

definition memSourceTools :: "'w memorySource \<Rightarrow> 'w \<Rightarrow> goerr + toolDef list" where
  "memSourceTools m w = funcTools (mso_fs m) w"

definition memSourceCall :: "'w memorySource \<Rightarrow> string \<Rightarrow> toolArgs \<Rightarrow> 'w \<Rightarrow> callResult \<times> 'w" where
  "memSourceCall m name args w = funcCall (mso_fs m) name args w"

record summaryOptions =
  so_MaxItems :: int
  so_MaxChars :: int

text \<open>The loop that drops the oldest note while the text is too long.\<close>

fun dropOldest :: "int \<Rightarrow> memoryItem list \<Rightarrow> memoryItem list" where
  "dropOldest mx [] = []"
| "dropOldest mx (it # items) =
     (if int (length (renderMemories (it # items))) > mx then dropOldest mx items else it # items)"

definition budgetMemories :: "memoryItem list \<Rightarrow> summaryOptions \<Rightarrow> memoryItem list" where
  "budgetMemories items opts =
     (let kept = (if so_MaxItems opts > 0 \<and> int (length items) > so_MaxItems opts
                  then drop (length items - nat (so_MaxItems opts)) items else items)
      in if so_MaxChars opts > 0 then dropOldest (so_MaxChars opts) kept else kept)"

definition memSummary :: "'w memorySource \<Rightarrow> summaryOptions \<Rightarrow> 'w \<Rightarrow> (goerr + string) \<times> 'w" where
  "memSummary m opts w =
     (case mst_List (mso_store m) [] 0 (memNs m w) w of
        (Inl e, w1) \<Rightarrow> (Inl e, w1)
      | (Inr found, w1) \<Rightarrow>
          (let items = budgetMemories (map sm_Item found) opts
           in (Inr (if items = [] then []
                    else ''Working memory (notes you saved earlier):'' @ [newline] @ renderMemories items), w1)))"

record recallOptions =
  ro_TopK :: int
  ro_MinScore :: rat

abbreviation "defaultRecallTopK \<equiv> 5 :: int"

definition recallRelevant :: "'w memorySource \<Rightarrow> string \<Rightarrow> recallOptions \<Rightarrow> 'w \<Rightarrow> (goerr + string) \<times> 'w" where
  "recallRelevant m query opts w =
     (if trimSpace query = [] then (Inr [], w)
      else case mst_List (mso_store m) query (if ro_TopK opts \<le> 0 then defaultRecallTopK else ro_TopK opts) (memNs m w) w of
             (Inl e, w1) \<Rightarrow> (Inl e, w1)
           | (Inr found, w1) \<Rightarrow>
               (let kept = map sm_Item (filter (\<lambda>sm. \<not> sm_Score sm < ro_MinScore opts) found)
                in (Inr (if kept = [] then []
                         else ''Relevant to the current message (from your memory):'' @ [newline] @ renderMemories kept), w1)))"

subsection \<open>The summary stays within its budget\<close>

definition fitsBudget :: "summaryOptions \<Rightarrow> memoryItem list \<Rightarrow> bool" where
  "fitsBudget opts items \<longleftrightarrow>
     (so_MaxItems opts > 0 \<longrightarrow> int (length items) \<le> so_MaxItems opts) \<and>
     (so_MaxChars opts > 0 \<longrightarrow> int (length (renderMemories items)) \<le> so_MaxChars opts)"

lemma render_Cons_longer: "length (renderMemories items) < length (renderMemories (it # items))"
  by (cases items) (simp_all add: renderMemories_def)

lemma render_suffix_shorter: "length (renderMemories (drop n items)) \<le> length (renderMemories items)"
proof (induction n arbitrary: items)
  case (Suc n)
  show ?case
  proof (cases items)
    case (Cons it rest)
    with Suc.IH [of rest] render_Cons_longer [of rest it] show ?thesis by simp
  qed simp
qed simp

lemma dropOldest_suffix:
  "\<exists>n. dropOldest mx items = drop n items \<and> n \<le> length items \<and>
     (n < length items \<longrightarrow> int (length (renderMemories (drop n items))) \<le> mx) \<and>
     (\<forall>k<n. mx < int (length (renderMemories (drop k items))))"
proof (induction mx items rule: dropOldest.induct)
  case (2 mx it items)
  show ?case
  proof (cases "int (length (renderMemories (it # items))) > mx")
    case True
    from "2.IH" [OF True] obtain n where n: "dropOldest mx items = drop n items" "n \<le> length items"
      "n < length items \<longrightarrow> int (length (renderMemories (drop n items))) \<le> mx"
      "\<forall>k<n. mx < int (length (renderMemories (drop k items)))" by blast
    with True have "\<forall>k<Suc n. mx < int (length (renderMemories (drop k (it # items))))"
      by (auto simp: less_Suc_eq_0_disj)
    with n True show ?thesis by (intro exI [of _ "Suc n"]) auto
  next
    case False
    then show ?thesis by (intro exI [of _ 0]) auto
  qed
qed (simp add: renderMemories_def)

lemma budgetMemories_suffix:
  "\<exists>n. budgetMemories items opts = drop n items \<and> n \<le> length items \<and> fitsBudget opts (drop n items) \<and>
     (\<forall>k<n. \<not> fitsBudget opts (drop k items))"
proof -
  let ?d = "if so_MaxItems opts > 0 \<and> int (length items) > so_MaxItems opts
            then length items - nat (so_MaxItems opts) else 0"
  have kept: "budgetMemories items opts
      = (if so_MaxChars opts > 0 then dropOldest (so_MaxChars opts) (drop ?d items) else drop ?d items)"
    by (simp add: budgetMemories_def Let_def)
  have few: "so_MaxItems opts > 0 \<longrightarrow> int (length (drop (j + ?d) items)) \<le> so_MaxItems opts" for j
    by auto
  have many: "\<not> fitsBudget opts (drop k items)" if "k < ?d" for k
    using that by (auto simp: fitsBudget_def split: if_splits)
  show ?thesis
  proof (cases "so_MaxChars opts > 0")
    case True
    obtain n where n: "dropOldest (so_MaxChars opts) (drop ?d items) = drop n (drop ?d items)"
      "n \<le> length (drop ?d items)"
      "n < length (drop ?d items) \<longrightarrow> int (length (renderMemories (drop n (drop ?d items)))) \<le> so_MaxChars opts"
      "\<forall>k<n. so_MaxChars opts < int (length (renderMemories (drop k (drop ?d items))))"
      using dropOldest_suffix [of "so_MaxChars opts" "drop ?d items"] by blast
    have "\<not> fitsBudget opts (drop k items)" if "k < n + ?d" for k
    proof (cases "k < ?d")
      case False
      with that have "k - ?d < n" "drop (k - ?d) (drop ?d items) = drop k items" by simp_all
      with n(4) True show ?thesis by (auto simp: fitsBudget_def not_le)
    qed (rule many)
    moreover have "fitsBudget opts (drop (n + ?d) items)"
      using n(2,3) True few [of n] unfolding fitsBudget_def
      by (cases "n < length (drop ?d items)") (simp_all add: renderMemories_def del: if_split)
    ultimately show ?thesis
      using kept True n(1,2) by (intro exI [of _ "n + ?d"]) (auto simp: drop_drop)
  next
    case False
    with few [of 0] many kept show ?thesis
      by (intro exI [of _ ?d]) (auto simp: fitsBudget_def)
  qed
qed

text \<open>
  The summary keeps the newest notes that fit. The text \<^verbatim>\<open>Summary\<close> puts in the prompt renders a
  suffix of the namespace's notes that respects both budgets, and every longer suffix breaks one of them.
\<close>

lemma memory_summary_within_budget:
  assumes "mso_store m = inMemoryMem now"
  shows "\<exists>n. let items = map sm_Item (fst (listMemories [] 0 (memNs m s) s)) in
     fst (memSummary m opts s)
       = Inr (if n = length items then []
              else ''Working memory (notes you saved earlier):'' @ [newline] @ renderMemories (drop n items)) \<and>
     n \<le> length items \<and> fitsBudget opts (drop n items) \<and> (\<forall>k<n. \<not> fitsBudget opts (drop k items))"
proof -
  obtain found s1 where l: "listMemories [] 0 (memNs m s) s = (found, s1)" by fastforce
  obtain n where n: "budgetMemories (map sm_Item found) opts = drop n (map sm_Item found)"
    "n \<le> length found" "fitsBudget opts (drop n (map sm_Item found))"
    "\<forall>k<n. \<not> fitsBudget opts (drop k (map sm_Item found))"
    using budgetMemories_suffix [of "map sm_Item found" opts] by auto
  have "fst (memSummary m opts s)
      = Inr (if n = length found then []
             else ''Working memory (notes you saved earlier):'' @ [newline] @ renderMemories (drop n (map sm_Item found)))"
    using n(1,2) by (simp add: memSummary_def assms inMemoryMem_def l Let_def)
  with n(2-4) show ?thesis by (intro exI [of _ n]) (simp add: l Let_def)
qed

definition exMemSource :: "inMemoryMemoryStore memorySource" where
  "exMemSource = \<lparr>mso_store = inMemoryMem 7, mso_fs = newFuncSource, mso_nsFn = None\<rparr>"

definition exMemState :: inMemoryMemoryStore where
  "exMemState = putMemory 7 \<lparr>mi_Key = ''b'', mi_Value = ''two'', mi_CreatedAt = 0\<rparr> []
     (putMemory 6 \<lparr>mi_Key = ''a'', mi_Value = ''one'', mi_CreatedAt = 0\<rparr> [] (newInMemoryMemoryStore []))"

theorem memory_summary_within_budget_witness:
  "fst (memSummary exMemSource \<lparr>so_MaxItems = 5, so_MaxChars = 10\<rparr> exMemState)
     = Inr (''Working memory (notes you saved earlier):'' @ [newline] @ ''- b: two'') \<and>
   (\<exists>n. let items = map sm_Item (fst (listMemories [] 0 (memNs exMemSource exMemState) exMemState)) in
     fst (memSummary exMemSource \<lparr>so_MaxItems = 5, so_MaxChars = 10\<rparr> exMemState)
       = Inr (if n = length items then []
              else ''Working memory (notes you saved earlier):'' @ [newline] @ renderMemories (drop n items)) \<and>
     fitsBudget \<lparr>so_MaxItems = 5, so_MaxChars = 10\<rparr> (drop n items))"
proof
  show "fst (memSummary exMemSource \<lparr>so_MaxItems = 5, so_MaxChars = 10\<rparr> exMemState)
     = Inr (''Working memory (notes you saved earlier):'' @ [newline] @ ''- b: two'')"
    by code_simp
  have "mso_store exMemSource = inMemoryMem 7" by (simp add: exMemSource_def)
  from memory_summary_within_budget [OF this, of exMemState "\<lparr>so_MaxItems = 5, so_MaxChars = 10\<rparr>"]
  show "\<exists>n. let items = map sm_Item (fst (listMemories [] 0 (memNs exMemSource exMemState) exMemState)) in
     fst (memSummary exMemSource \<lparr>so_MaxItems = 5, so_MaxChars = 10\<rparr> exMemState)
       = Inr (if n = length items then []
              else ''Working memory (notes you saved earlier):'' @ [newline] @ renderMemories (drop n items)) \<and>
     fitsBudget \<lparr>so_MaxItems = 5, so_MaxChars = 10\<rparr> (drop n items)"
    unfolding Let_def by blast
qed

end
