(* ===== verification/SemanticMemory.thy ===== *)
theory SemanticMemory
  imports Memory "HOL-Library.Multiset"
begin

text \<open>
  The semantic memory store (\<^verbatim>\<open>src/semantic_memory.go\<close>): notes with their embeddings, listed by
  similarity to a query. \<open>embedder\<close> is the \<^verbatim>\<open>Embedder\<close>; \<open>raw\<close> is the floating-point quotient of
  \<^verbatim>\<open>Embedding.Cosine\<close> on vectors of one length, read as the number it denotes. Tracing is left out.
\<close>

type_synonym 'f embedding = "'f list"

definition cosine :: "('f embedding \<Rightarrow> 'f embedding \<Rightarrow> rat) \<Rightarrow> 'f embedding \<Rightarrow> 'f embedding \<Rightarrow> rat" where
  "cosine raw a b = (if length a \<noteq> length b then 0 else raw a b)"

record 'f nsSemantic =
  sn_items :: "string \<rightharpoonup> memoryItem"
  sn_vecs :: "string \<rightharpoonup> 'f embedding"
  sn_order :: "string list"

definition newNSSemantic :: "'f nsSemantic" where
  "newNSSemantic = \<lparr>sn_items = Map.empty, sn_vecs = Map.empty, sn_order = []\<rparr>"

record 'f semanticStore =
  ss_ns :: "string \<rightharpoonup> 'f nsSemantic"
  ss_maxEntries :: int

definition withSemanticMaxMemories :: "int \<Rightarrow> 'f semanticStore \<Rightarrow> 'f semanticStore" where
  "withSemanticMaxMemories n s = (if n > 0 then s\<lparr>ss_maxEntries := n\<rparr> else s)"

definition newSemanticStore :: "('f semanticStore \<Rightarrow> 'f semanticStore) list \<Rightarrow> 'f semanticStore" where
  "newSemanticStore opts = foldl (\<lambda>s opt. opt s) \<lparr>ss_ns = Map.empty, ss_maxEntries = 0\<rparr> opts"

definition semBucket :: "string \<Rightarrow> 'f semanticStore \<Rightarrow> 'f nsSemantic \<times> 'f semanticStore" where
  "semBucket ns s =
     (case ss_ns s ns of
        Some m \<Rightarrow> (m, s)
      | None \<Rightarrow> (newNSSemantic, s\<lparr>ss_ns := (ss_ns s)(ns \<mapsto> newNSSemantic)\<rparr>))"

text \<open>The eviction loop removes the oldest key from the items and the vectors alike.\<close>

definition semNsPut :: "int \<Rightarrow> string \<Rightarrow> memoryItem \<times> 'f embedding \<Rightarrow> 'f nsSemantic \<Rightarrow> 'f nsSemantic" where
  "semNsPut mx key iv m =
     (let ks = sn_order m @ [key];
          m1 = (if sn_items m key \<noteq> None then m
                else if mx > 0 then
                  m\<lparr>sn_order := fst (evictOldest mx ks (sn_items m)),
                    sn_items := snd (evictOldest mx ks (sn_items m)),
                    sn_vecs := snd (evictOldest mx ks (sn_vecs m))\<rparr>
                else m\<lparr>sn_order := ks\<rparr>)
      in m1\<lparr>sn_items := (sn_items m1)(key \<mapsto> fst iv), sn_vecs := (sn_vecs m1)(key \<mapsto> snd iv)\<rparr>)"

definition semPutMemory ::
  "(string list \<Rightarrow> 'w \<Rightarrow> (goerr + 'f embedding list) \<times> 'w) \<Rightarrow> gotime \<Rightarrow> memoryItem \<Rightarrow> string \<Rightarrow>
   'f semanticStore \<Rightarrow> 'w \<Rightarrow> goerr option \<times> 'f semanticStore \<times> 'w" where
  "semPutMemory embedder now item0 ns s w =
     (let item = stamped now item0
      in case embedder [mi_Key item @ '' '' @ mi_Value item] w of
           (Inl e, w1) \<Rightarrow> (Some (Errorf ''agent: embedding memory %q: %w'' [mi_Key item] (Some e)), s, w1)
         | (Inr vecs, w1) \<Rightarrow>
             (let vec = (case vecs of v # _ \<Rightarrow> v | [] \<Rightarrow> []);
                  (m, s1) = semBucket ns s
              in (None, s1\<lparr>ss_ns := (ss_ns s1)(ns \<mapsto> semNsPut (ss_maxEntries s1) (mi_Key item) (item, vec) m)\<rparr>, w1)))"

definition semItem :: "'f nsSemantic \<Rightarrow> string \<Rightarrow> memoryItem" where
  "semItem m k = (case sn_items m k of Some i \<Rightarrow> i | None \<Rightarrow> zeroMemoryItem)"

definition semVec :: "'f nsSemantic \<Rightarrow> string \<Rightarrow> 'f embedding" where
  "semVec m k = (case sn_vecs m k of Some v \<Rightarrow> v | None \<Rightarrow> [])"

definition semListAll :: "string \<Rightarrow> int \<Rightarrow> 'f semanticStore \<Rightarrow> scoredMemory list \<times> 'f semanticStore" where
  "semListAll ns limit s =
     (let (m, s1) = semBucket ns s;
          all = map (\<lambda>k. \<lparr>sm_Item = semItem m k, sm_Score = 0\<rparr>) (sn_order m)
      in (if limit > 0 then take (nat limit) all else all, s1))"

text \<open>\<^verbatim>\<open>sort.SliceStable\<close> by descending score is the stable sort by the negated score.\<close>

definition semScored ::
  "('f embedding \<Rightarrow> 'f embedding \<Rightarrow> rat) \<Rightarrow> 'f embedding \<Rightarrow> 'f nsSemantic \<Rightarrow> scoredMemory list" where
  "semScored raw q m = map (\<lambda>k. \<lparr>sm_Item = semItem m k, sm_Score = cosine raw q (semVec m k)\<rparr>) (sn_order m)"

definition semListMemories ::
  "('f embedding \<Rightarrow> 'f embedding \<Rightarrow> rat) \<Rightarrow> (string list \<Rightarrow> 'w \<Rightarrow> (goerr + 'f embedding list) \<times> 'w) \<Rightarrow>
   string \<Rightarrow> int \<Rightarrow> string \<Rightarrow> 'f semanticStore \<Rightarrow> 'w \<Rightarrow>
   (goerr + scoredMemory list) \<times> 'f semanticStore \<times> 'w" where
  "semListMemories raw embedder query limit ns s w =
     (if query = [] then (case semListAll ns limit s of (out, s1) \<Rightarrow> (Inr out, s1, w))
      else case embedder [query] w of
             (Inl e, w1) \<Rightarrow> (Inl (Errorf ''agent: embedding query: %w'' [] (Some e)), s, w1)
           | (Inr qvecs, w1) \<Rightarrow>
               (let q = (case qvecs of v # _ \<Rightarrow> v | [] \<Rightarrow> []);
                    (m, s1) = semBucket ns s;
                    scored = sort_key (\<lambda>sm. - sm_Score sm) (semScored raw q m)
                in (Inr (if limit > 0 \<and> int (length scored) > limit then take (nat limit) scored else scored), s1, w1)))"

definition semNsDelete :: "string \<Rightarrow> 'f nsSemantic \<Rightarrow> bool \<times> 'f nsSemantic" where
  "semNsDelete key m =
     (if sn_items m key = None then (False, m)
      else (True, m\<lparr>sn_items := (sn_items m)(key := None), sn_vecs := (sn_vecs m)(key := None),
                    sn_order := remove1 key (sn_order m)\<rparr>))"

definition semDeleteMemory :: "string \<Rightarrow> string \<Rightarrow> 'f semanticStore \<Rightarrow> bool \<times> 'f semanticStore" where
  "semDeleteMemory key ns s =
     (let (m, s1) = semBucket ns s; (del, m') = semNsDelete key m
      in (del, s1\<lparr>ss_ns := (ss_ns s1)(ns \<mapsto> m')\<rparr>))"

subsection \<open>The namespace as a bounded store\<close>

definition semInv :: "'f nsSemantic \<Rightarrow> bool" where
  "semInv m \<longleftrightarrow> distinct (sn_order m) \<and> set (sn_order m) = dom (sn_items m) \<and> dom (sn_vecs m) = dom (sn_items m)"

definition semLook :: "'f nsSemantic \<Rightarrow> string \<Rightarrow> (memoryItem \<times> 'f embedding) option" where
  "semLook m k = (case (sn_items m k, sn_vecs m k) of (Some i, Some v) \<Rightarrow> Some (i, v) | _ \<Rightarrow> None)"

lemma semNsPut_old:
  "sn_items m k = Some u \<Longrightarrow>
   semNsPut mx k iv m = m\<lparr>sn_items := (sn_items m)(k \<mapsto> fst iv), sn_vecs := (sn_vecs m)(k \<mapsto> snd iv)\<rparr>"
  by (simp add: semNsPut_def)

lemma semNsPut_new:
  assumes "semInv m" "sn_items m k = None"
  shows "sn_order (semNsPut mx k iv m) = lastN (memCap mx) (sn_order m @ [k])"
    and "sn_items (semNsPut mx k iv m) = ((sn_items m)(k \<mapsto> fst iv)) |` set (sn_order (semNsPut mx k iv m))"
    and "sn_vecs (semNsPut mx k iv m) = ((sn_vecs m)(k \<mapsto> snd iv)) |` set (sn_order (semNsPut mx k iv m))"
proof -
  have inv: "distinct (sn_order m)" "set (sn_order m) = dom (sn_items m)" "set (sn_order m) = dom (sn_vecs m)"
    using assms(1) by (simp_all add: semInv_def)
  have vk: "sn_vecs m k = None" using inv(2,3) assms(2) by auto
  have "sn_order (semNsPut mx k iv m) = lastN (memCap mx) (sn_order m @ [k]) \<and>
    sn_items (semNsPut mx k iv m) = ((sn_items m)(k \<mapsto> fst iv)) |` set (sn_order (semNsPut mx k iv m)) \<and>
    sn_vecs (semNsPut mx k iv m) = ((sn_vecs m)(k \<mapsto> snd iv)) |` set (sn_order (semNsPut mx k iv m))"
  proof (cases "mx > 0")
    case True
    obtain ks items where ei: "evictOldest mx (sn_order m @ [k]) (sn_items m) = (ks, items)" by fastforce
    obtain ks' vecs where ev: "evictOldest mx (sn_order m @ [k]) (sn_vecs m) = (ks', vecs)" by fastforce
    have "ks' = ks" using evict_insert(1) [OF True inv(1,2) assms(2) ei] evict_insert(1) [OF True inv(1,3) vk ev] by simp
    with evict_insert(1) [OF True inv(1,2) assms(2) ei] evict_insert(2) [OF True inv(1,2) assms(2) ei, of "fst iv"]
      evict_insert(2) [OF True inv(1,3) vk ev, of "snd iv"] True ei ev assms(2)
    show ?thesis by (simp add: semNsPut_def memCap_def Let_def)
  next
    case False
    with assms(2) inv(2,3) restrict_insert_dom [of "sn_items m" k "fst iv"] restrict_insert_dom [of "sn_vecs m" k "snd iv"]
    show ?thesis
      by (simp add: semNsPut_def memCap_def lastN_def Let_def)
  qed
  then show "sn_order (semNsPut mx k iv m) = lastN (memCap mx) (sn_order m @ [k])"
    and "sn_items (semNsPut mx k iv m) = ((sn_items m)(k \<mapsto> fst iv)) |` set (sn_order (semNsPut mx k iv m))"
    and "sn_vecs (semNsPut mx k iv m) = ((sn_vecs m)(k \<mapsto> snd iv)) |` set (sn_order (semNsPut mx k iv m))"
    by blast+
qed

lemma semInv_put:
  assumes "semInv m"
  shows "semInv (semNsPut mx k iv m)"
proof (cases "sn_items m k")
  case None
  have "distinct (sn_order m @ [k])" using assms None by (auto simp: semInv_def)
  with semNsPut_new [OF assms None, of mx iv] set_lastN [of "memCap mx" "sn_order m @ [k]"] assms
  show ?thesis
    by (auto simp: semInv_def distinct_lastN split: if_splits)
next
  case (Some u)
  with assms show ?thesis by (auto simp: semNsPut_old semInv_def)
qed

lemma semInv_look: "semInv m \<Longrightarrow> semLook m k = None \<longleftrightarrow> sn_items m k = None"
  by (auto simp: semLook_def semInv_def split: option.split)

interpretation semns: fifo_store "\<lambda>(mx, m). semInv m" "\<lambda>(mx, m). memCap mx" "\<lambda>(mx, m). sn_order m"
    "\<lambda>(mx, m). semLook m" "\<lambda>k v (mx, m). (mx, semNsPut mx k v m)"
proof (unfold_locales, goal_cases)
  case (2 s)
  then have "dom (semLook (snd s)) = dom (sn_items (snd s))"
    using semInv_look [of "snd s"] by (simp add: dom_def split_beta)
  with 2 show ?case by (simp add: semInv_def split_beta)
next
  case (6 s k u v)
  obtain mx m where s: "s = (mx, m)" by fastforce
  with 6 obtain i where "sn_items m k = Some i" by (auto simp: semLook_def split: option.splits)
  with s show ?case by (auto simp: semNsPut_old semLook_def fun_eq_iff)
next
  case (7 s k v)
  obtain mx m where s: "s = (mx, m)" by fastforce
  with 7 have inv: "semInv m" and "sn_items m k = None" using semInv_look [of m k] by auto
  from semNsPut_new [OF this, of mx v] s show ?case
    by (auto simp: semLook_def fun_eq_iff restrict_map_def split: option.split)
next
  case (1 s)
  then show ?case by (auto simp: semInv_def)
qed (auto simp: semInv_put memCap_def split: if_splits)

subsection \<open>Ranking\<close>

lemma take_sorted_best:
  assumes "sorted (map f xs)" "x \<in> set (take n xs)" "y \<in> set (drop n xs)"
  shows "f x \<le> f y"
proof -
  have "sorted (map f (take n xs) @ map f (drop n xs))"
    using assms(1) by (simp add: map_append [symmetric] del: map_append)
  with assms(2,3) show ?thesis by (simp add: sorted_append)
qed

lemma filter_take_eq: "filter P (take n xs) = take (length (filter P (take n xs))) (filter P xs)"
proof -
  have "filter P xs = filter P (take n xs) @ filter P (drop n xs)"
    by (simp add: filter_append [symmetric] del: filter_append)
  then show ?thesis by simp
qed

text \<open>
  A semantic query returns the best notes. When the query can be embedded, the answer is a permuted
  selection of the namespace's notes with their scores, best score first and equal scores in the order
  the notes were saved; a positive limit bounds it, and no note left out scores better than one returned.
\<close>

lemma semantic_query_returns_best:
  assumes "query \<noteq> []" "embedder [query] w = (Inr (q # qs), w1)"
  shows "\<exists>out rest. fst (semListMemories raw embedder query limit ns s w) = Inr out \<and>
     mset (out @ rest) = mset (semScored raw q (fst (semBucket ns s))) \<and>
     sorted_wrt (\<lambda>a b. sm_Score b \<le> sm_Score a) out \<and>
     (\<forall>c. \<exists>n. filter (\<lambda>sm. sm_Score sm = c) out
        = take n (filter (\<lambda>sm. sm_Score sm = c) (semScored raw q (fst (semBucket ns s))))) \<and>
     (limit \<le> 0 \<longrightarrow> rest = []) \<and> (0 < limit \<longrightarrow> int (length out) \<le> limit) \<and>
     (rest \<noteq> [] \<longrightarrow> int (length out) = limit) \<and>
     (\<forall>a\<in>set out. \<forall>b\<in>set rest. sm_Score b \<le> sm_Score a)"
proof -
  let ?all = "semScored raw q (fst (semBucket ns s))"
  let ?sorted = "sort_key (\<lambda>sm. - sm_Score sm) ?all"
  let ?n = "if limit > 0 \<and> int (length ?sorted) > limit then nat limit else length ?sorted"
  have out: "fst (semListMemories raw embedder query limit ns s w) = Inr (take ?n ?sorted)"
    using assms by (simp add: semListMemories_def split_beta Let_def)
  have srt: "sorted (map (\<lambda>sm. - sm_Score sm) ?sorted)" by simp
  have "sorted_wrt (\<lambda>a b. sm_Score b \<le> sm_Score a) (take ?n ?sorted)"
    using srt by (auto simp: sorted_map intro: sorted_wrt_take)
  moreover have "\<exists>n. filter (\<lambda>sm. sm_Score sm = c) (take ?n ?sorted) = take n (filter (\<lambda>sm. sm_Score sm = c) ?all)" for c
  proof -
    have "filter (\<lambda>sm. sm_Score sm = c) ?sorted = filter (\<lambda>sm. sm_Score sm = c) ?all"
      using sort_key_stable [of "\<lambda>sm. - sm_Score sm" "- c" ?all] by simp
    with filter_take_eq [of "\<lambda>sm. sm_Score sm = c" ?n ?sorted] show ?thesis by metis
  qed
  moreover have "mset (take ?n ?sorted @ drop ?n ?sorted) = mset ?all" by (simp del: mset_append)
  moreover have "\<forall>a\<in>set (take ?n ?sorted). \<forall>b\<in>set (drop ?n ?sorted). sm_Score b \<le> sm_Score a"
    using take_sorted_best [OF srt] by fastforce
  moreover have "limit \<le> 0 \<longrightarrow> drop ?n ?sorted = []" "0 < limit \<longrightarrow> int (length (take ?n ?sorted)) \<le> limit"
    "drop ?n ?sorted \<noteq> [] \<longrightarrow> int (length (take ?n ?sorted)) = limit" by auto
  ultimately show ?thesis unfolding out by blast
qed

definition exSemStore :: "bool semanticStore" where
  "exSemStore = (let em = (\<lambda>_ w. (Inr [[True]], w)) in
     fst (snd (semPutMemory em 1 \<lparr>mi_Key = ''a'', mi_Value = ''one'', mi_CreatedAt = 0\<rparr> []
       (newSemanticStore [withSemanticMaxMemories 4]) ())))"

theorem semantic_query_returns_best_witness:
  "\<exists>out rest. fst (semListMemories (\<lambda>a b. if a = b then 1 else 0) (\<lambda>_ w. (Inr [[True]], w)) ''q'' 1 [] exSemStore ()) = Inr out \<and>
     mset (out @ rest) = mset (semScored (\<lambda>a b. if a = b then 1 else 0) [True] (fst (semBucket [] exSemStore))) \<and>
     sorted_wrt (\<lambda>a b. sm_Score b \<le> sm_Score a) out"
proof -
  from semantic_query_returns_best [where query = "''q''" and embedder = "\<lambda>_ w. (Inr [[True]], w)" and w = "()"
      and q = "[True]" and qs = "[]" and raw = "\<lambda>a b. if a = b then 1 else 0" and limit = 1 and ns = "[]" and s = exSemStore]
  show ?thesis by auto
qed

end
