(* ===== verification/SubAgents.thy ===== *)
theory SubAgents
  imports Budget ToolSources Streams
begin

text \<open>
  Sub-agents: \<^verbatim>\<open>src/agent_source.go\<close>, an agent offered as a tool whose call runs a child turn, and
  \<^verbatim>\<open>src/agent_pool.go\<close>, background agents with handles. The child's runner is a parameter \<open>run\<close> of
  the call. In the pool the child's turn runs in a goroutine: a step relation interleaves the critical
  sections of spawning, finishing, cancelling and registering in any order.
\<close>

subsection \<open>An agent as a tool\<close>

abbreviation "defaultMaxAgentDepth \<equiv> 3 :: int"

record agentSource =
  ag_Name :: string
  ag_def :: toolDef
  ag_maxDepth :: int
  ag_InputSchema :: rawjson

text \<open>\<open>schemaOk\<close> says whether the schema text is JSON; \<open>hasRunner\<close> whether a runner was configured.\<close>

definition newAgentSource ::
  "(rawjson \<Rightarrow> goerr option) \<Rightarrow> string \<Rightarrow> string \<Rightarrow> bool \<Rightarrow> int \<Rightarrow> rawjson \<Rightarrow> goerr + agentSource" where
  "newAgentSource schemaOk name desc hasRunner maxDepth schema =
     (if name = [] then Inl (Errorf ''agent: AgentSource requires a Name'' [] None)
      else if \<not> hasRunner then Inl (Errorf ''agent: AgentSource %q requires a Runner'' [name] None)
      else case (if schema = [] then None else schemaOk schema) of
             Some e \<Rightarrow> Inl (Errorf ''agent: schema for AgentSource %q: %w'' [name] (Some e))
           | None \<Rightarrow>
               Inr \<lparr>ag_Name = name, ag_def = \<lparr>td_Name = name, td_Description = desc, td_Annotations = []\<rparr>,
                    ag_maxDepth = (if maxDepth \<le> 0 then defaultMaxAgentDepth else maxDepth),
                    ag_InputSchema = schema\<rparr>)"

definition agentTools :: "agentSource \<Rightarrow> goerr + toolDef list" where
  "agentTools s = Inr [ag_def s]"

text \<open>The context a child turn runs in.\<close>

definition childContext :: "agentContext \<Rightarrow> string \<Rightarrow> agentContext" where
  "childContext ctx name = ctx\<lparr>cx_path := pathChild (cx_path ctx) name, cx_depth := cx_depth ctx + 1\<rparr>"

text \<open>
  \<^verbatim>\<open>Call\<close>. \<open>encode\<close> is \<^verbatim>\<open>json.Marshal\<close> of the arguments and \<open>task\<close> reads the \<^verbatim>\<open>task\<close> field from that
  text. The call budget is an atomic shared with the caller's tree, so the context comes back changed.
\<close>

definition agentSeed ::
  "(rawjson \<Rightarrow> string option) \<Rightarrow> agentSource \<Rightarrow> rawjson \<Rightarrow> string option" where
  "agentSeed task s raw =
     (if ag_InputSchema s \<noteq> [] then Some raw
      else case task raw of
             None \<Rightarrow> None
           | Some t \<Rightarrow> if trimSpace t = [] then None else Some t)"

definition agentCall ::
  "(toolArgs \<Rightarrow> goerr + rawjson) \<Rightarrow> (rawjson \<Rightarrow> string option) \<Rightarrow>
   (agentContext \<Rightarrow> message list \<Rightarrow> 'w \<Rightarrow> (goerr + turnResult) \<times> 'w) \<Rightarrow>
   agentSource \<Rightarrow> string \<Rightarrow> toolArgs \<Rightarrow> agentContext \<Rightarrow> 'w \<Rightarrow> callResult \<times> agentContext \<times> 'w" where
  "agentCall encode task run s name args ctx w =
     (if name \<noteq> ag_Name s then (Inl (unknownTool ''%w: %q'' name), ctx, w)
      else if cx_depth ctx \<ge> ag_maxDepth s then
        (Inr (Some (errorToolResult (render_fmt ''sub-agent %q refused: max depth %d reached''
                      [ag_Name s, itoa (ag_maxDepth s)] []))), ctx, w)
      else case takeCallBudget ctx of
             (False, ctx1) \<Rightarrow>
               (Inr (Some (errorToolResult (render_fmt ''sub-agent %q refused: call budget exhausted'' [ag_Name s] []))), ctx1, w)
           | (True, ctx1) \<Rightarrow>
               (case encode args of
                  Inl e \<Rightarrow> (Inl (Errorf ''agent: encode args for sub-agent %q: %w'' [ag_Name s] (Some e)), ctx1, w)
                | Inr raw \<Rightarrow>
                    (case agentSeed task s raw of
                       None \<Rightarrow> (Inr (Some (errorToolResult (render_fmt (''sub-agent %q requires a non-empty 'task'' @ [CHR 0x27]) [ag_Name s] []))), ctx1, w)
                     | Some seed \<Rightarrow>
                         (case run (childContext ctx1 (ag_Name s)) [textMessage RoleUser seed] w of
                            (Inl e, w1) \<Rightarrow>
                              (Inr (Some (errorToolResult (render_fmt ''sub-agent %q failed: %v'' [ag_Name s, errText e] []))), ctx1, w1)
                          | (Inr res, w1) \<Rightarrow>
                              (Inr (Some \<lparr>tr_Content = [\<lparr>ct_Type = ''text'', ct_Text = (if res_Structured res \<noteq> [] then res_Structured res else res_Text res)\<rparr>],
                                          tr_StructuredContent = None, tr_IsError = False\<rparr>), ctx1, w1)))))"

text \<open>
  A call consults the child's runner only in one context: one level deeper, not beyond the maximal depth,
  with the child's name at the end of the path.
\<close>

lemma agentCall_child_context:
  assumes "\<And>c msgs w. cx_depth c = cx_depth ctx + 1 \<Longrightarrow> cx_depth c \<le> ag_maxDepth s \<Longrightarrow>
      cx_path c = cx_path ctx @ [ag_Name s] \<Longrightarrow> run c msgs w = run' c msgs w"
  shows "agentCall encode task run s name args ctx w = agentCall encode task run' s name args ctx w"
proof (cases "cx_depth ctx \<ge> ag_maxDepth s")
  case True
  then show ?thesis by (simp add: agentCall_def)
next
  case False
  obtain b ctx1 where tk: "takeCallBudget ctx = (b, ctx1)" by fastforce
  then have eq: "run (childContext ctx1 (ag_Name s)) = run' (childContext ctx1 (ag_Name s))"
    using False by (intro ext assms) (auto simp: childContext_def pathChild_def takeCallBudget_def split: option.splits)
  show ?thesis by (simp only: agentCall_def tk eq prod.case)
qed

subsection \<open>The pool\<close>

record pooledAgent =
  pa_description :: string
  pa_maxDepth :: int

abbreviation "StRunning \<equiv> ''running''"
abbreviation "StDone \<equiv> ''done''"
abbreviation "StFailed \<equiv> ''failed''"
abbreviation "StCancelled \<equiv> ''cancelled''"

text \<open>\<open>sh_done\<close> is the closed channel; \<open>sh_ctxCancelled\<close> that the handle's cancel function was called.\<close>

record spawnHandle =
  sh_id :: string
  sh_name :: string
  sh_done :: bool
  sh_ctxCancelled :: bool
  sh_status :: string
  sh_result :: "turnResult option"
  sh_err :: "goerr option"

record agentPool =
  ap_agents :: "string \<rightharpoonup> pooledAgent"
  ap_order :: "string list"
  ap_handles :: "string \<rightharpoonup> spawnHandle"
  ap_seq :: nat

definition newAgentPool :: agentPool where
  "newAgentPool = \<lparr>ap_agents = Map.empty, ap_order = [], ap_handles = Map.empty, ap_seq = 0\<rparr>"

definition poolRegister :: "string \<Rightarrow> string \<Rightarrow> bool \<Rightarrow> int \<Rightarrow> agentPool \<Rightarrow> goerr option \<times> agentPool" where
  "poolRegister name desc hasRunner maxDepth p =
     (if name = [] \<or> \<not> hasRunner
      then (Some (Errorf ''agent: AgentPool.Register requires a name and runner'' [] None), p)
      else if ap_agents p name \<noteq> None
      then (Some (Errorf ''agent: AgentPool already has %q'' [name] None), p)
      else (None, p\<lparr>ap_agents := (ap_agents p)(name \<mapsto>
                      \<lparr>pa_description = desc, pa_maxDepth = (if maxDepth \<le> 0 then defaultMaxAgentDepth else maxDepth)\<rparr>),
                    ap_order := ap_order p @ [name]\<rparr>))"

definition poolRegistered :: "agentPool \<Rightarrow> (string \<times> string) list" where
  "poolRegistered p =
     map (\<lambda>n. (n, case ap_agents p n of Some a \<Rightarrow> pa_description a | None \<Rightarrow> [])) (ap_order p)"

definition agentId :: "nat \<Rightarrow> string" where
  "agentId i = ''agent-'' @ itoa (int i)"

text \<open>
  \<^verbatim>\<open>spawn\<close> in its two critical sections: the guards and the new identifier, then the handle, after
  which the goroutine runs.
\<close>

definition spawnReserve :: "string \<Rightarrow> agentContext \<Rightarrow> agentPool \<Rightarrow> (goerr + string) \<times> agentContext \<times> agentPool" where
  "spawnReserve name ctx p =
     (case ap_agents p name of
        None \<Rightarrow> (Inl (Errorf ''no spawnable agent %q'' [name] None), ctx, p)
      | Some spec \<Rightarrow>
          if cx_depth ctx \<ge> pa_maxDepth spec then
            (Inl (Errorf ''spawn %q refused: max depth %d reached'' [name, itoa (pa_maxDepth spec)] None), ctx, p)
          else (case takeCallBudget ctx of
                  (False, ctx1) \<Rightarrow> (Inl (Errorf ''spawn %q refused: call budget exhausted'' [name] None), ctx1, p)
                | (True, ctx1) \<Rightarrow> (Inr (agentId (Suc (ap_seq p))), ctx1, p\<lparr>ap_seq := Suc (ap_seq p)\<rparr>)))"

definition spawnInstall :: "string \<Rightarrow> string \<Rightarrow> agentPool \<Rightarrow> agentPool" where
  "spawnInstall hid name p =
     p\<lparr>ap_handles := (ap_handles p)(hid \<mapsto>
         \<lparr>sh_id = hid, sh_name = name, sh_done = False, sh_ctxCancelled = False, sh_status = StRunning,
          sh_result = None, sh_err = None\<rparr>)\<rparr>"

text \<open>\<^verbatim>\<open>finish\<close>: \<open>None\<close> is the panic of closing a closed channel.\<close>

definition handleFinish :: "turnResult option \<Rightarrow> goerr option \<Rightarrow> spawnHandle \<Rightarrow> spawnHandle option" where
  "handleFinish res err h =
     (if sh_done h then None
      else Some (h\<lparr>sh_status := (if sh_status h = StRunning then (if err \<noteq> None then StFailed else StDone) else sh_status h),
                   sh_result := res, sh_err := err, sh_done := True\<rparr>))"

text \<open>\<^verbatim>\<open>await\<close>: the outer \<open>None\<close> is a caller still blocked.\<close>

definition poolAwait :: "goerr option \<Rightarrow> string \<Rightarrow> agentPool \<Rightarrow> (goerr + turnResult option) option" where
  "poolAwait ctxErr hid p =
     (case ap_handles p hid of
        None \<Rightarrow> Some (Inl (Errorf ''no spawned agent %q'' [hid] None))
      | Some h \<Rightarrow>
          if sh_done h then
            Some (case sh_err h of
                    Some e \<Rightarrow> Inl (Errorf ''spawned agent %q (%s) failed: %w'' [hid, sh_name h] (Some e))
                  | None \<Rightarrow> Inr (sh_result h))
          else map_option Inl ctxErr)"

definition poolCancel :: "string \<Rightarrow> agentPool \<Rightarrow> goerr option \<times> agentPool" where
  "poolCancel hid p =
     (case ap_handles p hid of
        None \<Rightarrow> (Some (Errorf ''no spawned agent %q'' [hid] None), p)
      | Some h \<Rightarrow>
          (None, p\<lparr>ap_handles := (ap_handles p)(hid \<mapsto>
             h\<lparr>sh_status := (if sh_status h = StRunning then StCancelled else sh_status h), sh_ctxCancelled := True\<rparr>)\<rparr>))"

definition poolStatuses :: "agentPool \<Rightarrow> (string \<times> string \<times> string) list" where
  "poolStatuses p =
     concat (map (\<lambda>i. case ap_handles p (agentId i) of
                         None \<Rightarrow> []
                       | Some h \<Rightarrow> [(sh_id h, sh_name h, sh_status h)]) [1..<Suc (ap_seq p)])"

subsection \<open>Interleaved spawns\<close>

text \<open>
  \<open>ps_pending\<close> holds the spawns between their two critical sections and \<open>ps_running\<close> the goroutines that
  have not finished their turn.
\<close>

record poolSys =
  ps_pool :: agentPool
  ps_pending :: "(string \<times> string) set"
  ps_running :: "string set"

inductive poolStep :: "poolSys \<Rightarrow> poolSys \<Rightarrow> bool" where
  register: "poolStep s (s\<lparr>ps_pool := snd (poolRegister name desc hasRunner maxDepth (ps_pool s))\<rparr>)"
| reserve: "spawnReserve name ctx (ps_pool s) = (Inr hid, ctx', p') \<Longrightarrow>
     poolStep s (s\<lparr>ps_pool := p', ps_pending := insert (hid, name) (ps_pending s)\<rparr>)"
| install: "(hid, name) \<in> ps_pending s \<Longrightarrow>
     poolStep s (s\<lparr>ps_pool := spawnInstall hid name (ps_pool s), ps_pending := ps_pending s - {(hid, name)},
                   ps_running := insert hid (ps_running s)\<rparr>)"
| finish: "hid \<in> ps_running s \<Longrightarrow> ap_handles (ps_pool s) hid = Some h \<Longrightarrow> handleFinish res err h = Some h' \<Longrightarrow>
     poolStep s (s\<lparr>ps_pool := (ps_pool s)\<lparr>ap_handles := (ap_handles (ps_pool s))(hid \<mapsto> h')\<rparr>,
                   ps_running := ps_running s - {hid}\<rparr>)"
| cancel: "poolStep s (s\<lparr>ps_pool := snd (poolCancel hid (ps_pool s))\<rparr>)"

definition initialPool :: poolSys where
  "initialPool = \<lparr>ps_pool = newAgentPool, ps_pending = {}, ps_running = {}\<rparr>"

definition handleOk :: "spawnHandle \<Rightarrow> bool" where
  "handleOk h \<longleftrightarrow>
     (if sh_done h then sh_status h = StCancelled \<or> sh_status h = (if sh_err h \<noteq> None then StFailed else StDone)
      else sh_status h \<in> {StRunning, StCancelled} \<and> sh_result h = None \<and> sh_err h = None) \<and>
     (sh_status h = StCancelled \<longrightarrow> sh_ctxCancelled h)"

definition poolInv :: "poolSys \<Rightarrow> bool" where
  "poolInv s \<longleftrightarrow>
     (\<forall>hid h. ap_handles (ps_pool s) hid = Some h \<longrightarrow>
        sh_id h = hid \<and> hid \<in> agentId ` {1..ap_seq (ps_pool s)} \<and> handleOk h) \<and>
     (\<forall>hid name. (hid, name) \<in> ps_pending s \<longrightarrow>
        hid \<in> agentId ` {1..ap_seq (ps_pool s)} \<and> ap_handles (ps_pool s) hid = None) \<and>
     (\<forall>hid name name'. (hid, name) \<in> ps_pending s \<longrightarrow> (hid, name') \<in> ps_pending s \<longrightarrow> name = name') \<and>
     ps_running s = {hid. \<exists>h. ap_handles (ps_pool s) hid = Some h \<and> \<not> sh_done h}"

lemma agentId_inject [simp]: "agentId i = agentId j \<longleftrightarrow> i = j"
  by (simp add: agentId_def itoa_def)

lemma spawnReserve_Inr:
  "spawnReserve name ctx p = (Inr hid, ctx', p') \<Longrightarrow> hid = agentId (Suc (ap_seq p)) \<and> p' = p\<lparr>ap_seq := Suc (ap_seq p)\<rparr>"
  by (auto simp: spawnReserve_def split: option.splits if_splits prod.splits bool.splits)

lemma handleFinish_ok: "handleFinish res err h = Some h' \<Longrightarrow> handleOk h \<Longrightarrow>
    handleOk h' \<and> sh_id h' = sh_id h \<and> sh_name h' = sh_name h \<and> sh_done h' \<and> \<not> sh_done h \<and>
    (sh_status h \<noteq> StRunning \<longrightarrow> sh_status h' = sh_status h)"
  by (auto simp: handleFinish_def handleOk_def split: if_splits)

lemma handleOk_fresh:
  "handleOk \<lparr>sh_id = hid, sh_name = name, sh_done = False, sh_ctxCancelled = False, sh_status = StRunning,
             sh_result = None, sh_err = None\<rparr>"
  by (simp add: handleOk_def)

lemma poolRegister_keeps: "ap_handles (snd (poolRegister n d r m p)) = ap_handles p" "ap_seq (snd (poolRegister n d r m p)) = ap_seq p"
  by (simp_all add: poolRegister_def)

lemma poolCancel_handles:
  "ap_seq (snd (poolCancel hid p)) = ap_seq p"
  "ap_handles (snd (poolCancel hid p)) = (case ap_handles p hid of None \<Rightarrow> ap_handles p
     | Some h \<Rightarrow> (ap_handles p)(hid \<mapsto> h\<lparr>sh_status := (if sh_status h = StRunning then StCancelled else sh_status h),
                                         sh_ctxCancelled := True\<rparr>))"
  by (simp_all add: poolCancel_def split: option.split)

lemma poolInv_initial: "poolInv initialPool"
  by (simp add: poolInv_def initialPool_def newAgentPool_def)

lemma poolInv_step:
  assumes "poolStep s s'" "poolInv s"
  shows "poolInv s'"
  using assms
proof cases
  case (register name desc hasRunner maxDepth)
  with assms(2) show ?thesis by (simp add: poolInv_def poolRegister_keeps)
next
  case (reserve name ctx hid ctx' p')
  from spawnReserve_Inr [OF reserve(2)] have hid: "hid = agentId (Suc (ap_seq (ps_pool s)))"
    and p': "p' = (ps_pool s)\<lparr>ap_seq := Suc (ap_seq (ps_pool s))\<rparr>" by auto
  have "hid \<notin> agentId ` {1..ap_seq (ps_pool s)}" by (auto simp: hid)
  then have new: "ap_handles (ps_pool s) hid = None" "(hid, n) \<notin> ps_pending s" for n
    using assms(2) unfolding poolInv_def by (metis option.exhaust, blast)
  have sub: "agentId ` {1..ap_seq (ps_pool s)} \<subseteq> agentId ` {1..Suc (ap_seq (ps_pool s))}" by auto
  have "hid \<in> agentId ` {1..Suc (ap_seq (ps_pool s))}" by (simp add: hid)
  note known = this
  have inv: "poolInv s" by (rule assms(2))
  have "sh_id h = k \<and> k \<in> agentId ` {1..Suc (ap_seq (ps_pool s))} \<and> handleOk h"
    if "ap_handles (ps_pool s) k = Some h" for k h
    using inv that sub unfolding poolInv_def by blast
  moreover have "k \<in> agentId ` {1..Suc (ap_seq (ps_pool s))} \<and> ap_handles (ps_pool s) k = None"
    if "(k, n) \<in> insert (hid, name) (ps_pending s)" for k n
    using inv that sub new(1) known unfolding poolInv_def by blast
  moreover have "n = n'" if "(k, n) \<in> insert (hid, name) (ps_pending s)" "(k, n') \<in> insert (hid, name) (ps_pending s)" for k n n'
    using inv that new(2) unfolding poolInv_def by blast
  moreover have "ps_running s = {k. \<exists>h. ap_handles (ps_pool s) k = Some h \<and> \<not> sh_done h}"
    using inv unfolding poolInv_def by blast
  ultimately show ?thesis
    unfolding reserve(1) p' poolInv_def by (simp del: insert_iff)
next
  case (install hid name)
  with assms(2) show ?thesis
    by (auto simp: poolInv_def spawnInstall_def handleOk_fresh split: if_splits)
next
  case (finish hid h res err h')
  from assms(2) finish(3) have "handleOk h" by (simp add: poolInv_def)
  note ok = handleFinish_ok [OF finish(4) this]
  have "hid \<notin> fst ` ps_pending s" "sh_id h = hid" "hid \<in> agentId ` {1..ap_seq (ps_pool s)}"
    using assms(2) finish(3) unfolding poolInv_def by force+
  with ok assms(2) finish(3) show ?thesis
    unfolding finish(1) poolInv_def by (auto split: if_splits)
next
  case (cancel hid)
  show ?thesis
  proof (cases "ap_handles (ps_pool s) hid")
    case None
    with cancel assms(2) show ?thesis by (simp add: poolInv_def poolCancel_handles)
  next
    case (Some h)
    let ?h = "h\<lparr>sh_status := (if sh_status h = StRunning then StCancelled else sh_status h), sh_ctxCancelled := True\<rparr>"
    have "handleOk h" "sh_id h = hid" "hid \<in> agentId ` {1..ap_seq (ps_pool s)}" "hid \<notin> fst ` ps_pending s"
      using assms(2) Some unfolding poolInv_def by force+
    then have "handleOk ?h" "sh_id ?h = hid" "sh_done ?h = sh_done h" by (auto simp: handleOk_def split: if_splits)
    with \<open>hid \<in> agentId ` _\<close> \<open>hid \<notin> fst ` _\<close> assms(2) Some show ?thesis
      unfolding cancel poolInv_def by (auto simp: poolCancel_handles split: if_splits)
  qed
qed

lemma poolInv_reach: "poolStep\<^sup>*\<^sup>* initialPool s \<Longrightarrow> poolInv s"
  by (induction rule: rtranclp_induct) (auto simp: poolInv_initial intro: poolInv_step)

text \<open>What one step keeps of a handle.\<close>

definition handleLe :: "spawnHandle \<Rightarrow> spawnHandle \<Rightarrow> bool" where
  "handleLe h h' \<longleftrightarrow>
     sh_id h' = sh_id h \<and> sh_name h' = sh_name h \<and>
     (sh_status h \<noteq> StRunning \<longrightarrow> sh_status h' = sh_status h) \<and>
     (sh_done h \<longrightarrow> sh_done h' \<and> sh_result h' = sh_result h \<and> sh_err h' = sh_err h)"

lemma poolStep_handle:
  assumes "poolStep s s'" "poolInv s" "ap_handles (ps_pool s) hid = Some h"
  shows "\<exists>h'. ap_handles (ps_pool s') hid = Some h' \<and> handleLe h h'"
  using assms(1)
proof cases
  case (register name desc hasRunner maxDepth)
  with assms(3) show ?thesis by (simp add: poolRegister_keeps handleLe_def)
next
  case (reserve name ctx hid2 ctx' p')
  with assms(3) spawnReserve_Inr [OF reserve(2)] show ?thesis by (simp add: handleLe_def)
next
  case (install hid2 name)
  with assms(2,3) have "hid2 \<noteq> hid" by (auto simp: poolInv_def)
  with install assms(3) show ?thesis by (simp add: spawnInstall_def handleLe_def)
next
  case (finish hid2 g res err g')
  from assms(2) finish(3) have "handleOk g" by (simp add: poolInv_def)
  from handleFinish_ok [OF finish(4) this] finish(1,3) assms(3) show ?thesis
    by (auto simp: handleLe_def)
next
  case (cancel hid2)
  with assms(3) show ?thesis
    by (auto simp: poolCancel_handles handleLe_def split: option.split)
qed

lemma handleLe_trans: "handleLe a b \<Longrightarrow> handleLe b c \<Longrightarrow> handleLe a c"
  by (auto simp: handleLe_def)

text \<open>
  C13: a background agent settles once. In every interleaving of spawns, turns, cancellations and
  registrations, a spawned agent keeps its name under its identifier; a status other than running never
  changes again, so a cancelled agent stays cancelled even when its turn still completes; and once the turn
  has finished its result and error are fixed and its channel is not closed a second time.
\<close>

theorem spawned_agent_settles_once:
  assumes "poolStep\<^sup>*\<^sup>* initialPool s" "poolStep\<^sup>*\<^sup>* s s'" "ap_handles (ps_pool s) hid = Some h"
  shows "\<exists>h'. ap_handles (ps_pool s') hid = Some h' \<and> sh_id h' = hid \<and> sh_name h' = sh_name h \<and>
     (sh_status h \<noteq> StRunning \<longrightarrow> sh_status h' = sh_status h) \<and>
     (sh_done h \<longrightarrow> hid \<notin> ps_running s' \<and> poolAwait None hid (ps_pool s') = poolAwait None hid (ps_pool s)) \<and>
     (hid \<in> ps_running s' \<longrightarrow> (\<forall>res err. handleFinish res err h' \<noteq> None))"
proof -
  have inv: "poolInv s" using assms(1) by (rule poolInv_reach)
  have "\<exists>h'. ap_handles (ps_pool s') hid = Some h' \<and> handleLe h h' \<and> poolInv s'"
    using assms(2)
  proof (induction rule: rtranclp_induct)
    case base
    then show ?case using inv assms(3) by (simp add: handleLe_def)
  next
    case (step t u)
    then obtain g where g: "ap_handles (ps_pool t) hid = Some g" "handleLe h g" "poolInv t" by blast
    from poolStep_handle [OF step(2) g(3,1)] poolInv_step [OF step(2) g(3)] g(2) show ?case
      by (blast intro: handleLe_trans)
  qed
  then obtain h' where h': "ap_handles (ps_pool s') hid = Some h'" "handleLe h h'" "poolInv s'" by blast
  have "sh_id h = hid" "hid \<in> ps_running s' \<longleftrightarrow> \<not> sh_done h'"
    using inv assms(3) h'(1,3) by (auto simp: poolInv_def)
  with h'(1,2) assms(3) show ?thesis
    by (auto simp: handleLe_def poolAwait_def handleFinish_def split: option.split)
qed

definition exPool :: poolSys where
  "exPool = \<lparr>ps_pool = snd (poolRegister ''w'' ''worker'' True 0 newAgentPool), ps_pending = {}, ps_running = {}\<rparr>"

lemma exPool_reach: "poolStep\<^sup>*\<^sup>* initialPool exPool"
  using poolStep.register [of initialPool "''w''" "''worker''" True 0] by (simp add: initialPool_def exPool_def)

text \<open>One worker spawned and then cancelled.\<close>

theorem spawned_agent_settles_once_witness:
  "\<exists>s s' h'. poolStep\<^sup>*\<^sup>* initialPool s \<and> poolStep\<^sup>*\<^sup>* s s' \<and>
     map_option sh_status (ap_handles (ps_pool s) (agentId 1)) = Some StCancelled \<and>
     ap_handles (ps_pool s') (agentId 1) = Some h' \<and> sh_status h' = StCancelled"
proof -
  let ?p1 = "(ps_pool exPool)\<lparr>ap_seq := 1\<rparr>"
  let ?s1 = "exPool\<lparr>ps_pool := ?p1, ps_pending := {(agentId 1, ''w'')}\<rparr>"
  let ?s2 = "?s1\<lparr>ps_pool := spawnInstall (agentId 1) ''w'' ?p1, ps_pending := {}, ps_running := {agentId 1}\<rparr>"
  let ?s3 = "?s2\<lparr>ps_pool := snd (poolCancel (agentId 1) (ps_pool ?s2))\<rparr>"
  have "spawnReserve ''w'' rootContext (ps_pool exPool) = (Inr (agentId 1), rootContext, ?p1)"
    by (simp add: spawnReserve_def exPool_def poolRegister_def newAgentPool_def rootContext_def takeCallBudget_def)
  from poolStep.reserve [of "''w''" rootContext exPool, OF this] have 1: "poolStep exPool ?s1" by (simp add: exPool_def)
  from poolStep.install [of "agentId 1" "''w''" ?s1] have 2: "poolStep ?s1 ?s2" by (simp add: exPool_def)
  have 3: "poolStep ?s2 ?s3" by (rule poolStep.cancel)
  have reach: "poolStep\<^sup>*\<^sup>* initialPool ?s3"
    using exPool_reach 1 2 3 by (meson rtranclp.rtrancl_into_rtrancl)
  obtain h where h: "ap_handles (ps_pool ?s3) (agentId 1) = Some h" "sh_status h = StCancelled"
    by (simp add: spawnInstall_def poolCancel_def)
  from spawned_agent_settles_once [OF reach _ h(1), of ?s3] h reach show ?thesis
    by (intro exI [of _ ?s3] exI [of _ h]) simp
qed

end
