(* ===== verification/Triggers.thy ===== *)
theory Triggers
  imports AgentTypes
begin

text \<open>
  Trigger policy (\<^verbatim>\<open>src/triggers.go\<close>) and the event shape it consumes (\<^verbatim>\<open>src/incoming_event.go\<close>): which
  events from servers may start a turn on their own. Each binding has a slot that a firing spends; the
  slot re-arms after the user engaged and a cooldown passed, and a budget bounds all firings. The clock
  is an argument; the consent callback reads and changes a world \<open>'w\<close>; logging is left out. \<open>None\<close> is
  the nil dereference of a binding without a slot.
\<close>

record incomingEvent =
  ie_Server :: string
  ie_Name :: string
  ie_ID :: string
  ie_Cursor :: string
  ie_Time :: gotime
  ie_Data :: rawjson

record triggerBinding =
  tb_Server :: string
  tb_Event :: string
  tb_Filter :: "(incomingEvent \<Rightarrow> bool) option"
  tb_Instructions :: string
  tb_Label :: string
  tb_Cooldown :: int

record triggerFiring =
  tf_Binding :: triggerBinding
  tf_Event :: incomingEvent

record 'w triggerPolicyConfig =
  tpc_Bindings :: "triggerBinding list"
  tpc_Budget :: int
  tpc_Consent :: "(triggerBinding \<Rightarrow> incomingEvent \<Rightarrow> 'w \<Rightarrow> bool \<times> 'w) option"

record triggerSlot =
  ts_spentAt :: gotime
  ts_engaged :: bool
  ts_spent :: bool

record 'w triggerPolicy =
  tp_cfg :: "'w triggerPolicyConfig"
  tp_bindings :: "triggerBinding list"
  tp_slots :: "string \<rightharpoonup> triggerSlot"
  tp_firings :: int

abbreviation "defaultTriggerCooldown \<equiv> 300000000000 :: int"
abbreviation "defaultTriggerBudget \<equiv> 10 :: int"

definition zeroSlot :: triggerSlot where
  "zeroSlot = \<lparr>ts_spentAt = 0, ts_engaged = False, ts_spent = False\<rparr>"

definition slotKey :: "triggerBinding \<Rightarrow> string" where
  "slotKey b = tb_Server b @ ''/'' @ tb_Event b @ ''/'' @ tb_Label b"

definition newTriggerPolicy :: "'w triggerPolicyConfig \<Rightarrow> 'w triggerPolicy" where
  "newTriggerPolicy cfg =
     \<lparr>tp_cfg = cfg\<lparr>tpc_Budget := (if tpc_Budget cfg \<le> 0 then defaultTriggerBudget else tpc_Budget cfg)\<rparr>,
      tp_bindings = tpc_Bindings cfg,
      tp_slots = foldl (\<lambda>m b. m(slotKey b \<mapsto> zeroSlot)) Map.empty (tpc_Bindings cfg),
      tp_firings = 0\<rparr>"

fun replaceFirst :: "('a \<Rightarrow> bool) \<Rightarrow> 'a \<Rightarrow> 'a list \<Rightarrow> 'a list" where
  "replaceFirst P y [] = []"
| "replaceFirst P y (x # xs) = (if P x then y # xs else x # replaceFirst P y xs)"

fun removeFirst :: "('a \<Rightarrow> bool) \<Rightarrow> 'a list \<Rightarrow> 'a list" where
  "removeFirst P [] = []"
| "removeFirst P (x # xs) = (if P x then xs else x # removeFirst P xs)"

definition trigAdd :: "triggerBinding \<Rightarrow> 'w triggerPolicy \<Rightarrow> 'w triggerPolicy" where
  "trigAdd b t =
     (let key = slotKey b
      in t\<lparr>tp_bindings := (if tp_slots t key \<noteq> None
                           then replaceFirst (\<lambda>x. slotKey x = key) b (tp_bindings t) else tp_bindings t @ [b]),
           tp_slots := (tp_slots t)(key \<mapsto> zeroSlot)\<rparr>)"

definition trigRemove :: "string \<Rightarrow> string \<Rightarrow> string \<Rightarrow> 'w triggerPolicy \<Rightarrow> bool \<times> 'w triggerPolicy" where
  "trigRemove server event label t =
     (let key = slotKey \<lparr>tb_Server = server, tb_Event = event, tb_Filter = None, tb_Instructions = [],
                         tb_Label = label, tb_Cooldown = 0\<rparr>
      in if tp_slots t key = None then (False, t)
         else (True, t\<lparr>tp_slots := (tp_slots t)(key := None),
                       tp_bindings := removeFirst (\<lambda>x. slotKey x = key) (tp_bindings t)\<rparr>))"

definition effCooldown :: "triggerBinding \<Rightarrow> int" where
  "effCooldown b = (if tb_Cooldown b \<le> 0 then defaultTriggerCooldown else tb_Cooldown b)"

definition trigMatches :: "triggerBinding \<Rightarrow> incomingEvent \<Rightarrow> bool" where
  "trigMatches b ev \<longleftrightarrow>
     tb_Event b = ie_Name ev \<and> (tb_Server b = [] \<or> tb_Server b = ie_Server ev) \<and>
     (case tb_Filter b of None \<Rightarrow> True | Some f \<Rightarrow> f ev)"

text \<open>The loop of \<^verbatim>\<open>OnEvent\<close> over the bindings still to try.\<close>

fun onEventLoop ::
  "gotime \<Rightarrow> incomingEvent \<Rightarrow> triggerBinding list \<Rightarrow> 'w triggerPolicy \<Rightarrow> 'w \<Rightarrow>
   (triggerFiring option \<times> 'w triggerPolicy \<times> 'w) option" where
  "onEventLoop now ev [] t w = Some (None, t, w)"
| "onEventLoop now ev (b # bs) t w =
     (if \<not> trigMatches b ev then onEventLoop now ev bs t w
      else case tp_slots t (slotKey b) of
             None \<Rightarrow> None
           | Some slot \<Rightarrow>
               if ts_spent slot \<and> (\<not> ts_engaged slot \<or> now < ts_spentAt slot + effCooldown b)
               then onEventLoop now ev bs t w
               else
                 (let slot1 = slot\<lparr>ts_spent := False\<rparr>;
                      t1 = t\<lparr>tp_slots := (tp_slots t)(slotKey b \<mapsto> slot1)\<rparr>
                  in if tp_firings t \<ge> tpc_Budget (tp_cfg t) then Some (None, t1, w)
                     else
                       (let (ok, w1) = (case tpc_Consent (tp_cfg t) of None \<Rightarrow> (True, w) | Some c \<Rightarrow> c b ev w)
                        in if \<not> ok then onEventLoop now ev bs t1 w1
                           else Some (Some \<lparr>tf_Binding = b, tf_Event = ev\<rparr>,
                                  t1\<lparr>tp_slots := (tp_slots t1)(slotKey b \<mapsto>
                                       \<lparr>ts_spentAt = now, ts_engaged = False, ts_spent = True\<rparr>),
                                     tp_firings := tp_firings t + 1\<rparr>, w1))))"

definition onEvent ::
  "gotime \<Rightarrow> incomingEvent \<Rightarrow> 'w triggerPolicy \<Rightarrow> 'w \<Rightarrow> (triggerFiring option \<times> 'w triggerPolicy \<times> 'w) option" where
  "onEvent now ev t w = onEventLoop now ev (tp_bindings t) t w"

definition notifyEngagement :: "'w triggerPolicy \<Rightarrow> 'w triggerPolicy" where
  "notifyEngagement t =
     t\<lparr>tp_slots := (\<lambda>k. map_option (\<lambda>s. if ts_spent s then s\<lparr>ts_engaged := True\<rparr> else s) (tp_slots t k))\<rparr>"

subsection \<open>Histories\<close>

datatype trigOp = TrigAdd triggerBinding | TrigRemove string string string | TrigEvent gotime incomingEvent | TrigEngage

fun trigStep :: "trigOp \<Rightarrow> 'w triggerPolicy \<Rightarrow> 'w \<Rightarrow> (triggerFiring option \<times> 'w triggerPolicy \<times> 'w) option" where
  "trigStep (TrigAdd b) t w = Some (None, trigAdd b t, w)"
| "trigStep (TrigRemove server event label) t w = Some (None, snd (trigRemove server event label t), w)"
| "trigStep (TrigEvent now ev) t w = onEvent now ev t w"
| "trigStep TrigEngage t w = Some (None, notifyEngagement t, w)"

fun trigRun :: "trigOp list \<Rightarrow> 'w triggerPolicy \<Rightarrow> 'w \<Rightarrow> (triggerFiring option list \<times> 'w triggerPolicy \<times> 'w) option" where
  "trigRun [] t w = Some ([], t, w)"
| "trigRun (op # ops) t w =
     (case trigStep op t w of
        None \<Rightarrow> None
      | Some (f, t1, w1) \<Rightarrow> map_option (\<lambda>(fs, r). (f # fs, r)) (trigRun ops t1 w1))"

fun opTouches :: "string \<Rightarrow> trigOp \<Rightarrow> bool" where
  "opTouches key (TrigAdd b) \<longleftrightarrow> slotKey b = key"
| "opTouches key (TrigRemove server event label) \<longleftrightarrow> server @ ''/'' @ event @ ''/'' @ label = key"
| "opTouches key _ \<longleftrightarrow> False"

fun opTime :: "trigOp \<Rightarrow> gotime option" where
  "opTime (TrigEvent now ev) = Some now"
| "opTime _ = None"

definition firesKey :: "string \<Rightarrow> triggerFiring option \<Rightarrow> bool" where
  "firesKey key f \<longleftrightarrow> (case f of Some x \<Rightarrow> slotKey (tf_Binding x) = key | None \<Rightarrow> False)"

subsection \<open>The budget\<close>

lemma onEventLoop_counts:
  "onEventLoop now ev bs t w = Some (f, t', w') \<Longrightarrow>
   tp_cfg t' = tp_cfg t \<and> tp_bindings t' = tp_bindings t \<and>
   tp_firings t' = tp_firings t + (if f = None then 0 else 1) \<and>
   (f \<noteq> None \<longrightarrow> tp_firings t < tpc_Budget (tp_cfg t))"
  by (induction now ev bs t w rule: onEventLoop.induct)
    (fastforce simp: Let_def split: if_splits option.splits prod.splits)+

lemma trigStep_counts:
  assumes "trigStep op t w = Some (f, t', w')"
  shows "tp_cfg t' = tp_cfg t" "tp_firings t' = tp_firings t + (if f = None then 0 else 1)"
    "f \<noteq> None \<Longrightarrow> tp_firings t < tpc_Budget (tp_cfg t)"
  using assms
  by (cases op; auto simp: trigAdd_def trigRemove_def notifyEngagement_def onEvent_def Let_def dest: onEventLoop_counts)+

lemma trigRun_counts:
  assumes "trigRun ops t w = Some (fs, t', w')" "tp_firings t \<le> tpc_Budget (tp_cfg t)"
  shows "tp_firings t' = tp_firings t + int (length (filter (\<lambda>f. f \<noteq> None) fs)) \<and>
    tp_firings t' \<le> tpc_Budget (tp_cfg t)"
  using assms
proof (induction ops arbitrary: t w fs)
  case (Cons op ops)
  obtain f t1 w1 where op: "trigStep op t w = Some (f, t1, w1)"
    using Cons.prems(1) by (cases "trigStep op t w") auto
  with Cons.prems(1) obtain fs' where "fs = f # fs'" "trigRun ops t1 w1 = Some (fs', t', w')" by auto
  with Cons.IH [of t1 w1 fs'] trigStep_counts [OF op] Cons.prems(2) show ?case by (auto split: if_splits)
qed simp

subsection \<open>Re-arming\<close>

definition rearmed :: "string \<Rightarrow> gotime \<Rightarrow> triggerBinding list \<Rightarrow> triggerSlot \<Rightarrow> bool" where
  "rearmed key now bs s \<longleftrightarrow>
     ts_spent s \<longrightarrow> ts_engaged s \<and> (\<exists>b\<in>set bs. slotKey b = key \<and> ts_spentAt s + effCooldown b \<le> now)"

lemma rearmed_Cons: "rearmed key now bs s \<Longrightarrow> rearmed key now (b # bs) s"
  by (auto simp: rearmed_def)

lemma onEventLoop_slot:
  assumes "onEventLoop now ev bs t w = Some (f, t', w')" "tp_slots t key = Some s"
  shows "if firesKey key f
    then rearmed key now bs s \<and> tp_slots t' key = Some \<lparr>ts_spentAt = now, ts_engaged = False, ts_spent = True\<rparr>
    else tp_slots t' key = Some s \<or> tp_slots t' key = Some (s\<lparr>ts_spent := False\<rparr>) \<and> rearmed key now bs s"
  using assms
proof (induction now ev bs t w arbitrary: s rule: onEventLoop.induct)
  case (1 now ev t w)
  then show ?case by (simp add: firesKey_def)
next
  case (2 now ev b bs t w)
  consider (skip) "onEventLoop now ev bs t w = Some (f, t', w')" "\<not> trigMatches b ev \<or> (\<exists>slot. trigMatches b ev \<and> tp_slots t (slotKey b) = Some slot \<and>
        ts_spent slot \<and> (\<not> ts_engaged slot \<or> now < ts_spentAt slot + effCooldown b))"
    | (go) slot where "trigMatches b ev" "tp_slots t (slotKey b) = Some slot"
        "\<not> (ts_spent slot \<and> (\<not> ts_engaged slot \<or> now < ts_spentAt slot + effCooldown b))"
    using "2.prems"(1) by (cases "trigMatches b ev"; cases "tp_slots t (slotKey b)") (auto split: if_splits)
  then show ?case
  proof cases
    case skip
    then have "if firesKey key f
      then rearmed key now bs s \<and> tp_slots t' key = Some \<lparr>ts_spentAt = now, ts_engaged = False, ts_spent = True\<rparr>
      else tp_slots t' key = Some s \<or> tp_slots t' key = Some (s\<lparr>ts_spent := False\<rparr>) \<and> rearmed key now bs s"
      using "2.IH"(1,2) "2.prems"(2) by metis
    then show ?thesis by (auto split: if_splits intro: rearmed_Cons)
  next
    case go
    have arm: "key = slotKey b \<Longrightarrow> rearmed key now (b # bs) s"
      using go "2.prems"(2) by (auto simp: rearmed_def)
    let ?t1 = "t\<lparr>tp_slots := (tp_slots t)(slotKey b \<mapsto> slot\<lparr>ts_spent := False\<rparr>)\<rparr>"
    have s1: "tp_slots ?t1 key = Some (if key = slotKey b then s\<lparr>ts_spent := False\<rparr> else s)"
      using go(2) "2.prems"(2) by auto
    obtain ok w1 where ok: "(case tpc_Consent (tp_cfg t) of None \<Rightarrow> (True, w) | Some c \<Rightarrow> c b ev w) = (ok, w1)"
      by fastforce
    show ?thesis
    proof (cases "tp_firings t \<ge> tpc_Budget (tp_cfg t)")
      case True
      with go "2.prems"(1) have "f = None" "t' = ?t1" by auto
      with s1 arm show ?thesis by (auto simp: firesKey_def)
    next
      case budget: False
      show ?thesis
      proof (cases ok)
        case True
        with go budget ok "2.prems"(1) have "f = Some \<lparr>tf_Binding = b, tf_Event = ev\<rparr>"
          "tp_slots t' = (tp_slots t)(slotKey b \<mapsto> \<lparr>ts_spentAt = now, ts_engaged = False, ts_spent = True\<rparr>)"
          by (auto simp: Let_def)
        with arm "2.prems"(2) show ?thesis by (auto simp: firesKey_def)
      next
        case False
        with go budget ok "2.prems"(1) have rec: "onEventLoop now ev bs ?t1 w1 = Some (f, t', w')"
          by (auto simp: Let_def)
        from "2.IH"(3) [OF _ go(2,3) refl refl budget ok [symmetric] _ False rec s1] go(1)
        show ?thesis using arm
          by (cases "key = slotKey b") (auto split: if_splits intro: rearmed_Cons)
      qed
    qed
  qed
qed

lemma onEventLoop_fired:
  "onEventLoop now ev bs t w = Some (Some f, t', w') \<Longrightarrow>
   tp_slots t' (slotKey (tf_Binding f)) = Some \<lparr>ts_spentAt = now, ts_engaged = False, ts_spent = True\<rparr>"
  by (induction now ev bs t w rule: onEventLoop.induct)
    (fastforce simp: Let_def split: if_splits option.splits prod.splits)+

text \<open>What is known of the slot of \<open>key\<close> after its binding fired at \<open>t1\<close>.\<close>

definition slotGood :: "gotime \<Rightarrow> int \<Rightarrow> trigOp list \<Rightarrow> triggerSlot \<Rightarrow> bool" where
  "slotGood t1 c past s \<longleftrightarrow>
     (if ts_spent s then ts_spentAt s = t1 \<and> (ts_engaged s \<longrightarrow> TrigEngage \<in> set past)
      else TrigEngage \<in> set past \<and> (\<exists>op\<in>set past. \<exists>u. opTime op = Some u \<and> t1 + c \<le> u))"

definition slotAfter :: "string \<Rightarrow> gotime \<Rightarrow> int \<Rightarrow> trigOp list \<Rightarrow> 'w triggerPolicy \<Rightarrow> bool" where
  "slotAfter key t1 c past t \<longleftrightarrow>
     (\<exists>s. tp_slots t key = Some s \<and> slotGood t1 c past s) \<and>
     (\<forall>b\<in>set (tp_bindings t). slotKey b = key \<longrightarrow> c \<le> effCooldown b)"

lemma slotGood_mono: "slotGood t1 c past s \<Longrightarrow> slotGood t1 c (past @ [op]) s"
  by (auto simp: slotGood_def)

lemma set_replaceFirst: "set (replaceFirst P y xs) \<subseteq> insert y (set xs)"
  by (induction xs) auto

lemma set_removeFirst: "set (removeFirst P xs) \<subseteq> set xs"
  by (induction xs) auto

lemma trigAdd_bindings: "set (tp_bindings (trigAdd b t)) \<subseteq> insert b (set (tp_bindings t))"
  using set_replaceFirst [of "\<lambda>x. slotKey x = slotKey b" b "tp_bindings t"] by (auto simp: trigAdd_def Let_def)

lemma trigRemove_bindings: "set (tp_bindings (snd (trigRemove sv e l t))) \<subseteq> set (tp_bindings t)"
  by (auto simp: trigRemove_def Let_def dest!: subsetD [OF set_removeFirst])

lemma trigStep_slotAfter:
  assumes "trigStep op t w = Some (f, t', w')" "slotAfter key t1 c past t" "\<not> opTouches key op" "\<not> firesKey key f"
  shows "slotAfter key t1 c (past @ [op]) t'"
proof -
  from assms(2) obtain s where s: "tp_slots t key = Some s" "slotGood t1 c past s"
    and cool: "\<forall>b\<in>set (tp_bindings t). slotKey b = key \<longrightarrow> c \<le> effCooldown b" by (auto simp: slotAfter_def)
  have "(\<forall>b\<in>set (tp_bindings t'). slotKey b = key \<longrightarrow> c \<le> effCooldown b) \<and>
    (\<exists>s'. tp_slots t' key = Some s' \<and> slotGood t1 c (past @ [op]) s')"
  proof (cases op)
    case (TrigAdd b)
    then have "t' = trigAdd b t" "slotKey b \<noteq> key" using assms(1,3) by auto
    then show ?thesis using s cool trigAdd_bindings [of b t]
      by (auto simp: trigAdd_def Let_def intro: slotGood_mono)
  next
    case (TrigRemove sv e l)
    then have t': "t' = snd (trigRemove sv e l t)" and ne: "sv @ ''/'' @ e @ ''/'' @ l \<noteq> key" using assms(1,3) by auto
    have "tp_slots t' key = tp_slots t key" using ne by (auto simp: t' trigRemove_def Let_def slotKey_def)
    then show ?thesis using s cool trigRemove_bindings [of sv e l t] by (auto simp: t' intro: slotGood_mono)
  next
    case TrigEngage
    have "slotGood t1 c (past @ [TrigEngage]) (if ts_spent s then s\<lparr>ts_engaged := True\<rparr> else s)"
      using s(2) by (auto simp: slotGood_def)
    then show ?thesis using assms(1) s(1) cool by (auto simp: notifyEngagement_def TrigEngage)
  next
    case (TrigEvent now ev)
    with assms(1) have loop: "onEventLoop now ev (tp_bindings t) t w = Some (f, t', w')" by (simp add: onEvent_def)
    have bnd: "tp_bindings t' = tp_bindings t" using onEventLoop_counts [OF loop] by simp
    from onEventLoop_slot [OF loop s(1)] assms(4)
    consider "tp_slots t' key = Some s"
      | "tp_slots t' key = Some (s\<lparr>ts_spent := False\<rparr>)" "rearmed key now (tp_bindings t) s" by auto
    then show ?thesis
    proof cases
      case 1
      then show ?thesis using s(2) cool bnd by (auto intro: slotGood_mono)
    next
      case 2
      have "slotGood t1 c (past @ [op]) (s\<lparr>ts_spent := False\<rparr>)"
        using 2(2) s(2) cool by (cases "ts_spent s") (fastforce simp: slotGood_def rearmed_def TrigEvent)+
      with 2(1) cool bnd show ?thesis by auto
    qed
  qed
  then show ?thesis by (simp add: slotAfter_def)
qed

lemma trigRun_slotAfter:
  assumes "trigRun ops t w = Some (fs, t', w')" "slotAfter key t1 c past t"
    and "\<forall>op\<in>set ops. \<not> opTouches key op" "\<forall>f\<in>set fs. \<not> firesKey key f"
  shows "slotAfter key t1 c (past @ ops) t'"
  using assms
proof (induction ops arbitrary: t w fs past)
  case (Cons op ops)
  obtain f u w1 where op: "trigStep op t w = Some (f, u, w1)"
    using Cons.prems(1) by (cases "trigStep op t w") auto
  with Cons.prems(1) obtain fs' where fs: "fs = f # fs'" "trigRun ops u w1 = Some (fs', t', w')" by auto
  from trigStep_slotAfter [OF op Cons.prems(2)] Cons.prems(3,4) fs(1)
  have "slotAfter key t1 c (past @ [op]) u" by simp
  from Cons.IH [OF fs(2) this] Cons.prems(3,4) fs(1) show ?case by simp
qed simp

text \<open>
  C15: a trigger does not fire again by itself. Between two consecutive firings of one slot, with no binding
  of that slot added or removed in between and a clock that does not run backwards, the user engaged and
  at least the cooldown passed, whatever other events, bindings and consents came in between.
\<close>

theorem trigger_refires_only_after_engagement:
  assumes first: "trigStep (TrigEvent t1 e1) t w = Some (Some f1, ta, wa)"
    and between: "trigRun ops ta wa = Some (fs, tb, wb)"
    and second: "trigStep (TrigEvent t2 e2) tb wb = Some (Some f2, tc, wc)"
    and same: "slotKey (tf_Binding f2) = slotKey (tf_Binding f1)"
    and untouched: "\<forall>op\<in>set ops. \<not> opTouches (slotKey (tf_Binding f1)) op"
    and consecutive: "\<forall>f\<in>set fs. \<not> firesKey (slotKey (tf_Binding f1)) f"
    and clock: "\<forall>op\<in>set ops. \<forall>u. opTime op = Some u \<longrightarrow> u \<le> t2"
    and cooldown: "\<forall>b\<in>set (tp_bindings t). slotKey b = slotKey (tf_Binding f1) \<longrightarrow> c \<le> effCooldown b"
  shows "TrigEngage \<in> set ops \<and> t1 + c \<le> t2"
proof -
  let ?key = "slotKey (tf_Binding f1)"
  have loop: "onEventLoop t1 e1 (tp_bindings t) t w = Some (Some f1, ta, wa)"
    using first by (simp add: onEvent_def)
  have "tp_slots ta ?key = Some \<lparr>ts_spentAt = t1, ts_engaged = False, ts_spent = True\<rparr>"
    by (rule onEventLoop_fired [OF loop])
  then have "slotAfter ?key t1 c [] ta"
    using onEventLoop_counts [OF loop] cooldown by (simp add: slotAfter_def slotGood_def)
  from trigRun_slotAfter [OF between this untouched consecutive]
  have after: "slotAfter ?key t1 c ops tb" by simp
  then obtain s where s: "tp_slots tb ?key = Some s" and good: "slotGood t1 c ops s"
    and cool: "\<forall>b\<in>set (tp_bindings tb). slotKey b = ?key \<longrightarrow> c \<le> effCooldown b" by (auto simp: slotAfter_def)
  have loop2: "onEventLoop t2 e2 (tp_bindings tb) tb wb = Some (Some f2, tc, wc)"
    using second by (simp add: onEvent_def)
  have "rearmed ?key t2 (tp_bindings tb) s"
    using onEventLoop_slot [OF loop2 s] same by (simp add: firesKey_def)
  with good cool clock show ?thesis
    by (cases "ts_spent s") (fastforce simp: slotGood_def rearmed_def)+
qed

definition exBinding :: "string \<Rightarrow> triggerBinding" where
  "exBinding ins = \<lparr>tb_Server = [], tb_Event = ''mail'', tb_Filter = None, tb_Instructions = ins, tb_Label = ''l'', tb_Cooldown = 100\<rparr>"

definition exEvent :: incomingEvent where
  "exEvent = \<lparr>ie_Server = ''s'', ie_Name = ''mail'', ie_ID = [], ie_Cursor = [], ie_Time = 0, ie_Data = ''{}''\<rparr>"

definition exPolicy :: "unit triggerPolicy" where
  "exPolicy = newTriggerPolicy \<lparr>tpc_Bindings = [exBinding ''read it''], tpc_Budget = 3, tpc_Consent = None\<rparr>"

lemmas exTrig = exPolicy_def exBinding_def exEvent_def newTriggerPolicy_def onEvent_def trigMatches_def
  effCooldown_def slotKey_def zeroSlot_def notifyEngagement_def Let_def

theorem trigger_refires_only_after_engagement_witness:
  "\<exists>ta tb tc f1 f2.
     trigStep (TrigEvent 10 exEvent) exPolicy () = Some (Some f1, ta, ()) \<and>
     trigRun [TrigEvent 20 exEvent, TrigEngage] ta () = Some ([None, None], tb, ()) \<and>
     trigStep (TrigEvent 150 exEvent) tb () = Some (Some f2, tc, ()) \<and>
     TrigEngage \<in> set [TrigEvent 20 exEvent, TrigEngage] \<and> (10::int) + 100 \<le> 150"
proof -
  obtain ta where a: "trigStep (TrigEvent 10 exEvent) exPolicy () = Some (Some \<lparr>tf_Binding = exBinding ''read it'', tf_Event = exEvent\<rparr>, ta, ())"
    and ta: "ta = exPolicy\<lparr>tp_slots := [slotKey (exBinding ''read it'') \<mapsto> \<lparr>ts_spentAt = 10, ts_engaged = False, ts_spent = True\<rparr>],
                tp_firings := 1\<rparr>"
    by (simp add: exTrig)
  obtain tb where b: "trigRun [TrigEvent 20 exEvent, TrigEngage] ta () = Some ([None, None], tb, ())"
    and tb: "tb = notifyEngagement ta"
    by (simp add: ta exTrig)
  obtain tc where c: "trigStep (TrigEvent 150 exEvent) tb () = Some (Some \<lparr>tf_Binding = exBinding ''read it'', tf_Event = exEvent\<rparr>, tc, ())"
    by (simp add: tb ta exTrig)
  have "TrigEngage \<in> set [TrigEvent 20 exEvent, TrigEngage] \<and> (10::int) + 100 \<le> 150"
    by (rule trigger_refires_only_after_engagement [OF a b c])
      (simp_all add: firesKey_def, simp add: exTrig)
  with a b c show ?thesis by blast
qed

text \<open>
  The budget bounds every history. However events, engagements and changes of the bindings follow each
  other, a policy built with a positive budget fires at most that many times, and its counter is the
  number of firings it returned.
\<close>

lemma trigger_budget_bounds_firings:
  assumes "0 < tpc_Budget cfg" "trigRun ops (newTriggerPolicy cfg) w = Some (fs, t', w')"
  shows "tp_firings t' = int (length (filter (\<lambda>f. f \<noteq> None) fs)) \<and>
    int (length (filter (\<lambda>f. f \<noteq> None) fs)) \<le> tpc_Budget cfg"
  using trigRun_counts [OF assms(2)] assms(1) by (simp add: newTriggerPolicy_def)

theorem trigger_budget_bounds_firings_witness:
  "\<exists>fs t'. trigRun [TrigEvent 10 exEvent, TrigEvent 20 exEvent] exPolicy () = Some (fs, t', ()) \<and>
     tp_firings t' = int (length (filter (\<lambda>f. f \<noteq> None) fs)) \<and> int (length (filter (\<lambda>f. f \<noteq> None) fs)) \<le> 3"
proof -
  obtain fs t' where r: "trigRun [TrigEvent 10 exEvent, TrigEvent 20 exEvent]
      (newTriggerPolicy \<lparr>tpc_Bindings = [exBinding ''read it''], tpc_Budget = 3, tpc_Consent = None\<rparr>) () = Some (fs, t', ())"
    by (simp add: exTrig)
  from trigger_budget_bounds_firings [OF _ r] r show ?thesis by (auto simp: exPolicy_def)
qed

text \<open>
  Removing a duplicated binding leaves a trap. When the configuration holds two bindings of one slot,
  \<^verbatim>\<open>Remove\<close> deletes the slot and only the first of them, and the next event the other one matches
  dereferences a nil slot.
\<close>

lemma removed_duplicate_binding_panics:
  "onEvent now exEvent
     (snd (trigRemove [] ''mail'' ''l''
       (newTriggerPolicy \<lparr>tpc_Bindings = [exBinding i1, exBinding i2], tpc_Budget = n, tpc_Consent = None\<rparr>))) w = None"
  by (simp add: exTrig trigRemove_def)

end
