(* ===== verification/Injection.thy ===== *)
theory Injection
  imports Triggers "HOL-Library.Multiset"
begin

text \<open>
  Event injection: the aggregation window of \<^verbatim>\<open>src/stages.go\<close> and the policy of \<^verbatim>\<open>src/injection.go\<close> that
  buffers server events and releases them before a turn, by priority and under a budget. JSON is a
  parameter: \<open>bind\<close> decodes an object (the inner \<open>None\<close> is \<^verbatim>\<open>null\<close>), \<open>marshal\<close> encodes one, \<open>field\<close>
  looks up a top-level field. The consent gate reads and changes a world \<open>'w\<close>. The iteration order of the
  map of windows, which Go leaves open, is an argument of a drain.
\<close>

subsection \<open>Aggregation windows\<close>

abbreviation "WindowLastWins \<equiv> ''last-wins''"
abbreviation "WindowMerge \<equiv> ''merge''"
abbreviation "WindowDebounce \<equiv> ''debounce''"

record 'e wbucket =
  bk_acc :: 'e
  bk_deadline :: gotime

record 'e windowStage =
  ws_d :: int
  ws_strategy :: string
  ws_buckets :: "string \<rightharpoonup> 'e wbucket"
  ws_order :: "string list"

definition newWindowStage :: "int \<Rightarrow> string \<Rightarrow> 'e windowStage" where
  "newWindowStage d strategy = \<lparr>ws_d = d, ws_strategy = strategy, ws_buckets = Map.empty, ws_order = []\<rparr>"

text \<open>\<open>merge\<close> may panic, which is the \<open>None\<close>.\<close>

definition windowPush ::
  "('e \<Rightarrow> string) \<Rightarrow> ('e \<Rightarrow> 'e \<Rightarrow> 'e option) option \<Rightarrow> gotime \<Rightarrow> 'e \<Rightarrow> 'e windowStage \<Rightarrow>
   ('e list \<times> 'e windowStage) option" where
  "windowPush key merge now ev s =
     (let k = key ev
      in case ws_buckets s k of
           None \<Rightarrow>
             Some ([], s\<lparr>ws_buckets := (ws_buckets s)(k \<mapsto> \<lparr>bk_acc = ev, bk_deadline = now + ws_d s\<rparr>),
                         ws_order := ws_order s @ [k]\<rparr>)
         | Some b \<Rightarrow>
             map_option (\<lambda>acc.
               ([], s\<lparr>ws_buckets := (ws_buckets s)(k \<mapsto>
                        \<lparr>bk_acc = acc,
                         bk_deadline = (if ws_strategy s = WindowDebounce then now + ws_d s else bk_deadline b)\<rparr>)\<rparr>))
               (case merge of
                  Some f \<Rightarrow> if ws_strategy s = WindowMerge then f (bk_acc b) ev else Some ev
                | None \<Rightarrow> Some ev))"

text \<open>A key of the order without a bucket would be a nil dereference; the invariant below excludes it.\<close>

fun flushLoop ::
  "gotime \<Rightarrow> string list \<Rightarrow> (string \<rightharpoonup> 'e wbucket) \<Rightarrow> ('e list \<times> string list \<times> (string \<rightharpoonup> 'e wbucket)) option" where
  "flushLoop now [] m = Some ([], [], m)"
| "flushLoop now (k # ks) m =
     (case m k of
        None \<Rightarrow> None
      | Some b \<Rightarrow>
          if \<not> now < bk_deadline b
          then map_option (\<lambda>(out, rest, m'). (bk_acc b # out, rest, m')) (flushLoop now ks (m(k := None)))
          else map_option (\<lambda>(out, rest, m'). (out, k # rest, m')) (flushLoop now ks m))"

definition windowFlush :: "gotime \<Rightarrow> 'e windowStage \<Rightarrow> ('e list \<times> 'e windowStage) option" where
  "windowFlush now s =
     map_option (\<lambda>(out, rest, m). (out, s\<lparr>ws_order := rest, ws_buckets := m\<rparr>))
       (flushLoop now (ws_order s) (ws_buckets s))"

definition mergeFields :: "(string \<times> rawjson) list \<Rightarrow> (string \<times> rawjson) list \<Rightarrow> (string \<times> rawjson) list" where
  "mergeFields a n = fold (\<lambda>(k, v) m. filter (\<lambda>e. fst e \<noteq> k) m @ [(k, v)]) n a"

definition shallowMergeJSON ::
  "(rawjson \<Rightarrow> (string \<times> rawjson) list option option) \<Rightarrow> ((string \<times> rawjson) list option \<Rightarrow> goerr + rawjson) \<Rightarrow>
   incomingEvent \<Rightarrow> incomingEvent \<Rightarrow> incomingEvent option" where
  "shallowMergeJSON bind marshal acc nxt =
     (case (bind (ie_Data acc), bind (ie_Data nxt)) of
        (Some a, Some n) \<Rightarrow>
          (let out = (\<lambda>m. case marshal m of Inl _ \<Rightarrow> nxt | Inr raw \<Rightarrow> nxt\<lparr>ie_Data := raw\<rparr>);
               fields = (case n of None \<Rightarrow> [] | Some fs \<Rightarrow> fs)
           in case a of
                Some m \<Rightarrow> Some (out (Some (mergeFields m fields)))
              | None \<Rightarrow> if fields = [] then Some (out None) else None)
      | _ \<Rightarrow> Some nxt)"

subsection \<open>Hints and configuration\<close>

record aggregateHint =
  ah_WindowMs :: int
  ah_Strategy :: string

record contextHint =
  ch_Priority :: string
  ch_Aggregate :: "aggregateHint option"
  ch_Template :: string
  ch_Retention :: string
  ch_Sensitivity :: string

definition zeroHint :: contextHint where
  "zeroHint = \<lparr>ch_Priority = [], ch_Aggregate = None, ch_Template = [], ch_Retention = [], ch_Sensitivity = []\<rparr>"

record 'w injectionConfig =
  ic_Hints :: "string \<rightharpoonup> contextHint"
  ic_Filters :: "(incomingEvent \<Rightarrow> bool) list"
  ic_Transforms :: "(incomingEvent \<Rightarrow> incomingEvent \<times> bool) list"
  ic_Merge :: "(incomingEvent \<Rightarrow> incomingEvent \<Rightarrow> incomingEvent option) option"
  ic_MaxPerDrain :: int
  ic_Consent :: "(contextHint \<Rightarrow> incomingEvent \<Rightarrow> 'w \<Rightarrow> bool \<times> 'w) option"

record injectedContext =
  in_Event :: incomingEvent
  in_Text :: string
  in_Priority :: string

record 'w injectionPolicy =
  ip_cfg :: "'w injectionConfig"
  ip_discovered :: "string \<rightharpoonup> contextHint"
  ip_windows :: "string \<rightharpoonup> incomingEvent windowStage"
  ip_pending :: "incomingEvent list"
  ip_session :: "string \<rightharpoonup> incomingEvent"
  ip_sessOrd :: "string list"
  ip_dropped :: int

abbreviation "defaultMaxPerDrain \<equiv> 16 :: int"

definition newEventInjectionPolicy ::
  "(incomingEvent \<Rightarrow> incomingEvent \<Rightarrow> incomingEvent option) \<Rightarrow> 'w injectionConfig \<Rightarrow> 'w injectionPolicy" where
  "newEventInjectionPolicy shallow cfg =
     \<lparr>ip_cfg = cfg\<lparr>ic_MaxPerDrain := (if ic_MaxPerDrain cfg \<le> 0 then defaultMaxPerDrain else ic_MaxPerDrain cfg),
                   ic_Merge := (case ic_Merge cfg of None \<Rightarrow> Some shallow | Some f \<Rightarrow> Some f)\<rparr>,
      ip_discovered = Map.empty, ip_windows = Map.empty, ip_pending = [], ip_session = Map.empty,
      ip_sessOrd = [], ip_dropped = 0\<rparr>"

definition setHint :: "string \<Rightarrow> contextHint \<Rightarrow> 'w injectionPolicy \<Rightarrow> 'w injectionPolicy" where
  "setHint name h p = p\<lparr>ip_discovered := (ip_discovered p)(name \<mapsto> h)\<rparr>"

definition hintOf :: "'w injectionPolicy \<Rightarrow> string \<Rightarrow> contextHint" where
  "hintOf p name =
     (case ic_Hints (ip_cfg p) name of
        Some h \<Rightarrow> h
      | None \<Rightarrow> (case ip_discovered p name of Some h \<Rightarrow> h | None \<Rightarrow> zeroHint))"

subsection \<open>Ingest\<close>

definition eventKey :: "incomingEvent \<Rightarrow> string" where
  "eventKey e = ie_Server e @ ''/'' @ ie_Name e"

definition bufferEvent :: "incomingEvent \<Rightarrow> contextHint \<Rightarrow> 'w injectionPolicy \<Rightarrow> 'w injectionPolicy" where
  "bufferEvent ev h p =
     (if ch_Retention h = ''session'' then
        p\<lparr>ip_sessOrd := (if ip_session p (eventKey ev) = None then ip_sessOrd p @ [eventKey ev] else ip_sessOrd p),
          ip_session := (ip_session p)(eventKey ev \<mapsto> ev)\<rparr>
      else p\<lparr>ip_pending := ip_pending p @ [ev]\<rparr>)"

fun applyTransforms :: "(incomingEvent \<Rightarrow> incomingEvent \<times> bool) list \<Rightarrow> incomingEvent \<Rightarrow> incomingEvent option" where
  "applyTransforms [] ev = Some ev"
| "applyTransforms (tr # trs) ev =
     (case tr ev of (ev', keep) \<Rightarrow> if keep then applyTransforms trs ev' else None)"

definition ingest :: "gotime \<Rightarrow> incomingEvent \<Rightarrow> 'w injectionPolicy \<Rightarrow> 'w injectionPolicy option" where
  "ingest now ev0 p =
     (if \<not> list_all (\<lambda>f. f ev0) (ic_Filters (ip_cfg p)) then Some p
      else case applyTransforms (ic_Transforms (ip_cfg p)) ev0 of
             None \<Rightarrow> Some p
           | Some ev \<Rightarrow>
               (let h = hintOf p (ie_Name ev)
                in case ch_Aggregate h of
                     None \<Rightarrow> Some (bufferEvent ev h p)
                   | Some agg \<Rightarrow>
                       if ah_WindowMs agg \<le> 0 then Some (bufferEvent ev h p)
                       else
                         (let w = (case ip_windows p (ie_Name ev) of
                                     Some w \<Rightarrow> w
                                   | None \<Rightarrow> newWindowStage (wrap64 (ah_WindowMs agg * 1000000)) (ah_Strategy agg))
                          in map_option (\<lambda>(released, w').
                               fold (\<lambda>e. bufferEvent e h) released
                                 (p\<lparr>ip_windows := (ip_windows p)(ie_Name ev \<mapsto> w')\<rparr>))
                             (windowPush eventKey (ic_Merge (ip_cfg p)) now ev w))))"

subsection \<open>Rendering\<close>

definition isFieldChar :: "char \<Rightarrow> bool" where
  "isFieldChar c \<longleftrightarrow>
     (let n = (of_char c :: nat)
      in (48 \<le> n \<and> n \<le> 57) \<or> (65 \<le> n \<and> n \<le> 90) \<or> (97 \<le> n \<and> n \<le> 122) \<or> c \<in> {CHR ''_'', CHR ''.'', CHR ''-''})"

definition trimQuotes :: "string \<Rightarrow> string" where
  "trimQuotes s = rev (dropWhile (\<lambda>c. c = CHR 0x22) (rev (dropWhile (\<lambda>c. c = CHR 0x22) s)))"

text \<open>The template with every field reference replaced; a field the payload lacks stays as written.\<close>

function renderTemplate :: "(string \<Rightarrow> rawjson option) \<Rightarrow> string \<Rightarrow> string" where
  "renderTemplate field [] = []"
| "renderTemplate field (c # s) =
     (let body = takeWhile isFieldChar (drop 2 (c # s)); rest = drop (2 + length body) (c # s)
      in if hasPrefix (c # s) ''{{'' \<and> body \<noteq> [] \<and> hasPrefix rest ''}}''
         then (case field body of Some v \<Rightarrow> trimQuotes v | None \<Rightarrow> ''{{'' @ body @ ''}}'')
              @ renderTemplate field (drop 2 rest)
         else c # renderTemplate field s)"
  by pat_completeness auto
termination
  by (relation "measure (\<lambda>(_, s). length s)") auto

definition renderEvent :: "(rawjson \<Rightarrow> string \<Rightarrow> rawjson option) \<Rightarrow> incomingEvent \<Rightarrow> contextHint \<Rightarrow> string" where
  "renderEvent field ev h =
     (if ch_Template h = [] then
        render_fmt ''event %s from %s: %s'' [ie_Name ev, ie_Server ev, trimSpace (ie_Data ev)] []
      else renderTemplate (field (ie_Data ev)) (ch_Template h))"

subsection \<open>Drain\<close>

definition consentLocked ::
  "'w injectionPolicy \<Rightarrow> contextHint \<Rightarrow> incomingEvent \<Rightarrow> 'w \<Rightarrow> bool \<times> 'w" where
  "consentLocked p h ev w =
     (if ch_Sensitivity h = [] \<or> ch_Sensitivity h = ''public'' then (True, w)
      else case ic_Consent (ip_cfg p) of
             Some c \<Rightarrow> c h ev w
           | None \<Rightarrow> (ch_Sensitivity h = ''personal'', w))"

definition priorityOrDefault :: "string \<Rightarrow> string" where
  "priorityOrDefault p = (if p = [] then ''medium'' else p)"

definition priorityRank :: "string \<Rightarrow> nat" where
  "priorityRank p = (if p = ''critical'' then 0 else if p = ''high'' then 1 else if p = ''medium'' then 2 else 3)"

record cand =
  cd_ev :: incomingEvent
  cd_session :: bool

text \<open>The consent gate over the candidates: those kept and those refused.\<close>

fun gateCands :: "'w injectionPolicy \<Rightarrow> cand list \<Rightarrow> 'w \<Rightarrow> (cand list \<times> cand list) \<times> 'w" where
  "gateCands p [] w = (([], []), w)"
| "gateCands p (c # cs) w =
     (let (ok, w1) = consentLocked p (hintOf p (ie_Name (cd_ev c))) (cd_ev c) w;
          ((kept, refused), w2) = gateCands p cs w1
      in (if ok then (c # kept, refused) else (kept, c # refused), w2))"

fun flushWindows :: "gotime \<Rightarrow> string list \<Rightarrow> 'w injectionPolicy \<Rightarrow> 'w injectionPolicy option" where
  "flushWindows now [] p = Some p"
| "flushWindows now (n # ns) p =
     (case ip_windows p n of
        None \<Rightarrow> flushWindows now ns p
      | Some w \<Rightarrow>
          (case windowFlush now w of
             None \<Rightarrow> None
           | Some (released, w') \<Rightarrow>
               flushWindows now ns
                 (fold (\<lambda>e p. bufferEvent e (hintOf p n) p) released
                   (p\<lparr>ip_windows := (ip_windows p)(n \<mapsto> w')\<rparr>))))"

definition zeroEvent :: incomingEvent where
  "zeroEvent = \<lparr>ie_Server = [], ie_Name = [], ie_ID = [], ie_Cursor = [], ie_Time = 0, ie_Data = []\<rparr>"

definition candsOf :: "'w injectionPolicy \<Rightarrow> cand list" where
  "candsOf p =
     map (\<lambda>k. \<lparr>cd_ev = (case ip_session p k of Some e \<Rightarrow> e | None \<Rightarrow> zeroEvent), cd_session = True\<rparr>) (ip_sessOrd p)
     @ map (\<lambda>ev. \<lparr>cd_ev = ev, cd_session = False\<rparr>) (ip_pending p)"

definition candPriority :: "'w injectionPolicy \<Rightarrow> cand \<Rightarrow> string" where
  "candPriority p c = priorityOrDefault (ch_Priority (hintOf p (ie_Name (cd_ev c))))"

definition drain ::
  "(rawjson \<Rightarrow> string \<Rightarrow> rawjson option) \<Rightarrow> gotime \<Rightarrow> string list \<Rightarrow> 'w injectionPolicy \<Rightarrow> 'w \<Rightarrow>
   (injectedContext list \<times> 'w injectionPolicy \<times> 'w) option" where
  "drain field now order p0 w =
     map_option (\<lambda>p.
            let ((kept, refused), w1) = gateCands p (candsOf p) w;
                ranked = sort_key (\<lambda>c. priorityRank (candPriority p c)) kept;
                n = nat (ic_MaxPerDrain (ip_cfg p))
            in (map (\<lambda>c. \<lparr>in_Event = cd_ev c, in_Text = renderEvent field (cd_ev c) (hintOf p (ie_Name (cd_ev c))),
                          in_Priority = candPriority p c\<rparr>) (take n ranked),
                p\<lparr>ip_pending := map cd_ev (filter (\<lambda>c. \<not> cd_session c) (drop n ranked)),
                  ip_dropped := ip_dropped p + int (length refused)\<rparr>, w1))
       (flushWindows now order p0)"

subsection \<open>Windows never lose their bucket\<close>

definition windowInv :: "'e windowStage \<Rightarrow> bool" where
  "windowInv s \<longleftrightarrow> distinct (ws_order s) \<and> set (ws_order s) = dom (ws_buckets s)"

lemma windowInv_new: "windowInv (newWindowStage d strategy)"
  by (simp add: windowInv_def newWindowStage_def)

lemma windowInv_push: "windowInv s \<Longrightarrow> windowPush key merge now ev s = Some (out, s') \<Longrightarrow> windowInv s' \<and> out = []"
  by (auto simp: windowInv_def windowPush_def Let_def split: option.splits if_splits)

lemma flushLoop_some:
  assumes "distinct ks" "set ks \<subseteq> dom m"
  shows "\<exists>out rest m'. flushLoop now ks m = Some (out, rest, m') \<and> set rest \<subseteq> set ks \<and> distinct rest \<and>
    dom m' = dom m - (set ks - set rest)"
  using assms
proof (induction now ks m rule: flushLoop.induct)
  case (2 now k ks m)
  then obtain b where b: "m k = Some b" by auto
  show ?case
  proof (cases "now < bk_deadline b")
    case True
    with "2.IH"(2) [OF b] "2.prems" obtain out rest m' where IH: "flushLoop now ks m = Some (out, rest, m')"
      "set rest \<subseteq> set ks" "distinct rest" "dom m' = dom m - (set ks - set rest)" by auto
    moreover have "k \<notin> set rest" "k \<notin> set ks" using IH(2) "2.prems"(1) by auto
    ultimately show ?thesis using b True by (intro exI [of _ out] exI [of _ "k # rest"] exI [of _ m']) auto
  next
    case False
    have "set ks \<subseteq> dom (m(k := None))" using "2.prems" by auto
    then have "\<exists>out rest m'. flushLoop now ks (m(k := None)) = Some (out, rest, m') \<and> set rest \<subseteq> set ks \<and>
        distinct rest \<and> dom m' = dom (m(k := None)) - (set ks - set rest)"
      by (intro "2.IH"(1) [OF b]) (use False "2.prems"(1) in auto)
    then obtain out rest m' where IH: "flushLoop now ks (m(k := None)) = Some (out, rest, m')"
      "set rest \<subseteq> set ks" "distinct rest" "dom m' = dom (m(k := None)) - (set ks - set rest)" by blast
    moreover have "k \<notin> set rest" using IH(2) "2.prems"(1) by auto
    ultimately show ?thesis using b False by (intro exI [of _ "bk_acc b # out"] exI [of _ rest] exI [of _ m']) auto
  qed
qed simp

lemma windowInv_flush:
  assumes "windowInv s"
  shows "\<exists>out s'. windowFlush now s = Some (out, s') \<and> windowInv s'"
proof -
  from flushLoop_some [of "ws_order s" "ws_buckets s" now] assms obtain out rest m'
    where "flushLoop now (ws_order s) (ws_buckets s) = Some (out, rest, m')" "set rest \<subseteq> set (ws_order s)"
      "distinct rest" "dom m' = dom (ws_buckets s) - (set (ws_order s) - set rest)" by (auto simp: windowInv_def)
  with assms show ?thesis by (auto simp: windowFlush_def windowInv_def)
qed

definition injInv :: "'w injectionPolicy \<Rightarrow> bool" where
  "injInv p \<longleftrightarrow>
     (\<forall>n w. ip_windows p n = Some w \<longrightarrow> windowInv w) \<and> 0 < ic_MaxPerDrain (ip_cfg p) \<and>
     distinct (ip_sessOrd p) \<and> set (ip_sessOrd p) = dom (ip_session p)"

lemma injInv_new: "injInv (newEventInjectionPolicy shallow cfg)"
  by (simp add: injInv_def newEventInjectionPolicy_def)

lemma injInv_setHint: "injInv p \<Longrightarrow> injInv (setHint n h p)"
  by (simp add: injInv_def setHint_def)

lemma injInv_buffer: "injInv p \<Longrightarrow> injInv (bufferEvent ev h p)"
  by (auto simp: injInv_def bufferEvent_def)

lemma injInv_buffers: "injInv p \<Longrightarrow> injInv (fold (\<lambda>e p. bufferEvent e (f p) p) es p)"
  by (induction es arbitrary: p) (auto simp: injInv_buffer)

lemma injInv_window: "injInv p \<Longrightarrow> windowInv w \<Longrightarrow> injInv (p\<lparr>ip_windows := (ip_windows p)(n \<mapsto> w)\<rparr>)"
  by (simp add: injInv_def)

lemma injInv_ingest:
  assumes "injInv p" "ingest now ev p = Some p'"
  shows "injInv p'"
proof (cases "list_all (\<lambda>f. f ev) (ic_Filters (ip_cfg p)) \<and> applyTransforms (ic_Transforms (ip_cfg p)) ev \<noteq> None")
  case False
  with assms show ?thesis by (auto simp: ingest_def split: if_splits option.splits)
next
  case True
  then obtain e where e: "applyTransforms (ic_Transforms (ip_cfg p)) ev = Some e" by blast
  let ?h = "hintOf p (ie_Name e)"
  consider "p' = bufferEvent e ?h p"
    | w w' out where "windowInv w" "windowPush eventKey (ic_Merge (ip_cfg p)) now e w = Some (out, w')"
        "p' = fold (\<lambda>e. bufferEvent e ?h) out (p\<lparr>ip_windows := (ip_windows p)(ie_Name e \<mapsto> w')\<rparr>)"
  proof -
    have win: "windowInv (case ip_windows p n of Some w \<Rightarrow> w | None \<Rightarrow> newWindowStage d st)" for n d st
      using assms(1) by (auto simp: injInv_def windowInv_new split: option.split)
    show thesis
    proof (cases "\<exists>agg. ch_Aggregate ?h = Some agg \<and> \<not> ah_WindowMs agg \<le> 0")
      case False
      with assms(2) True e show ?thesis by (intro that(1)) (auto simp: ingest_def Let_def split: option.splits)
    next
      case agg: True
      with assms(2) True e show ?thesis
        by (auto simp: ingest_def Let_def intro: that(2) [OF win])
    qed
  qed
  then show ?thesis
  proof cases
    case 1
    with assms(1) show ?thesis by (simp add: injInv_buffer)
  next
    case 2
    with windowInv_push [OF 2(1,2)] assms(1) show ?thesis by (simp add: injInv_window)
  qed
qed

lemma flushWindows_inv:
  "injInv p \<Longrightarrow> \<exists>p'. flushWindows now ns p = Some p' \<and> injInv p' \<and> ip_cfg p' = ip_cfg p"
proof (induction ns arbitrary: p)
  case (Cons n ns)
  show ?case
  proof (cases "ip_windows p n")
    case None
    with Cons show ?thesis by simp
  next
    case (Some w)
    then have "windowInv w" using Cons.prems by (auto simp: injInv_def)
    from windowInv_flush [OF this, of now] obtain out w' where w': "windowFlush now w = Some (out, w')" "windowInv w'" by blast
    let ?p = "fold (\<lambda>e p. bufferEvent e (hintOf p n) p) out (p\<lparr>ip_windows := (ip_windows p)(n \<mapsto> w')\<rparr>)"
    have "ip_cfg (fold (\<lambda>e p. bufferEvent e (hintOf p n) p) out q) = ip_cfg q" for q :: "'a injectionPolicy"
      by (induction out arbitrary: q) (simp_all add: bufferEvent_def)
    then have "ip_cfg ?p = ip_cfg p" by simp
    moreover have "injInv ?p" by (rule injInv_buffers [OF injInv_window [OF Cons.prems w'(2)]])
    ultimately show ?thesis using Cons.IH [of ?p] Some w'(1) by simp
  qed
qed simp

subsection \<open>Nothing is lost at a drain\<close>

lemma gateCands_split:
  "gateCands p cs w = ((kept, refused), w') \<Longrightarrow> mset cs = mset kept + mset refused"
  by (induction p cs w arbitrary: kept refused w' rule: gateCands.induct)
    (auto simp: Let_def split: prod.splits if_splits)

lemma turn_cands: "filter (\<lambda>c. \<not> cd_session c) (candsOf p) = map (\<lambda>ev. \<lparr>cd_ev = ev, cd_session = False\<rparr>) (ip_pending p)"
  by (simp add: candsOf_def filter_map comp_def)

lemma mset_turn:
  assumes "mset (candsOf p) = mset as + mset bs + mset cs"
  shows "mset (ip_pending p) = mset (map cd_ev (filter (\<lambda>c. \<not> cd_session c) as)) +
    mset (map cd_ev (filter (\<lambda>c. \<not> cd_session c) bs)) + mset (map cd_ev (filter (\<lambda>c. \<not> cd_session c) cs))"
proof -
  have "mset (ip_pending p) = image_mset cd_ev (mset (filter (\<lambda>c. \<not> cd_session c) (candsOf p)))"
    unfolding turn_cands by (simp add: multiset.map_comp comp_def)
  also have "\<dots> = image_mset cd_ev (filter_mset (\<lambda>c. \<not> cd_session c) (mset as + mset bs + mset cs))"
    unfolding assms [symmetric] by simp
  finally show ?thesis by simp
qed

lemma sorted_take_drop:
  assumes "sorted (map f xs)" "x \<in> set (take n xs)" "y \<in> set (drop n xs)"
  shows "f x \<le> f y"
proof -
  have "sorted (map f (take n xs) @ map f (drop n xs))"
    using assms(1) by (simp add: map_append [symmetric] del: map_append)
  with assms(2,3) show ?thesis by (simp add: sorted_append)
qed


definition exInjCfg :: "unit injectionConfig" where
  "exInjCfg = \<lparr>ic_Hints = [''mail'' \<mapsto> zeroHint\<lparr>ch_Priority := ''low''\<rparr>], ic_Filters = [], ic_Transforms = [],
     ic_Merge = None, ic_MaxPerDrain = 1, ic_Consent = None\<rparr>"

definition exInj :: "unit injectionPolicy" where
  "exInj = the (ingest 2 (exEvent\<lparr>ie_Name := ''alarm''\<rparr>) (the (ingest 1 exEvent (newEventInjectionPolicy (\<lambda>_ n. Some n) exInjCfg))))"

lemma exInj_eq: "ip_pending exInj = [exEvent, exEvent\<lparr>ie_Name := ''alarm''\<rparr>]" "injInv exInj"
  by (simp_all add: exInj_def ingest_def newEventInjectionPolicy_def exInjCfg_def exEvent_def hintOf_def zeroHint_def
      bufferEvent_def Let_def injInv_def)


subsection \<open>Two departures from the documentation\<close>

text \<open>
  A refused event that is retained for the session is not dropped: it stays, and every drain counts it
  again.
\<close>

definition exRestricted :: "unit injectionConfig" where
  "exRestricted = exInjCfg\<lparr>ic_Hints := [''mail'' \<mapsto> zeroHint\<lparr>ch_Retention := ''session'', ch_Sensitivity := ''restricted''\<rparr>]\<rparr>"

lemma refused_session_event_counted_again:
  "\<exists>p0 p1 p2 out1 out2.
     ingest 1 exEvent (newEventInjectionPolicy (\<lambda>_ n. Some n) exRestricted) = Some p0 \<and>
     drain (\<lambda>_ _. None) 2 [] p0 () = Some (out1, p1, ()) \<and> drain (\<lambda>_ _. None) 3 [] p1 () = Some (out2, p2, ()) \<and>
     ip_dropped p1 = 1 \<and> ip_dropped p2 = 2"
  by (simp add: ingest_def newEventInjectionPolicy_def exRestricted_def exInjCfg_def exEvent_def hintOf_def zeroHint_def
      bufferEvent_def drain_def candsOf_def consentLocked_def eventKey_def Let_def)

text \<open>
  A payload of \<^verbatim>\<open>null\<close> in a merge window is not treated as last-wins: decoding leaves a nil map, and
  merging the next object into it panics.
\<close>

lemma shallow_merge_null_panics:
  assumes "bind (ie_Data acc) = Some None" "bind (ie_Data nxt) = Some (Some (f # fs))"
  shows "shallowMergeJSON bind marshal acc nxt = None"
  using assms by (simp add: shallowMergeJSON_def)

end
