(* ===== verification/PlanTool.thy ===== *)
theory PlanTool
  imports StepStage ToolSources
begin

text \<open>
  The plan tool (\<^verbatim>\<open>src/plan.go\<close>): a checklist the model publishes through \<^verbatim>\<open>update_plan\<close>, validated as a
  whole, and the request-scoped stage that shows it again when the conversation no longer does.
  \<open>decode\<close> reads the arguments as a plan.
\<close>

abbreviation "PlanPending \<equiv> ''pending''"
abbreviation "PlanInProgress \<equiv> ''in_progress''"
abbreviation "PlanCompleted \<equiv> ''completed''"
abbreviation "PlanToolName \<equiv> ''update_plan''"

text \<open>\<^verbatim>\<open>Validate\<close>: the loop counts the steps from \<open>i\<close> and those in progress.\<close>

fun validateSteps :: "nat \<Rightarrow> nat \<Rightarrow> planStep list \<Rightarrow> goerr + nat" where
  "validateSteps i n [] = Inr n"
| "validateSteps i n (s # ss) =
     (if trimSpace (ps_Step s) = [] then Inl (Errorf ''step %d is empty'' [itoa (int (Suc i))] None)
      else if ps_Status s = PlanPending \<or> ps_Status s = PlanCompleted then validateSteps (Suc i) n ss
      else if ps_Status s = PlanInProgress then validateSteps (Suc i) (Suc n) ss
      else Inl (Errorf ''step %d's status is %q; use %s, %s or %s''
                 [itoa (int (Suc i)), ps_Status s, PlanPending, PlanInProgress, PlanCompleted] None))"

definition planValidate :: "plan \<Rightarrow> goerr option" where
  "planValidate p =
     (if pl_Steps p = [] then Some (Errorf ''a plan needs at least one step'' [] None)
      else case validateSteps 0 0 (pl_Steps p) of
             Inl e \<Rightarrow> Some e
           | Inr n \<Rightarrow>
               if n > 1 then Some (Errorf ''%d steps are in_progress; at most one can be'' [itoa (int n)] None)
               else None)"

definition planMark :: "string \<Rightarrow> string" where
  "planMark st = (if st = PlanCompleted then ''[x]'' else if st = PlanInProgress then ''[~]'' else ''[ ]'')"

definition planString :: "plan \<Rightarrow> string" where
  "planString p =
     (if pl_Explanation p \<noteq> [] then pl_Explanation p @ [newline] else [])
     @ concat (map (\<lambda>s. planMark (ps_Status s) @ '' '' @ ps_Step s @ [newline]) (pl_Steps p))"

record planTool =
  pt_latest :: "plan option"

definition newPlanTool :: planTool where
  "newPlanTool = \<lparr>pt_latest = None\<rparr>"

definition planTools :: "goerr + toolDef list" where
  "planTools = Inr [\<lparr>td_Name = PlanToolName,
     td_Description = ''Publish a short checklist of your plan, for the user to follow, when a task has several distinct steps. Skip it when the task is a quick fix or you can see the whole job from where you are. '' @
       ''Update it only when a step's status changes, not after each action. Send the whole plan each time, with at most one step in_progress.'',
     td_Annotations = [(''readOnlyHint'', ABool True)]\<rparr>]"

definition planFromArgs :: "(toolArgs \<Rightarrow> goerr + plan) \<Rightarrow> toolArgs \<Rightarrow> goerr + plan" where
  "planFromArgs decode args =
     (case decode args of
        Inl e \<Rightarrow> Inl (Errorf (''the plan isn'' @ [CHR 0x27] @ ''t a list of {step, status}: %w'') [] (Some e))
      | Inr p \<Rightarrow> Inr p)"

text \<open>The acknowledgement: how many steps are done, and the step in progress, the last one if several.\<close>

definition planAck :: "plan \<Rightarrow> string" where
  "planAck p =
     (let done = length (filter (\<lambda>s. ps_Status s = PlanCompleted) (pl_Steps p));
          current = foldl (\<lambda>c s. if ps_Status s = PlanInProgress then ps_Step s else c) [] (pl_Steps p)
      in render_fmt ''plan updated: %d of %d steps done'' [itoa (int done), itoa (int (length (pl_Steps p)))] []
         @ (if current \<noteq> [] then ''; now: '' @ current else []))"

text \<open>\<^verbatim>\<open>Call\<close>: the result, the plans published as events (\<open>emits\<close>: the context carries an emitter), the state.\<close>

definition planCall ::
  "(toolArgs \<Rightarrow> goerr + plan) \<Rightarrow> bool \<Rightarrow> string \<Rightarrow> toolArgs \<Rightarrow> planTool \<Rightarrow> callResult \<times> plan list \<times> planTool" where
  "planCall decode emits name args t =
     (if name \<noteq> PlanToolName then (Inl (unknownTool ''%w: %q'' name), [], t)
      else case (case planFromArgs decode args of
                   Inl e \<Rightarrow> Inl e
                 | Inr p \<Rightarrow> (case planValidate p of Some e \<Rightarrow> Inl e | None \<Rightarrow> Inr p)) of
             Inl e \<Rightarrow> (Inr (Some (errorToolResult (''plan not updated: '' @ errText e))), [], t)
           | Inr p \<Rightarrow>
               (Inr (Some \<lparr>tr_Content = [\<lparr>ct_Type = ''text'', ct_Text = planAck p\<rparr>], tr_StructuredContent = None, tr_IsError = False\<rparr>),
                if emits then [p] else [], t\<lparr>pt_latest := Some p\<rparr>))"

text \<open>The stage; \<open>latest\<close> reads the tool's state from the world.\<close>

definition planStage :: "('w \<Rightarrow> plan option) \<Rightarrow> ('p, 'w) stepStage" where
  "planStage latest = \<lparr>sg_Name = ''agent.plan'', sg_Scope = ScopeRequest,
     sg_Run = (\<lambda>info v w.
       case latest w of
         None \<Rightarrow> (Inr v, w)
       | Some p \<Rightarrow>
           if list_ex (\<lambda>m. list_ex (\<lambda>c. tc_Name c = PlanToolName) (m_ToolCalls m)) (sv_Messages v) then (Inr v, w)
           else (Inr (v\<lparr>sv_Messages := sv_Messages v @
                   [textMessage RoleSystem (''Your current plan (from update_plan):'' @ [newline] @ planString p)]\<rparr>), w))\<rparr>"

subsection \<open>What a published plan looks like\<close>

definition planOk :: "plan \<Rightarrow> bool" where
  "planOk p \<longleftrightarrow>
     pl_Steps p \<noteq> [] \<and>
     (\<forall>s\<in>set (pl_Steps p). trimSpace (ps_Step s) \<noteq> [] \<and> ps_Status s \<in> {PlanPending, PlanInProgress, PlanCompleted}) \<and>
     length (filter (\<lambda>s. ps_Status s = PlanInProgress) (pl_Steps p)) \<le> 1"

lemma validateSteps_Inr:
  "validateSteps i n ss = Inr k \<longleftrightarrow>
     k = n + length (filter (\<lambda>s. ps_Status s = PlanInProgress) ss) \<and>
     (\<forall>s\<in>set ss. trimSpace (ps_Step s) \<noteq> [] \<and> ps_Status s \<in> {PlanPending, PlanInProgress, PlanCompleted})"
  by (induction i n ss rule: validateSteps.induct) auto

lemma planValidate_iff: "planValidate p = None \<longleftrightarrow> planOk p"
proof (cases "validateSteps 0 0 (pl_Steps p)")
  case (Inl e)
  then have "\<nexists>k. validateSteps 0 0 (pl_Steps p) = Inr k" by simp
  then have "\<not> (\<forall>s\<in>set (pl_Steps p). trimSpace (ps_Step s) \<noteq> [] \<and> ps_Status s \<in> {PlanPending, PlanInProgress, PlanCompleted})"
    unfolding validateSteps_Inr by blast
  with Inl show ?thesis by (auto simp: planValidate_def planOk_def)
next
  case (Inr k)
  with validateSteps_Inr [of 0 0 "pl_Steps p" k] show ?thesis
    by (auto simp: planValidate_def planOk_def)
qed

definition soundCall :: "(toolArgs \<Rightarrow> goerr + plan) \<Rightarrow> string \<times> toolArgs \<Rightarrow> bool" where
  "soundCall decode c \<longleftrightarrow> fst c = PlanToolName \<and> (case decode (snd c) of Inl _ \<Rightarrow> False | Inr p \<Rightarrow> planOk p)"

fun planRun :: "(toolArgs \<Rightarrow> goerr + plan) \<Rightarrow> (string \<times> toolArgs) list \<Rightarrow> planTool \<Rightarrow> plan list \<times> planTool" where
  "planRun decode [] t = ([], t)"
| "planRun decode ((name, args) # cs) t =
     (case planCall decode True name args t of
        (_, ps, t1) \<Rightarrow> (case planRun decode cs t1 of (qs, t2) \<Rightarrow> (ps @ qs, t2)))"

lemma planCall_cases:
  obtains p where "planOk p" "planCall decode emits name args t =
      (Inr (Some \<lparr>tr_Content = [\<lparr>ct_Type = ''text'', ct_Text = planAck p\<rparr>], tr_StructuredContent = None, tr_IsError = False\<rparr>),
       if emits then [p] else [], t\<lparr>pt_latest := Some p\<rparr>)" "name = PlanToolName" "decode args = Inr p"
  | r where "planCall decode emits name args t = (r, [], t)" "\<forall>x. r = Inr (Some x) \<longrightarrow> tr_IsError x"
proof (cases "name = PlanToolName")
  case False
  with that(2) show thesis by (simp add: planCall_def)
next
  case True
  show thesis
  proof (cases "\<exists>p. decode args = Inr p \<and> planOk p")
    case True
    with \<open>name = PlanToolName\<close> that(1) show thesis by (auto simp: planCall_def planFromArgs_def planValidate_iff [symmetric])
  next
    case False
    then have "\<exists>msg. planCall decode emits name args t = (Inr (Some (errorToolResult msg)), [], t)"
      using \<open>name = PlanToolName\<close>
      by (cases "decode args") (auto simp: planCall_def planFromArgs_def planValidate_iff [symmetric])
    then obtain msg where "planCall decode emits name args t = (Inr (Some (errorToolResult msg)), [], t)" ..
    then show thesis by (rule that(2)) (simp add: errorToolResult_def)
  qed
qed

text \<open>
  Only sound plans are published. Over any sequence of calls, every plan published and the latest one
  kept has at least one step, no blank step, only known statuses and at most one step in progress; the
  latest plan is the last one published, and a call that is refused publishes nothing and keeps the plan.
\<close>

lemma plan_tool_publishes_sound_plans:
  "case planRun decode calls newPlanTool of
     (published, t) \<Rightarrow>
       list_all planOk published \<and> pt_latest t = (if published = [] then None else Some (last published)) \<and>
       length published = length (filter (soundCall decode) calls)"
proof -
  have gen: "case planRun decode calls t0 of
     (published, t) \<Rightarrow>
       list_all planOk published \<and> pt_latest t = (if published = [] then pt_latest t0 else Some (last published)) \<and>
       length published = length (filter (soundCall decode) calls)" for t0
  proof (induction calls arbitrary: t0)
    case (Cons c cs)
    obtain name args where c: "c = (name, args)" by (cases c)
    show ?case
    proof (rule planCall_cases [of decode True name args t0])
      fix p
      assume "planOk p" "name = PlanToolName" "decode args = Inr p"
        and call: "planCall decode True name args t0 = (Inr (Some \<lparr>tr_Content = [\<lparr>ct_Type = ''text'', ct_Text = planAck p\<rparr>],
          tr_StructuredContent = None, tr_IsError = False\<rparr>), if True then [p] else [], t0\<lparr>pt_latest := Some p\<rparr>)"
      with Cons.IH [of "t0\<lparr>pt_latest := Some p\<rparr>"] show ?thesis by (auto simp: c soundCall_def split: prod.splits)
    next
      fix r
      assume call: "planCall decode True name args t0 = (r, [], t0)" "\<forall>x. r = Inr (Some x) \<longrightarrow> tr_IsError x"
      have "\<not> soundCall decode c"
      proof
        assume "soundCall decode c"
        then obtain p where "name = PlanToolName" "decode args = Inr p" "planValidate p = None"
          by (auto simp: c soundCall_def planValidate_iff split: sum.splits)
        then have "fst (snd (planCall decode True name args t0)) = [p]"
          by (simp add: planCall_def planFromArgs_def)
        with call(1) show False by simp
      qed
      with Cons.IH [of t0] call show ?thesis by (auto simp: c split: prod.splits)
    qed
  qed simp
  have "pt_latest newPlanTool = None" by (simp add: newPlanTool_def)
  with gen [of newPlanTool] show ?thesis by (simp only: split: prod.splits)
qed

end
