(* ===== verification/CursorCache.thy ===== *)
theory CursorCache
  imports AgentTypes
begin

text \<open>
  The response cursor of \<^verbatim>\<open>src/responses_cursor.go\<close>: the key of a history and the bounded cache from keys
  to response ids. \<^verbatim>\<open>container/list\<close> is modelled with its elements' identities: \<open>cc_order\<close> lists element
  addresses from the front, \<open>cc_elem\<close> is what an element points to, \<open>cc_byKey\<close> the index of elements. The
  cache refines a most-recently-used association list. \<open>sha\<close> is SHA-256.
\<close>

subsection \<open>The key of a history\<close>

definition be64 :: "nat \<Rightarrow> string" where
  "be64 n = map (\<lambda>i. char_of (n div 256 ^ (7 - i) mod 256)) [0..<8]"

definition keyField :: "string \<Rightarrow> string" where
  "keyField s = be64 (length s) @ s"

definition keyCall :: "toolCall \<Rightarrow> string" where
  "keyCall tc = keyField (tc_ID tc) @ keyField (tc_Name tc) @ keyField (tc_Args tc)"

definition keyMessage :: "message \<Rightarrow> string" where
  "keyMessage m = keyField (m_Role m) @ keyField (m_Text m) @ keyField (m_ToolCallID m) @
     be64 (length (m_ToolCalls m)) @ concat (map keyCall (m_ToolCalls m))"

definition keyBytes :: "message list \<Rightarrow> string" where
  "keyBytes msgs = concat (map keyMessage msgs)"

definition cursorKey :: "(string \<Rightarrow> string) \<Rightarrow> message list \<Rightarrow> string" where
  "cursorKey sha msgs = sha (keyBytes msgs)"

subsection \<open>The cache\<close>

record cursorEntry =
  ce_key :: string
  ce_id :: string

record cursorCache =
  cc_max :: int
  cc_order :: "nat list"
  cc_elem :: "nat \<Rightarrow> cursorEntry"
  cc_byKey :: "string \<rightharpoonup> nat"
  cc_fresh :: nat

definition newCursorCache :: "int \<Rightarrow> cursorCache" where
  "newCursorCache mx = \<lparr>cc_max = mx, cc_order = [], cc_elem = (\<lambda>_. \<lparr>ce_key = [], ce_id = []\<rparr>),
                        cc_byKey = Map.empty, cc_fresh = 0\<rparr>"

definition moveToFront :: "nat \<Rightarrow> nat list \<Rightarrow> nat list" where
  "moveToFront e es = e # remove1 e es"

definition cacheGet :: "cursorCache \<Rightarrow> string \<Rightarrow> string option \<times> cursorCache" where
  "cacheGet c k =
     (case cc_byKey c k of
        None \<Rightarrow> (None, c)
      | Some e \<Rightarrow> (Some (ce_id (cc_elem c e)), c\<lparr>cc_order := moveToFront e (cc_order c)\<rparr>))"

text \<open>The eviction loop; \<^verbatim>\<open>Remove\<close> of the nil back element of an empty list panics, which is \<open>None\<close>.\<close>

function evict :: "cursorCache \<Rightarrow> cursorCache option" where
  "evict c =
     (if int (length (cc_order c)) > cc_max c
      then if cc_order c = [] then None
           else evict (c\<lparr>cc_order := butlast (cc_order c),
                         cc_byKey := (cc_byKey c)(ce_key (cc_elem c (last (cc_order c))) := None)\<rparr>)
      else Some c)"
  by pat_completeness auto
termination by (relation "measure (\<lambda>c. length (cc_order c))") auto

declare evict.simps [simp del]

definition cachePut :: "cursorCache \<Rightarrow> string \<Rightarrow> string \<Rightarrow> cursorCache option" where
  "cachePut c k rid =
     (case cc_byKey c k of
        Some e \<Rightarrow>
          Some (c\<lparr>cc_elem := (cc_elem c)(e := (cc_elem c e)\<lparr>ce_id := rid\<rparr>), cc_order := moveToFront e (cc_order c)\<rparr>)
      | None \<Rightarrow>
          evict (c\<lparr>cc_elem := (cc_elem c)(cc_fresh c := \<lparr>ce_key = k, ce_id = rid\<rparr>),
                   cc_order := cc_fresh c # cc_order c, cc_byKey := (cc_byKey c)(k \<mapsto> cc_fresh c),
                   cc_fresh := Suc (cc_fresh c)\<rparr>))"

definition cacheDrop :: "cursorCache \<Rightarrow> string \<Rightarrow> cursorCache" where
  "cacheDrop c k =
     (case cc_byKey c k of
        None \<Rightarrow> c
      | Some e \<Rightarrow> c\<lparr>cc_order := remove1 e (cc_order c), cc_byKey := (cc_byKey c)(k := None)\<rparr>)"

definition cacheLen :: "cursorCache \<Rightarrow> int" where
  "cacheLen c = int (length (cc_order c))"

subsection \<open>The encoding is injective\<close>

text \<open>What the model sees of a history: everything but the timestamps.\<close>

definition seen :: "message list \<Rightarrow> message list" where
  "seen = map (\<lambda>m. m\<lparr>m_Timestamp := 0\<rparr>)"

text \<open>Go lengths are below $2^{64}$.\<close>

definition sizedMsg :: "message \<Rightarrow> bool" where
  "sizedMsg m \<longleftrightarrow> (\<forall>s \<in> set ([m_Role m, m_Text m, m_ToolCallID m] @
        concat (map (\<lambda>tc. [tc_ID tc, tc_Name tc, tc_Args tc]) (m_ToolCalls m))). length s < 2 ^ 64) \<and>
     length (m_ToolCalls m) < 2 ^ 64"

lemma length_be64 [simp]: "length (be64 n) = 8"
  by (simp add: be64_def)

lemma digits_inj:
  fixes m n :: nat
  assumes "\<And>i. i < k \<Longrightarrow> m div b ^ i mod b = n div b ^ i mod b" "m < b ^ k" "n < b ^ k"
  shows "m = n"
  using assms
proof (induction k arbitrary: m n)
  case 0
  then show ?case by simp
next
  case (Suc k)
  have "m div b = n div b"
  proof (rule Suc.IH)
    fix i assume "i < k"
    then have "m div b ^ Suc i mod b = n div b ^ Suc i mod b" using Suc.prems(1) [of "Suc i"] by simp
    then show "m div b div b ^ i mod b = n div b div b ^ i mod b" by (simp add: div_mult2_eq)
  qed (use Suc.prems(2,3) in \<open>auto simp: less_mult_imp_div_less mult.commute\<close>)
  moreover have "m mod b = n mod b" using Suc.prems(1) [of 0] by simp
  ultimately show ?case by (metis div_mult_mod_eq)
qed

lemma be64_inj:
  assumes eq: "be64 m = be64 n" and "m < 2 ^ 64" "n < 2 ^ 64"
  shows "m = n"
proof (rule digits_inj [of 8 m 256 n])
  fix i :: nat assume "i < 8"
  then have "be64 m ! (7 - i) = be64 n ! (7 - i)" using eq by simp
  moreover have "[0..<8] ! (7 - i) = 7 - i" using nth_upt [of 0 "7 - i" 8] by simp
  ultimately show "m div 256 ^ i mod 256 = n div 256 ^ i mod 256" using \<open>i < 8\<close> by (simp add: be64_def)
qed (use assms in simp_all)

lemma keyField_inj:
  assumes "keyField s @ x = keyField t @ y" "length s < 2 ^ 64" "length t < 2 ^ 64"
  shows "s = t \<and> x = y"
proof -
  have "be64 (length s) = be64 (length t)" and rest: "s @ x = t @ y"
    using assms(1) by (auto simp: keyField_def append_eq_append_conv)
  then have "length s = length t" using assms(2,3) be64_inj by blast
  with rest show ?thesis by simp
qed

lemma keyCall_inj:
  assumes "keyCall a @ x = keyCall b @ y"
    and "\<forall>s \<in> {tc_ID a, tc_Name a, tc_Args a, tc_ID b, tc_Name b, tc_Args b}. length s < 2 ^ 64"
  shows "a = b \<and> x = y"
proof -
  have "tc_ID a = tc_ID b \<and> keyField (tc_Name a) @ keyField (tc_Args a) @ x = keyField (tc_Name b) @ keyField (tc_Args b) @ y"
    using assms by (intro keyField_inj) (auto simp: keyCall_def)
  moreover from this have "tc_Name a = tc_Name b \<and> keyField (tc_Args a) @ x = keyField (tc_Args b) @ y"
    using assms(2) by (intro keyField_inj) auto
  moreover from this have "tc_Args a = tc_Args b \<and> x = y" using assms(2) by (intro keyField_inj) auto
  ultimately show ?thesis by simp
qed

lemma keyCalls_inj:
  assumes "concat (map keyCall as) @ x = concat (map keyCall bs) @ y" "length as = length bs"
    and "\<forall>tc \<in> set as \<union> set bs. \<forall>s \<in> {tc_ID tc, tc_Name tc, tc_Args tc}. length s < 2 ^ 64"
  shows "as = bs \<and> x = y"
  using assms(2,1,3)
proof (induction as bs rule: list_induct2)
  case Nil
  then show ?case by simp
next
  case (Cons a as b bs)
  have "a = b \<and> concat (map keyCall as) @ x = concat (map keyCall bs) @ y"
    using Cons.prems by (intro keyCall_inj) auto
  with Cons show ?case by simp
qed

lemma keyMessage_inj:
  assumes eq: "keyMessage m @ x = keyMessage n @ y" and sz: "sizedMsg m" "sizedMsg n"
  shows "m\<lparr>m_Timestamp := 0\<rparr> = n\<lparr>m_Timestamp := 0\<rparr> \<and> x = y"
proof -
  have r: "m_Role m = m_Role n \<and> keyField (m_Text m) @ keyField (m_ToolCallID m) @ be64 (length (m_ToolCalls m)) @ concat (map keyCall (m_ToolCalls m)) @ x
      = keyField (m_Text n) @ keyField (m_ToolCallID n) @ be64 (length (m_ToolCalls n)) @ concat (map keyCall (m_ToolCalls n)) @ y"
    using eq sz by (intro keyField_inj) (auto simp: keyMessage_def sizedMsg_def)
  then have t: "m_Text m = m_Text n \<and> keyField (m_ToolCallID m) @ be64 (length (m_ToolCalls m)) @ concat (map keyCall (m_ToolCalls m)) @ x
      = keyField (m_ToolCallID n) @ be64 (length (m_ToolCalls n)) @ concat (map keyCall (m_ToolCalls n)) @ y"
    using sz by (intro keyField_inj) (auto simp: sizedMsg_def)
  then have i: "m_ToolCallID m = m_ToolCallID n \<and> be64 (length (m_ToolCalls m)) @ concat (map keyCall (m_ToolCalls m)) @ x
      = be64 (length (m_ToolCalls n)) @ concat (map keyCall (m_ToolCalls n)) @ y"
    using sz by (intro keyField_inj) (auto simp: sizedMsg_def)
  then have "be64 (length (m_ToolCalls m)) = be64 (length (m_ToolCalls n))"
    and c: "concat (map keyCall (m_ToolCalls m)) @ x = concat (map keyCall (m_ToolCalls n)) @ y"
    by (auto simp: append_eq_append_conv)
  then have "length (m_ToolCalls m) = length (m_ToolCalls n)" using be64_inj sz by (auto simp: sizedMsg_def)
  then have "m_ToolCalls m = m_ToolCalls n \<and> x = y"
    using c sz by (intro keyCalls_inj) (auto simp: sizedMsg_def)
  with r t i show ?thesis by simp
qed

lemma keyMessage_not_Nil: "keyMessage m \<noteq> []"
  by (simp add: keyMessage_def keyField_def be64_def)

lemma keyBytes_inj:
  assumes "keyBytes a = keyBytes b" "list_all sizedMsg a" "list_all sizedMsg b"
  shows "seen a = seen b"
  using assms
proof (induction a arbitrary: b)
  case Nil
  then show ?case using keyMessage_not_Nil by (cases b) (auto simp: keyBytes_def seen_def)
next
  case (Cons m a)
  obtain n b' where b: "b = n # b'"
    using Cons.prems(1) keyMessage_not_Nil by (cases b) (auto simp: keyBytes_def)
  have "m\<lparr>m_Timestamp := 0\<rparr> = n\<lparr>m_Timestamp := 0\<rparr> \<and> keyBytes a = keyBytes b'"
    using Cons.prems unfolding b by (intro keyMessage_inj) (auto simp: keyBytes_def)
  with Cons.IH [of b'] Cons.prems b show ?case by (simp add: seen_def)
qed

lemma keyBytes_seen: "seen a = seen b \<Longrightarrow> keyBytes a = keyBytes b"
proof -
  have "keyMessage (m\<lparr>m_Timestamp := 0\<rparr>) = keyMessage m" for m by (simp add: keyMessage_def)
  then have "keyBytes a = concat (map keyMessage (seen a))" for a by (simp add: keyBytes_def seen_def comp_def)
  then show "seen a = seen b \<Longrightarrow> keyBytes a = keyBytes b" by simp
qed

subsection \<open>The cache refines a most-recently-used list\<close>

type_synonym lru = "(string \<times> string) list"

definition lruGet :: "lru \<Rightarrow> string \<Rightarrow> string option \<times> lru" where
  "lruGet l k = (case map_of l k of None \<Rightarrow> (None, l) | Some v \<Rightarrow> (Some v, (k, v) # filter (\<lambda>p. fst p \<noteq> k) l))"

definition lruPut :: "nat \<Rightarrow> lru \<Rightarrow> string \<Rightarrow> string \<Rightarrow> lru" where
  "lruPut mx l k v = take mx ((k, v) # filter (\<lambda>p. fst p \<noteq> k) l)"

definition lruDrop :: "lru \<Rightarrow> string \<Rightarrow> lru" where
  "lruDrop l k = filter (\<lambda>p. fst p \<noteq> k) l"

definition entryOf :: "cursorCache \<Rightarrow> nat \<Rightarrow> string \<times> string" where
  "entryOf c e = (ce_key (cc_elem c e), ce_id (cc_elem c e))"

definition cacheAbs :: "cursorCache \<Rightarrow> lru" where
  "cacheAbs c = map (entryOf c) (cc_order c)"

definition cacheShape :: "cursorCache \<Rightarrow> bool" where
  "cacheShape c \<longleftrightarrow> distinct (cc_order c) \<and> (\<forall>e\<in>set (cc_order c). e < cc_fresh c) \<and>
     (\<forall>k e. cc_byKey c k = Some e \<longleftrightarrow> e \<in> set (cc_order c) \<and> ce_key (cc_elem c e) = k)"

definition cacheOk :: "cursorCache \<Rightarrow> bool" where
  "cacheOk c \<longleftrightarrow> cacheShape c \<and> 1 \<le> cc_max c \<and> int (length (cc_order c)) \<le> cc_max c"

lemma cacheOk_new: "1 \<le> mx \<Longrightarrow> cacheOk (newCursorCache mx) \<and> cacheAbs (newCursorCache mx) = []"
  by (simp add: cacheOk_def cacheShape_def newCursorCache_def cacheAbs_def)

lemma key_unique:
  assumes "cacheShape c" "e \<in> set (cc_order c)" "f \<in> set (cc_order c)" "ce_key (cc_elem c e) = ce_key (cc_elem c f)"
  shows "e = f"
proof -
  have "\<forall>k e. cc_byKey c k = Some e \<longleftrightarrow> e \<in> set (cc_order c) \<and> ce_key (cc_elem c e) = k"
    using assms(1) unfolding cacheShape_def by (elim conjE)
  then have "cc_byKey c (ce_key (cc_elem c g)) = Some g" if "g \<in> set (cc_order c)" for g using that by blast
  from this [OF assms(2)] this [OF assms(3)] assms(4) show ?thesis by (metis option.inject)
qed

lemma byKey_mem: "cacheShape c \<Longrightarrow> cc_byKey c k = Some e \<Longrightarrow> e \<in> set (cc_order c) \<and> ce_key (cc_elem c e) = k"
  unfolding cacheShape_def by blast

lemma moveToFront_perm:
  assumes "e \<in> set es" "distinct es"
  shows "set (moveToFront e es) = set es" "length (moveToFront e es) = length es" "distinct (moveToFront e es)"
proof -
  show "set (moveToFront e es) = set es" "distinct (moveToFront e es)" using assms by (auto simp: moveToFront_def)
  have "0 < length es" using assms(1) by (cases es) auto
  then show "length (moveToFront e es) = length es" using assms(1) by (simp add: moveToFront_def length_remove1)
qed

lemma touch_shape:
  assumes "cacheShape c" "e \<in> set (cc_order c)"
  shows "cacheShape (c\<lparr>cc_order := moveToFront e (cc_order c)\<rparr>)"
  using assms moveToFront_perm [of e "cc_order c"] by (simp add: cacheShape_def)

lemma entryOf_order [simp]: "entryOf (c\<lparr>cc_order := x\<rparr>) = entryOf c"
  by (rule ext) (simp add: entryOf_def)

lemma entryOf_byKey [simp]: "entryOf (c\<lparr>cc_byKey := x\<rparr>) = entryOf c"
  by (rule ext) (simp add: entryOf_def)

lemma cacheAbs_keys_distinct: "cacheShape c \<Longrightarrow> distinct (map fst (cacheAbs c))"
proof -
  assume ok: "cacheShape c"
  then have "inj_on (\<lambda>e. ce_key (cc_elem c e)) (set (cc_order c))" by (intro inj_onI) (rule key_unique)
  then show ?thesis using ok by (simp add: cacheAbs_def entryOf_def comp_def distinct_map cacheShape_def)
qed

lemma cacheAbs_lookup:
  assumes ok: "cacheShape c"
  shows "map_of (cacheAbs c) k = map_option (\<lambda>e. ce_id (cc_elem c e)) (cc_byKey c k)"
proof (cases "cc_byKey c k")
  case None
  then have "\<forall>e\<in>set (cc_order c). ce_key (cc_elem c e) \<noteq> k" using ok by (metis cacheShape_def option.distinct(1))
  then show ?thesis using None by (auto simp: cacheAbs_def entryOf_def map_of_eq_None_iff)
next
  case (Some e)
  then have "e \<in> set (cc_order c)" "ce_key (cc_elem c e) = k" using ok by (auto simp: cacheShape_def)
  then have "(k, ce_id (cc_elem c e)) \<in> set (cacheAbs c)" by (auto simp: cacheAbs_def entryOf_def)
  then show ?thesis using Some cacheAbs_keys_distinct [OF ok] by (simp add: map_of_eq_Some_iff)
qed

text \<open>Dropping an element from the order drops its key from the list it denotes.\<close>

lemma abs_remove:
  assumes ok: "cacheShape c" and e: "cc_byKey c k = Some e"
  shows "map (entryOf c) (remove1 e (cc_order c)) = filter (\<lambda>p. fst p \<noteq> k) (cacheAbs c)"
proof -
  have "remove1 e (cc_order c) = filter (\<lambda>f. f \<noteq> e) (cc_order c)"
    using ok by (simp add: cacheShape_def distinct_remove1_removeAll removeAll_filter_not_eq)
      (metis (mono_tags, lifting))
  also have "\<dots> = filter (\<lambda>f. ce_key (cc_elem c f) \<noteq> k) (cc_order c)"
    using key_unique [OF ok] byKey_mem [OF ok e] by (intro filter_cong) auto
  finally show ?thesis by (simp add: cacheAbs_def filter_map comp_def entryOf_def)
qed

lemma abs_no_key:
  assumes "cacheShape c" "cc_byKey c k = None"
  shows "filter (\<lambda>p. fst p \<noteq> k) (cacheAbs c) = cacheAbs c"
proof -
  have "ce_key (cc_elem c e) \<noteq> k" if "e \<in> set (cc_order c)" for e
    using assms that by (metis cacheShape_def option.distinct(1))
  then show ?thesis by (auto simp: cacheAbs_def entryOf_def filter_id_conv)
qed

lemma get_refines:
  assumes "cacheOk c"
  shows "fst (cacheGet c k) = fst (lruGet (cacheAbs c) k)" "cacheAbs (snd (cacheGet c k)) = snd (lruGet (cacheAbs c) k)"
    "cacheOk (snd (cacheGet c k))"
proof -
  have ok: "cacheShape c" using assms by (simp add: cacheOk_def)
  note lk = cacheAbs_lookup [OF ok, of k]
  show "fst (cacheGet c k) = fst (lruGet (cacheAbs c) k)"
    by (simp add: cacheGet_def lruGet_def lk split: option.split)
  show "cacheAbs (snd (cacheGet c k)) = snd (lruGet (cacheAbs c) k)"
  proof (cases "cc_byKey c k")
    case (Some e)
    then have "entryOf c e = (k, ce_id (cc_elem c e))" using byKey_mem [OF ok] by (auto simp: entryOf_def)
    then show ?thesis using Some abs_remove [OF ok Some]
      by (simp add: cacheGet_def lruGet_def lk) (simp add: cacheAbs_def moveToFront_def)
  qed (simp add: cacheGet_def lruGet_def lk)
  show "cacheOk (snd (cacheGet c k))"
  proof (cases "cc_byKey c k")
    case (Some e)
    then have e: "e \<in> set (cc_order c)" using byKey_mem [OF ok] by blast
    have "distinct (cc_order c)" using ok by (simp add: cacheShape_def)
    then show ?thesis using assms Some touch_shape [OF ok e] moveToFront_perm [OF e]
      by (simp add: cacheGet_def cacheOk_def)
  qed (use assms in \<open>simp add: cacheGet_def\<close>)
qed

text \<open>Removing an element from the order and its key from the index keeps the shape.\<close>

lemma remove_shape:
  assumes ok: "cacheShape c" and e: "e \<in> set (cc_order c)"
  shows "cacheShape (c\<lparr>cc_order := remove1 e (cc_order c), cc_byKey := (cc_byKey c)(ce_key (cc_elem c e) := None)\<rparr>)"
proof -
  have d: "distinct (cc_order c)" and ix: "\<And>k f. cc_byKey c k = Some f \<longleftrightarrow> f \<in> set (cc_order c) \<and> ce_key (cc_elem c f) = k"
    using ok unfolding cacheShape_def by auto
  have "((cc_byKey c)(ce_key (cc_elem c e) := None)) k = Some f \<longleftrightarrow> f \<in> set (remove1 e (cc_order c)) \<and> ce_key (cc_elem c f) = k" for k f
    using ix d e by (cases "k = ce_key (cc_elem c e)") (auto dest: key_unique [OF ok])
  then show ?thesis using ok by (auto simp: cacheShape_def dest: notin_set_remove1 in_set_remove1 [THEN iffD1, rotated])
qed

lemma evict_refines:
  assumes "cacheShape c" "0 \<le> cc_max c"
  shows "\<exists>c'. evict c = Some c' \<and> cacheShape c' \<and> cc_max c' = cc_max c \<and>
     cacheAbs c' = take (nat (cc_max c)) (cacheAbs c) \<and> int (length (cc_order c')) \<le> cc_max c"
  using assms
proof (induction c rule: evict.induct)
  case (1 c)
  show ?case
  proof (cases "int (length (cc_order c)) > cc_max c")
    case False
    then show ?thesis using "1.prems" by (subst evict.simps) (auto simp: cacheAbs_def)
  next
    case True
    then have ne: "cc_order c \<noteq> []" using "1.prems"(2) by auto
    let ?c = "c\<lparr>cc_order := butlast (cc_order c), cc_byKey := (cc_byKey c)(ce_key (cc_elem c (last (cc_order c))) := None)\<rparr>"
    have d: "distinct (cc_order c)" using "1.prems"(1) by (simp add: cacheShape_def)
    have "remove1 (last (cc_order c)) (cc_order c) = butlast (cc_order c)"
      using d ne by (metis append_butlast_last_id distinct_append distinct_butlast not_distinct_conv_prefix remove1.simps(2)
          remove1_append remove1_idem append_Nil2 distinct.simps(2) list.set_intros(1) disjoint_iff)
    then have sh: "cacheShape ?c" using remove_shape [OF "1.prems"(1), of "last (cc_order c)"] ne by simp
    from "1.IH" [OF True ne sh] "1.prems"(2) obtain c' where c': "evict ?c = Some c'" "cacheShape c'" "cc_max c' = cc_max c"
      "cacheAbs c' = take (nat (cc_max c)) (cacheAbs ?c)" "int (length (cc_order c')) \<le> cc_max c" by auto
    have "cacheAbs ?c = butlast (cacheAbs c)" by (simp add: cacheAbs_def map_butlast)
    moreover have "nat (cc_max c) \<le> length (cacheAbs c) - 1" using True by (simp add: cacheAbs_def)
    ultimately have "cacheAbs c' = take (nat (cc_max c)) (cacheAbs c)" using c'(4) by (simp add: butlast_conv_take)
    moreover have "evict c = Some c'" using True ne c'(1) by (subst evict.simps) simp
    ultimately show ?thesis using c' by blast
  qed
qed

lemma put_refines:
  assumes "cacheOk c"
  shows "\<exists>c'. cachePut c k v = Some c' \<and> cacheOk c' \<and> cc_max c' = cc_max c \<and>
     cacheAbs c' = lruPut (nat (cc_max c)) (cacheAbs c) k v"
proof (cases "cc_byKey c k")
  case (Some e)
  have ok: "cacheShape c" using assms by (simp add: cacheOk_def)
  have e: "e \<in> set (cc_order c)" "ce_key (cc_elem c e) = k" using byKey_mem [OF ok Some] by auto
  let ?c = "c\<lparr>cc_elem := (cc_elem c)(e := (cc_elem c e)\<lparr>ce_id := v\<rparr>), cc_order := moveToFront e (cc_order c)\<rparr>"
  have d: "distinct (cc_order c)" using ok by (simp add: cacheShape_def)
  have keys: "ce_key (cc_elem ?c f) = ce_key (cc_elem c f)" for f by simp
  have sh: "cacheShape ?c" using touch_shape [OF ok e(1)] by (simp add: cacheShape_def)
  have "map (entryOf ?c) (remove1 e (cc_order c)) = map (entryOf c) (remove1 e (cc_order c))"
    using d by (auto simp: entryOf_def)
  then have "cacheAbs ?c = (k, v) # filter (\<lambda>p. fst p \<noteq> k) (cacheAbs c)"
    using abs_remove [OF ok Some] e(2) by (simp add: cacheAbs_def moveToFront_def) (simp add: entryOf_def)
  moreover have "length (cacheAbs ?c) = length (cc_order c)" using moveToFront_perm(2) [OF e(1) d] by (simp add: cacheAbs_def)
  moreover have "length (cc_order c) \<le> nat (cc_max c)" using assms unfolding cacheOk_def by linarith
  ultimately have "cacheAbs ?c = lruPut (nat (cc_max c)) (cacheAbs c) k v" unfolding lruPut_def by (metis take_all)
  moreover have "cacheOk ?c" using assms sh moveToFront_perm(2) [OF e(1) d] by (simp add: cacheOk_def)
  ultimately show ?thesis using Some by (intro exI [of _ ?c]) (simp add: cachePut_def)
next
  case None
  have ok: "cacheShape c" using assms by (simp add: cacheOk_def)
  let ?c = "c\<lparr>cc_elem := (cc_elem c)(cc_fresh c := \<lparr>ce_key = k, ce_id = v\<rparr>), cc_order := cc_fresh c # cc_order c,
             cc_byKey := (cc_byKey c)(k \<mapsto> cc_fresh c), cc_fresh := Suc (cc_fresh c)\<rparr>"
  have fresh: "cc_fresh c \<notin> set (cc_order c)" using ok by (auto simp: cacheShape_def)
  have nk: "ce_key (cc_elem c f) \<noteq> k" if "f \<in> set (cc_order c)" for f
    using ok None that by (metis cacheShape_def option.distinct(1))
  have ix: "\<And>j f. cc_byKey c j = Some f \<longleftrightarrow> f \<in> set (cc_order c) \<and> ce_key (cc_elem c f) = j"
    using ok unfolding cacheShape_def by auto
  have sh: "cacheShape ?c"
    using ok fresh nk unfolding cacheShape_def by (auto simp: ix less_Suc_eq)
  have "map (entryOf ?c) (cc_order c) = map (entryOf c) (cc_order c)" using fresh by (auto simp: entryOf_def)
  then have ab: "cacheAbs ?c = (k, v) # filter (\<lambda>p. fst p \<noteq> k) (cacheAbs c)"
    using abs_no_key [OF ok None] by (simp add: cacheAbs_def) (simp add: entryOf_def)
  from evict_refines [OF sh] assms obtain c' where "evict ?c = Some c'" "cacheShape c'" "cc_max c' = cc_max c"
    "cacheAbs c' = take (nat (cc_max c)) (cacheAbs ?c)" "int (length (cc_order c')) \<le> cc_max c"
    by (auto simp: cacheOk_def)
  then show ?thesis using None assms ab by (simp add: cachePut_def lruPut_def cacheOk_def)
qed

lemma drop_refines:
  assumes "cacheOk c"
  shows "cacheOk (cacheDrop c k)" "cacheAbs (cacheDrop c k) = lruDrop (cacheAbs c) k" "cc_max (cacheDrop c k) = cc_max c"
proof -
  have ok: "cacheShape c" using assms by (simp add: cacheOk_def)
  show "cacheOk (cacheDrop c k)"
    using assms remove_shape [OF ok] byKey_mem [OF ok, of k]
    by (auto simp: cacheDrop_def cacheOk_def length_remove1 split: option.split)
  show "cacheAbs (cacheDrop c k) = lruDrop (cacheAbs c) k"
    using abs_remove [OF ok, of k] abs_no_key [OF ok, of k]
    by (cases "cc_byKey c k") (auto simp: cacheDrop_def lruDrop_def cacheAbs_def)
  show "cc_max (cacheDrop c k) = cc_max c" by (simp add: cacheDrop_def split: option.split)
qed

subsection \<open>Histories of operations\<close>

datatype cacheOp = OpGet string | OpPut string string | OpDrop string

fun cacheRun :: "cursorCache \<Rightarrow> cacheOp list \<Rightarrow> (string option list \<times> cursorCache) option" where
  "cacheRun c [] = Some ([], c)"
| "cacheRun c (OpGet k # ops) =
     (case cacheGet c k of (r, c1) \<Rightarrow> map_option (\<lambda>(rs, c2). (r # rs, c2)) (cacheRun c1 ops))"
| "cacheRun c (OpPut k v # ops) =
     (case cachePut c k v of None \<Rightarrow> None | Some c1 \<Rightarrow> cacheRun c1 ops)"
| "cacheRun c (OpDrop k # ops) = cacheRun (cacheDrop c k) ops"

fun lruRun :: "nat \<Rightarrow> lru \<Rightarrow> cacheOp list \<Rightarrow> string option list \<times> lru" where
  "lruRun mx l [] = ([], l)"
| "lruRun mx l (OpGet k # ops) =
     (case lruGet l k of (r, l1) \<Rightarrow> case lruRun mx l1 ops of (rs, l2) \<Rightarrow> (r # rs, l2))"
| "lruRun mx l (OpPut k v # ops) = lruRun mx (lruPut mx l k v) ops"
| "lruRun mx l (OpDrop k # ops) = lruRun mx (lruDrop l k) ops"

lemma cacheRun_refines:
  assumes "cacheOk c"
  shows "\<exists>c'. cacheRun c ops = Some (fst (lruRun (nat (cc_max c)) (cacheAbs c) ops), c') \<and> cacheOk c' \<and>
     cc_max c' = cc_max c \<and> cacheAbs c' = snd (lruRun (nat (cc_max c)) (cacheAbs c) ops)"
  using assms
proof (induction ops arbitrary: c)
  case Nil
  then show ?case by simp
next
  case (Cons op ops)
  show ?case
  proof (cases op)
    case (OpGet k)
    obtain r c1 where g: "cacheGet c k = (r, c1)" by fastforce
    then have "lruGet (cacheAbs c) k = (r, cacheAbs c1)" "cacheOk c1"
      using get_refines [OF Cons.prems, of k] by (auto simp: prod_eq_iff)
    moreover have "cc_max c1 = cc_max c" using g by (auto simp: cacheGet_def split: option.splits)
    ultimately show ?thesis using Cons.IH [of c1] g OpGet by (fastforce split: prod.split)
  next
    case (OpPut k v)
    from put_refines [OF Cons.prems, of k v] obtain c1 where "cachePut c k v = Some c1" "cacheOk c1" "cc_max c1 = cc_max c"
      "cacheAbs c1 = lruPut (nat (cc_max c)) (cacheAbs c) k v" by blast
    then show ?thesis using Cons.IH [of c1] OpPut by simp
  next
    case (OpDrop k)
    then show ?thesis using Cons.IH [of "cacheDrop c k"] drop_refines [OF Cons.prems, of k] by simp
  qed
qed

text \<open>
  C23: the cursor cache is a most-recently-used list. Over every history of lookups, stores and drops the
  linked list with its index, element updates in place and eviction loop answers exactly as an association
  list of which the \<open>mx\<close> most recently used entries are kept, it never panics, and it never holds more.
\<close>

theorem cursor_cache_refines_lru:
  assumes "1 \<le> mx"
  shows "\<exists>c. cacheRun (newCursorCache mx) ops = Some (fst (lruRun (nat mx) [] ops), c) \<and>
     cacheAbs c = snd (lruRun (nat mx) [] ops) \<and> cacheLen c \<le> mx"
proof -
  have "cc_max (newCursorCache mx) = mx" by (simp add: newCursorCache_def)
  then show ?thesis using cacheRun_refines [of "newCursorCache mx" ops] cacheOk_new [OF assms]
    by (auto simp: cacheLen_def cacheOk_def)
qed

theorem cursor_cache_refines_lru_witness:
  "\<exists>c. cacheRun (newCursorCache 2) [OpPut ''a'' ''1'', OpPut ''b'' ''2'', OpGet ''a'', OpPut ''c'' ''3'', OpGet ''b'', OpGet ''a'']
        = Some ([Some ''1'', None, Some ''1''], c) \<and> cacheLen c \<le> 2"
proof -
  have "fst (lruRun 2 [] [OpPut ''a'' ''1'', OpPut ''b'' ''2'', OpGet ''a'', OpPut ''c'' ''3'', OpGet ''b'', OpGet ''a''])
      = [Some ''1'', None, Some ''1'']" by code_simp
  then show ?thesis
    using cursor_cache_refines_lru [of 2 "[OpPut ''a'' ''1'', OpPut ''b'' ''2'', OpGet ''a'', OpPut ''c'' ''3'', OpGet ''b'', OpGet ''a'']"]
    by auto
qed

subsection \<open>What the provider needs of the cache\<close>

text \<open>The provider reads the cache as a partial map that may forget entries but never invents or alters one.\<close>

locale cursor_index =
  fixes lookup :: "'c \<Rightarrow> string \<Rightarrow> string option \<times> 'c"
    and store :: "'c \<Rightarrow> string \<Rightarrow> string \<Rightarrow> 'c option"
    and forget :: "'c \<Rightarrow> string \<Rightarrow> 'c"
    and entries :: "'c \<Rightarrow> string \<rightharpoonup> string"
    and ok :: "'c \<Rightarrow> bool"
  assumes lookup_law: "ok c \<Longrightarrow> fst (lookup c k) = entries c k \<and> entries (snd (lookup c k)) = entries c \<and> ok (snd (lookup c k))"
    and store_law: "ok c \<Longrightarrow> \<exists>c'. store c k v = Some c' \<and> ok c' \<and> entries c' k = Some v \<and> entries c' \<subseteq>\<^sub>m (entries c)(k \<mapsto> v)"
    and forget_law: "ok c \<Longrightarrow> ok (forget c k) \<and> entries (forget c k) = (entries c)(k := None)"
begin

definition vouched :: "(string \<Rightarrow> string \<Rightarrow> bool) \<Rightarrow> 'c \<Rightarrow> bool" where
  "vouched P c \<longleftrightarrow> ok c \<and> (\<forall>k v. entries c k = Some v \<longrightarrow> P k v)"

lemma vouched_lookup:
  assumes "vouched P c" "lookup c k = (r, c')"
  shows "vouched P c' \<and> (\<forall>v. r = Some v \<longrightarrow> P k v)"
  using assms lookup_law [of c k] by (auto simp: vouched_def)

lemma vouched_store:
  assumes "vouched P c" "P k v"
  shows "\<exists>c'. store c k v = Some c' \<and> vouched P c'"
proof -
  from assms(1) store_law obtain c' where c': "store c k v = Some c'" "ok c'" "entries c' \<subseteq>\<^sub>m (entries c)(k \<mapsto> v)"
    unfolding vouched_def by meson
  have "P j u" if "entries c' j = Some u" for j u
  proof -
    have "((entries c)(k \<mapsto> v)) j = Some u" using c'(3) that by (metis domI map_le_def)
    then show ?thesis using assms by (auto simp: vouched_def split: if_splits)
  qed
  with c' show ?thesis by (auto simp: vouched_def)
qed

lemma vouched_mono: "vouched P c \<Longrightarrow> (\<And>k v. P k v \<Longrightarrow> Q k v) \<Longrightarrow> vouched Q c"
  by (auto simp: vouched_def)

lemma vouched_forget: "vouched P c \<Longrightarrow> vouched P (forget c k)"
  using forget_law [of c k] by (auto simp: vouched_def)

end

definition cacheEntries :: "cursorCache \<Rightarrow> string \<rightharpoonup> string" where
  "cacheEntries c = map_of (cacheAbs c)"

lemma map_of_other: "map_of (filter (\<lambda>p. fst p \<noteq> k) l) = (map_of l)(k := None)"
  by (rule ext, induction l) auto

lemma map_of_take: "map_of (take n l) \<subseteq>\<^sub>m map_of l"
  by (metis append_take_drop_id map_le_map_add map_of_append map_le_def map_add_Some_iff domIff option.exhaust_sel)

interpretation cursors: cursor_index cacheGet cachePut cacheDrop cacheEntries cacheOk
proof unfold_locales
  fix c :: cursorCache and k v :: string
  assume ok: "cacheOk c"
  have touched: "map_of (snd (lruGet l k)) = map_of l" for l
    by (auto simp: lruGet_def map_of_other split: option.split)
  show "fst (cacheGet c k) = cacheEntries c k \<and> cacheEntries (snd (cacheGet c k)) = cacheEntries c \<and> cacheOk (snd (cacheGet c k))"
    using get_refines [OF ok, of k] touched by (simp add: cacheEntries_def) (simp add: lruGet_def split: option.split)
  from put_refines [OF ok, of k v] obtain c' where c': "cachePut c k v = Some c'" "cacheOk c'"
    "cacheAbs c' = lruPut (nat (cc_max c)) (cacheAbs c) k v" by blast
  obtain m where m: "nat (cc_max c) = Suc m" using ok by (cases "nat (cc_max c)") (auto simp: cacheOk_def)
  have "map_of ((k, v) # filter (\<lambda>p. fst p \<noteq> k) (cacheAbs c)) = (cacheEntries c)(k \<mapsto> v)"
    by (simp add: cacheEntries_def map_of_other)
  then have "cacheEntries c' \<subseteq>\<^sub>m (cacheEntries c)(k \<mapsto> v)"
    using map_of_take [of "Suc m" "(k, v) # filter (\<lambda>p. fst p \<noteq> k) (cacheAbs c)"] c'(3) m by (simp add: cacheEntries_def lruPut_def)
  moreover have "cacheEntries c' k = Some v" by (simp add: cacheEntries_def c'(3) lruPut_def m)
  ultimately show "\<exists>c'. cachePut c k v = Some c' \<and> cacheOk c' \<and> cacheEntries c' k = Some v \<and> cacheEntries c' \<subseteq>\<^sub>m (cacheEntries c)(k \<mapsto> v)"
    using c' by blast
  show "cacheOk (cacheDrop c k) \<and> cacheEntries (cacheDrop c k) = (cacheEntries c)(k := None)"
    using drop_refines [OF ok, of k] by (simp add: cacheEntries_def lruDrop_def map_of_other)
qed

end
