(* ===== verification/Responses.thy ===== *)
theory Responses
  imports CursorCache ToolName Retry Streams
begin

text \<open>
  The Responses provider, \<^verbatim>\<open>src/responses_provider.go\<close>, and the read loop its stream shares with the other
  providers, \<^verbatim>\<open>src/sse_stream.go\<close>: which part of a history a request sends, what is remembered of the
  reply, and how events become deltas. JSON decoding (\<open>decodeEvent\<close>, \<open>decodeResponse\<close>), argument repair
  (\<open>argsOf\<close>), the tools' schemas (\<open>schemaOf\<close>) and HTTP (\<open>post\<close>) are parameters. A \<open>None\<close> around a result
  is a panic, or a name map that is never finished.
\<close>

subsection \<open>Configuration\<close>

record responsesConfig =
  rp_BaseURL :: string
  rp_APIKey :: string
  rp_Model :: string
  rp_ReasoningEffort :: string
  rp_ReasoningSummary :: string
  rp_Temperature :: bool
  rp_NoStore :: bool
  rp_CursorCacheSize :: int

record responsesProvider =
  rv_cfg :: responsesConfig
  rv_cursors :: cursorCache

abbreviation "FullHistoryNoCursor \<equiv> ''no stored response matches this history''"
abbreviation "FullHistoryStaleCursor \<equiv> ''the stored response is gone from the server''"

definition newResponsesProvider :: "responsesConfig \<Rightarrow> goerr + responsesProvider" where
  "newResponsesProvider cfg =
     (if rp_BaseURL cfg = [] \<or> rp_Model cfg = []
      then Inl (Errorf ''agent: ResponsesConfig requires BaseURL and Model'' [] None)
      else Inr \<lparr>rv_cfg = cfg,
                rv_cursors = newCursorCache (if rp_CursorCacheSize cfg \<le> 0 then 256 else rp_CursorCacheSize cfg)\<rparr>)"

definition responsesCapabilities :: "responsesProvider \<Rightarrow> capabilities" where
  "responsesCapabilities p =
     \<lparr>cap_Guided = [], cap_Seed = False, cap_Temperature = rp_Temperature (rv_cfg p), cap_Penalties = []\<rparr>"

definition responsesCheck :: "providerRequest \<Rightarrow> goerr option" where
  "responsesCheck req =
     (if rq_Seed req \<noteq> None
      then Some (Errorf ''%w: Seed (the Responses API has no seed)'' [] (Some (ErrSentinel ErrUnsupportedParam)))
      else if rq_Guided req \<noteq> None
      then Some (Errorf ''%w: Guided (the Responses API has no guided decoding)'' [] (Some (ErrSentinel ErrUnsupportedParam)))
      else refusePenalties (rq_Penalties req) [] ''the Responses API has no sampling penalties'')"

subsection \<open>The request body\<close>

datatype inputItem =
    FunctionCallOutput string string
  | RoleItem string string
  | FunctionCallItem string string rawjson

datatype choiceItem = ChoiceMode string | ChoiceFunction string

record toolItem =
  ti_name :: string
  ti_description :: string
  ti_parameters :: string

record rsBody =
  by_model :: string
  by_input :: "inputItem list"
  by_store :: bool
  by_previous :: "string option"
  by_instructions :: "string option"
  by_tools :: "toolItem list option"
  by_toolChoice :: "choiceItem option"
  by_temperature :: "float64 option"
  by_maxOutputTokens :: "int option"
  by_reasoning :: "(string option \<times> string) option"
  by_stream :: bool
  by_schema :: "rawjson option"

definition messageItems :: "toolNames \<Rightarrow> message \<Rightarrow> inputItem list" where
  "messageItems names m =
     (if m_Role m = RoleTool then [FunctionCallOutput (m_ToolCallID m) (m_Text m)]
      else if m_Role m = RoleAssistant then
        (if m_Text m \<noteq> [] \<or> m_ToolCalls m = [] then [RoleItem RoleAssistant (m_Text m)] else []) @
        map (\<lambda>tc. FunctionCallItem (tc_ID tc) (wireName names (tc_Name tc)) (tc_Args tc)) (m_ToolCalls m)
      else [RoleItem (m_Role m) (m_Text m)])"

definition responsesToolChoice :: "toolNames \<Rightarrow> toolChoice \<Rightarrow> choiceItem option" where
  "responsesToolChoice names tc =
     (if tch_Mode tc \<in> {''auto'', ''required'', ''none''} then Some (ChoiceMode (tch_Mode tc))
      else if tch_Mode tc = ''function'' then Some (ChoiceFunction (wireName names (tch_Name tc)))
      else None)"

text \<open>\<open>validJSON\<close> says that a schema text binds.\<close>

definition buildBody ::
  "(toolDef \<Rightarrow> string) \<Rightarrow> (rawjson \<Rightarrow> bool) \<Rightarrow> responsesConfig \<Rightarrow> toolNames \<Rightarrow> providerRequest \<Rightarrow> message list \<Rightarrow> string \<Rightarrow> bool \<Rightarrow> rsBody" where
  "buildBody schemaOf validJSON cfg names req input prev stream =
     \<lparr>by_model = rp_Model cfg,
      by_input = concat (map (messageItems names) input),
      by_store = (\<not> rp_NoStore cfg),
      by_previous = (if prev \<noteq> [] then Some prev else None),
      by_instructions = (if rq_Instructions req \<noteq> [] then Some (rq_Instructions req) else None),
      by_tools = (if rq_Tools req \<noteq> []
                  then Some (map (\<lambda>td. \<lparr>ti_name = (case realToSafe names (td_Name td) of Some s \<Rightarrow> s | None \<Rightarrow> []),
                                       ti_description = td_Description td, ti_parameters = schemaOf td\<rparr>) (rq_Tools req))
                  else None),
      by_toolChoice = (if rq_Tools req \<noteq> [] then responsesToolChoice names (rq_ToolChoice req) else None),
      by_temperature = map_option deref (rq_Temperature req),
      by_maxOutputTokens = (if rq_MaxTokens req > 0 then Some (rq_MaxTokens req) else None),
      by_reasoning = (if rp_ReasoningEffort cfg \<noteq> [] \<or> rp_ReasoningSummary cfg \<noteq> []
                      then Some (if rp_ReasoningEffort cfg \<noteq> [] then Some (rp_ReasoningEffort cfg) else None,
                                 if rp_ReasoningSummary cfg = [] then ''auto'' else rp_ReasoningSummary cfg)
                      else None),
      by_stream = stream,
      by_schema = (if \<not> stream \<and> rq_ResponseSchema req \<noteq> [] \<and> validJSON (rq_ResponseSchema req)
                   then Some (rq_ResponseSchema req) else None)\<rparr>"

subsection \<open>Sending\<close>

text \<open>The loop runs from the end; the argument is the number of messages still to look at.\<close>

fun lastAssistantFrom :: "message list \<Rightarrow> nat \<Rightarrow> int" where
  "lastAssistantFrom msgs 0 = -1"
| "lastAssistantFrom msgs (Suc i) = (if m_Role (msgs ! i) = RoleAssistant then int i else lastAssistantFrom msgs i)"

definition lastAssistant :: "message list \<Rightarrow> int" where
  "lastAssistant msgs = lastAssistantFrom msgs (length msgs)"

definition isStaleCursor :: "sendError \<Rightarrow> bool" where
  "isStaleCursor err =
     (case err of
        SendErr _ \<Rightarrow> False
      | ProviderError code body \<Rightarrow> (code = 404 \<or> code = 400) \<and> strContains body ''previous_response'')"

definition rsPost ::
  "(rsBody \<Rightarrow> goerr + string) \<Rightarrow> waitHints \<Rightarrow> (string \<Rightarrow> string option \<Rightarrow> string \<Rightarrow> 'w \<Rightarrow> (goerr + 'q) \<times> 'w) \<Rightarrow>
   ('q \<Rightarrow> 'w \<Rightarrow> (goerr + httpResponse) \<times> 'w) \<Rightarrow> (int \<Rightarrow> 'w \<Rightarrow> goerr option \<times> 'w) \<Rightarrow>
   responsesConfig \<Rightarrow> rsBody \<Rightarrow> 'w \<Rightarrow> (sendError + httpResponse) \<times> 'w" where
  "rsPost marshal hints newRequest doReq sleep cfg body w =
     (case marshal body of
        Inl e \<Rightarrow> (Inl (SendErr (Errorf ''agent: encode request: %w'' [] (Some e))), w)
      | Inr raw \<Rightarrow>
          sendWithRetry hints
            (newRequest (trimSuffix (rp_BaseURL cfg) ''/'' @ ''/responses'')
               (if rp_APIKey cfg \<noteq> [] then Some (''Bearer '' @ rp_APIKey cfg) else None) raw)
            doReq sleep w)"

text \<open>
  \<^verbatim>\<open>send\<close>, first half: what to send, from which stored response, the touched cache and whether
  \<^verbatim>\<open>OnFullHistory\<close> is told.
\<close>

definition planRequest ::
  "(string \<Rightarrow> string) \<Rightarrow> responsesProvider \<Rightarrow> message list \<Rightarrow> (message list \<times> string \<times> string option) \<times> responsesProvider" where
  "planRequest sha p msgs =
     (if rp_NoStore (rv_cfg p) then ((msgs, [], None), p)
      else let k = lastAssistant msgs + 1
           in if k > 0
              then case cacheGet (rv_cursors p) (cursorKey sha (take (nat k) msgs)) of
                     (Some rid, c) \<Rightarrow> ((drop (nat k) msgs, rid, None), p\<lparr>rv_cursors := c\<rparr>)
                   | (None, c) \<Rightarrow> ((msgs, [], Some FullHistoryNoCursor), p\<lparr>rv_cursors := c\<rparr>)
              else ((msgs, [], None), p))"

definition dropCursor :: "(string \<Rightarrow> string) \<Rightarrow> responsesProvider \<Rightarrow> message list \<Rightarrow> responsesProvider" where
  "dropCursor sha p msgs =
     p\<lparr>rv_cursors := cacheDrop (rv_cursors p) (cursorKey sha (take (nat (lastAssistant msgs + 1)) msgs))\<rparr>"

definition rsSend ::
  "(string \<Rightarrow> string) \<Rightarrow> (toolDef \<Rightarrow> string) \<Rightarrow> (rawjson \<Rightarrow> bool) \<Rightarrow> (rsBody \<Rightarrow> 'w \<Rightarrow> (sendError + httpResponse) \<times> 'w) \<Rightarrow>
   (string \<Rightarrow> 'w \<Rightarrow> 'w) \<Rightarrow> responsesProvider \<Rightarrow> providerRequest \<Rightarrow> bool \<Rightarrow> 'w \<Rightarrow>
   ((sendError + httpResponse) \<times> responsesProvider \<times> 'w) option" where
  "rsSend sha schemaOf validJSON post notify p req stream w =
     (case newToolNames (rq_Tools req) of
        None \<Rightarrow> None
      | Some names \<Rightarrow>
          (case planRequest sha p (rq_Messages req) of
             ((input, prev, reason), p1) \<Rightarrow>
               (let w1 = (case reason of None \<Rightarrow> w | Some r \<Rightarrow> notify r w);
                    body = buildBody schemaOf validJSON (rv_cfg p) names req
                in case post (body input prev stream) w1 of
                     (Inl e, w2) \<Rightarrow>
                       if prev \<noteq> [] \<and> isStaleCursor e
                       then (case post (body (rq_Messages req) [] stream) (notify FullHistoryStaleCursor w2) of
                               (r, w3) \<Rightarrow> Some (r, dropCursor sha p1 (rq_Messages req), w3))
                       else Some (Inl e, p1, w2)
                   | (Inr resp, w2) \<Rightarrow> Some (Inr resp, p1, w2))))"

subsection \<open>Responses\<close>

record rsContent =
  rc_Type :: string
  rc_Text :: string

record rsOutputItem =
  oi_Type :: string
  oi_CallID :: string
  oi_Name :: string
  oi_Arguments :: string
  oi_Content :: "rsContent list"
  oi_Summary :: "string list"

record rsUsage =
  ru_InputTokens :: int
  ru_OutputTokens :: int
  ru_CachedTokens :: "int option"

record rsResponse =
  rr_ID :: string
  rr_Status :: string
  rr_Output :: "rsOutputItem list"
  rr_Usage :: "rsUsage option"
  rr_Incomplete :: "string option"
  rr_Error :: "(string \<times> string) option"

definition toUsage :: "rsUsage \<Rightarrow> usage" where
  "toUsage u = \<lparr>InputTokens = ru_InputTokens u, OutputTokens = ru_OutputTokens u,
                CachedInputTokens = (case ru_CachedTokens u of None \<Rightarrow> 0 | Some n \<Rightarrow> n)\<rparr>"

definition finishReason :: "rsResponse \<Rightarrow> bool \<Rightarrow> string" where
  "finishReason r hasCalls =
     (case (if rr_Status r = ''incomplete'' then rr_Incomplete r else None) of
        Some reason \<Rightarrow> if reason = ''max_output_tokens'' then ''length'' else reason
      | None \<Rightarrow> if hasCalls then ''tool_calls'' else ''stop'')"

definition itemText :: "rsOutputItem \<Rightarrow> string" where
  "itemText it = (if oi_Type it = ''message''
                  then concat (map rc_Text (filter (\<lambda>c. rc_Type c = ''output_text'') (oi_Content it))) else [])"

definition itemReasoning :: "rsOutputItem \<Rightarrow> string" where
  "itemReasoning it = (if oi_Type it = ''reasoning'' then concat (oi_Summary it) else [])"

definition itemCalls :: "(string \<Rightarrow> rawjson) \<Rightarrow> toolNames \<Rightarrow> rsOutputItem \<Rightarrow> toolCall list" where
  "itemCalls argsOf names it =
     (if oi_Type it = ''function_call''
      then [\<lparr>tc_ID = oi_CallID it, tc_Name = realName names (oi_Name it),
             tc_Args = argsOf (if oi_Arguments it = [] then ''{}'' else oi_Arguments it)\<rparr>] else [])"

definition toProviderResponse :: "(string \<Rightarrow> rawjson) \<Rightarrow> toolNames \<Rightarrow> rsResponse \<Rightarrow> providerResponse" where
  "toProviderResponse argsOf names r =
     (let calls = concat (map (itemCalls argsOf names) (rr_Output r))
      in \<lparr>rs_Text = concat (map itemText (rr_Output r)), rs_Reasoning = concat (map itemReasoning (rr_Output r)),
          rs_ToolCalls = calls, rs_FinishReason = finishReason r (calls \<noteq> []),
          rs_Usage = map_option toUsage (rr_Usage r)\<rparr>)"

definition rememberReply ::
  "(string \<Rightarrow> string) \<Rightarrow> responsesProvider \<Rightarrow> message list \<Rightarrow> string \<Rightarrow> providerResponse \<Rightarrow> responsesProvider option" where
  "rememberReply sha p history rid out =
     (if rp_NoStore (rv_cfg p) \<or> rid = [] then Some p
      else map_option (\<lambda>c. p\<lparr>rv_cursors := c\<rparr>)
             (cachePut (rv_cursors p)
                (cursorKey sha (history @ [\<lparr>m_Role = RoleAssistant, m_Text = rs_Text out, m_ToolCalls = rs_ToolCalls out,
                                            m_ToolCallID = [], m_Timestamp = 0\<rparr>])) rid))"

definition rsGenerate ::
  "(string \<Rightarrow> string) \<Rightarrow> (toolDef \<Rightarrow> string) \<Rightarrow> (rawjson \<Rightarrow> bool) \<Rightarrow> (string \<Rightarrow> goerr + rsResponse) \<Rightarrow> (string \<Rightarrow> rawjson) \<Rightarrow>
   (rsBody \<Rightarrow> 'w \<Rightarrow> (sendError + httpResponse) \<times> 'w) \<Rightarrow> (string \<Rightarrow> 'w \<Rightarrow> 'w) \<Rightarrow> responsesProvider \<Rightarrow> providerRequest \<Rightarrow> 'w \<Rightarrow>
   ((sendError + providerResponse) \<times> responsesProvider \<times> 'w) option" where
  "rsGenerate sha schemaOf validJSON decodeResponse argsOf post notify p req w =
     (case responsesCheck req of
        Some e \<Rightarrow> Some (Inl (SendErr e), p, w)
      | None \<Rightarrow>
          (case rsSend sha schemaOf validJSON post notify p req False w of
             None \<Rightarrow> None
           | Some (Inl e, p1, w1) \<Rightarrow> Some (Inl e, p1, w1)
           | Some (Inr resp, p1, w1) \<Rightarrow>
               (case decodeResponse (http_Body resp) of
                  Inl e \<Rightarrow> Some (Inl (SendErr (Errorf ''agent: decode response: %w'' [] (Some e))), p1, w1)
                | Inr full \<Rightarrow>
                    (case rr_Error full of
                       Some (_, msg) \<Rightarrow> Some (Inl (SendErr (Errorf ''agent: response failed: %s'' [msg] None)), p1, w1)
                     | None \<Rightarrow>
                         (case newToolNames (rq_Tools req) of
                            None \<Rightarrow> None
                          | Some names \<Rightarrow>
                              (let out = toProviderResponse argsOf names full
                               in map_option (\<lambda>p2. (Inr out, p2, w1)) (rememberReply sha p1 (rq_Messages req) (rr_ID full) out)))))))"

subsection \<open>Streaming\<close>

record rsEvent =
  ev_Type :: string
  ev_OutputIndex :: int
  ev_Delta :: string
  ev_Item :: "rsOutputItem option"
  ev_Response :: "rsResponse option"
  ev_Code :: string
  ev_Message :: string
  ev_Error :: "(string \<times> string) option"

text \<open>The provider's cursors are shared, so the stream's state holds the provider.\<close>

record responsesStream =
  rx_p :: responsesProvider
  rx_history :: "message list"
  rx_names :: toolNames
  rx_calls :: "int \<rightharpoonup> nat"
  rx_acc :: deltaAccumulator

text \<open>\<^verbatim>\<open>Stream\<close> after a successful \<^verbatim>\<open>send\<close>: the state the stream starts with.\<close>

definition startStream :: "responsesProvider \<Rightarrow> message list \<Rightarrow> toolNames \<Rightarrow> responsesStream" where
  "startStream p msgs names = \<lparr>rx_p = p, rx_history = msgs, rx_names = names, rx_calls = Map.empty, rx_acc = newAccumulator\<rparr>"

type_synonym decodeResult = "delta list \<times> bool \<times> goerr option"

definition callDelta :: "string \<Rightarrow> nat \<Rightarrow> string \<Rightarrow> string \<Rightarrow> string \<Rightarrow> delta" where
  "callDelta kind idx cid name t = \<lparr>d_Kind = kind, d_Text = t, d_Index = int idx, d_ToolCallID = cid, d_ToolName = name,
                                    d_FinishReason = [], d_Usage = None\<rparr>"

definition addAll :: "delta list \<Rightarrow> responsesStream \<Rightarrow> responsesStream" where
  "addAll ds s = s\<lparr>rx_acc := foldl accAdd (rx_acc s) ds\<rparr>"

definition finishDeltas :: "responsesStream \<Rightarrow> rsResponse \<Rightarrow> delta list" where
  "finishDeltas s r =
     (case rr_Usage r of None \<Rightarrow> [] | Some u \<Rightarrow> [(textDelta DeltaUsage [])\<lparr>d_Usage := Some (toUsage u)\<rparr>]) @
     [(textDelta DeltaFinish [])\<lparr>d_FinishReason := finishReason r (dom (rx_calls s) \<noteq> {})\<rparr>]"

definition finishStream ::
  "(string \<Rightarrow> string) \<Rightarrow> (string \<Rightarrow> rawjson) \<Rightarrow> responsesStream \<Rightarrow> rsResponse \<Rightarrow> (decodeResult \<times> responsesStream) option" where
  "finishStream sha argsOf s r =
     (let out = finishDeltas s r; s1 = addAll out s
      in case accResult argsOf (rx_acc s1) of
           None \<Rightarrow> None
         | Some reply \<Rightarrow>
             map_option (\<lambda>p. ((out, True, None), s1\<lparr>rx_p := p\<rparr>)) (rememberReply sha (rx_p s1) (rx_history s1) (rr_ID r) reply))"

definition rsDecodeEvent ::
  "(string \<Rightarrow> string) \<Rightarrow> (string \<Rightarrow> rawjson) \<Rightarrow> responsesStream \<Rightarrow> rsEvent \<Rightarrow> (decodeResult \<times> responsesStream) option" where
  "rsDecodeEvent sha argsOf s ev =
     (let t = ev_Type ev; plain = (\<lambda>out s. Some ((out, False, None), addAll out s))
      in if t = ''response.output_text.delta'' then plain [textDelta DeltaText (ev_Delta ev)] s
         else if t = ''response.reasoning_summary_text.delta'' \<or> t = ''response.reasoning_text.delta''
         then plain [textDelta DeltaReasoning (ev_Delta ev)] s
         else if t = ''response.output_item.added''
         then (case ev_Item ev of
                 Some it \<Rightarrow>
                   if oi_Type it = ''function_call''
                   then let idx = card (dom (rx_calls s))
                        in plain [callDelta DeltaToolCallStart idx (oi_CallID it) (realName (rx_names s) (oi_Name it)) (oi_Arguments it)]
                             (s\<lparr>rx_calls := (rx_calls s)(ev_OutputIndex ev \<mapsto> idx)\<rparr>)
                   else plain [] s
               | None \<Rightarrow> plain [] s)
         else if t = ''response.function_call_arguments.delta''
         then (case rx_calls s (ev_OutputIndex ev) of
                 Some idx \<Rightarrow> if ev_Delta ev \<noteq> [] then plain [callDelta DeltaToolCallArgs idx [] [] (ev_Delta ev)] s else plain [] s
               | None \<Rightarrow> plain [] s)
         else if t = ''response.completed'' \<or> t = ''response.incomplete''
         then (case ev_Response ev of
                 None \<Rightarrow> Some (([], True, None), s)
               | Some r \<Rightarrow> finishStream sha argsOf s r)
         else if t = ''response.failed''
         then (let msg = (case ev_Response ev of
                            Some r \<Rightarrow> (case rr_Error r of Some (_, m) \<Rightarrow> m | None \<Rightarrow> ''response failed'')
                          | None \<Rightarrow> ''response failed'')
               in Some (([], True, Some (Errorf ''agent: %s'' [msg] None)), s))
         else if t = ''error''
         then (case (case ev_Error ev of Some cm \<Rightarrow> cm | None \<Rightarrow> (ev_Code ev, ev_Message ev)) of
                 (code, msg) \<Rightarrow> Some (([], True, Some (Errorf ''agent: stream error %s: %s'' [code, msg] None)), s))
         else plain [] s)"

definition rsDecode ::
  "(string \<Rightarrow> string) \<Rightarrow> (string \<Rightarrow> rawjson) \<Rightarrow> (string \<Rightarrow> goerr + rsEvent) \<Rightarrow> responsesStream \<Rightarrow> string \<Rightarrow> (decodeResult \<times> responsesStream) option" where
  "rsDecode sha argsOf decodeEvent s payload =
     (case decodeEvent payload of
        Inl e \<Rightarrow> Some (([], False, Some (Errorf ''agent: bad SSE event: %w'' [] (Some e))), s)
      | Inr ev \<Rightarrow> rsDecodeEvent sha argsOf s ev)"

subsection \<open>The read loop\<close>

text \<open>
  One call of \<^verbatim>\<open>ReadEvent\<close> with the state of the context before and after it. The reader is the list of
  what it will return; at the end of the list it returns no data and EOF.
\<close>

record sseRead =
  rd_before :: "goerr option"
  rd_Data :: string
  rd_err :: "goerr option"
  rd_after :: "goerr option"

record 's sseStream =
  ss_queue :: "delta list"
  ss_done :: bool
  ss_reads :: "sseRead list"
  ss_dec :: 's

function sseRecv ::
  "('s \<Rightarrow> string \<Rightarrow> (decodeResult \<times> 's) option) \<Rightarrow> 's sseStream \<Rightarrow> ((goerr + delta) \<times> 's sseStream) option" where
  "sseRecv decode s =
     (case ss_queue s of
        d # ds \<Rightarrow> Some (Inr d, s\<lparr>ss_queue := ds\<rparr>)
      | [] \<Rightarrow>
          if ss_done s then Some (Inl (ErrSentinel IoEOF), s)
          else case ss_reads s of
                 [] \<Rightarrow> Some (Inl (ErrSentinel IoEOF), s)
               | rd # rds \<Rightarrow>
                   (case rd_before rd of
                      Some e \<Rightarrow> Some (Inl e, s)
                    | None \<Rightarrow>
                        (let s1 = s\<lparr>ss_reads := rds\<rparr>
                         in case (case rd_err rd of
                                    None \<Rightarrow> None
                                  | Some e \<Rightarrow> (case rd_after rd of
                                                 Some ce \<Rightarrow> Some ce
                                               | None \<Rightarrow> if \<not> errors_is e IoEOF \<or> rd_Data rd = [] then Some e else None)) of
                              Some e \<Rightarrow> Some (Inl e, s1)
                            | None \<Rightarrow>
                                (let s2 = (if rd_err rd \<noteq> None then s1\<lparr>ss_done := True\<rparr> else s1);
                                     payload = trimSpace (rd_Data rd)
                                 in if payload = [] then sseRecv decode s2
                                    else case decode (ss_dec s2) payload of
                                           None \<Rightarrow> None
                                         | Some ((ds, fin, err), st) \<Rightarrow>
                                             (case err of
                                                Some e \<Rightarrow> Some (Inl e, s2\<lparr>ss_dec := st\<rparr>)
                                              | None \<Rightarrow>
                                                  sseRecv decode
                                                    (s2\<lparr>ss_dec := st, ss_done := (ss_done s2 \<or> fin), ss_queue := ds\<rparr>))))))"
  by pat_completeness auto
termination
  by (relation "measure (\<lambda>(_, s). length (ss_reads s))") auto

declare sseRecv.simps [simp del]

definition rsStream ::
  "(string \<Rightarrow> string) \<Rightarrow> (toolDef \<Rightarrow> string) \<Rightarrow> (rawjson \<Rightarrow> bool) \<Rightarrow> (string \<Rightarrow> sseRead list) \<Rightarrow>
   (rsBody \<Rightarrow> 'w \<Rightarrow> (sendError + httpResponse) \<times> 'w) \<Rightarrow> (string \<Rightarrow> 'w \<Rightarrow> 'w) \<Rightarrow> responsesProvider \<Rightarrow> providerRequest \<Rightarrow> 'w \<Rightarrow>
   ((sendError + responsesStream sseStream) \<times> responsesProvider \<times> 'w) option" where
  "rsStream sha schemaOf validJSON readsOf post notify p req w =
     (case responsesCheck req of
        Some e \<Rightarrow> Some (Inl (SendErr e), p, w)
      | None \<Rightarrow>
          (case rsSend sha schemaOf validJSON post notify p req True w of
             None \<Rightarrow> None
           | Some (Inl e, p1, w1) \<Rightarrow> Some (Inl e, p1, w1)
           | Some (Inr resp, p1, w1) \<Rightarrow>
               map_option (\<lambda>names. (Inr \<lparr>ss_queue = [], ss_done = False, ss_reads = readsOf (http_Body resp),
                                        ss_dec = startStream p1 (rq_Messages req) names\<rparr>, p1, w1))
                 (newToolNames (rq_Tools req))))"

subsection \<open>Requests against a server that stores responses\<close>

text \<open>
  Requests of several goroutines interleave: looking up the cursor, the server's answer and remembering the
  reply are separate steps, and the server may forget any response at any time. \<open>rw_conv\<close> is the
  conversation the server holds for a response: what it held for the previous response, the input it was
  sent and the reply. Response ids are never given twice. \<open>H\<close> is the set of histories that are hashed.
\<close>

definition replyMessage :: "providerResponse \<Rightarrow> message" where
  "replyMessage out = \<lparr>m_Role = RoleAssistant, m_Text = rs_Text out, m_ToolCalls = rs_ToolCalls out,
                       m_ToolCallID = [], m_Timestamp = 0\<rparr>"

record respWorld =
  rw_p :: responsesProvider
  rw_flight :: "(message list \<times> message list \<times> string) list"
  rw_pending :: "(message list \<times> string \<times> providerResponse) list"
  rw_conv :: "string \<rightharpoonup> message list"
  rw_used :: "string set"

inductive respStep :: "(string \<Rightarrow> string) \<Rightarrow> message list set \<Rightarrow> respWorld \<Rightarrow> respWorld \<Rightarrow> bool"
  for sha H where
  plan: "planRequest sha (rw_p s) msgs = ((input, prev, reason), p1) \<Longrightarrow> take (nat (lastAssistant msgs + 1)) msgs \<in> H \<Longrightarrow>
     respStep sha H s (s\<lparr>rw_p := p1, rw_flight := (msgs, input, prev) # rw_flight s\<rparr>)"
| answer: "(msgs, input, prev) \<in> set (rw_flight s) \<Longrightarrow> (if prev = [] then Some [] else rw_conv s prev) = Some ms \<Longrightarrow>
     rid \<notin> rw_used s \<Longrightarrow>
     respStep sha H s (s\<lparr>rw_pending := (msgs, rid, out) # rw_pending s, rw_used := insert rid (rw_used s),
                          rw_conv := (rw_conv s)(rid \<mapsto> ms @ input @ [replyMessage out])\<rparr>)"
| stale: "(msgs, input, prev) \<in> set (rw_flight s) \<Longrightarrow> prev \<noteq> [] \<Longrightarrow> rw_conv s prev = None \<Longrightarrow>
     respStep sha H s (s\<lparr>rw_p := dropCursor sha (rw_p s) msgs, rw_flight := (msgs, msgs, []) # rw_flight s\<rparr>)"
| remember: "(msgs, rid, out) \<in> set (rw_pending s) \<Longrightarrow> rememberReply sha (rw_p s) msgs rid out = Some p1 \<Longrightarrow>
     msgs @ [replyMessage out] \<in> H \<Longrightarrow> respStep sha H s (s\<lparr>rw_p := p1\<rparr>)"
| forget: "respStep sha H s (s\<lparr>rw_conv := (rw_conv s)(rid := None)\<rparr>)"

definition respInit :: "responsesProvider \<Rightarrow> respWorld" where
  "respInit p = \<lparr>rw_p = p, rw_flight = [], rw_pending = [], rw_conv = Map.empty, rw_used = {}\<rparr>"

text \<open>A cursor entry is right when what the server holds for its response is a history with that key.\<close>

definition cursorRight :: "(string \<Rightarrow> string) \<Rightarrow> message list set \<Rightarrow> (string \<rightharpoonup> message list) \<Rightarrow> string set \<Rightarrow> string \<Rightarrow> string \<Rightarrow> bool" where
  "cursorRight sha H conv used k rid \<longleftrightarrow> rid \<noteq> [] \<and> rid \<in> used \<and>
     (\<forall>ms. conv rid = Some ms \<longrightarrow> (\<exists>h\<in>H. k = cursorKey sha h \<and> seen ms = seen h))"

definition flightRight :: "(string \<rightharpoonup> message list) \<Rightarrow> string set \<Rightarrow> message list \<times> message list \<times> string \<Rightarrow> bool" where
  "flightRight conv used f \<longleftrightarrow>
     (case f of (msgs, input, prev) \<Rightarrow>
        (prev = [] \<longrightarrow> input = msgs) \<and>
        (prev \<noteq> [] \<longrightarrow> prev \<in> used \<and> (\<forall>ms. conv prev = Some ms \<longrightarrow> seen (ms @ input) = seen msgs)))"

definition pendingRight :: "(string \<rightharpoonup> message list) \<Rightarrow> string set \<Rightarrow> message list \<times> string \<times> providerResponse \<Rightarrow> bool" where
  "pendingRight conv used q \<longleftrightarrow>
     (case q of (msgs, rid, out) \<Rightarrow>
        rid \<in> used \<and> (\<forall>ms. conv rid = Some ms \<longrightarrow> seen ms = seen (msgs @ [replyMessage out])))"

definition respInv :: "(string \<Rightarrow> string) \<Rightarrow> message list set \<Rightarrow> respWorld \<Rightarrow> bool" where
  "respInv sha H s \<longleftrightarrow> cursors.vouched (cursorRight sha H (rw_conv s) (rw_used s)) (rv_cursors (rw_p s)) \<and>
     (\<forall>f\<in>set (rw_flight s). flightRight (rw_conv s) (rw_used s) f) \<and>
     (\<forall>q\<in>set (rw_pending s). pendingRight (rw_conv s) (rw_used s) q)"

text \<open>What is hashed is never mistaken for another history.\<close>

definition hashesApart :: "(string \<Rightarrow> string) \<Rightarrow> message list set \<Rightarrow> bool" where
  "hashesApart sha H \<longleftrightarrow> (\<forall>a\<in>H. \<forall>b\<in>H. sha (keyBytes a) = sha (keyBytes b) \<longrightarrow> keyBytes a = keyBytes b) \<and>
     (\<forall>a\<in>H. list_all sizedMsg a)"

lemma cursorKey_seen:
  assumes "hashesApart sha H" "a \<in> H" "b \<in> H" "cursorKey sha a = cursorKey sha b"
  shows "seen a = seen b"
  using assms keyBytes_inj [of a b] unfolding hashesApart_def cursorKey_def by blast

lemma seen_append: "seen (a @ b) = seen a @ seen b"
  by (simp add: seen_def)

text \<open>Giving a new response id a conversation changes nothing of what was said about the old ones.\<close>

lemma right_new_id:
  assumes "rid \<notin> used"
  shows "cursorRight sha H conv used k v \<Longrightarrow> cursorRight sha H (conv(rid \<mapsto> x)) (insert rid used) k v"
    and "flightRight conv used f \<Longrightarrow> flightRight (conv(rid \<mapsto> x)) (insert rid used) f"
    and "pendingRight conv used q \<Longrightarrow> pendingRight (conv(rid \<mapsto> x)) (insert rid used) q"
  using assms by (auto simp: cursorRight_def flightRight_def pendingRight_def split: if_splits)

lemma right_forget:
  shows "cursorRight sha H conv used k v \<Longrightarrow> cursorRight sha H (conv(rid := None)) used k v"
    and "flightRight conv used f \<Longrightarrow> flightRight (conv(rid := None)) used f"
    and "pendingRight conv used q \<Longrightarrow> pendingRight (conv(rid := None)) used q"
  by (auto simp: cursorRight_def flightRight_def pendingRight_def split: if_splits)

lemma planRequest_right:
  assumes inv: "cursors.vouched (cursorRight sha H conv used) (rv_cursors p)" and apart: "hashesApart sha H"
    and plan: "planRequest sha p msgs = ((input, prev, reason), p1)" and h: "take (nat (lastAssistant msgs + 1)) msgs \<in> H"
  shows "flightRight conv used (msgs, input, prev) \<and> cursors.vouched (cursorRight sha H conv used) (rv_cursors p1)"
proof (cases "rp_NoStore (rv_cfg p) \<or> lastAssistant msgs + 1 \<le> 0")
  case True
  then show ?thesis using plan inv by (auto simp: planRequest_def flightRight_def Let_def split: if_splits)
next
  case False
  let ?k = "nat (lastAssistant msgs + 1)"
  obtain r c where g: "cacheGet (rv_cursors p) (cursorKey sha (take ?k msgs)) = (r, c)" by fastforce
  have v: "cursors.vouched (cursorRight sha H conv used) c"
    and r: "\<And>rid. r = Some rid \<Longrightarrow> cursorRight sha H conv used (cursorKey sha (take ?k msgs)) rid"
    using cursors.vouched_lookup [OF inv g] by auto
  show ?thesis
  proof (cases r)
    case None
    then show ?thesis using plan False g v by (auto simp: planRequest_def flightRight_def Let_def)
  next
    case (Some rid)
    have out: "input = drop ?k msgs" "prev = rid" "rv_cursors p1 = c" using plan False g Some by (auto simp: planRequest_def Let_def)
    have "seen (ms @ drop ?k msgs) = seen msgs" if "conv rid = Some ms" for ms
    proof -
      have "seen ms = seen (take ?k msgs)"
        using r [OF Some] that cursorKey_seen [OF apart h] unfolding cursorRight_def by metis
      then show ?thesis by (metis append_take_drop_id seen_append)
    qed
    then show ?thesis using r [OF Some] out v by (auto simp: flightRight_def cursorRight_def)
  qed
qed

lemma rememberReply_right:
  assumes inv: "cursors.vouched (cursorRight sha H conv used) (rv_cursors p)" and pend: "pendingRight conv used (msgs, rid, out)"
    and h: "msgs @ [replyMessage out] \<in> H" and r: "rememberReply sha p msgs rid out = Some p1"
  shows "cursors.vouched (cursorRight sha H conv used) (rv_cursors p1)"
proof (cases "rp_NoStore (rv_cfg p) \<or> rid = []")
  case True
  then show ?thesis using r inv by (auto simp: rememberReply_def)
next
  case False
  have "cursorRight sha H conv used (cursorKey sha (msgs @ [replyMessage out])) rid"
    using False pend h by (auto simp: cursorRight_def pendingRight_def)
  from cursors.vouched_store [OF inv this] r False show ?thesis
    by (auto simp: rememberReply_def replyMessage_def)
qed

lemma respStep_inv:
  assumes "respStep sha H s s'" "respInv sha H s" "hashesApart sha H"
  shows "respInv sha H s'"
  using assms(1)
proof cases
  case (plan msgs input prev reason p1)
  then show ?thesis using assms(2) planRequest_right [OF _ assms(3) plan(2,3)] by (auto simp: respInv_def)
next
  case (answer msgs input prev ms rid out)
  have f: "flightRight (rw_conv s) (rw_used s) (msgs, input, prev)" using answer(2) assms(2) by (auto simp: respInv_def)
  then have "seen (ms @ input) = seen msgs" using answer(3) by (auto simp: flightRight_def split: if_splits)
  then have "seen (ms @ input @ [replyMessage out]) = seen (msgs @ [replyMessage out])" by (metis append_assoc seen_append)
  then have "pendingRight ((rw_conv s)(rid \<mapsto> ms @ input @ [replyMessage out])) (insert rid (rw_used s)) (msgs, rid, out)"
    by (simp add: pendingRight_def)
  then show ?thesis using assms(2) answer(4) unfolding respInv_def answer(1)
    by (auto intro: right_new_id cursors.vouched_mono)
next
  case (stale msgs input prev)
  then show ?thesis using assms(2) cursors.vouched_forget
    by (auto simp: respInv_def dropCursor_def flightRight_def)
next
  case (remember msgs rid out p1)
  then show ?thesis using assms(2) rememberReply_right [OF _ _ remember(4,3)] by (auto simp: respInv_def)
next
  case (forget rid)
  then show ?thesis using assms(2) unfolding respInv_def by (auto intro: right_forget cursors.vouched_mono)
qed

definition historyItems :: "toolNames \<Rightarrow> message list \<Rightarrow> inputItem list" where
  "historyItems names msgs = concat (map (messageItems names) msgs)"

lemma historyItems_seen: "seen a = seen b \<Longrightarrow> historyItems names a = historyItems names b"
proof -
  have "messageItems names (m\<lparr>m_Timestamp := 0\<rparr>) = messageItems names m" for m by (simp add: messageItems_def)
  then have "historyItems names a = concat (map (messageItems names) (seen a))" for a
    by (simp add: historyItems_def seen_def comp_def)
  then show "seen a = seen b \<Longrightarrow> historyItems names a = historyItems names b" by simp
qed

lemma respInv_init:
  assumes "newResponsesProvider cfg = Inr p"
  shows "respInv sha H (respInit p)"
proof -
  let ?mx = "if rp_CursorCacheSize cfg \<le> 0 then 256 else rp_CursorCacheSize cfg"
  have mx: "1 \<le> ?mx" "rv_cursors p = newCursorCache ?mx"
    using assms by (auto simp: newResponsesProvider_def split: if_splits)
  then have "cacheOk (rv_cursors p)" "cacheEntries (rv_cursors p) = Map.empty"
    using cacheOk_new by (auto simp: cacheEntries_def)
  then show ?thesis by (simp add: respInv_def respInit_def cursors.vouched_def)
qed

lemma respReach_inv:
  assumes "(respStep sha H)\<^sup>*\<^sup>* (respInit p) s" "newResponsesProvider cfg = Inr p" "hashesApart sha H"
  shows "respInv sha H s"
  using assms(1) by (induction rule: rtranclp_induct) (auto intro: respInv_init [OF assms(2)] respStep_inv [OF _ _ assms(3)])

text \<open>
  C21: a chained request reads like the full history. However lookups, answers, forgotten responses and
  remembered replies of concurrent requests interleave, a request in flight either sends its whole history
  without a previous response, or names a response for which, if the server still holds it, the stored
  conversation followed by the input items is item for item the full history of the request. The hash is
  only assumed to keep apart the histories that were hashed.
\<close>

theorem chained_request_reads_full_history:
  assumes "newResponsesProvider cfg = Inr p" "(respStep sha H)\<^sup>*\<^sup>* (respInit p) s" "hashesApart sha H"
    and flight: "(msgs, input, prev) \<in> set (rw_flight s)"
  shows "let body = buildBody schemaOf validJSON cfg names req input prev stream
     in (by_previous body = None \<longrightarrow> by_input body = historyItems names msgs) \<and>
        (\<forall>rid ms. by_previous body = Some rid \<longrightarrow> rw_conv s rid = Some ms \<longrightarrow>
           historyItems names ms @ by_input body = historyItems names msgs)"
proof -
  have f: "flightRight (rw_conv s) (rw_used s) (msgs, input, prev)"
    using respReach_inv [OF assms(2,1,3)] flight by (auto simp: respInv_def)
  have input: "by_input (buildBody schemaOf validJSON cfg names req input prev stream) = historyItems names input"
    and previous: "by_previous (buildBody schemaOf validJSON cfg names req input prev stream) = (if prev \<noteq> [] then Some prev else None)"
    by (simp_all add: buildBody_def historyItems_def)
  have "historyItems names ms @ historyItems names input = historyItems names msgs"
    if "prev \<noteq> []" "rw_conv s prev = Some ms" for ms
  proof -
    have "seen (ms @ input) = seen msgs" using f that by (simp add: flightRight_def)
    from historyItems_seen [OF this] show ?thesis by (simp add: historyItems_def)
  qed
  then show ?thesis using f by (auto simp: Let_def input previous flightRight_def split: if_splits)
qed

definition exResponses :: responsesConfig where
  "exResponses = \<lparr>rp_BaseURL = ''http://x'', rp_APIKey = [], rp_Model = ''m'', rp_ReasoningEffort = [], rp_ReasoningSummary = [],
     rp_Temperature = False, rp_NoStore = False, rp_CursorCacheSize = 0\<rparr>"

definition exProvider :: responsesProvider where
  "exProvider = \<lparr>rv_cfg = exResponses, rv_cursors = newCursorCache 256\<rparr>"

definition exReply :: providerResponse where
  "exReply = \<lparr>rs_Text = ''hi'', rs_Reasoning = [], rs_ToolCalls = [], rs_FinishReason = ''stop'', rs_Usage = None\<rparr>"

abbreviation "exFirst \<equiv> [textMessage RoleUser ''hello'']"
abbreviation "exSecond \<equiv> exFirst @ [replyMessage exReply, textMessage RoleUser ''and?'']"

definition exHashed :: "message list set" where
  "exHashed = {[], exFirst @ [replyMessage exReply]}"

lemma exReached:
  "\<exists>s. (respStep (\<lambda>x. x) exHashed)\<^sup>*\<^sup>* (respInit exProvider) s \<and> (exSecond, [textMessage RoleUser ''and?''], ''r1'') \<in> set (rw_flight s) \<and>
     rw_conv s ''r1'' = Some (exFirst @ [replyMessage exReply])"
proof -
  let ?st = "respStep (\<lambda>x. x) exHashed"
  let ?s1 = "(respInit exProvider)\<lparr>rw_flight := [(exFirst, exFirst, [])]\<rparr>"
  let ?s2 = "?s1\<lparr>rw_pending := [(exFirst, ''r1'', exReply)], rw_used := {''r1''}, rw_conv := [''r1'' \<mapsto> exFirst @ [replyMessage exReply]]\<rparr>"
  have p1: "planRequest (\<lambda>x. x) exProvider exFirst = ((exFirst, [], None), exProvider)"
    by (simp add: planRequest_def exProvider_def exResponses_def lastAssistant_def textMessage_def)
  have t1: "take (nat (lastAssistant exFirst + 1)) exFirst = []" by code_simp
  have "?st (respInit exProvider) ((respInit exProvider)\<lparr>rw_p := exProvider, rw_flight := (exFirst, exFirst, []) # rw_flight (respInit exProvider)\<rparr>)"
    using p1 t1 by (intro respStep.plan [where reason = None]) (auto simp: respInit_def exHashed_def)
  then have s1: "?st (respInit exProvider) ?s1" by (simp add: respInit_def)
  have "?st ?s1 (?s1\<lparr>rw_pending := (exFirst, ''r1'', exReply) # rw_pending ?s1, rw_used := insert ''r1'' (rw_used ?s1),
                   rw_conv := (rw_conv ?s1)(''r1'' \<mapsto> [] @ exFirst @ [replyMessage exReply])\<rparr>)"
    by (rule respStep.answer [where prev = "[]"]) (auto simp: respInit_def)
  then have s2: "?st ?s1 ?s2" by (simp add: respInit_def)
  obtain c where c: "cachePut (rv_cursors exProvider) (keyBytes (exFirst @ [replyMessage exReply])) ''r1'' = Some c"
      "cacheOk c" "cacheEntries c (keyBytes (exFirst @ [replyMessage exReply])) = Some ''r1''"
    using cursors.store_law [of "rv_cursors exProvider" "keyBytes (exFirst @ [replyMessage exReply])" "''r1''"] cacheOk_new [of 256]
    by (auto simp: exProvider_def)
  let ?s3 = "?s2\<lparr>rw_p := exProvider\<lparr>rv_cursors := c\<rparr>\<rparr>"
  have s3: "?st ?s2 ?s3"
    using c(1) by (intro respStep.remember [of exFirst "''r1''" exReply])
      (auto simp: rememberReply_def respInit_def exProvider_def exResponses_def cursorKey_def replyMessage_def exHashed_def)
  have t2: "lastAssistant exSecond = 1" by code_simp
  obtain c2 where g: "cacheGet c (keyBytes (exFirst @ [replyMessage exReply])) = (Some ''r1'', c2)"
    using cursors.lookup_law [OF c(2), of "keyBytes (exFirst @ [replyMessage exReply])"] c(3) by (metis prod.collapse)
  let ?s4 = "?s3\<lparr>rw_p := exProvider\<lparr>rv_cursors := c2\<rparr>, rw_flight := (exSecond, [textMessage RoleUser ''and?''], ''r1'') # rw_flight ?s3\<rparr>"
  have s4: "?st ?s3 ?s4"
    using t2 g by (intro respStep.plan [where reason = None])
      (auto simp: planRequest_def exProvider_def exResponses_def cursorKey_def exHashed_def Let_def numeral_2_eq_2)
  have "?st\<^sup>*\<^sup>* (respInit exProvider) ?s4"
    using s1 s2 s3 s4 by (meson converse_rtranclp_into_rtranclp rtranclp.rtrancl_refl)
  then show ?thesis by (intro exI [of _ ?s4]) simp
qed

theorem chained_request_reads_full_history_witness:
  "\<exists>s. (respStep (\<lambda>x. x) exHashed)\<^sup>*\<^sup>* (respInit exProvider) s \<and>
     (\<forall>names req. historyItems names (exFirst @ [replyMessage exReply]) @
        by_input (buildBody td_Name (\<lambda>_. True) exResponses names req [textMessage RoleUser ''and?''] ''r1'' True) = historyItems names exSecond)"
proof -
  obtain s where s: "(respStep (\<lambda>x. x) exHashed)\<^sup>*\<^sup>* (respInit exProvider) s"
      "(exSecond, [textMessage RoleUser ''and?''], ''r1'') \<in> set (rw_flight s)" "rw_conv s ''r1'' = Some (exFirst @ [replyMessage exReply])"
    using exReached by blast
  have new: "newResponsesProvider exResponses = Inr exProvider" by (simp add: newResponsesProvider_def exResponses_def exProvider_def)
  have apart: "hashesApart (\<lambda>x. x) exHashed"
    by (auto simp: hashesApart_def exHashed_def sizedMsg_def textMessage_def replyMessage_def exReply_def)
  show ?thesis
    using chained_request_reads_full_history [OF new s(1) apart s(2), where schemaOf = td_Name and validJSON = "\<lambda>_. True" and stream = True] s
    by (intro exI [of _ s]) (auto simp: Let_def buildBody_def)
qed

end
