(* ===== verification/ResponsesStream.thy ===== *)
theory ResponsesStream
  imports Responses
begin

text \<open>
  A streamed response and a generated one are the same. \<open>sseDrain\<close> reads a stream to its end; the events
  a server emits for the output of a response, mixed with events the provider does not read, decode to
  deltas whose accumulation is the response that \<^verbatim>\<open>Generate\<close> builds from the whole document, and leave
  the same cursor behind.
\<close>

subsection \<open>Reading a stream to its end\<close>

partial_function (option) sseDrain ::
  "('s \<Rightarrow> string \<Rightarrow> (decodeResult \<times> 's) option) \<Rightarrow> 's sseStream \<Rightarrow> delta list \<Rightarrow> ((delta list \<times> goerr) \<times> 's sseStream) option" where
  "sseDrain decode s acc =
     (case sseRecv decode s of
        None \<Rightarrow> None
      | Some (Inl e, s1) \<Rightarrow> Some ((acc, e), s1)
      | Some (Inr d, s1) \<Rightarrow> sseDrain decode s1 (acc @ [d]))"

declare sseDrain.simps [code]

text \<open>What a list of payloads decodes to, up to the terminal event, an error or the end.\<close>

fun decodeAll :: "('s \<Rightarrow> string \<Rightarrow> (decodeResult \<times> 's) option) \<Rightarrow> 's \<Rightarrow> string list \<Rightarrow> ((delta list \<times> goerr) \<times> 's) option" where
  "decodeAll decode s [] = Some (([], ErrSentinel IoEOF), s)"
| "decodeAll decode s (p # ps) =
     (case decode s p of
        None \<Rightarrow> None
      | Some ((ds, fin, err), s1) \<Rightarrow>
          (case err of
             Some e \<Rightarrow> Some (([], e), s1)
           | None \<Rightarrow>
               if fin then Some ((ds, ErrSentinel IoEOF), s1)
               else map_option (\<lambda>((ds', e), s2). ((ds @ ds', e), s2)) (decodeAll decode s1 ps)))"

definition cleanRead :: "string \<Rightarrow> sseRead" where
  "cleanRead t = \<lparr>rd_before = None, rd_Data = t, rd_err = None, rd_after = None\<rparr>"

lemma cleanRead_simps [simp]:
  "rd_before (cleanRead t) = None" "rd_Data (cleanRead t) = t" "rd_err (cleanRead t) = None" "rd_after (cleanRead t) = None"
  by (simp_all add: cleanRead_def)

lemma sseDrain_queue: "sseDrain decode s acc = sseDrain decode (s\<lparr>ss_queue := []\<rparr>) (acc @ ss_queue s)"
proof (induction "ss_queue s" arbitrary: s acc)
  case Nil
  then have "s\<lparr>ss_queue := []\<rparr> = s" by (metis sseStream.surjective sseStream.update_convs(1))
  then show ?case using Nil by (metis append_Nil2)
next
  case (Cons d ds)
  have "sseRecv decode s = Some (Inr d, s\<lparr>ss_queue := ds\<rparr>)" using Cons(2) by (subst sseRecv.simps) (simp flip: Cons(2))
  then have "sseDrain decode s acc = sseDrain decode (s\<lparr>ss_queue := ds\<rparr>) (acc @ [d])" by (subst sseDrain.simps) simp
  also have "\<dots> = sseDrain decode (s\<lparr>ss_queue := []\<rparr>) (acc @ [d] @ ds)" using Cons(1) [of "s\<lparr>ss_queue := ds\<rparr>"] by simp
  finally show ?case by (simp flip: Cons(2))
qed

lemma sseDrain_done: "ss_done s \<Longrightarrow> ss_queue s = [] \<Longrightarrow> sseDrain decode s acc = Some ((acc, ErrSentinel IoEOF), s)"
  by (subst sseDrain.simps, subst sseRecv.simps) simp

text \<open>
  A stream whose reads succeed delivers what its payloads decode to; reads without data between them do
  not matter.
\<close>

lemma sseDrain_decodes:
  assumes "ss_queue s = []" "\<not> ss_done s" "ss_reads s = map cleanRead texts"
  shows "map_option (\<lambda>(r, s1). (r, ss_dec s1)) (sseDrain decode s acc) =
     map_option (\<lambda>((ds, e), st). ((acc @ ds, e), st)) (decodeAll decode (ss_dec s) (filter (\<lambda>t. t \<noteq> []) (map trimSpace texts)))"
  using assms
proof (induction texts arbitrary: s acc)
  case Nil
  then show ?case by (subst sseDrain.simps, subst sseRecv.simps) simp
next
  case (Cons t texts)
  let ?s1 = "s\<lparr>ss_reads := map cleanRead texts\<rparr>"
  show ?case
  proof (cases "trimSpace t = []")
    case True
    have "sseRecv decode s = sseRecv decode ?s1" using Cons.prems True by (subst sseRecv.simps) simp
    then have "sseDrain decode s acc = sseDrain decode ?s1 acc" by (subst (1 2) sseDrain.simps) simp
    then show ?thesis using Cons True by simp
  next
    case False
    show ?thesis
    proof (cases "decode (ss_dec s) (trimSpace t)")
      case None
      then show ?thesis using Cons.prems False
        by (subst sseDrain.simps, subst sseRecv.simps) simp
    next
      case (Some r)
      obtain ds fin err st where r: "r = ((ds, fin, err), st)" by (metis prod.collapse)
      show ?thesis
      proof (cases err)
        case err: (Some e)
        then show ?thesis using Cons.prems False Some r
          by (subst sseDrain.simps, subst sseRecv.simps) simp
      next
        case None
        let ?s2 = "s\<lparr>ss_reads := map cleanRead texts, ss_dec := st, ss_done := fin, ss_queue := ds\<rparr>"
        have "sseRecv decode s = sseRecv decode ?s2"
          using Cons.prems False Some r None by (subst sseRecv.simps) simp
        then have "sseDrain decode s acc = sseDrain decode ?s2 acc" by (subst (1 2) sseDrain.simps) simp
        also have "\<dots> = sseDrain decode (?s2\<lparr>ss_queue := []\<rparr>) (acc @ ds)" by (subst sseDrain_queue) simp
        finally have eq: "sseDrain decode s acc = sseDrain decode (?s2\<lparr>ss_queue := []\<rparr>) (acc @ ds)" .
        show ?thesis
        proof (cases fin)
          case True
          then show ?thesis using eq False Some r None by (simp add: sseDrain_done)
        next
          case nf: False
          show ?thesis
            using Cons.IH [of "?s2\<lparr>ss_queue := []\<rparr>" "acc @ ds"] eq False Some r None nf
            by (simp add: option.map_comp comp_def split_beta)
        qed
      qed
    qed
  qed
qed

subsection \<open>The events of a response\<close>

text \<open>Events the provider reads; a stream holds others as well.\<close>

definition readEvent :: "rsEvent \<Rightarrow> bool" where
  "readEvent ev \<longleftrightarrow> ev_Type ev \<in> {''response.output_text.delta'', ''response.reasoning_summary_text.delta'',
       ''response.reasoning_text.delta'', ''response.function_call_arguments.delta'', ''response.completed'',
       ''response.incomplete'', ''response.failed'', ''error''} \<or>
     ev_Type ev = ''response.output_item.added'' \<and> (case ev_Item ev of Some it \<Rightarrow> oi_Type it = ''function_call'' | None \<Rightarrow> False)"

text \<open>
  The events a server emits for one output item: its text in chunks, its summary in chunks, or the start of
  a call with the first part of its arguments followed by the rest in chunks.
\<close>

inductive itemEmits :: "int \<Rightarrow> rsOutputItem \<Rightarrow> rsEvent list \<Rightarrow> bool" where
  emit_message: "oi_Type it = ''message'' \<Longrightarrow> \<forall>ev\<in>set evs. ev_Type ev = ''response.output_text.delta'' \<Longrightarrow>
     concat (map ev_Delta evs) = itemText it \<Longrightarrow> itemEmits i it evs"
| emit_reasoning: "oi_Type it = ''reasoning'' \<Longrightarrow> \<forall>ev\<in>set evs. ev_Type ev = ''response.reasoning_summary_text.delta'' \<Longrightarrow>
     concat (map ev_Delta evs) = itemReasoning it \<Longrightarrow> itemEmits i it evs"
| emit_call: "oi_Type it = ''function_call'' \<Longrightarrow> ev_Type ev = ''response.output_item.added'' \<Longrightarrow> ev_OutputIndex ev = i \<Longrightarrow>
     ev_Item ev = Some it0 \<Longrightarrow> oi_Type it0 = ''function_call'' \<Longrightarrow> oi_CallID it0 = oi_CallID it \<Longrightarrow> oi_Name it0 = oi_Name it \<Longrightarrow>
     \<forall>ev\<in>set evs. ev_Type ev = ''response.function_call_arguments.delta'' \<and> ev_OutputIndex ev = i \<Longrightarrow>
     oi_Arguments it0 @ concat (map ev_Delta evs) = oi_Arguments it \<Longrightarrow> itemEmits i it (ev # evs)"
| emit_other: "oi_Type it \<notin> {''message'', ''reasoning'', ''function_call''} \<Longrightarrow> itemEmits i it []"

inductive emits :: "nat \<Rightarrow> rsOutputItem list \<Rightarrow> rsEvent list \<Rightarrow> bool" where
  emits_Nil: "emits i [] []"
| emits_Cons: "itemEmits (int i) it a \<Longrightarrow> emits (Suc i) its b \<Longrightarrow> emits i (it # its) (a @ b)"

subsection \<open>Decoding a list of events\<close>

fun foldEvents :: "(string \<Rightarrow> string) \<Rightarrow> (string \<Rightarrow> rawjson) \<Rightarrow> responsesStream \<Rightarrow> rsEvent list \<Rightarrow> (delta list \<times> responsesStream) option" where
  "foldEvents sha argsOf s [] = Some ([], s)"
| "foldEvents sha argsOf s (ev # evs) =
     (case rsDecodeEvent sha argsOf s ev of
        Some ((ds, False, None), s1) \<Rightarrow> map_option (\<lambda>(ds', s2). (ds @ ds', s2)) (foldEvents sha argsOf s1 evs)
      | _ \<Rightarrow> None)"

lemma foldEvents_append:
  "foldEvents sha argsOf s (a @ b) =
     (case foldEvents sha argsOf s a of
        None \<Rightarrow> None
      | Some (ds, s1) \<Rightarrow> map_option (\<lambda>(ds', s2). (ds @ ds', s2)) (foldEvents sha argsOf s1 b))"
  by (induction a arbitrary: s)
    (auto simp: option.map_comp comp_def case_prod_unfold option.map_ident split: option.split bool.split prod.split)

lemma addAll_Nil [simp]: "addAll [] s = s"
  by (simp add: addAll_def)

lemma unread_event: "\<not> readEvent ev \<Longrightarrow> rsDecodeEvent sha argsOf s ev = Some (([], False, None), s)"
  by (auto simp: readEvent_def rsDecodeEvent_def Let_def split: option.split)

lemma foldEvents_read: "foldEvents sha argsOf s (filter readEvent evs) = foldEvents sha argsOf s evs"
  by (induction evs arbitrary: s) (auto simp: unread_event option.map_id case_prod_unfold option.map_ident split: option.split bool.split prod.split)

lemma rsDecodeEvent_acc:
  assumes "rsDecodeEvent sha argsOf s ev = Some ((ds, False, None), s1)"
  shows "rx_acc s1 = foldl accAdd (rx_acc s) ds"
proof -
  have nofin: "finishStream sha argsOf s r \<noteq> Some ((ds, False, None), s1)" for r
    by (simp add: finishStream_def Let_def split: option.split)
  show ?thesis
    using assms nofin unfolding rsDecodeEvent_def Let_def
    by (simp split: if_split_asm option.split_asm prod.split_asm) (auto simp: addAll_def)
qed

lemma foldEvents_acc:
  "foldEvents sha argsOf s evs = Some (ds, s1) \<Longrightarrow> rx_acc s1 = foldl accAdd (rx_acc s) ds"
proof (induction evs arbitrary: s ds)
  case (Cons ev evs)
  obtain d s0 where d: "rsDecodeEvent sha argsOf s ev = Some ((d, False, None), s0)"
    and r: "\<exists>ds'. foldEvents sha argsOf s0 evs = Some (ds', s1) \<and> ds = d @ ds'"
    using Cons.prems by (auto split: option.splits bool.splits prod.splits)
  have "rx_acc s0 = foldl accAdd (rx_acc s) d"
    using d by (rule rsDecodeEvent_acc)
  then show ?case using r Cons.IH by auto
qed simp

text \<open>Events that only carry text, whatever else is going on.\<close>

lemma foldEvents_text:
  assumes "\<forall>ev\<in>set evs. ev_Type ev = ''response.output_text.delta''"
  shows "foldEvents sha argsOf s evs =
     Some (map (\<lambda>ev. textDelta DeltaText (ev_Delta ev)) evs, addAll (map (\<lambda>ev. textDelta DeltaText (ev_Delta ev)) evs) s)"
  using assms by (induction evs arbitrary: s) (auto simp: rsDecodeEvent_def Let_def addAll_def)

lemma foldEvents_reasoning:
  assumes "\<forall>ev\<in>set evs. ev_Type ev = ''response.reasoning_summary_text.delta''"
  shows "foldEvents sha argsOf s evs =
     Some (map (\<lambda>ev. textDelta DeltaReasoning (ev_Delta ev)) evs, addAll (map (\<lambda>ev. textDelta DeltaReasoning (ev_Delta ev)) evs) s)"
  using assms by (induction evs arbitrary: s) (auto simp: rsDecodeEvent_def Let_def addAll_def)

lemma accAdd_texts: "foldl accAdd a (map (\<lambda>ev. textDelta DeltaText (ev_Delta ev)) evs) = a\<lparr>a_text := a_text a @ concat (map ev_Delta evs)\<rparr>"
  by (induction evs arbitrary: a) (auto simp: accAdd_def textDelta_def)

lemma accAdd_reasonings:
  "foldl accAdd a (map (\<lambda>ev. textDelta DeltaReasoning (ev_Delta ev)) evs) = a\<lparr>a_reason := a_reason a @ concat (map ev_Delta evs)\<rparr>"
  by (induction evs arbitrary: a) (auto simp: accAdd_def textDelta_def)

lemma foldEvents_args:
  assumes "\<forall>ev\<in>set evs. ev_Type ev = ''response.function_call_arguments.delta'' \<and> ev_OutputIndex ev = i"
    and "rx_calls s i = Some n" "a_argBufs (rx_acc s) (int n) = Some buf"
  shows "\<exists>ds. foldEvents sha argsOf s evs = Some (ds, s\<lparr>rx_acc := (rx_acc s)\<lparr>a_argBufs := (a_argBufs (rx_acc s))(int n \<mapsto> buf @ concat (map ev_Delta evs))\<rparr>\<rparr>)"
  using assms
proof (induction evs arbitrary: s buf)
  case Nil
  then have "(a_argBufs (rx_acc s))(int n \<mapsto> buf) = a_argBufs (rx_acc s)" by auto
  then show ?case by simp
next
  case (Cons ev evs)
  show ?case
  proof (cases "ev_Delta ev = []")
    case True
    have "rsDecodeEvent sha argsOf s ev = Some (([], False, None), s)"
      using Cons.prems True by (simp add: rsDecodeEvent_def Let_def)
    moreover have "\<exists>ds. foldEvents sha argsOf s evs =
        Some (ds, s\<lparr>rx_acc := (rx_acc s)\<lparr>a_argBufs := (a_argBufs (rx_acc s))(int n \<mapsto> buf @ concat (map ev_Delta evs))\<rparr>\<rparr>)"
      by (rule Cons.IH) (use Cons.prems in simp_all)
    ultimately show ?thesis using True by (auto simp del: fun_upd_apply)
  next
    case False
    let ?s1 = "s\<lparr>rx_acc := (rx_acc s)\<lparr>a_argBufs := (a_argBufs (rx_acc s))(int n \<mapsto> buf @ ev_Delta ev)\<rparr>\<rparr>"
    have "rsDecodeEvent sha argsOf s ev = Some (([callDelta DeltaToolCallArgs n [] [] (ev_Delta ev)], False, None), ?s1)"
      using Cons.prems False by (simp add: rsDecodeEvent_def Let_def addAll_def accAdd_def callDelta_def)
    moreover have "\<exists>ds. foldEvents sha argsOf ?s1 evs =
        Some (ds, ?s1\<lparr>rx_acc := (rx_acc ?s1)\<lparr>a_argBufs := (a_argBufs (rx_acc ?s1))(int n \<mapsto> (buf @ ev_Delta ev) @ concat (map ev_Delta evs))\<rparr>\<rparr>)"
      by (rule Cons.IH) (use Cons.prems in simp_all)
    ultimately show ?thesis by (auto simp del: fun_upd_apply)
  qed
qed

subsection \<open>What the stream's state holds after some items\<close>

definition callItems :: "rsOutputItem list \<Rightarrow> rsOutputItem list" where
  "callItems its = filter (\<lambda>it. oi_Type it = ''function_call'') its"

definition rawCall :: "toolNames \<Rightarrow> rsOutputItem \<Rightarrow> toolCall" where
  "rawCall names it = \<lparr>tc_ID = oi_CallID it, tc_Name = realName names (oi_Name it), tc_Args = []\<rparr>"

definition callsHeld :: "toolNames \<Rightarrow> rsOutputItem list \<Rightarrow> deltaAccumulator \<Rightarrow> bool" where
  "callsHeld names cs a \<longleftrightarrow> a_order a = map int [0..<length cs] \<and>
     (\<forall>j<length cs. a_calls a (int j) = Some (rawCall names (cs ! j)) \<and> a_argBufs a (int j) = Some (oi_Arguments (cs ! j)))"

definition streamHolds :: "nat \<Rightarrow> rsOutputItem list \<Rightarrow> responsesStream \<Rightarrow> bool" where
  "streamHolds i its s \<longleftrightarrow>
     a_text (rx_acc s) = concat (map itemText its) \<and> a_reason (rx_acc s) = concat (map itemReasoning its) \<and>
     a_finish (rx_acc s) = [] \<and> a_usage (rx_acc s) = None \<and> callsHeld (rx_names s) (callItems its) (rx_acc s) \<and>
     dom (rx_calls s) \<subseteq> {0..<int i} \<and> card (dom (rx_calls s)) = length (callItems its)"

lemma streamHolds_later: "streamHolds i its s \<Longrightarrow> i \<le> j \<Longrightarrow> streamHolds j its s"
  by (force simp: streamHolds_def)

lemma callsHeld_start:
  assumes "callsHeld names cs a"
  shows "callsHeld names (cs @ [it])
     (a\<lparr>a_calls := (a_calls a)(int (length cs) \<mapsto> rawCall names it), a_argBufs := (a_argBufs a)(int (length cs) \<mapsto> oi_Arguments it),
        a_order := a_order a @ [int (length cs)]\<rparr>)"
  using assms by (auto simp: callsHeld_def nth_append less_Suc_eq)

lemma streamHolds_call:
  assumes h: "streamHolds i its s" and it: "oi_Type it = ''function_call''" and e: "itemEmits (int i) it evs"
  shows "\<exists>ds s1. foldEvents sha argsOf s evs = Some (ds, s1) \<and> streamHolds (Suc i) (its @ [it]) s1 \<and>
     rx_p s1 = rx_p s \<and> rx_history s1 = rx_history s \<and> rx_names s1 = rx_names s"
proof -
  let ?n = "length (callItems its)"
  let ?a = "rx_acc s"
  from e it obtain ev rest it0 where evs: "evs = ev # rest" and ev: "ev_Type ev = ''response.output_item.added''"
      "ev_OutputIndex ev = int i" "ev_Item ev = Some it0" "oi_Type it0 = ''function_call''" "oi_CallID it0 = oi_CallID it" "oi_Name it0 = oi_Name it"
    and rest: "\<forall>ev\<in>set rest. ev_Type ev = ''response.function_call_arguments.delta'' \<and> ev_OutputIndex ev = int i"
    and args: "oi_Arguments it0 @ concat (map ev_Delta rest) = oi_Arguments it"
    by (auto elim!: itemEmits.cases)
  have n: "card (dom (rx_calls s)) = ?n" using h by (simp add: streamHolds_def)
  let ?s1 = "s\<lparr>rx_calls := (rx_calls s)(int i \<mapsto> ?n),
      rx_acc := ?a\<lparr>a_calls := (a_calls ?a)(int ?n \<mapsto> rawCall (rx_names s) it),
                   a_argBufs := (a_argBufs ?a)(int ?n \<mapsto> oi_Arguments it0), a_order := a_order ?a @ [int ?n]\<rparr>\<rparr>"
  have d: "rsDecodeEvent sha argsOf s ev =
      Some (([callDelta DeltaToolCallStart ?n (oi_CallID it0) (realName (rx_names s) (oi_Name it0)) (oi_Arguments it0)], False, None), ?s1)"
    by (simp add: rsDecodeEvent_def Let_def ev n addAll_def accAdd_def callDelta_def rawCall_def)
  let ?s2 = "?s1\<lparr>rx_acc := (rx_acc ?s1)\<lparr>a_argBufs := (a_argBufs (rx_acc ?s1))(int ?n \<mapsto> oi_Arguments it0 @ concat (map ev_Delta rest))\<rparr>\<rparr>"
  have "\<exists>ds. foldEvents sha argsOf ?s1 rest = Some (ds, ?s2)"
    by (rule foldEvents_args [OF rest]) simp_all
  then obtain ds where "foldEvents sha argsOf s evs = Some (ds, ?s2)" using d evs by (auto simp del: fun_upd_apply)
  moreover have "streamHolds (Suc i) (its @ [it]) ?s2"
  proof -
    have dom: "dom (rx_calls s) \<subseteq> {0..<int i}" using h by (simp add: streamHolds_def)
    then have "finite (dom (rx_calls s))" "int i \<notin> dom (rx_calls s)" by (auto intro: finite_subset)
    then have "card (insert (int i) (dom (rx_calls s))) = Suc ?n" using n by simp
    moreover have "callsHeld (rx_names s) (callItems its) ?a" using h by (simp add: streamHolds_def)
    from callsHeld_start [OF this, of it] have "callsHeld (rx_names s) (callItems its @ [it]) (rx_acc ?s2)"
      by (simp add: callsHeld_def args)
    ultimately show ?thesis
      using h dom it by (auto simp: streamHolds_def callItems_def itemText_def itemReasoning_def args)
  qed
  ultimately show ?thesis by (intro exI [of _ ds] exI [of _ ?s2]) simp
qed

lemma streamHolds_item:
  assumes h: "streamHolds i its s" and e: "itemEmits (int i) it evs"
  shows "\<exists>ds s1. foldEvents sha argsOf s evs = Some (ds, s1) \<and> streamHolds (Suc i) (its @ [it]) s1 \<and>
     rx_p s1 = rx_p s \<and> rx_history s1 = rx_history s \<and> rx_names s1 = rx_names s"
  using e
proof cases
  case emit_message
  then show ?thesis using streamHolds_later [OF h, of "Suc i"] foldEvents_text [OF emit_message(2), of sha argsOf s]
    by (simp add: addAll_def accAdd_texts streamHolds_def callItems_def itemReasoning_def callsHeld_def)
next
  case emit_reasoning
  then show ?thesis using streamHolds_later [OF h, of "Suc i"] foldEvents_reasoning [OF emit_reasoning(2), of sha argsOf s]
    by (simp add: addAll_def accAdd_reasonings streamHolds_def callItems_def itemText_def callsHeld_def)
next
  case emit_call
  from emit_call(2) show ?thesis by (rule streamHolds_call [OF h _ e])
next
  case emit_other
  then show ?thesis using streamHolds_later [OF h, of "Suc i"]
    by (auto simp: streamHolds_def callItems_def itemText_def itemReasoning_def)
qed

lemma streamHolds_items:
  assumes "emits i its evs" "streamHolds i done s"
  shows "\<exists>ds s1. foldEvents sha argsOf s evs = Some (ds, s1) \<and> streamHolds (i + length its) (done @ its) s1 \<and>
     rx_p s1 = rx_p s \<and> rx_history s1 = rx_history s \<and> rx_names s1 = rx_names s"
  using assms
proof (induction arbitrary: "done" s rule: emits.induct)
  case (emits_Nil i)
  then show ?case by simp
next
  case (emits_Cons i it a its b)
  obtain d1 s1 where s1: "foldEvents sha argsOf s a = Some (d1, s1)" "streamHolds (Suc i) (done @ [it]) s1"
      "rx_p s1 = rx_p s" "rx_history s1 = rx_history s" "rx_names s1 = rx_names s"
    using streamHolds_item [OF emits_Cons.prems emits_Cons.hyps(1)] by blast
  obtain d2 s2 where "foldEvents sha argsOf s1 b = Some (d2, s2)" "streamHolds (Suc i + length its) ((done @ [it]) @ its) s2"
      "rx_p s2 = rx_p s1" "rx_history s2 = rx_history s1" "rx_names s2 = rx_names s1"
    using emits_Cons.IH [OF s1(2)] by blast
  with s1 show ?case by (simp add: foldEvents_append)
qed

subsection \<open>The end of the stream\<close>

definition madeCall :: "(string \<Rightarrow> rawjson) \<Rightarrow> toolNames \<Rightarrow> rsOutputItem \<Rightarrow> toolCall" where
  "madeCall argsOf names it =
     (rawCall names it)\<lparr>tc_Args := argsOf (if oi_Arguments it = [] then ''{}'' else oi_Arguments it)\<rparr>"

lemma accCalls_held:
  assumes "\<And>j. j \<in> set js \<Longrightarrow> a_calls a (int j) = Some (rawCall names (cs ! j)) \<and> a_argBufs a (int j) = Some (oi_Arguments (cs ! j))"
  shows "accCalls argsOf a (map int js) = Some (map (\<lambda>j. madeCall argsOf names (cs ! j)) js)"
  using assms by (induction js) (simp_all add: madeCall_def)

lemma map_nth_upt: "map (\<lambda>j. f (xs ! j)) [0..<length xs] = map f xs"
  by (intro nth_equalityI) auto

lemma calls_concat: "concat (map (itemCalls argsOf names) its) = map (madeCall argsOf names) (callItems its)"
  by (induction its) (simp_all add: itemCalls_def callItems_def madeCall_def rawCall_def)

lemma finishDeltas_acc:
  "foldl accAdd a (finishDeltas s r) =
     a\<lparr>a_usage := (case rr_Usage r of None \<Rightarrow> a_usage a | Some u \<Rightarrow> Some (toUsage u)),
       a_finish := finishReason r (dom (rx_calls s) \<noteq> {})\<rparr>"
  by (simp add: finishDeltas_def accAdd_def textDelta_def split: option.split)

lemma streamHolds_result:
  assumes h: "streamHolds i (rr_Output r) s"
  shows "accResult argsOf (foldl accAdd (rx_acc s) (finishDeltas s r)) = Some (toProviderResponse argsOf (rx_names s) r)"
proof -
  let ?cs = "callItems (rr_Output r)"
  have held: "callsHeld (rx_names s) ?cs (rx_acc s)" and d: "dom (rx_calls s) \<subseteq> {0..<int i}" "card (dom (rx_calls s)) = length ?cs"
    using h by (auto simp: streamHolds_def)
  have "dom (rx_calls s) \<noteq> {} \<longleftrightarrow> ?cs \<noteq> []"
    using d finite_subset [OF d(1)] by (metis card_0_eq finite_atLeastLessThan_int length_0_conv)
  moreover have "accCalls argsOf (foldl accAdd (rx_acc s) (finishDeltas s r)) (map int [0..<length ?cs]) =
      Some (map (madeCall argsOf (rx_names s)) ?cs)"
    using held by (subst accCalls_held) (auto simp: callsHeld_def finishDeltas_acc map_nth_upt)
  ultimately show ?thesis
    using h held by (simp add: accResult_def finishDeltas_acc toProviderResponse_def Let_def calls_concat streamHolds_def callsHeld_def
        split: option.split)
qed

lemma decodeAll_fold:
  assumes "map decodeEvent ps = map Inr (es @ fin # rest)" "foldEvents sha argsOf s es = Some (ds, s1)"
    and "rsDecodeEvent sha argsOf s1 fin = Some ((ds', True, None), s2)"
  shows "decodeAll (rsDecode sha argsOf decodeEvent) s ps = Some ((ds @ ds', ErrSentinel IoEOF), s2)"
  using assms
proof (induction es arbitrary: s ds ps)
  case Nil
  then obtain p ps' where "ps = p # ps'" "decodeEvent p = Inr fin" by (cases ps) auto
  with Nil show ?case by (simp add: rsDecode_def)
next
  case (Cons ev es)
  obtain p ps' where ps: "ps = p # ps'" "decodeEvent p = Inr ev" "map decodeEvent ps' = map Inr (es @ fin # rest)"
    using Cons.prems(1) by (cases ps) auto
  obtain d s0 ds0 where d: "rsDecodeEvent sha argsOf s ev = Some ((d, False, None), s0)"
      "foldEvents sha argsOf s0 es = Some (ds0, s1)" "ds = d @ ds0"
    using Cons.prems(2) by (auto split: option.splits bool.splits prod.splits)
  from Cons.IH [OF ps(3) d(2) Cons.prems(3)] d(1,3) ps(1,2) show ?case by (simp add: rsDecode_def)
qed

lemma rememberReply_returns:
  assumes "cacheOk (rv_cursors p)"
  shows "\<exists>p'. rememberReply sha p msgs rid out = Some p'"
proof -
  obtain c where "cachePut (rv_cursors p) (cursorKey sha (msgs @ [replyMessage out])) rid = Some c"
    using cursors.store_law [OF assms] by blast
  then show ?thesis by (simp add: rememberReply_def replyMessage_def)
qed


subsection \<open>A streamed call\<close>

definition exItem :: "string \<Rightarrow> string \<Rightarrow> string \<Rightarrow> rsOutputItem" where
  "exItem t n a = \<lparr>oi_Type = t, oi_CallID = ''c1'', oi_Name = n, oi_Arguments = a, oi_Content = [\<lparr>rc_Type = ''output_text'', rc_Text = a\<rparr>],
                  oi_Summary = []\<rparr>"

definition exResponse :: rsResponse where
  "exResponse = \<lparr>rr_ID = ''r1'', rr_Status = ''completed'', rr_Output = [exItem ''message'' [] ''Hi'', exItem ''function_call'' ''ls'' ''{1}''],
     rr_Usage = None, rr_Incomplete = None, rr_Error = None\<rparr>"

definition exEvent :: "string \<Rightarrow> string \<Rightarrow> rsEvent" where
  "exEvent t d = \<lparr>ev_Type = t, ev_OutputIndex = 1, ev_Delta = d, ev_Item = Some (exItem ''function_call'' ''ls'' ''{''),
     ev_Response = Some exResponse, ev_Code = [], ev_Message = [], ev_Error = None\<rparr>"

definition exEvents :: "rsEvent list" where
  "exEvents = [exEvent ''response.created'' [], exEvent ''response.output_text.delta'' ''H'', exEvent ''response.output_text.delta'' ''i'',
     exEvent ''response.output_item.added'' [], exEvent ''response.function_call_arguments.delta'' ''1'',
     exEvent ''response.function_call_arguments.delta'' ''}'']"

text \<open>Payloads are the positions of the events.\<close>

definition exDecode :: "string \<Rightarrow> goerr + rsEvent" where
  "exDecode p = (if p = ''0'' then Inr (exEvents ! 0) else if p = ''1'' then Inr (exEvents ! 1) else if p = ''2'' then Inr (exEvents ! 2)
     else if p = ''3'' then Inr (exEvents ! 3) else if p = ''4'' then Inr (exEvents ! 4) else if p = ''5'' then Inr (exEvents ! 5)
     else Inr (exEvent ''response.completed'' []))"

definition exTexts :: "string list" where
  "exTexts = [''0'', ''1'', '' '', ''2'', ''3'', ''4'', ''5'', ''6'']"

definition exRequest :: providerRequest where
  "exRequest = \<lparr>rq_Instructions = [], rq_Messages = exFirst, rq_Tools = [], rq_Temperature = None, rq_MaxTokens = 0,
      rq_ToolChoice = zeroToolChoice, rq_Seed = None, rq_Penalties = None, rq_Guided = None, rq_ResponseSchema = []\<rparr>"

definition exPost :: "rsBody \<Rightarrow> nat \<Rightarrow> (sendError + httpResponse) \<times> nat" where
  "exPost b w = (Inr \<lparr>http_StatusCode = 200, http_Header = [], http_Body = []\<rparr>, Suc w)"

lemma exEmits: "emits 0 (rr_Output exResponse) (filter readEvent exEvents)"
proof -
  have item: "ev_Item (exEvents ! 3) = Some (exItem ''function_call'' ''ls'' ''{'')" by (simp add: exEvents_def exEvent_def)
  have a: "itemEmits (int 0) (exItem ''message'' [] ''Hi'') [exEvents ! 1, exEvents ! 2]"
    by (rule emit_message) (simp_all add: exItem_def exEvents_def exEvent_def itemText_def)
  have b: "itemEmits (int (Suc 0)) (exItem ''function_call'' ''ls'' ''{1}'') (exEvents ! 3 # [exEvents ! 4, exEvents ! 5])"
    by (rule emit_call [OF _ _ _ item]) (simp_all add: exItem_def exEvents_def exEvent_def)
  have "emits 0 (rr_Output exResponse) ([exEvents ! 1, exEvents ! 2] @ (exEvents ! 3 # [exEvents ! 4, exEvents ! 5]) @ [])"
    unfolding exResponse_def rsResponse.select_convs by (rule emits_Cons [OF a emits_Cons [OF b emits_Nil]])
  moreover have "filter readEvent exEvents = [exEvents ! 1, exEvents ! 2] @ (exEvents ! 3 # [exEvents ! 4, exEvents ! 5]) @ []"
    by code_simp
  ultimately show ?thesis by simp
qed


end
