(* ===== verification/Consensus.thy ===== *)
theory Consensus
  imports Runner "HOL-Library.Multiset"
begin

text \<open>
  Voting over several runs of one turn, \<^verbatim>\<open>src/consensus.go\<close>. The workers are goroutines: a schedule is
  the list of the workers' steps, each with what the worker meets in it (the context's error, the outcome
  of the turn it ran). Taking a draw, looking at the context and recording an outcome are separate steps.
  \<open>order\<close> is the order in which Go iterates over the map of counts.
\<close>

subsection \<open>Data\<close>

record drawResult =
  dw_Seed :: "nat option"
  dw_Result :: "turnResult option"
  dw_Key :: string
  dw_OK :: bool
  dw_Err :: string
  dw_Prior :: bool

definition zeroDraw :: drawResult where
  "zeroDraw = \<lparr>dw_Seed = None, dw_Result = None, dw_Key = [], dw_OK = False, dw_Err = [], dw_Prior = False\<rparr>"

record consensus =
  cs_hasRunner :: bool
  cs_Draws :: int
  cs_Prior :: "turnResult option list"
  cs_Parallel :: int
  cs_Key :: "(turnResult \<Rightarrow> string \<times> bool) option"
  cs_seeded :: bool

record consensusResult =
  cr_Winner :: "turnResult option"
  cr_WinnerKey :: string
  cr_Agree :: nat
  cr_Counted :: nat
  cr_Draws :: "drawResult list"
  cr_Split :: bool
  cr_Seeded :: bool
  cr_Stopped :: "goerr option"

subsection \<open>One draw\<close>

text \<open>The request of a draw; \<open>fresh\<close> is the address of the seed variable.\<close>

definition drawRequest :: "nat \<Rightarrow> bool \<Rightarrow> nat \<Rightarrow> turnRequest \<Rightarrow> turnRequest" where
  "drawRequest fresh seeded i req =
     (if seeded then req\<lparr>tq_Generation := (tq_Generation req)\<lparr>gp_Seed := Some (Ptr fresh (int i))\<rparr>\<rparr> else req)"

definition keyed :: "(turnResult \<Rightarrow> string \<times> bool) \<Rightarrow> turnResult \<Rightarrow> drawResult \<Rightarrow> drawResult" where
  "keyed key res d =
     (case key res of (k, acc) \<Rightarrow> d\<lparr>dw_Result := Some res, dw_Key := (if acc then k else []), dw_OK := acc\<rparr>)"

text \<open>\<^verbatim>\<open>draw\<close> after its turn ended with \<open>out\<close>; the second component is \<^verbatim>\<open>stop\<close>.\<close>

definition drawOutcome ::
  "(turnResult \<Rightarrow> string \<times> bool) \<Rightarrow> bool \<Rightarrow> nat \<Rightarrow> goerr + turnResult \<Rightarrow> goerr option \<Rightarrow> drawResult \<times> goerr option" where
  "drawOutcome key seeded i out ctxErr =
     (let d = (if seeded then zeroDraw\<lparr>dw_Seed := Some i\<rparr> else zeroDraw)
      in case out of
           Inl e \<Rightarrow> (d\<lparr>dw_Err := errText e\<rparr>, if errors_is e ErrTreeBudget \<or> ctxErr \<noteq> None then Some e else None)
         | Inr res \<Rightarrow> (keyed key res d, None))"

subsection \<open>The workers\<close>

datatype worker = Looping | Claimed nat | Drawing nat | Exited

record vote =
  vt_next :: nat
  vt_stopped :: "goerr option"
  vt_draws :: "drawResult list"
  vt_workers :: "worker list"
  vt_started :: "nat list"

text \<open>\<open>vt_started\<close> lists the draws whose turn was started; the code does not keep it.\<close>

record move =
  mv_worker :: nat
  mv_ctx :: "goerr option"
  mv_out :: "goerr + turnResult"

definition stopWith :: "goerr option \<Rightarrow> vote \<Rightarrow> vote" where
  "stopWith e v = (if vt_stopped v = None then v\<lparr>vt_stopped := e\<rparr> else v)"

definition setWorker :: "nat \<Rightarrow> worker \<Rightarrow> vote \<Rightarrow> vote" where
  "setWorker j s v = v\<lparr>vt_workers := (vt_workers v)[j := s]\<rparr>"

definition voteMove :: "(turnResult \<Rightarrow> string \<times> bool) \<Rightarrow> bool \<Rightarrow> nat \<Rightarrow> nat \<Rightarrow> move \<Rightarrow> vote \<Rightarrow> vote" where
  "voteMove key seeded k n m v =
     (if mv_worker m \<ge> length (vt_workers v) then v
      else case vt_workers v ! mv_worker m of
             Looping \<Rightarrow>
               if vt_stopped v \<noteq> None \<or> vt_next v \<ge> n then setWorker (mv_worker m) Exited v
               else setWorker (mv_worker m) (Claimed (vt_next v)) (v\<lparr>vt_next := vt_next v + 1\<rparr>)
           | Claimed i \<Rightarrow>
               (case mv_ctx m of
                  Some e \<Rightarrow>
                    setWorker (mv_worker m) Looping
                      (stopWith (Some e) (v\<lparr>vt_draws := (vt_draws v)[k + i := (vt_draws v ! (k + i))\<lparr>dw_Err := errText e\<rparr>]\<rparr>))
                | None \<Rightarrow> setWorker (mv_worker m) (Drawing i) (v\<lparr>vt_started := vt_started v @ [i]\<rparr>))
           | Drawing i \<Rightarrow>
               (case drawOutcome key seeded i (mv_out m) (mv_ctx m) of
                  (d, stop) \<Rightarrow> setWorker (mv_worker m) Looping (stopWith stop (v\<lparr>vt_draws := (vt_draws v)[k + i := d]\<rparr>)))
           | Exited \<Rightarrow> v)"

fun voteRun :: "(turnResult \<Rightarrow> string \<times> bool) \<Rightarrow> bool \<Rightarrow> nat \<Rightarrow> nat \<Rightarrow> move list \<Rightarrow> vote \<Rightarrow> vote" where
  "voteRun key seeded k n [] v = v"
| "voteRun key seeded k n (m # ms) v = voteRun key seeded k n ms (voteMove key seeded k n m v)"

subsection \<open>The count\<close>

record tallyState =
  ty_counts :: "string \<rightharpoonup> nat"
  ty_first :: "string \<rightharpoonup> nat"
  ty_counted :: nat

fun tallyLoop :: "nat \<Rightarrow> drawResult list \<Rightarrow> tallyState \<Rightarrow> tallyState" where
  "tallyLoop i [] t = t"
| "tallyLoop i (d # ds) t =
     (let t1 = (if dw_Result d \<noteq> None then t\<lparr>ty_counted := ty_counted t + 1\<rparr> else t)
      in tallyLoop (Suc i) ds
           (if \<not> dw_OK d then t1
            else t1\<lparr>ty_first := (if ty_first t1 (dw_Key d) = None then (ty_first t1)(dw_Key d \<mapsto> i) else ty_first t1),
                    ty_counts := (ty_counts t1)(dw_Key d \<mapsto> (case ty_counts t1 (dw_Key d) of None \<Rightarrow> 0 | Some n \<Rightarrow> n) + 1)\<rparr>))"

text \<open>A key that a map does not hold reads as zero.\<close>

definition mapGet :: "(string \<rightharpoonup> nat) \<Rightarrow> string \<Rightarrow> nat" where
  "mapGet m k = (case m k of None \<Rightarrow> 0 | Some n \<Rightarrow> n)"

fun pickLoop :: "tallyState \<Rightarrow> string list \<Rightarrow> string \<times> nat \<times> int \<Rightarrow> string \<times> nat \<times> int" where
  "pickLoop t [] best = best"
| "pickLoop t (k # ks) (wk, agree, best) =
     pickLoop t ks
       (if mapGet (ty_counts t) k > agree \<or> mapGet (ty_counts t) k = agree \<and> int (mapGet (ty_first t) k) < best
        then (k, mapGet (ty_counts t) k, int (mapGet (ty_first t) k)) else (wk, agree, best))"

definition tally :: "string list \<Rightarrow> consensusResult \<Rightarrow> consensusResult" where
  "tally order r =
     (let t = tallyLoop 0 (cr_Draws r) \<lparr>ty_counts = Map.empty, ty_first = Map.empty, ty_counted = cr_Counted r\<rparr>
      in case pickLoop t order (cr_WinnerKey r, cr_Agree r, -1) of
           (wk, agree, best) \<Rightarrow>
             r\<lparr>cr_WinnerKey := wk, cr_Agree := agree, cr_Counted := ty_counted t,
               cr_Winner := (if best \<ge> 0 then dw_Result (cr_Draws r ! nat best) else cr_Winner r),
               cr_Split := (agree * 2 \<le> ty_counted t)\<rparr>)"

subsection \<open>Run\<close>

definition priorDraws :: "(turnResult \<Rightarrow> string \<times> bool) \<Rightarrow> turnResult list \<Rightarrow> drawResult list" where
  "priorDraws key prior = map (\<lambda>res. keyed key res (zeroDraw\<lparr>dw_Prior := True\<rparr>)) prior"

definition startVote :: "(turnResult \<Rightarrow> string \<times> bool) \<Rightarrow> turnResult list \<Rightarrow> nat \<Rightarrow> nat \<Rightarrow> vote" where
  "startVote key prior n par =
     \<lparr>vt_next = 0, vt_stopped = None, vt_draws = priorDraws key prior @ replicate n zeroDraw,
      vt_workers = replicate par Looping, vt_started = []\<rparr>"

definition markNotRun :: "goerr option \<Rightarrow> drawResult list \<Rightarrow> drawResult list" where
  "markNotRun stopped ds =
     (case stopped of
        None \<Rightarrow> ds
      | Some e \<Rightarrow> map (\<lambda>d. if dw_Result d = None \<and> dw_Err d = [] then d\<lparr>dw_Err := ''not run: '' @ errText e\<rparr> else d) ds)"

definition drawCount :: "consensus \<Rightarrow> nat" where
  "drawCount c = nat (max (cs_Draws c) 1)"

definition workerCount :: "consensus \<Rightarrow> nat" where
  "workerCount c = nat (min (max (cs_Parallel c) 1) (int (drawCount c)))"

text \<open>\<open>None\<close> is a vote whose workers have not all ended at the end of the schedule: \<^verbatim>\<open>Run\<close> still waits.\<close>

definition consensusRun :: "string list \<Rightarrow> move list \<Rightarrow> consensus \<Rightarrow> (goerr + consensusResult) option" where
  "consensusRun order sched c =
     (case cs_Key c of
        None \<Rightarrow> Some (Inl (Errorf ''agent: Consensus requires Runner and Key'' [] None))
      | Some key \<Rightarrow>
          if \<not> cs_hasRunner c then Some (Inl (Errorf ''agent: Consensus requires Runner and Key'' [] None))
          else if None \<in> set (cs_Prior c) then Some (Inl (Errorf ''agent: Consensus.Prior holds a nil result'' [] None))
          else let prior = map the (cs_Prior c);
                   v = voteRun key (cs_seeded c) (length prior) (drawCount c) sched
                         (startVote key prior (drawCount c) (workerCount c))
               in if list_all (\<lambda>s. s = Exited) (vt_workers v)
                  then Some (Inr (tally order
                         \<lparr>cr_Winner = None, cr_WinnerKey = [], cr_Agree = 0, cr_Counted = 0,
                          cr_Draws = markNotRun (vt_stopped v) (vt_draws v), cr_Split = False,
                          cr_Seeded = cs_seeded c, cr_Stopped = vt_stopped v\<rparr>))
                  else None)"

subsection \<open>What the count means\<close>

text \<open>How many accepted draws have a key, and the first of them.\<close>

definition votesFor :: "drawResult list \<Rightarrow> string \<Rightarrow> nat" where
  "votesFor ds k = length (filter (\<lambda>d. dw_OK d \<and> dw_Key d = k) ds)"

definition acceptedKeys :: "drawResult list \<Rightarrow> string set" where
  "acceptedKeys ds = {dw_Key d | d. d \<in> set ds \<and> dw_OK d}"

fun firstVote :: "drawResult list \<Rightarrow> string \<Rightarrow> nat option" where
  "firstVote [] k = None"
| "firstVote (d # ds) k = (if dw_OK d \<and> dw_Key d = k then Some 0 else map_option Suc (firstVote ds k))"

lemma firstVote_SomeD: "firstVote ds k = Some i \<Longrightarrow> i < length ds \<and> dw_OK (ds ! i) \<and> dw_Key (ds ! i) = k"
  by (induction ds arbitrary: i) (auto split: if_splits)

lemma firstVote_None: "firstVote ds k = None \<longleftrightarrow> k \<notin> acceptedKeys ds"
  by (induction ds) (auto simp: acceptedKeys_def)

lemma firstVote_first: "firstVote ds k = Some i \<Longrightarrow> j < i \<Longrightarrow> \<not> (dw_OK (ds ! j) \<and> dw_Key (ds ! j) = k)"
proof (induction ds arbitrary: i j)
  case (Cons d ds)
  then show ?case by (cases j) (auto split: if_splits)
qed simp

lemma votesFor_pos: "0 < votesFor ds k \<longleftrightarrow> k \<in> acceptedKeys ds"
  by (auto simp: votesFor_def acceptedKeys_def filter_empty_conv)

lemma tallyLoop_counts:
  "mapGet (ty_counts (tallyLoop i ds t)) k = mapGet (ty_counts t) k + votesFor ds k"
  by (induction ds arbitrary: i t) (auto simp: votesFor_def mapGet_def Let_def split: option.splits)

lemma tallyLoop_counted:
  "ty_counted (tallyLoop i ds t) = ty_counted t + length (filter (\<lambda>d. dw_Result d \<noteq> None) ds)"
  by (induction ds arbitrary: i t) (auto simp: Let_def)

lemma tallyLoop_first:
  "ty_first (tallyLoop i ds t) k = (case ty_first t k of Some n \<Rightarrow> Some n | None \<Rightarrow> map_option (\<lambda>j. i + j) (firstVote ds k))"
proof (induction ds arbitrary: i t)
  case Nil
  then show ?case by (simp split: option.split)
next
  case (Cons d ds)
  then show ?case by (cases "firstVote ds k") (auto simp: Let_def split: option.splits)
qed

text \<open>The pair (count, first) is compared so that the later of two keys with the same count loses.\<close>

definition beats :: "drawResult list \<Rightarrow> string \<Rightarrow> string \<Rightarrow> bool" where
  "beats ds a b \<longleftrightarrow> votesFor ds b < votesFor ds a \<or> votesFor ds b = votesFor ds a \<and> the (firstVote ds a) \<le> the (firstVote ds b)"

lemma pickLoop_best:
  assumes t: "\<And>k. mapGet (ty_counts t) k = votesFor ds k" "\<And>k. k \<in> acceptedKeys ds \<Longrightarrow> mapGet (ty_first t) k = the (firstVote ds k)"
    and "set ks \<subseteq> acceptedKeys ds" "seenKeys \<subseteq> acceptedKeys ds"
    and "if seenKeys = {} then agree = 0 \<and> best = -1
         else wk \<in> seenKeys \<and> agree = votesFor ds wk \<and> best = int (the (firstVote ds wk)) \<and> (\<forall>k\<in>seenKeys. beats ds wk k)"
    and "pickLoop t ks (wk, agree, best) = (wk', agree', best')"
  shows "if seenKeys \<union> set ks = {} then agree' = 0 \<and> best' = -1
         else wk' \<in> seenKeys \<union> set ks \<and> agree' = votesFor ds wk' \<and> best' = int (the (firstVote ds wk')) \<and>
           (\<forall>k\<in>seenKeys \<union> set ks. beats ds wk' k)"
  using assms(3-)
proof (induction ks arbitrary: seenKeys wk agree best)
  case Nil
  then show ?case by (cases "seenKeys = {}") auto
next
  case (Cons k ks)
  have k: "k \<in> acceptedKeys ds" "mapGet (ty_first t) k = the (firstVote ds k)" using Cons.prems(1) t(2) by auto
  have pos: "0 < votesFor ds k" using k(1) by (simp add: votesFor_pos)
  let ?better = "votesFor ds k > agree \<or> votesFor ds k = agree \<and> int (the (firstVote ds k)) < best"
  let ?s = "if ?better then (k, votesFor ds k, int (the (firstVote ds k))) else (wk, agree, best)"
  obtain wk1 agree1 best1 where s: "?s = (wk1, agree1, best1)" by (metis prod.collapse)
  have step: "pickLoop t ks (wk1, agree1, best1) = (wk', agree', best')"
    using Cons.prems(4) unfolding pickLoop.simps t(1) k(2) s .
  have "wk1 \<in> insert k seenKeys \<and> agree1 = votesFor ds wk1 \<and> best1 = int (the (firstVote ds wk1)) \<and>
      (\<forall>x\<in>insert k seenKeys. beats ds wk1 x)"
    using Cons.prems(3) s pos by (auto simp: beats_def split: if_splits)
  then show ?case using Cons.IH [of "insert k seenKeys" agree1 best1 wk1] Cons.prems(1,2) k(1) step by auto
qed

text \<open>What the fields of a vote say about its draws.\<close>

definition fairCount :: "consensusResult \<Rightarrow> bool" where
  "fairCount r \<longleftrightarrow>
     cr_Counted r = length (filter (\<lambda>d. dw_Result d \<noteq> None) (cr_Draws r)) \<and>
     cr_Split r = (cr_Agree r * 2 \<le> cr_Counted r) \<and>
     (if acceptedKeys (cr_Draws r) = {} then cr_Winner r = None \<and> cr_Agree r = 0
      else \<exists>i. firstVote (cr_Draws r) (cr_WinnerKey r) = Some i \<and> cr_Winner r = dw_Result (cr_Draws r ! i) \<and>
             cr_Agree r = votesFor (cr_Draws r) (cr_WinnerKey r) \<and> (\<forall>k\<in>acceptedKeys (cr_Draws r). beats (cr_Draws r) (cr_WinnerKey r) k))"

lemma tally_fair:
  assumes "set order = acceptedKeys ds" "cr_Draws r = ds" "cr_Agree r = 0" "cr_Counted r = 0" "cr_Winner r = None"
  shows "fairCount (tally order r) \<and> cr_Draws (tally order r) = ds"
proof -
  let ?t = "tallyLoop 0 ds \<lparr>ty_counts = Map.empty, ty_first = Map.empty, ty_counted = 0\<rparr>"
  have cnt: "mapGet (ty_counts ?t) k = votesFor ds k" for k by (simp add: tallyLoop_counts) (simp add: mapGet_def)
  have fst: "mapGet (ty_first ?t) k = the (firstVote ds k)" if "k \<in> acceptedKeys ds" for k
    using that firstVote_None [of ds k] by (auto simp: mapGet_def tallyLoop_first)
  obtain wk agree best where p: "pickLoop ?t order (cr_WinnerKey r, 0, -1) = (wk, agree, best)" by (metis prod.collapse)
  have best: "if acceptedKeys ds = {} then agree = 0 \<and> best = -1
      else wk \<in> acceptedKeys ds \<and> agree = votesFor ds wk \<and> best = int (the (firstVote ds wk)) \<and> (\<forall>k\<in>acceptedKeys ds. beats ds wk k)"
    using pickLoop_best [OF cnt fst _ _ _ p, of "{}"] assms(1) by (auto split: if_splits)
  have r: "tally order r = r\<lparr>cr_WinnerKey := wk, cr_Agree := agree, cr_Counted := length (filter (\<lambda>d. dw_Result d \<noteq> None) ds),
      cr_Winner := (if best \<ge> 0 then dw_Result (ds ! nat best) else None),
      cr_Split := (agree * 2 \<le> length (filter (\<lambda>d. dw_Result d \<noteq> None) ds))\<rparr>"
    using assms p by (simp add: tally_def Let_def tallyLoop_counted)
  show ?thesis
  proof (cases "acceptedKeys ds = {}")
    case True
    then show ?thesis using best assms(2) by (simp add: r fairCount_def)
  next
    case False
    then obtain i where "firstVote ds wk = Some i" using best firstVote_None [of ds wk] by auto
    then show ?thesis using False best assms(2) by (simp add: r fairCount_def)
  qed
qed

subsection \<open>What the workers did\<close>

text \<open>
  Where a draw stands: not taken, taken, running, run, or given up because the context ended. \<open>nc\<close> and
  \<open>nd\<close> count the workers that took it and that run it, \<open>st\<close> says whether its turn was started and \<open>d\<close> is
  its entry.
\<close>

definition drawState ::
  "(turnResult \<Rightarrow> string \<times> bool) \<Rightarrow> bool \<Rightarrow> move set \<Rightarrow> bool \<Rightarrow> nat \<Rightarrow> nat \<Rightarrow> nat \<Rightarrow> bool \<Rightarrow> drawResult \<Rightarrow> bool \<Rightarrow> bool" where
  "drawState key seeded M stopped i nc nd st d taken \<longleftrightarrow>
     (\<not> taken \<and> nc = 0 \<and> nd = 0 \<and> \<not> st \<and> d = zeroDraw) \<or>
     (taken \<and> nc = 1 \<and> nd = 0 \<and> \<not> st \<and> d = zeroDraw) \<or>
     (taken \<and> nc = 0 \<and> nd = 1 \<and> st \<and> d = zeroDraw) \<or>
     (taken \<and> nc = 0 \<and> nd = 0 \<and> st \<and> (\<exists>m\<in>M. d = fst (drawOutcome key seeded i (mv_out m) (mv_ctx m)))) \<or>
     (taken \<and> nc = 0 \<and> nd = 0 \<and> \<not> st \<and> stopped \<and> dw_Result d = None \<and> \<not> dw_OK d)"

definition workersAt :: "worker \<Rightarrow> vote \<Rightarrow> nat" where
  "workersAt s v = count (mset (vt_workers v)) s"

definition drawEntry :: "nat \<Rightarrow> nat \<Rightarrow> vote \<Rightarrow> nat \<Rightarrow> drawResult" where
  "drawEntry k n v i = (if i < n then vt_draws v ! (k + i) else zeroDraw)"

definition drawOk :: "(turnResult \<Rightarrow> string \<times> bool) \<Rightarrow> bool \<Rightarrow> move set \<Rightarrow> nat \<Rightarrow> nat \<Rightarrow> vote \<Rightarrow> nat \<Rightarrow> bool" where
  "drawOk key seeded M k n v i =
     drawState key seeded M (vt_stopped v \<noteq> None) i (workersAt (Claimed i) v) (workersAt (Drawing i) v)
       (i \<in> set (vt_started v)) (drawEntry k n v i) (i < vt_next v)"

definition voteOk :: "(turnResult \<Rightarrow> string \<times> bool) \<Rightarrow> bool \<Rightarrow> drawResult list \<Rightarrow> nat \<Rightarrow> nat \<Rightarrow> move set \<Rightarrow> vote \<Rightarrow> bool" where
  "voteOk key seeded priors n par M v \<longleftrightarrow>
     length (vt_draws v) = length priors + n \<and> length (vt_workers v) = par \<and> take (length priors) (vt_draws v) = priors \<and>
     vt_next v \<le> n \<and> distinct (vt_started v) \<and>
     (0 < workersAt Exited v \<longrightarrow> vt_stopped v \<noteq> None \<or> vt_next v = n) \<and>
     (\<forall>i. drawOk key seeded M (length priors) n v i)"

lemma voteOk_start:
  "voteOk key seeded (priorDraws key prior) n par M (startVote key prior n par)"
  by (auto simp: voteOk_def startVote_def drawOk_def drawState_def drawEntry_def workersAt_def nth_append priorDraws_def
      count_eq_zero_iff)

lemma drawOk_mono: "drawOk key seeded M k n v i \<Longrightarrow> M \<subseteq> M' \<Longrightarrow> drawOk key seeded M' k n v i"
  unfolding drawOk_def drawState_def by blast

lemma stopWith_simps [simp]:
  "vt_next (stopWith e v) = vt_next v" "vt_draws (stopWith e v) = vt_draws v" "vt_workers (stopWith e v) = vt_workers v"
  "vt_started (stopWith e v) = vt_started v"
  by (simp_all add: stopWith_def)

lemma stopWith_stopped: "vt_stopped v \<noteq> None \<Longrightarrow> vt_stopped (stopWith e v) \<noteq> None"
  by (auto simp: stopWith_def)

lemma stopWith_Some: "vt_stopped (stopWith (Some e) v) \<noteq> None"
  by (simp add: stopWith_def)

lemma setWorker_simps [simp]:
  "vt_next (setWorker j s v) = vt_next v" "vt_draws (setWorker j s v) = vt_draws v" "vt_started (setWorker j s v) = vt_started v"
  "vt_stopped (setWorker j s v) = vt_stopped v" "length (vt_workers (setWorker j s v)) = length (vt_workers v)"
  by (simp_all add: setWorker_def)

lemma workersAt_set:
  assumes "j < length (vt_workers v)" "vt_workers v ! j = old"
  shows "workersAt s (setWorker j new v) = workersAt s v - (if s = old then 1 else 0) + (if s = new then 1 else 0)"
  using assms by (simp add: workersAt_def setWorker_def mset_update)

lemma workersAt_same [simp]:
  "workersAt s (stopWith e v) = workersAt s v" "workersAt s (v\<lparr>vt_next := x\<rparr>) = workersAt s v"
  "workersAt s (v\<lparr>vt_draws := y\<rparr>) = workersAt s v" "workersAt s (v\<lparr>vt_started := z\<rparr>) = workersAt s v"
  by (simp_all add: workersAt_def)

lemma workersAt_pos: "j < length (vt_workers v) \<Longrightarrow> vt_workers v ! j = s \<Longrightarrow> 0 < workersAt s v"
  by (auto simp: workersAt_def)

lemma drawEntry_set:
  assumes "length (vt_draws v) = k + n" "i < n"
  shows "drawEntry k n (v\<lparr>vt_draws := (vt_draws v)[k + i := d]\<rparr>) l = (if l = i then d else drawEntry k n v l)"
  using assms by (auto simp: drawEntry_def nth_list_update)

lemma drawEntry_same [simp]:
  "drawEntry k n (stopWith e v) l = drawEntry k n v l" "drawEntry k n (setWorker j s v) l = drawEntry k n v l"
  "drawEntry k n (v\<lparr>vt_next := x\<rparr>) l = drawEntry k n v l" "drawEntry k n (v\<lparr>vt_started := z\<rparr>) l = drawEntry k n v l"
  by (simp_all add: drawEntry_def)

lemma drawState_taken:
  assumes "drawState key seeded M stopped i nc nd st d taken" "0 < nc + nd"
  shows "taken" "d = zeroDraw" "0 < nc \<Longrightarrow> nc = 1 \<and> nd = 0 \<and> \<not> st" "0 < nd \<Longrightarrow> nc = 0 \<and> nd = 1 \<and> st"
  using assms by (auto simp: drawState_def)

lemma drawState_stop: "drawState key seeded M stopped i nc nd st d taken \<Longrightarrow> (stopped \<Longrightarrow> stopped') \<Longrightarrow> drawState key seeded M stopped' i nc nd st d taken"
  unfolding drawState_def by blast

lemma drawState_untaken:
  "drawState key seeded M stopped i nc nd st d False \<longleftrightarrow> nc = 0 \<and> nd = 0 \<and> \<not> st \<and> d = zeroDraw"
  by (simp add: drawState_def)

lemma drawState_claimed: "drawState key seeded M stopped i 1 0 False zeroDraw True"
  and drawState_drawing: "drawState key seeded M stopped i 0 1 True zeroDraw True"
  and drawState_run: "m \<in> M \<Longrightarrow> drawState key seeded M stopped i 0 0 True (fst (drawOutcome key seeded i (mv_out m) (mv_ctx m))) True"
  and drawState_gone: "drawState key seeded M True i 0 0 False (zeroDraw\<lparr>dw_Err := e\<rparr>) True"
  unfolding drawState_def by (blast, blast, blast, simp add: zeroDraw_def)

text \<open>The state of the draws is all that has to be shown of a step.\<close>

lemma voteOkI:
  assumes ok: "voteOk key seeded priors n par M v" and "vt_next v' \<le> n" "distinct (vt_started v')"
    and "length (vt_draws v') = length (vt_draws v)" "take (length priors) (vt_draws v') = take (length priors) (vt_draws v)"
    and "length (vt_workers v') = length (vt_workers v)"
    and "0 < workersAt Exited v' \<Longrightarrow> vt_stopped v' \<noteq> None \<or> vt_next v' = n"
    and "\<And>i. drawOk key seeded M' (length priors) n v' i"
  shows "voteOk key seeded priors n par M' v'"
  using assms unfolding voteOk_def by (simp, blast)

lemma voteOkD:
  assumes "voteOk key seeded priors n par M v"
  shows "length (vt_workers v) = par" "\<And>i. drawOk key seeded M (length priors) n v i" "vt_next v \<le> n" "distinct (vt_started v)"
    "length (vt_draws v) = length priors + n" "0 < workersAt Exited v \<Longrightarrow> vt_stopped v \<noteq> None \<or> vt_next v = n"
  using assms unfolding voteOk_def by auto

lemma voteOk_exit:
  assumes ok: "voteOk key seeded priors n par M v" and j: "j < par" "vt_workers v ! j = Looping"
    and stop: "vt_stopped v \<noteq> None \<or> vt_next v \<ge> n"
  shows "voteOk key seeded priors n par M (setWorker j Exited v)"
proof (rule voteOkI [OF ok])
  note o = voteOkD [OF ok]
  show "drawOk key seeded M (length priors) n (setWorker j Exited v) i" for i
    using o(2) [of i] j o(1) by (simp add: drawOk_def workersAt_set)
  show "vt_stopped (setWorker j Exited v) \<noteq> None \<or> vt_next (setWorker j Exited v) = n" using stop o(3) by auto
qed (use voteOkD [OF ok] in simp_all)

lemma voteOk_claim:
  assumes ok: "voteOk key seeded priors n par M v" and j: "j < par" "vt_workers v ! j = Looping"
    and go: "vt_stopped v = None" "vt_next v < n"
  shows "voteOk key seeded priors n par M (setWorker j (Claimed (vt_next v)) (v\<lparr>vt_next := vt_next v + 1\<rparr>))"
proof (rule voteOkI [OF ok])
  let ?v = "setWorker j (Claimed (vt_next v)) (v\<lparr>vt_next := vt_next v + 1\<rparr>)"
  note o = voteOkD [OF ok]
  show "drawOk key seeded M (length priors) n ?v i" for i
  proof (cases "i = vt_next v")
    case True
    have "drawState key seeded M stopped i 1 0 False zeroDraw True" for stopped by (rule drawState_claimed)
    then show ?thesis using o(2) [of i] j o(1) True by (simp add: drawOk_def workersAt_set drawState_untaken)
  next
    case False
    then have "i < vt_next v + 1 \<longleftrightarrow> i < vt_next v" by auto
    then show ?thesis using o(2) [of i] j o(1) False by (simp add: drawOk_def workersAt_set)
  qed
  show "vt_stopped ?v \<noteq> None \<or> vt_next ?v = n" if "0 < workersAt Exited ?v"
    using that o(6) go j o(1) by (simp add: workersAt_set)
qed (use voteOkD [OF ok] go in simp_all)

lemma voteOk_gone:
  assumes ok: "voteOk key seeded priors n par M v" and j: "j < par" "vt_workers v ! j = Claimed i"
  shows "voteOk key seeded priors n par M (setWorker j Looping (stopWith (Some e)
           (v\<lparr>vt_draws := (vt_draws v)[length priors + i := (vt_draws v ! (length priors + i))\<lparr>dw_Err := errText e\<rparr>]\<rparr>)))"
    (is "voteOk key seeded priors n par M ?v")
proof (rule voteOkI [OF ok])
  note o = voteOkD [OF ok]
  have pos: "0 < workersAt (Claimed i) v" using j o(1) by (simp add: workersAt_pos)
  have st: "i < vt_next v" "drawEntry (length priors) n v i = zeroDraw" "workersAt (Claimed i) v = 1" "workersAt (Drawing i) v = 0" "i \<notin> set (vt_started v)"
    using drawState_taken [OF o(2) [of i, unfolded drawOk_def]] pos by auto
  then have i: "i < n" "vt_draws v ! (length priors + i) = zeroDraw" using o(3) by (auto simp: drawEntry_def)
  have stopped: "vt_stopped ?v \<noteq> None" using stopWith_Some by simp
  show "drawOk key seeded M (length priors) n ?v l" for l
  proof (cases "l = i")
    case True
    have "drawState key seeded M True i 0 0 False (zeroDraw\<lparr>dw_Err := errText e\<rparr>) True" by (rule drawState_gone)
    then show ?thesis using True st i j o(1,5) stopped by (simp add: drawOk_def workersAt_set drawEntry_set)
  next
    case False
    have "drawState key seeded M (vt_stopped ?v \<noteq> None) l (workersAt (Claimed l) v) (workersAt (Drawing l) v) (l \<in> set (vt_started v))
        (drawEntry (length priors) n v l) (l < vt_next v)"
      by (rule drawState_stop [OF o(2) [of l, unfolded drawOk_def]]) (use stopped in simp)
    then show ?thesis using False i j o(1,5) by (simp add: drawOk_def workersAt_set drawEntry_set)
  qed
  show "vt_stopped ?v \<noteq> None \<or> vt_next ?v = n" using stopped by simp
qed (use voteOkD [OF ok] in simp_all)

lemma voteOk_draw:
  assumes ok: "voteOk key seeded priors n par M v" and j: "j < par" "vt_workers v ! j = Claimed i"
  shows "voteOk key seeded priors n par M (setWorker j (Drawing i) (v\<lparr>vt_started := vt_started v @ [i]\<rparr>))"
    (is "voteOk key seeded priors n par M ?v")
proof (rule voteOkI [OF ok])
  note o = voteOkD [OF ok]
  have pos: "0 < workersAt (Claimed i) v" using j o(1) by (simp add: workersAt_pos)
  have st: "i < vt_next v" "drawEntry (length priors) n v i = zeroDraw" "workersAt (Claimed i) v = 1" "workersAt (Drawing i) v = 0" "i \<notin> set (vt_started v)"
    using drawState_taken [OF o(2) [of i, unfolded drawOk_def]] pos by auto
  show "drawOk key seeded M (length priors) n ?v l" for l
  proof (cases "l = i")
    case True
    have "drawState key seeded M stopped i 0 1 True zeroDraw True" for stopped by (rule drawState_drawing)
    then show ?thesis using True st j o(1) by (simp add: drawOk_def workersAt_set)
  next
    case False
    then show ?thesis using o(2) [of l] j o(1) by (simp add: drawOk_def workersAt_set)
  qed
  show "distinct (vt_started ?v)" using st(5) o(4) by simp
  show "vt_stopped ?v \<noteq> None \<or> vt_next ?v = n" if "0 < workersAt Exited ?v"
    using that o(6) j o(1) by (simp add: workersAt_set)
qed (use voteOkD [OF ok] in simp_all)

lemma voteOk_finish:
  assumes ok: "voteOk key seeded priors n par M v" and j: "j < par" "vt_workers v ! j = Drawing i" and m: "m \<in> M'" "M \<subseteq> M'"
    and d: "drawOutcome key seeded i (mv_out m) (mv_ctx m) = (d, stop)"
  shows "voteOk key seeded priors n par M' (setWorker j Looping (stopWith stop (v\<lparr>vt_draws := (vt_draws v)[length priors + i := d]\<rparr>)))"
    (is "voteOk key seeded priors n par M' ?v")
proof (rule voteOkI [OF ok])
  note o = voteOkD [OF ok]
  have pos: "0 < workersAt (Drawing i) v" using j o(1) by (simp add: workersAt_pos)
  have st: "i < vt_next v" "drawEntry (length priors) n v i = zeroDraw" "workersAt (Claimed i) v = 0" "workersAt (Drawing i) v = 1" "i \<in> set (vt_started v)"
    using drawState_taken [OF o(2) [of i, unfolded drawOk_def]] pos by auto
  then have i: "i < n" using o(3) by auto
  show "drawOk key seeded M' (length priors) n ?v l" for l
  proof (cases "l = i")
    case True
    have "drawState key seeded M' stopped i 0 0 True d True" for stopped using drawState_run [OF m(1), of key seeded stopped i] d by simp
    then show ?thesis using True st i j o(1,5) by (simp add: drawOk_def workersAt_set drawEntry_set)
  next
    case False
    have "drawState key seeded M' (vt_stopped ?v \<noteq> None) l (workersAt (Claimed l) v) (workersAt (Drawing l) v) (l \<in> set (vt_started v))
        (drawEntry (length priors) n v l) (l < vt_next v)"
      by (rule drawState_stop [OF drawOk_mono [OF o(2) [of l] m(2), unfolded drawOk_def]]) (use stopWith_stopped in simp)
    then show ?thesis using False i j o(1,5) by (simp add: drawOk_def workersAt_set drawEntry_set)
  qed
  show "vt_stopped ?v \<noteq> None \<or> vt_next ?v = n" if "0 < workersAt Exited ?v"
    using that o(6) j o(1) stopWith_stopped [of "v\<lparr>vt_draws := (vt_draws v)[length priors + i := d]\<rparr>" stop] by (auto simp: workersAt_set)
qed (use voteOkD [OF ok] in simp_all)

lemma voteOk_move:
  assumes ok: "voteOk key seeded priors n par M v"
  shows "voteOk key seeded priors n par (insert m M) (voteMove key seeded (length priors) n m v)"
proof -
  note o = voteOkD [OF ok]
  have more: "voteOk key seeded priors n par (insert m M) v'" if "voteOk key seeded priors n par M v'" for v'
    using that drawOk_mono [of key seeded M "length priors" n v' _ "insert m M"] unfolding voteOk_def by blast
  show ?thesis
  proof (cases "mv_worker m < par")
    case j: True
    show ?thesis
    proof (cases "vt_workers v ! mv_worker m")
      case Looping
      then show ?thesis using more voteOk_exit [OF ok j Looping] voteOk_claim [OF ok j Looping] j o(1)
        by (simp add: voteMove_def not_le)
    next
      case (Claimed i)
      then show ?thesis using more voteOk_gone [OF ok j Claimed] voteOk_draw [OF ok j Claimed] j o(1)
        by (simp add: voteMove_def split: option.split)
    next
      case (Drawing i)
      then show ?thesis using voteOk_finish [OF ok j Drawing insertI1 subset_insertI] j o(1)
        by (simp add: voteMove_def split: prod.split)
    next
      case Exited
      then show ?thesis using more [OF ok] j o(1) by (simp add: voteMove_def)
    qed
  qed (use more [OF ok] o(1) in \<open>simp add: voteMove_def\<close>)
qed

lemma voteOk_run:
  "voteOk key seeded priors n par M v \<Longrightarrow> voteOk key seeded priors n par (M \<union> set sched) (voteRun key seeded (length priors) n sched v)"
proof (induction sched arbitrary: M v)
  case (Cons m sched)
  from Cons.IH [OF voteOk_move [OF Cons.prems, of m]] show ?case by simp
qed simp

subsection \<open>Votes end\<close>

fun workLeft :: "worker \<Rightarrow> nat" where
  "workLeft Looping = 1"
| "workLeft (Claimed i) = 3"
| "workLeft (Drawing i) = 2"
| "workLeft Exited = 0"

definition voteLeft :: "nat \<Rightarrow> vote \<Rightarrow> nat" where
  "voteLeft n v = 4 * (n - vt_next v) + sum_list (map workLeft (vt_workers v))"

lemma sum_list_set:
  assumes "j < length ws"
  shows "sum_list (map workLeft (ws[j := s])) + workLeft (ws ! j) = sum_list (map workLeft ws) + workLeft s"
  using assms by (induction ws arbitrary: j) (auto simp: nth_Cons' split: nat.split)

lemma voteMove_works:
  assumes "mv_worker m < length (vt_workers v)" "vt_workers v ! mv_worker m \<noteq> Exited"
  shows "voteLeft n (voteMove key seeded k n m v) < voteLeft n v"
proof -
  let ?ws = "vt_workers v"
  have sum: "sum_list (map workLeft (?ws[mv_worker m := s])) + workLeft (?ws ! mv_worker m) = sum_list (map workLeft ?ws) + workLeft s" for s
    using sum_list_set [OF assms(1)] .
  show ?thesis
  proof (cases "?ws ! mv_worker m")
    case Looping
    then show ?thesis using sum [of Exited] sum [of "Claimed (vt_next v)"] assms(1)
      by (auto simp: voteMove_def voteLeft_def setWorker_def)
  next
    case (Claimed i)
    then show ?thesis using sum [of Looping] sum [of "Drawing i"] assms(1)
      by (auto simp: voteMove_def voteLeft_def setWorker_def split: option.split)
  next
    case (Drawing i)
    then show ?thesis using sum [of Looping] assms(1)
      by (auto simp: voteMove_def voteLeft_def setWorker_def split: prod.split)
  qed (use assms in simp)
qed

lemma voteMove_workers:
  "length (vt_workers (voteMove key seeded k n m v)) = length (vt_workers v)"
  "j \<noteq> mv_worker m \<Longrightarrow> vt_workers (voteMove key seeded k n m v) ! j = vt_workers v ! j"
  by (auto simp: voteMove_def setWorker_def split: worker.split option.split prod.split)

lemma voteMove_left: "voteLeft n (voteMove key seeded k n m v) \<le> voteLeft n v"
proof (cases "mv_worker m < length (vt_workers v) \<and> vt_workers v ! mv_worker m \<noteq> Exited")
  case True
  then show ?thesis using voteMove_works less_imp_le by blast
next
  case False
  then show ?thesis by (auto simp: voteMove_def)
qed

lemma voteRun_left: "voteLeft n (voteRun key seeded k n sched v) \<le> voteLeft n v"
  by (induction sched arbitrary: v) (auto intro: order_trans voteMove_left)

text \<open>A round in which a worker that has not ended takes a step brings the vote nearer to its end.\<close>

lemma voteRun_round:
  assumes "j < length (vt_workers v)" "vt_workers v ! j \<noteq> Exited" "j \<in> mv_worker ` set round"
  shows "voteLeft n (voteRun key seeded k n round v) < voteLeft n v"
  using assms
proof (induction round arbitrary: v)
  case (Cons m round)
  show ?case
  proof (cases "mv_worker m = j")
    case True
    have "voteLeft n (voteRun key seeded k n (m # round) v) \<le> voteLeft n (voteMove key seeded k n m v)"
      using voteRun_left by simp
    also have "\<dots> < voteLeft n v" using True Cons.prems(1,2) by (intro voteMove_works) auto
    finally show ?thesis .
  next
    case False
    have "voteLeft n (voteRun key seeded k n round (voteMove key seeded k n m v)) < voteLeft n (voteMove key seeded k n m v)"
      by (rule Cons.IH) (use Cons.prems False in \<open>auto simp: voteMove_workers\<close>)
    then show ?thesis using voteMove_left [where n = n and key = key and seeded = seeded and k = k and m = m and v = v] by simp
  qed
qed simp

lemma voteRun_append: "voteRun key seeded k n (a @ b) v = voteRun key seeded k n b (voteRun key seeded k n a v)"
  by (induction a arbitrary: v) auto

lemma voteRun_workers: "length (vt_workers (voteRun key seeded k n sched v)) = length (vt_workers v)"
  by (induction sched arbitrary: v) (auto simp: voteMove_workers)

lemma voteMove_exited:
  assumes "list_all (\<lambda>s. s = Exited) (vt_workers v)"
  shows "voteMove key seeded k n m v = v"
  using assms by (auto simp: voteMove_def list_all_length not_le)

lemma voteRun_exited: "list_all (\<lambda>s. s = Exited) (vt_workers v) \<Longrightarrow> voteRun key seeded k n sched v = v"
  by (induction sched) (auto simp: voteMove_exited)

lemma voteRun_rounds:
  assumes "\<forall>round\<in>set rounds. {..<length (vt_workers v)} \<subseteq> mv_worker ` set round" "voteLeft n v \<le> length rounds"
  shows "list_all (\<lambda>s. s = Exited) (vt_workers (voteRun key seeded k n (concat rounds) v))"
  using assms
proof (induction rounds arbitrary: v)
  case Nil
  have "s = Exited" if "workLeft s = 0" for s using that by (cases s) auto
  then show ?case using Nil by (auto simp: voteLeft_def list_all_iff sum_list_eq_0_iff)
next
  case (Cons r rounds)
  show ?case
  proof (cases "list_all (\<lambda>s. s = Exited) (vt_workers v)")
    case True
    then show ?thesis using voteRun_exited [OF True] by simp
  next
    case False
    then obtain j where "j < length (vt_workers v)" "vt_workers v ! j \<noteq> Exited" by (auto simp: list_all_length)
    then have "voteLeft n (voteRun key seeded k n r v) < voteLeft n v" using Cons.prems(1) by (intro voteRun_round) auto
    then show ?thesis using Cons.prems Cons.IH [of "voteRun key seeded k n r v"]
      by (simp add: voteRun_append voteRun_workers)
  qed
qed

text \<open>
  A schedule in which every worker gets a step in each of enough rounds. The goroutines of a vote are run
  by such a schedule: each draw takes three steps of a worker, and each worker one more to end.
\<close>

definition fairSchedule :: "nat \<Rightarrow> nat \<Rightarrow> move list \<Rightarrow> bool" where
  "fairSchedule par bound sched \<longleftrightarrow>
     (\<exists>rounds. sched = concat rounds \<and> bound \<le> length rounds \<and> (\<forall>round\<in>set rounds. {..<par} \<subseteq> mv_worker ` set round))"

text \<open>What a vote must say about the draws: priors first, each draw run at most once with its own seed.\<close>

definition drawnOnce :: "consensus \<Rightarrow> (turnResult \<Rightarrow> string \<times> bool) \<Rightarrow> move list \<Rightarrow> nat list \<Rightarrow> consensusResult \<Rightarrow> bool" where
  "drawnOnce c key sched started r \<longleftrightarrow>
     (let k = length (cs_Prior c); n = drawCount c
      in length (cr_Draws r) = k + n \<and> take k (cr_Draws r) = priorDraws key (map the (cs_Prior c)) \<and>
         distinct started \<and> set started \<subseteq> {..<n} \<and> (cr_Stopped r = None \<longrightarrow> set started = {..<n}) \<and>
         (\<forall>i<n. if i \<in> set started
                then \<exists>m\<in>set sched. (cr_Draws r ! (k + i))\<lparr>dw_Err := []\<rparr> = (fst (drawOutcome key (cs_seeded c) i (mv_out m) (mv_ctx m)))\<lparr>dw_Err := []\<rparr>
                else dw_Result (cr_Draws r ! (k + i)) = None \<and> \<not> dw_OK (cr_Draws r ! (k + i))))"

lemma keyed_prior: "dw_Result (keyed key res d) = Some res"
  by (simp add: keyed_def split: prod.split)

lemma markNotRun_prior: "take k ds = priorDraws key prior \<Longrightarrow> take k (markNotRun e ds) = priorDraws key prior"
  by (cases e) (auto simp: markNotRun_def take_map priorDraws_def keyed_prior cong: map_cong)

lemma markNotRun_nth:
  assumes "i < length ds"
  shows "(markNotRun e ds ! i)\<lparr>dw_Err := []\<rparr> = (ds ! i)\<lparr>dw_Err := []\<rparr>" "dw_Result (markNotRun e ds ! i) = dw_Result (ds ! i)"
    "dw_OK (markNotRun e ds ! i) = dw_OK (ds ! i)"
  using assms by (auto simp: markNotRun_def split: option.split)

lemma voteOk_done:
  assumes ok: "voteOk key seeded priors n par M v" and ex: "list_all (\<lambda>s. s = Exited) (vt_workers v)" and par: "0 < par"
  shows "vt_stopped v \<noteq> None \<or> set (vt_started v) = {..<n}" "set (vt_started v) \<subseteq> {..<n}"
    "\<And>i. i < n \<Longrightarrow> if i \<in> set (vt_started v)
        then \<exists>m\<in>M. vt_draws v ! (length priors + i) = fst (drawOutcome key seeded i (mv_out m) (mv_ctx m))
        else dw_Result (vt_draws v ! (length priors + i)) = None \<and> \<not> dw_OK (vt_draws v ! (length priors + i))"
proof -
  note o = voteOkD [OF ok]
  have none: "workersAt (Claimed i) v = 0" "workersAt (Drawing i) v = 0" for i
    using ex by (auto simp: workersAt_def count_eq_zero_iff list_all_iff)
  have "vt_workers v ! 0 = Exited" "0 < length (vt_workers v)" using ex par o(1) by (auto simp: list_all_length)
  then have all: "vt_stopped v \<noteq> None \<or> vt_next v = n" using o(6) workersAt_pos [of 0 v Exited] by simp
  have st: "drawState key seeded M (vt_stopped v \<noteq> None) i 0 0 (i \<in> set (vt_started v)) (drawEntry (length priors) n v i) (i < vt_next v)" for i
    using o(2) [of i] none by (simp add: drawOk_def)
  have nx: "i < vt_next v" if "i \<in> set (vt_started v)" for i using st [of i] that by (auto simp: drawState_def)
  then show sub: "set (vt_started v) \<subseteq> {..<n}" using o(3) by (auto intro: less_le_trans)
  have "i \<in> set (vt_started v)" if "i < vt_next v" "vt_stopped v = None" for i using st [of i] that by (auto simp: drawState_def)
  then show "vt_stopped v \<noteq> None \<or> set (vt_started v) = {..<n}" using all sub by (auto simp: subset_iff)
  show "if i \<in> set (vt_started v)
        then \<exists>m\<in>M. vt_draws v ! (length priors + i) = fst (drawOutcome key seeded i (mv_out m) (mv_ctx m))
        else dw_Result (vt_draws v ! (length priors + i)) = None \<and> \<not> dw_OK (vt_draws v ! (length priors + i))" if "i < n" for i
    using st [of i] that by (auto simp: drawState_def drawEntry_def zeroDraw_def)
qed


subsection \<open>A vote of two draws\<close>

definition exAnswer :: "string \<Rightarrow> turnResult" where
  "exAnswer t = \<lparr>res_Text = t, res_Messages = [], res_Usage = zeroUsage, res_UsageByModel = None, res_Steps = 1,
     res_FinishReason = ''stop'', res_Structured = [], res_StructuredError = []\<rparr>"

definition exConsensus :: consensus where
  "exConsensus = \<lparr>cs_hasRunner = True, cs_Draws = 2, cs_Prior = [], cs_Parallel = 1, cs_Key = Some (\<lambda>r. (res_Text r, True)), cs_seeded = True\<rparr>"

definition exSched :: "move list" where
  "exSched = concat (replicate 9 [\<lparr>mv_worker = 0, mv_ctx = None, mv_out = Inr (exAnswer ''42'')\<rparr>])"


end
