(* ===== verification/Teams.thy ===== *)
theory Teams
  imports SubAgents
begin

text \<open>
  Agents that work together: handing a conversation over (\<^verbatim>\<open>src/team.go\<close>), asking several agents at once
  (\<^verbatim>\<open>src/fanout_source.go\<close>), starting an agent in the background (\<^verbatim>\<open>src/async_agent_source.go\<close>) and an agent
  that a server describes (\<^verbatim>\<open>src/server_agent_source.go\<close>). The turn of a member is the parameter \<open>run\<close>; it
  threads the handoff signal, which lives in the turn's context, and the rest of the world.
\<close>

subsection \<open>Transfer tools\<close>

text \<open>The first component of the state is the signal's pending target, empty when there is none.\<close>

type_synonym 'w handoff = "string \<times> 'w"

definition signalTake :: "'w handoff \<Rightarrow> string \<times> 'w handoff" where
  "signalTake st = (fst st, ([], snd st))"

definition transferName :: "string \<Rightarrow> string" where
  "transferName target = ''transfer_to_'' @ target"

definition transferDef :: "string \<Rightarrow> toolDef" where
  "transferDef target =
     \<lparr>td_Name = transferName target,
      td_Description = ''Hand off the conversation to the '' @ target @ '' agent. Call this to transfer control; do not also answer.'',
      td_Annotations = []\<rparr>"

definition transferFunc :: "string \<Rightarrow> unit \<Rightarrow> 'w handoff \<Rightarrow> (goerr + string) \<times> 'w handoff" where
  "transferFunc target u st = (Inr (''Transferring to '' @ target @ ''.''), (target, snd st))"

fun buildTransferSource ::
  "(toolArgs \<Rightarrow> goerr + unit) \<Rightarrow> string \<Rightarrow> string list \<Rightarrow> string set \<Rightarrow> 'w handoff funcSource \<Rightarrow> goerr + 'w handoff funcSource" where
  "buildTransferSource decode from [] members fs = Inr fs"
| "buildTransferSource decode from (target # targets) members fs =
     (if target \<notin> members
      then Inl (Errorf ''agent: Team member %q hands off to unknown member %q'' [from, target] None)
      else case addToolFunc (transferDef target) (wrapFunc decode (transferFunc target)) fs of
             (Some e, _) \<Rightarrow> Inl e
           | (None, fs1) \<Rightarrow> buildTransferSource decode from targets members fs1)"

subsection \<open>Building a team\<close>

text \<open>What a member's runner is given as its tools.\<close>

datatype 'w memberTools =
    NoTools
  | BaseTools "'w handoff toolSource"
  | TransferTools "'w handoff funcSource"
  | MergedTools "'w handoff multiSource"

record 'w teamMember =
  tm_Name :: string
  tm_Tools :: "'w handoff toolSource option"
  tm_HandoffTo :: "string list"
  tm_Runner :: "goerr option"

record 'w teamConfig =
  tf_Members :: "'w teamMember list"
  tf_Start :: string
  tf_MaxHandoffs :: int

record 'w team =
  te_members :: "string \<rightharpoonup> 'w memberTools"
  te_order :: "string list"
  te_start :: string
  te_maxHandoffs :: nat

abbreviation "defaultMaxHandoffs \<equiv> 8 :: int"

fun checkNames :: "'w teamMember list \<Rightarrow> string set \<Rightarrow> goerr + string set" where
  "checkNames [] names = Inr names"
| "checkNames (m # ms) names =
     (if tm_Name m = [] then Inl (Errorf ''agent: Team member with empty Name'' [] None)
      else if tm_Name m \<in> names then Inl (Errorf ''agent: Team has duplicate member %q'' [tm_Name m] None)
      else checkNames ms (insert (tm_Name m) names))"

definition funcToolSource :: "'w funcSource \<Rightarrow> 'w toolSource" where
  "funcToolSource fs = \<lparr>src_Tools = funcTools fs, src_Call = funcCall fs\<rparr>"

definition memberTools :: "(toolArgs \<Rightarrow> goerr + unit) \<Rightarrow> string set \<Rightarrow> 'w teamMember \<Rightarrow> goerr + 'w memberTools" where
  "memberTools decode names m =
     (if tm_HandoffTo m = [] then Inr (case tm_Tools m of None \<Rightarrow> NoTools | Some src \<Rightarrow> BaseTools src)
      else case buildTransferSource decode (tm_Name m) (tm_HandoffTo m) names newFuncSource of
             Inl e \<Rightarrow> Inl e
           | Inr transfers \<Rightarrow>
               (case tm_Tools m of
                  None \<Rightarrow> Inr (TransferTools transfers)
                | Some src \<Rightarrow>
                    (case multiAdd ''base'' src (newMultiSource None) of
                       (Some e, _) \<Rightarrow> Inl (Errorf ''agent: Team %q tools: %w'' [tm_Name m] (Some e))
                     | (None, multi) \<Rightarrow>
                         (case multiAdd ''handoff'' (funcToolSource transfers) multi of
                            (Some e, _) \<Rightarrow> Inl (Errorf ''agent: Team %q handoff tools: %w'' [tm_Name m] (Some e))
                          | (None, multi2) \<Rightarrow> Inr (MergedTools multi2)))))"

text \<open>\<open>tm_Runner\<close> is the error of \<^verbatim>\<open>NewRunner\<close> for the member, if any.\<close>

fun addMembers :: "(toolArgs \<Rightarrow> goerr + unit) \<Rightarrow> string set \<Rightarrow> 'w teamMember list \<Rightarrow> 'w team \<Rightarrow> goerr + 'w team" where
  "addMembers decode names [] t = Inr t"
| "addMembers decode names (m # ms) t =
     (case memberTools decode names m of
        Inl e \<Rightarrow> Inl e
      | Inr tools \<Rightarrow>
          (case tm_Runner m of
             Some e \<Rightarrow> Inl (Errorf ''agent: Team member %q: %w'' [tm_Name m] (Some e))
           | None \<Rightarrow> addMembers decode names ms
               (t\<lparr>te_members := (te_members t)(tm_Name m \<mapsto> tools), te_order := te_order t @ [tm_Name m]\<rparr>)))"

definition newTeam :: "(toolArgs \<Rightarrow> goerr + unit) \<Rightarrow> 'w teamConfig \<Rightarrow> goerr + 'w team" where
  "newTeam decode cfg =
     (if tf_Members cfg = [] then Inl (Errorf ''agent: Team needs at least one member'' [] None)
      else case checkNames (tf_Members cfg) {} of
             Inl e \<Rightarrow> Inl e
           | Inr names \<Rightarrow>
               if tf_Start cfg \<notin> names then Inl (Errorf ''agent: Team Start %q is not a member'' [tf_Start cfg] None)
               else addMembers decode names (tf_Members cfg)
                      \<lparr>te_members = Map.empty, te_order = [], te_start = tf_Start cfg,
                       te_maxHandoffs = nat (if tf_MaxHandoffs cfg \<le> 0 then defaultMaxHandoffs else tf_MaxHandoffs cfg)\<rparr>)"

definition memberDefs :: "'w memberTools \<Rightarrow> 'w handoff \<Rightarrow> (goerr + toolDef list) option" where
  "memberDefs mt st =
     (case mt of
        NoTools \<Rightarrow> None
      | BaseTools src \<Rightarrow> Some (src_Tools src st)
      | TransferTools fs \<Rightarrow> Some (funcTools fs st)
      | MergedTools m \<Rightarrow> Some (fst (multiTools m st)))"

subsection \<open>A turn of a team\<close>

text \<open>
  \<open>run name msgs st\<close> is the turn of the member \<open>name\<close>; \<open>onHandoff\<close> the callback for transfers.
\<close>

function teamLoop ::
  "(string \<Rightarrow> message list \<Rightarrow> 'w handoff \<Rightarrow> (goerr + turnResult) \<times> 'w handoff) \<Rightarrow> (string \<Rightarrow> string \<Rightarrow> 'w \<Rightarrow> 'w) \<Rightarrow> 'w team \<Rightarrow>
   nat \<Rightarrow> string \<Rightarrow> message list \<Rightarrow> message list \<Rightarrow> 'w handoff \<Rightarrow> ((goerr + turnResult) \<times> string) \<times> 'w handoff" where
  "teamLoop run onHandoff t handoffs current work appended st =
     (case run current work st of
        (Inl e, st1) \<Rightarrow> ((Inl e, current), st1)
      | (Inr res, st1) \<Rightarrow>
          (let work1 = work @ res_Messages res; appended1 = appended @ res_Messages res
           in case signalTake st1 of
                (target, st2) \<Rightarrow>
                  if target = [] \<or> te_members t target = None then ((Inr (res\<lparr>res_Messages := appended1\<rparr>), current), st2)
                  else if handoffs \<ge> te_maxHandoffs t
                  then ((Inl (Errorf ''%w (%d) starting from %q'' [itoa (int (te_maxHandoffs t)), current] (Some (ErrSentinel ErrMaxHandoffs))), current), st2)
                  else teamLoop run onHandoff t (Suc handoffs) target work1 appended1 (fst st2, onHandoff current target (snd st2))))"
  by pat_completeness auto
termination
  by (relation "measure (\<lambda>(_, _, t, handoffs, _, _, _, _). te_maxHandoffs t - handoffs)") auto

declare teamLoop.simps [simp del]

definition teamRunTurn where
  "teamRunTurn run onHandoff t history active w =
     teamLoop run onHandoff t 0 (if te_members t active \<noteq> None then active else te_start t) history [] ([], w)"

definition teamRun where
  "teamRun run onHandoff t input w = fst (fst (teamRunTurn run onHandoff t [textMessage RoleUser input] [] w))"

subsection \<open>Fan-out\<close>

record fanOutResult =
  fo_Name :: string
  fo_Text :: string
  fo_IsError :: bool

definition defaultFanOutAggregate :: "fanOutResult list \<Rightarrow> string" where
  "defaultFanOutAggregate rs =
     strJoin (map (\<lambda>r. ''['' @ fo_Name r @ (if fo_IsError r then '' (error)'' else []) @ '']'' @ [newline] @ fo_Text r) rs) [newline, newline]"

record fanOutSource =
  fn_Name :: string
  fn_def :: toolDef
  fn_Members :: "agentSource list"
  fn_Aggregate :: "fanOutResult list \<Rightarrow> string"

definition newFanOutSource ::
  "string \<Rightarrow> string \<Rightarrow> agentSource list \<Rightarrow> (fanOutResult list \<Rightarrow> string) option \<Rightarrow> goerr + fanOutSource" where
  "newFanOutSource name desc members aggregate =
     (if name = [] then Inl (Errorf ''agent: FanOutSource requires a Name'' [] None)
      else if members = [] then Inl (Errorf ''agent: FanOutSource %q requires at least one member'' [name] None)
      else Inr \<lparr>fn_Name = name, fn_def = \<lparr>td_Name = name, td_Description = desc, td_Annotations = []\<rparr>,
             fn_Members = members, fn_Aggregate = (case aggregate of None \<Rightarrow> defaultFanOutAggregate | Some f \<Rightarrow> f)\<rparr>)"

definition fanOutTools :: "fanOutSource \<Rightarrow> goerr + toolDef list" where
  "fanOutTools s = Inr [fn_def s]"

definition fanOutOutcome :: "string \<Rightarrow> callResult \<Rightarrow> fanOutResult" where
  "fanOutOutcome name r =
     (case r of
        Inl e \<Rightarrow> \<lparr>fo_Name = name, fo_Text = errText e, fo_IsError = True\<rparr>
      | Inr None \<Rightarrow> \<lparr>fo_Name = name, fo_Text = [], fo_IsError = False\<rparr>
      | Inr (Some res) \<Rightarrow> \<lparr>fo_Name = name, fo_Text = toolResultText res, fo_IsError = tr_IsError res\<rparr>)"

text \<open>
  The members' goroutines, in the order \<open>sched\<close> in which their calls take effect; each fills its own slot.
  A slot no call has filled is \<open>None\<close>.
\<close>

fun fanOutRun ::
  "(agentSource \<Rightarrow> agentContext \<Rightarrow> 'w \<Rightarrow> callResult \<times> agentContext \<times> 'w) \<Rightarrow> agentSource list \<Rightarrow> nat list \<Rightarrow>
   fanOutResult option list \<Rightarrow> agentContext \<Rightarrow> 'w \<Rightarrow> fanOutResult option list \<times> agentContext \<times> 'w" where
  "fanOutRun call ms [] slots ctx w = (slots, ctx, w)"
| "fanOutRun call ms (i # is) slots ctx w =
     (case call (ms ! i) ctx w of
        (r, ctx1, w1) \<Rightarrow> fanOutRun call ms is (slots[i := Some (fanOutOutcome (ag_Name (ms ! i)) r)]) ctx1 w1)"

definition fanOutCall ::
  "(toolArgs \<Rightarrow> goerr + rawjson) \<Rightarrow> (rawjson \<Rightarrow> string option) \<Rightarrow>
   (agentSource \<Rightarrow> agentContext \<Rightarrow> message list \<Rightarrow> 'w \<Rightarrow> (goerr + turnResult) \<times> 'w) \<Rightarrow> nat list \<Rightarrow>
   fanOutSource \<Rightarrow> string \<Rightarrow> toolArgs \<Rightarrow> agentContext \<Rightarrow> 'w \<Rightarrow> callResult \<times> agentContext \<times> 'w" where
  "fanOutCall encode task run sched s name args ctx w =
     (if name \<noteq> fn_Name s then (Inl (unknownTool ''%w: %q'' name), ctx, w)
      else case encode args of
             Inl e \<Rightarrow> (Inl (Errorf ''agent: encode args for fan-out %q: %w'' [fn_Name s] (Some e)), ctx, w)
           | Inr raw \<Rightarrow>
               if (case task raw of None \<Rightarrow> True | Some t \<Rightarrow> trimSpace t = [])
               then (Inr (Some (errorToolResult (render_fmt (''fan-out %q requires a non-empty 'task'' @ [CHR 0x27]) [fn_Name s] []))), ctx, w)
               else (case fanOutRun (\<lambda>m. agentCall encode task (run m) m (ag_Name m) args) (fn_Members s) sched
                            (replicate (length (fn_Members s)) None) ctx w of
                       (slots, ctx1, w1) \<Rightarrow>
                         (Inr (Some \<lparr>tr_Content = [\<lparr>ct_Type = ''text'', ct_Text = fn_Aggregate s (map the slots)\<rparr>],
                                     tr_StructuredContent = None, tr_IsError = False\<rparr>), ctx1, w1)))"

subsection \<open>Background agents\<close>

definition newAsyncAgentSource ::
  "(rawjson \<Rightarrow> goerr option) \<Rightarrow> string \<Rightarrow> string \<Rightarrow> bool \<Rightarrow> bool \<Rightarrow> int \<Rightarrow> rawjson \<Rightarrow> goerr + agentSource" where
  "newAsyncAgentSource schemaOk name desc hasRunner hasOnComplete maxDepth schema =
     (if name = [] then Inl (Errorf ''agent: AsyncAgentSource requires a Name'' [] None)
      else if \<not> hasRunner then Inl (Errorf ''agent: AsyncAgentSource %q requires a Runner'' [name] None)
      else if \<not> hasOnComplete
      then Inl (Errorf ''agent: AsyncAgentSource %q requires an OnComplete (else the result is dropped)'' [name] None)
      else case (if schema = [] then None else schemaOk schema) of
             Some e \<Rightarrow> Inl (Errorf ''agent: schema for AsyncAgentSource %q: %w'' [name] (Some e))
           | None \<Rightarrow>
               Inr \<lparr>ag_Name = name, ag_def = \<lparr>td_Name = name, td_Description = desc, td_Annotations = []\<rparr>,
                    ag_maxDepth = (if maxDepth \<le> 0 then defaultMaxAgentDepth else maxDepth), ag_InputSchema = schema\<rparr>)"

text \<open>\<^verbatim>\<open>Call\<close>; the last component is the goroutine it starts: the child's context and first message.\<close>

definition asyncCall ::
  "(toolArgs \<Rightarrow> goerr + rawjson) \<Rightarrow> (rawjson \<Rightarrow> string option) \<Rightarrow> agentSource \<Rightarrow> string \<Rightarrow> toolArgs \<Rightarrow> agentContext \<Rightarrow>
   callResult \<times> agentContext \<times> (agentContext \<times> message list) option" where
  "asyncCall encode task s name args ctx =
     (if name \<noteq> ag_Name s then (Inl (unknownTool ''%w: %q'' name), ctx, None)
      else if cx_depth ctx \<ge> ag_maxDepth s then
        (Inr (Some (errorToolResult (render_fmt ''sub-agent %q refused: max depth %d reached''
                      [ag_Name s, itoa (ag_maxDepth s)] []))), ctx, None)
      else case takeCallBudget ctx of
             (False, ctx1) \<Rightarrow>
               (Inr (Some (errorToolResult (render_fmt ''sub-agent %q refused: call budget exhausted'' [ag_Name s] []))), ctx1, None)
           | (True, ctx1) \<Rightarrow>
               (case encode args of
                  Inl e \<Rightarrow> (Inl (Errorf ''agent: encode args for sub-agent %q: %w'' [ag_Name s] (Some e)), ctx1, None)
                | Inr raw \<Rightarrow>
                    (case agentSeed task s raw of
                       None \<Rightarrow> (Inr (Some (errorToolResult (render_fmt (''sub-agent %q requires a non-empty 'task'' @ [CHR 0x27]) [ag_Name s] []))), ctx1, None)
                     | Some seed \<Rightarrow>
                         (Inr (Some \<lparr>tr_Content = [\<lparr>ct_Type = ''text'', ct_Text =
                                       render_fmt ''sub-agent %q started in the background; its result will arrive as context when it finishes.''
                                         [ag_Name s] []\<rparr>],
                                     tr_StructuredContent = None, tr_IsError = False\<rparr>),
                          ctx1, Some (childContext ctx1 (ag_Name s), [textMessage RoleUser seed])))))"

subsection \<open>Agents a server describes\<close>

record 'w scopedSource =
  sc_defs :: "toolDef list"
  sc_backing :: "'w toolSource"

definition scopedTools :: "'w scopedSource \<Rightarrow> 'w \<Rightarrow> goerr + toolDef list" where
  "scopedTools s w = Inr (sc_defs s)"

definition scopedCall :: "'w scopedSource \<Rightarrow> string \<Rightarrow> toolArgs \<Rightarrow> 'w \<Rightarrow> callResult \<times> 'w" where
  "scopedCall s name args w =
     (if name \<notin> td_Name ` set (sc_defs s) then (Inl (unknownTool ''%w: %q'' name), w)
      else src_Call (sc_backing s) name args w)"

record 'w serverAgentConfig =
  sv_Name :: string
  sv_Description :: string
  sv_Tools :: "toolDef list"
  sv_Backing :: "'w toolSource option"
  sv_hasProvider :: bool
  sv_MaxDepth :: int

text \<open>\<open>runner\<close> is the error of \<^verbatim>\<open>NewRunner\<close>, if any; the second component of the result is the child's tools.\<close>

definition newServerAgentSource ::
  "(rawjson \<Rightarrow> goerr option) \<Rightarrow> goerr option \<Rightarrow> 'w serverAgentConfig \<Rightarrow> goerr + agentSource \<times> 'w scopedSource" where
  "newServerAgentSource schemaOk runner cfg =
     (if sv_Name cfg = [] then Inl (Errorf ''agent: ServerAgentSource requires a Name'' [] None)
      else if \<not> sv_hasProvider cfg then Inl (Errorf ''agent: ServerAgentSource %q requires a Provider'' [sv_Name cfg] None)
      else case sv_Backing cfg of
             None \<Rightarrow> Inl (Errorf ''agent: ServerAgentSource %q requires a Backing ToolSource'' [sv_Name cfg] None)
           | Some backing \<Rightarrow>
               (case runner of
                  Some e \<Rightarrow> Inl e
                | None \<Rightarrow>
                    (case newAgentSource schemaOk (sv_Name cfg) (sv_Description cfg) True (sv_MaxDepth cfg) [] of
                       Inl e \<Rightarrow> Inl e
                     | Inr s \<Rightarrow> Inr (s, \<lparr>sc_defs = sv_Tools cfg, sc_backing = backing\<rparr>))))"

interpretation scoped: tool_source "\<lambda>_. True" scopedTools scopedCall
  by unfold_locales (auto simp: scopedTools_def scopedCall_def)

subsection \<open>What a member can set in motion\<close>

text \<open>A member's transfer tools are exactly the ones of its declared targets, and calling one asks for its target.\<close>

lemma transferName_inject [simp]: "transferName a = transferName b \<longleftrightarrow> a = b"
  by (simp add: transferName_def)

lemma buildTransferSource_tools:
  assumes "buildTransferSource decode from targets members fs = Inr fs'" "funcInv fs"
  shows "funcInv fs' \<and> fs_defs fs' = fs_defs fs @ map transferDef targets \<and> set targets \<subseteq> members \<and>
     (\<forall>n. fs_handlers fs' n = (case find (\<lambda>t. transferName t = n) targets of
        Some t \<Rightarrow> Some (wrapFunc decode (transferFunc t)) | None \<Rightarrow> fs_handlers fs n))"
  using assms
proof (induction targets arbitrary: fs)
  case Nil
  then show ?case by simp
next
  case (Cons t ts)
  let ?fs = "fs\<lparr>fs_defs := fs_defs fs @ [transferDef t], fs_handlers := (fs_handlers fs)(transferName t \<mapsto> wrapFunc decode (transferFunc t))\<rparr>"
  have new: "fs_handlers fs (transferName t) = None" "t \<in> members" "buildTransferSource decode from ts members ?fs = Inr fs'"
    using Cons.prems(1) by (auto simp: addToolFunc_def transferDef_def split: if_splits)
  have inv: "funcInv ?fs" using Cons.prems(2) new(1) by (auto simp: funcInv_def transferDef_def)
  from Cons.IH [OF new(3) inv] have ih: "funcInv fs'" "fs_defs fs' = fs_defs fs @ [transferDef t] @ map transferDef ts" "set ts \<subseteq> members"
      "\<forall>n. fs_handlers fs' n = (case find (\<lambda>t. transferName t = n) ts of
        Some t \<Rightarrow> Some (wrapFunc decode (transferFunc t)) | None \<Rightarrow> fs_handlers ?fs n)" by auto
  have "t \<notin> set ts" using ih(1,2) by (auto simp: funcInv_def transferDef_def comp_def)
  then have "find (\<lambda>x. transferName x = transferName t) ts = None" by (auto simp: find_None_iff)
  with ih new(2) show ?case by (auto simp: split: option.split)
qed

lemma transfer_call:
  assumes "buildTransferSource decode from targets members newFuncSource = Inr fs" "decode args = Inr ()"
  shows "funcCall fs name args st =
     (if name \<in> transferName ` set targets
      then (Inr (Some \<lparr>tr_Content = [\<lparr>ct_Type = ''text'', ct_Text = ''Transferring to '' @ drop 12 name @ ''.''\<rparr>],
              tr_StructuredContent = None, tr_IsError = False\<rparr>), (drop 12 name, snd st))
      else (Inl (unknownTool ''%w: %q'' name), st))"
proof -
  have "funcInv (newFuncSource :: 'a handoff funcSource)" by (simp add: funcInv_def newFuncSource_def)
  from buildTransferSource_tools [OF assms(1) this]
  have h: "fs_handlers fs name = (case find (\<lambda>t. transferName t = name) targets of
      Some t \<Rightarrow> Some (wrapFunc decode (transferFunc t)) | None \<Rightarrow> None)"
    by (simp add: newFuncSource_def split: option.split)
  show ?thesis
  proof (cases "find (\<lambda>t. transferName t = name) targets")
    case None
    then have "name \<notin> transferName ` set targets" by (auto simp: find_None_iff)
    with None show ?thesis using h by (simp add: funcCall_def)
  next
    case (Some t)
    then have t: "t \<in> set targets" "transferName t = name" by (auto simp: find_Some_iff)
    then have "t = drop 12 name" by (auto simp: transferName_def)
    moreover have "name \<in> transferName ` set targets" using t by blast
    ultimately show ?thesis using t h Some by (auto simp: funcCall_def wrapFunc_def assms(2) transferFunc_def)
  qed
qed

subsection \<open>The hops of a turn\<close>

text \<open>
  The turns of one team turn: who ran, over which messages, from which state, and with which result. Each
  hop reads the history and all that the earlier hops added, and the member it asked for runs next.
\<close>

record 'w hop =
  hp_name :: string
  hp_msgs :: "message list"
  hp_state :: "'w handoff"
  hp_result :: turnResult
  hp_after :: "'w handoff"

inductive hopChain ::
  "(string \<Rightarrow> message list \<Rightarrow> 'w handoff \<Rightarrow> (goerr + turnResult) \<times> 'w handoff) \<Rightarrow> (string \<Rightarrow> string \<Rightarrow> 'w \<Rightarrow> 'w) \<Rightarrow>
   string \<Rightarrow> message list \<Rightarrow> 'w handoff \<Rightarrow> 'w hop list \<Rightarrow> string \<Rightarrow> message list \<Rightarrow> 'w handoff \<Rightarrow> bool"
  for run onHandoff where
  start: "hopChain run onHandoff name msgs st [] name msgs st"
| step: "run name msgs st = (Inr res, (target, w)) \<Longrightarrow> target \<noteq> [] \<Longrightarrow>
     hopChain run onHandoff target (msgs @ res_Messages res) ([], onHandoff name target w) hops name' msgs' st' \<Longrightarrow>
     hopChain run onHandoff name msgs st (\<lparr>hp_name = name, hp_msgs = msgs, hp_state = st, hp_result = res, hp_after = (target, w)\<rparr> # hops) name' msgs' st'"

definition hopMessages :: "'w hop list \<Rightarrow> message list" where
  "hopMessages hops = concat (map (\<lambda>h. res_Messages (hp_result h)) hops)"

lemma hopChain_msgs: "hopChain run onHandoff name msgs st hops name' msgs' st' \<Longrightarrow> msgs' = msgs @ hopMessages hops"
  by (induction rule: hopChain.induct) (auto simp: hopMessages_def)

text \<open>How a team turn ends, after the hops that handed over.\<close>

definition teamEnds ::
  "(string \<Rightarrow> message list \<Rightarrow> 'w handoff \<Rightarrow> (goerr + turnResult) \<times> 'w handoff) \<Rightarrow> 'w team \<Rightarrow> nat \<Rightarrow> message list \<Rightarrow> 'w hop list \<Rightarrow>
   string \<Rightarrow> message list \<Rightarrow> 'w handoff \<Rightarrow> goerr + turnResult \<Rightarrow> string \<Rightarrow> bool" where
  "teamEnds run t left appended hops name msgs st out active \<longleftrightarrow> active = name \<and>
     (case run name msgs st of
        (Inl e, _) \<Rightarrow> out = Inl e
      | (Inr res, (target, _)) \<Rightarrow>
          if target = [] \<or> te_members t target = None
          then out = Inr (res\<lparr>res_Messages := appended @ hopMessages hops @ res_Messages res\<rparr>)
          else length hops = left \<and> (\<exists>e. out = Inl e \<and> errors_is e ErrMaxHandoffs))"

lemma teamLoop_hops:
  assumes "handoffs \<le> te_maxHandoffs t"
  shows "\<exists>hops name msgs st'. hopChain run onHandoff current work st hops name msgs st' \<and> length hops \<le> te_maxHandoffs t - handoffs \<and>
     (\<forall>h\<in>set hops. te_members t (fst (hp_after h)) \<noteq> None) \<and>
     teamEnds run t (te_maxHandoffs t - handoffs) appended hops name msgs st'
       (fst (fst (teamLoop run onHandoff t handoffs current work appended st)))
       (snd (fst (teamLoop run onHandoff t handoffs current work appended st)))"
  using assms
proof (induction run onHandoff t handoffs current work appended st rule: teamLoop.induct)
  case (1 run onHandoff t handoffs current work appended st)
  obtain r target w where r: "run current work st = (r, (target, w))" by (metis prod.collapse)
  show ?case
  proof (cases "\<exists>res. r = Inr res \<and> target \<noteq> [] \<and> te_members t target \<noteq> None \<and> handoffs < te_maxHandoffs t")
    case False
    have "teamEnds run t (te_maxHandoffs t - handoffs) appended [] current work st
        (fst (fst (teamLoop run onHandoff t handoffs current work appended st)))
        (snd (fst (teamLoop run onHandoff t handoffs current work appended st)))"
      using False r "1.prems"
      by (subst (1 2) teamLoop.simps) (auto simp: teamEnds_def signalTake_def Let_def hopMessages_def split: sum.split)
    then show ?thesis by (intro exI [of _ "[]"] exI [of _ current] exI [of _ work] exI [of _ st]) (auto intro: hopChain.start)
  next
    case True
    then obtain res where res: "r = Inr res" "target \<noteq> []" "te_members t target \<noteq> None" "handoffs < te_maxHandoffs t" by blast
    let ?call = "teamLoop run onHandoff t (Suc handoffs) target (work @ res_Messages res) (appended @ res_Messages res) ([], onHandoff current target w)"
    have eq: "teamLoop run onHandoff t handoffs current work appended st = ?call"
      using r res by (subst teamLoop.simps) (auto simp: signalTake_def Let_def)
    obtain hops name msgs st' where ih: "hopChain run onHandoff target (work @ res_Messages res) ([], onHandoff current target w) hops name msgs st'"
        "length hops \<le> te_maxHandoffs t - Suc handoffs" "\<forall>h\<in>set hops. te_members t (fst (hp_after h)) \<noteq> None"
        "teamEnds run t (te_maxHandoffs t - Suc handoffs) (appended @ res_Messages res) hops name msgs st' (fst (fst ?call)) (snd (fst ?call))"
      using "1.IH" [of "Inr res" "(target, w)" res "work @ res_Messages res" "appended @ res_Messages res" target "([], w)"] r res
      by (auto simp: signalTake_def)
    let ?h = "\<lparr>hp_name = current, hp_msgs = work, hp_state = st, hp_result = res, hp_after = (target, w)\<rparr>"
    have "hopChain run onHandoff current work st (?h # hops) name msgs st'"
      using r res ih(1) by (intro hopChain.step) auto
    moreover have "teamEnds run t (te_maxHandoffs t - handoffs) appended (?h # hops) name msgs st' (fst (fst ?call)) (snd (fst ?call))"
      using ih(4) res(4) by (auto simp: teamEnds_def hopMessages_def split: sum.splits if_splits)
    ultimately show ?thesis unfolding eq using ih(2,3) res(3,4)
      by (intro exI [of _ "?h # hops"] exI [of _ name] exI [of _ msgs] exI [of _ st']) auto
  qed
qed

lemma checkNames_names: "checkNames ms names = Inr names' \<Longrightarrow> names' = names \<union> tm_Name ` set ms"
  by (induction ms arbitrary: names) (auto split: if_splits)

lemma addMembers_dom:
  "addMembers decode names ms t = Inr t' \<Longrightarrow>
     dom (te_members t') = dom (te_members t) \<union> tm_Name ` set ms \<and> te_start t' = te_start t \<and> te_maxHandoffs t' = te_maxHandoffs t"
  by (induction ms arbitrary: t) (auto split: sum.splits option.splits)

lemma newTeam_members:
  assumes "newTeam decode cfg = Inr t"
  shows "dom (te_members t) = tm_Name ` set (tf_Members cfg)" "te_start t = tf_Start cfg" "tf_Start cfg \<in> tm_Name ` set (tf_Members cfg)"
    "0 < te_maxHandoffs t"
proof -
  from assms obtain names where names: "checkNames (tf_Members cfg) {} = Inr names" "tf_Start cfg \<in> names"
    and add: "addMembers decode names (tf_Members cfg) \<lparr>te_members = Map.empty, te_order = [], te_start = tf_Start cfg,
                       te_maxHandoffs = nat (if tf_MaxHandoffs cfg \<le> 0 then defaultMaxHandoffs else tf_MaxHandoffs cfg)\<rparr> = Inr t"
    by (auto simp: newTeam_def split: if_splits sum.splits)
  from addMembers_dom [OF add] checkNames_names [OF names(1)] names(2)
  show "dom (te_members t) = tm_Name ` set (tf_Members cfg)" "te_start t = tf_Start cfg" "tf_Start cfg \<in> tm_Name ` set (tf_Members cfg)"
    "0 < te_maxHandoffs t"
    by auto
qed

lemma hopChain_declared:
  assumes "hopChain run onHandoff name msgs st hops name' msgs' st'" "fst st = []"
    and "\<And>name msgs st r st'. run name msgs st = (r, st') \<Longrightarrow> fst st' = fst st \<or> D name (fst st')"
  shows "\<forall>h\<in>set hops. D (hp_name h) (fst (hp_after h))"
  using assms(1,2)
proof (induction rule: hopChain.induct)
  case (step name msgs st res target w hops name' msgs' st')
  then show ?case using assms(3) [OF step.hyps(1)] by auto
qed simp

lemma hopChain_last:
  assumes "hopChain run onHandoff name msgs st hops name' msgs' st'" "\<forall>h\<in>set hops. te_members t (fst (hp_after h)) \<noteq> None"
    and "te_members t name \<noteq> None"
  shows "te_members t name' \<noteq> None"
  using assms by (induction rule: hopChain.induct) auto


subsection \<open>A team that hands over once\<close>

definition exTeam :: "nat teamConfig" where
  "exTeam = \<lparr>tf_Members = [\<lparr>tm_Name = ''desk'', tm_Tools = None, tm_HandoffTo = [''law''], tm_Runner = None\<rparr>,
                            \<lparr>tm_Name = ''law'', tm_Tools = None, tm_HandoffTo = [], tm_Runner = None\<rparr>],
              tf_Start = ''desk'', tf_MaxHandoffs = 0\<rparr>"

definition exHopResult :: "string \<Rightarrow> turnResult" where
  "exHopResult t = \<lparr>res_Text = t, res_Messages = [textMessage RoleAssistant t], res_Usage = zeroUsage, res_UsageByModel = None, res_Steps = 1,
     res_FinishReason = ''stop'', res_Structured = [], res_StructuredError = []\<rparr>"

definition exMemberRun :: "string \<Rightarrow> message list \<Rightarrow> nat handoff \<Rightarrow> (goerr + turnResult) \<times> nat handoff" where
  "exMemberRun name msgs st =
     (if name = ''desk'' then (Inr (exHopResult name), (''law'', Suc (snd st))) else (Inr (exHopResult name), (fst st, Suc (snd st))))"


subsection \<open>Fan-out and background agents\<close>

lemma fanOutRun_slots:
  assumes "distinct sched" "set sched \<subseteq> {..<length ms}" "length slots = length ms"
    and "fanOutRun call ms sched slots ctx w = (slots', ctx', w')"
  shows "length slots' = length ms \<and> (\<forall>i<length ms. if i \<in> set sched
     then \<exists>c v. slots' ! i = Some (fanOutOutcome (ag_Name (ms ! i)) (fst (call (ms ! i) c v))) else slots' ! i = slots ! i)"
  using assms
proof (induction sched arbitrary: slots ctx w)
  case Nil
  then show ?case by simp
next
  case (Cons j sched)
  obtain r ctx1 w1 where r: "call (ms ! j) ctx w = (r, ctx1, w1)" by (metis prod.collapse)
  let ?slots = "slots[j := Some (fanOutOutcome (ag_Name (ms ! j)) r)]"
  have ih: "length slots' = length ms \<and> (\<forall>i<length ms. if i \<in> set sched
     then \<exists>c v. slots' ! i = Some (fanOutOutcome (ag_Name (ms ! i)) (fst (call (ms ! i) c v))) else slots' ! i = ?slots ! i)"
    by (rule Cons.IH) (use Cons.prems r in auto)
  have j: "j < length ms" "j \<notin> set sched" using Cons.prems by auto
  have "\<exists>c v. slots' ! j = Some (fanOutOutcome (ag_Name (ms ! j)) (fst (call (ms ! j) c v)))"
    using ih j Cons.prems(3) r by (intro exI [of _ ctx] exI [of _ w]) auto
  with ih j show ?case by (auto simp: nth_list_update split: if_splits)
qed

text \<open>
  In whatever order the members' calls take effect, every member is asked, each result stands in the member's
  own place, and a member's failure becomes text: the tool itself succeeds.
\<close>

lemma fanOutCall_every_member:
  assumes "name = fn_Name s" "encode args = Inr raw" "task raw = Some tk" "trimSpace tk \<noteq> []"
    and "distinct sched" "set sched = {..<length (fn_Members s)}"
  shows "\<exists>rs ctx' w'. fanOutCall encode task run sched s name args ctx w =
       (Inr (Some \<lparr>tr_Content = [\<lparr>ct_Type = ''text'', ct_Text = fn_Aggregate s rs\<rparr>], tr_StructuredContent = None, tr_IsError = False\<rparr>), ctx', w') \<and>
     length rs = length (fn_Members s) \<and>
     (\<forall>i<length (fn_Members s). \<exists>c v. rs ! i = fanOutOutcome (ag_Name (fn_Members s ! i))
        (fst (agentCall encode task (run (fn_Members s ! i)) (fn_Members s ! i) (ag_Name (fn_Members s ! i)) args c v)))"
proof -
  let ?ms = "fn_Members s"
  let ?call = "\<lambda>m. agentCall encode task (run m) m (ag_Name m) args"
  obtain slots ctx' w' where f: "fanOutRun ?call ?ms sched (replicate (length ?ms) None) ctx w = (slots, ctx', w')" by (rule prod_cases3)
  have sl: "length slots = length ?ms \<and> (\<forall>i<length ?ms. \<exists>c v. slots ! i = Some (fanOutOutcome (ag_Name (?ms ! i)) (fst (?call (?ms ! i) c v))))"
    using fanOutRun_slots [OF assms(5) _ _ f] assms(6) by auto
  have "\<exists>c v. map the slots ! i = fanOutOutcome (ag_Name (?ms ! i)) (fst (?call (?ms ! i) c v))" if "i < length ?ms" for i
  proof -
    obtain c v where "slots ! i = Some (fanOutOutcome (ag_Name (?ms ! i)) (fst (?call (?ms ! i) c v)))" using sl \<open>i < length ?ms\<close> by blast
    moreover have "i < length slots" using sl that by simp
    ultimately show ?thesis by (intro exI [of _ c] exI [of _ v]) simp
  qed
  moreover have "fanOutCall encode task run sched s name args ctx w =
      (Inr (Some \<lparr>tr_Content = [\<lparr>ct_Type = ''text'', ct_Text = fn_Aggregate s (map the slots)\<rparr>], tr_StructuredContent = None, tr_IsError = False\<rparr>), ctx', w')"
    using f assms(1-4) by (simp add: fanOutCall_def)
  moreover have "length (map the slots) = length ?ms" using sl by simp
  ultimately show ?thesis by blast
qed

text \<open>Starting an agent in the background applies the guards of a blocking call, and starts the same child.\<close>

lemma asyncCall_refused:
  "asyncCall encode task s name args ctx = (r, ctx1, None) \<Longrightarrow> agentCall encode task run s name args ctx w = (r, ctx1, w)"
  unfolding asyncCall_def agentCall_def
  by (simp split: if_split_asm prod.split_asm bool.split_asm sum.split_asm option.split_asm)

lemma asyncCall_started:
  assumes "asyncCall encode task s name args ctx = (r, ctx1, Some (child, msgs))"
  shows "\<exists>res. agentCall encode task run s name args ctx w = (Inr (Some res), ctx1, snd (run child msgs w))"
  using assms unfolding asyncCall_def agentCall_def
  by (simp split: if_split_asm prod.split_asm bool.split_asm sum.split_asm option.split_asm) (auto split: prod.split sum.split)

end
