(* ===== verification/Filepath.thy ===== *)
theory Filepath
  imports Prelude "HOL-Library.Sublist"
begin

text \<open>
  The functions of \<^verbatim>\<open>path/filepath\<close> that the extensions use to keep a path inside a root, on a system whose
  separator is the slash. A cleaned path is given by its components.
\<close>

definition isAbs :: "string \<Rightarrow> bool" where
  "isAbs p \<longleftrightarrow> hasPrefix p ''/''"

text \<open>\<^verbatim>\<open>filepath.Base\<close> on a system whose separator is the slash.\<close>

definition filepathBase :: "string \<Rightarrow> string" where
  "filepathBase p =
     (if p = [] then ''.''
      else (let r = dropWhile (\<lambda>c. c = CHR ''/'') (rev p)
            in if r = [] then ''/'' else rev (takeWhile (\<lambda>c. c \<noteq> CHR ''/'') r)))"

definition cleanStep :: "bool \<Rightarrow> string \<Rightarrow> string list \<Rightarrow> string list" where
  "cleanStep rooted c st =
     (if c = [] \<or> c = ''.'' then st
      else if c = ''..'' then
        (if st \<noteq> [] \<and> last st \<noteq> ''..'' then butlast st else if rooted then st else st @ [''..''])
      else st @ [c])"

definition pathComps :: "string \<Rightarrow> string list" where
  "pathComps p = fold (cleanStep (isAbs p)) (strSplit (CHR ''/'') p) []"

definition renderPath :: "bool \<Rightarrow> string list \<Rightarrow> string" where
  "renderPath rooted cs =
     (if rooted then ''/'' @ strJoin cs ''/'' else if cs = [] then ''.'' else strJoin cs ''/'')"

definition filepathClean :: "string \<Rightarrow> string" where
  "filepathClean p = renderPath (isAbs p) (pathComps p)"

text \<open>\<^verbatim>\<open>filepath.Join\<close> of two elements.\<close>

definition filepathJoin :: "string \<Rightarrow> string \<Rightarrow> string" where
  "filepathJoin a b =
     (if a \<noteq> [] then filepathClean (a @ ''/'' @ b) else if b \<noteq> [] then filepathClean b else [])"

text \<open>\<^verbatim>\<open>filepath.Dir\<close>: the cleaned text up to the last slash.\<close>

definition filepathDir :: "string \<Rightarrow> string" where
  "filepathDir p = filepathClean (rev (dropWhile (\<lambda>c. c \<noteq> CHR ''/'') (rev p)))"

text \<open>\<^verbatim>\<open>filepath.Rel\<close> of two absolute paths: up out of the base, then down; it does not fail on them.\<close>

fun stripCommon :: "string list \<Rightarrow> string list \<Rightarrow> string list \<times> string list" where
  "stripCommon (b # bs) (t # ts) = (if b = t then stripCommon bs ts else (b # bs, t # ts))"
| "stripCommon bs ts = (bs, ts)"

definition filepathRel :: "string \<Rightarrow> string \<Rightarrow> string" where
  "filepathRel base targ =
     (let bs = pathComps base; ts = pathComps targ
      in if bs = ts then ''.''
         else case stripCommon bs ts of (up, down) \<Rightarrow> strJoin (replicate (length up) ''..'' @ down) ''/'')"

definition climbs :: "string \<Rightarrow> bool" where
  "climbs rel \<longleftrightarrow> rel = ''..'' \<or> hasPrefix rel ''../''"

section \<open>Components\<close>

text \<open>Components of a cleaned path: names, after climbs at the start when the path is relative.\<close>

definition nameComp :: "string \<Rightarrow> bool" where
  "nameComp c \<longleftrightarrow> c \<noteq> [] \<and> c \<noteq> ''.'' \<and> c \<noteq> ''..'' \<and> CHR ''/'' \<notin> set c"

definition cleanComps :: "bool \<Rightarrow> string list \<Rightarrow> bool" where
  "cleanComps rooted cs \<longleftrightarrow>
     (\<exists>k names. cs = replicate k ''..'' @ names \<and> list_all nameComp names \<and> (rooted \<longrightarrow> k = 0))"

lemma cleanStep_clean:
  assumes "cleanComps rooted cs" "CHR ''/'' \<notin> set c"
  shows "cleanComps rooted (cleanStep rooted c cs)"
proof -
  obtain k names where cs: "cs = replicate k ''..'' @ names" "list_all nameComp names" "rooted \<longrightarrow> k = 0"
    using assms(1) by (auto simp: cleanComps_def)
  show ?thesis
  proof (cases "c = [] \<or> c = ''.''")
    case False
    show ?thesis
    proof (cases "c = ''..''")
      case True
      show ?thesis
      proof (cases names rule: rev_cases)
        case Nil
        have "last (replicate k ''..'') = ''..''" if "k \<noteq> 0" using that by simp
        then have "cleanStep rooted c cs = (if rooted then [] else replicate (Suc k) ''..'')"
          using True Nil cs by (cases k) (auto simp: cleanStep_def replicate_append_same)
        then show ?thesis by (auto simp: cleanComps_def intro: exI [of _ "Suc k"])
      next
        case (snoc ns n)
        then have "cleanStep rooted c cs = replicate k ''..'' @ ns"
          using True cs by (auto simp: cleanStep_def butlast_append nameComp_def)
        then show ?thesis using snoc cs by (auto simp: cleanComps_def)
      qed
    next
      case ne: False
      then have "cleanStep rooted c cs = replicate k ''..'' @ (names @ [c])" using False cs by (simp add: cleanStep_def)
      then show ?thesis using cs False ne assms(2) unfolding cleanComps_def
        by (intro exI [of _ k] exI [of _ "names @ [c]"]) (simp add: nameComp_def)
    qed
  qed (use assms in \<open>auto simp: cleanStep_def\<close>)
qed

lemma fold_cleanStep_clean:
  "\<forall>c\<in>set cs. CHR ''/'' \<notin> set c \<Longrightarrow> cleanComps rooted st \<Longrightarrow> cleanComps rooted (fold (cleanStep rooted) cs st)"
  by (induction cs arbitrary: st) (auto intro: cleanStep_clean)

lemma pathComps_clean: "cleanComps (isAbs p) (pathComps p)"
  unfolding pathComps_def
  by (rule fold_cleanStep_clean) (use strSplit_no_sep in \<open>auto simp: cleanComps_def\<close>)

lemma abs_names: "isAbs p \<Longrightarrow> list_all nameComp (pathComps p)"
  using pathComps_clean [of p] by (auto simp: cleanComps_def)

lemma fold_cleanStep_names: "list_all nameComp cs \<Longrightarrow> fold (cleanStep rooted) cs st = st @ cs"
  by (induction cs arbitrary: st) (auto simp: cleanStep_def nameComp_def)

lemma names_no_slash: "list_all nameComp cs \<Longrightarrow> list_all (\<lambda>l. CHR ''/'' \<notin> set l) cs"
  by (auto simp: list_all_iff nameComp_def)

lemma renderPath_abs: "isAbs (renderPath True cs)"
  by (simp add: renderPath_def isAbs_def hasPrefix_def)

lemma pathComps_renderPath:
  assumes "list_all nameComp cs"
  shows "pathComps (renderPath True cs) = cs"
proof (cases "cs = []")
  case True
  then show ?thesis by (simp add: pathComps_def renderPath_def cleanStep_def)
next
  case False
  have "strSplit (CHR ''/'') (renderPath True cs) = [] # cs"
    using strSplit_strJoin [OF False names_no_slash [OF assms]] by (simp add: renderPath_def)
  then show ?thesis
    using fold_cleanStep_names [OF assms] by (simp add: pathComps_def cleanStep_def renderPath_abs [unfolded isAbs_def] isAbs_def)
qed

lemma clean_abs: "isAbs p \<Longrightarrow> isAbs (filepathClean p) \<and> pathComps (filepathClean p) = pathComps p"
  using pathComps_renderPath [OF abs_names] renderPath_abs by (simp add: filepathClean_def)

lemma pathComps_join:
  assumes "isAbs a"
  shows "isAbs (filepathJoin a b) \<and> pathComps (filepathJoin a b) = fold (cleanStep True) (strSplit (CHR ''/'') b) (pathComps a)"
proof -
  have ne: "a \<noteq> []" and ab: "isAbs (a @ ''/'' @ b)" using assms by (auto simp: isAbs_def hasPrefix_iff)
  have "pathComps (a @ ''/'' @ b) = fold (cleanStep True) (strSplit (CHR ''/'') b) (pathComps a)"
    using ab assms strSplit_two [of "CHR ''/''" a b] by (simp add: pathComps_def)
  then show ?thesis using clean_abs [OF ab] ne by (simp add: filepathJoin_def)
qed

section \<open>Containment\<close>

lemma stripCommon_spec: "stripCommon bs ts = (up, down) \<Longrightarrow> \<exists>cs. bs = cs @ up \<and> ts = cs @ down \<and> (up = [] \<or> down = [] \<or> hd up \<noteq> hd down)"
proof (induction bs ts rule: stripCommon.induct)
  case (1 b bs t ts)
  show ?case
  proof (cases "b = t")
    case True
    then obtain cs where "bs = cs @ up" "ts = cs @ down" "up = [] \<or> down = [] \<or> hd up \<noteq> hd down" using 1 by auto
    then show ?thesis using True by (intro exI [of _ "b # cs"]) simp
  next
    case False
    then show ?thesis using "1.prems" by (intro exI [of _ "[]"]) auto
  qed
qed auto

lemma climbs_strJoin_names:
  assumes "list_all nameComp ts" "ts \<noteq> []"
  shows "\<not> climbs (strJoin ts ''/'')"
proof -
  obtain t rest where t: "ts = t # rest" using assms(2) by (cases ts) auto
  have n: "nameComp t" using assms(1) t by simp
  show ?thesis
  proof (cases rest)
    case Nil
    have "CHR ''/'' \<notin> set t" "t \<noteq> ''..''" using n by (auto simp: nameComp_def)
    then show ?thesis using t Nil by (auto simp: climbs_def hasPrefix_iff)
  next
    case (Cons r rs)
    have "t = ''..''" if "t @ CHR ''/'' # x = CHR ''.'' # CHR ''.'' # CHR ''/'' # y" for x y
      using that n by (auto simp: nameComp_def Cons_eq_append_conv append_eq_Cons_conv)
    moreover have "t @ CHR ''/'' # x \<noteq> ''..''" for x using n by (auto simp: nameComp_def append_eq_Cons_conv)
    ultimately show ?thesis using t Cons n by (auto simp: climbs_def hasPrefix_iff nameComp_def)
  qed
qed

lemma climbs_up: "climbs (strJoin (replicate (Suc n) ''..'' @ down) ''/'')"
  by (cases "replicate n ''..'' @ down") (auto simp: climbs_def hasPrefix_def)

text \<open>The text test the code makes is containment of components.\<close>

lemma rel_inside:
  assumes "isAbs base" "isAbs targ"
  shows "\<not> climbs (filepathRel base targ) \<longleftrightarrow> prefix (pathComps base) (pathComps targ)"
proof (cases "pathComps base = pathComps targ")
  case True
  then show ?thesis by (simp add: filepathRel_def climbs_def hasPrefix_def)
next
  case False
  obtain up down where s: "stripCommon (pathComps base) (pathComps targ) = (up, down)" by fastforce
  then obtain cs where cs: "pathComps base = cs @ up" "pathComps targ = cs @ down" "up = [] \<or> down = [] \<or> hd up \<noteq> hd down"
    using stripCommon_spec by blast
  have rel: "filepathRel base targ = strJoin (replicate (length up) ''..'' @ down) ''/''" using False s by (simp add: filepathRel_def)
  show ?thesis
  proof (cases up)
    case Nil
    then have "down \<noteq> []" "list_all nameComp down" using False cs abs_names [OF assms(2)] by auto
    then show ?thesis using rel climbs_strJoin_names [of down] cs Nil by simp
  next
    case (Cons u us)
    have "\<not> prefix (cs @ up) (cs @ down)" using cs(3) Cons by (cases down) auto
    then show ?thesis using rel climbs_up [of "length us" down] Cons cs by simp
  qed
qed

lemma names_rel: "isAbs base \<Longrightarrow> isAbs targ \<Longrightarrow> pathComps targ = pathComps base @ down \<Longrightarrow>
  filepathRel base targ = (if down = [] then ''.'' else strJoin down ''/'')"
proof -
  assume a: "pathComps targ = pathComps base @ down"
  have "stripCommon bs (bs @ ds) = ([], ds)" for bs ds by (induction bs) (cases ds, simp_all)
  then show ?thesis using a by (auto simp: filepathRel_def)
qed

end
