(* ===== verification/FileRoot.thy ===== *)
theory FileRoot
  imports Filepath
begin

text \<open>
  The files of the workspace roots, as the tools of \<^verbatim>\<open>src/ext/files/tools.go\<close> reach them through \<^verbatim>\<open>os.Root\<close>
  handles: which root a path belongs to, and the replacement of a file by a temporary file and a
  rename. A file is named by its root and its cleaned path in it; links are not modelled. Every operation
  on a handle may fail: \<open>fw_faults\<close> says which ones do, with the text of the error and, for a write,
  how many bytes reached the file.
\<close>

datatype fsErrKind = NotExist | Exists | OtherFault
datatype fsErr = FsErr (fe_kind: fsErrKind) (fe_text: string)

datatype fsNode = FileNode string nat | OtherNode

type_synonym fileAt = "nat \<times> string"

record fsWorld =
  fw_nodes :: "fileAt \<Rightarrow> fsNode option"
  fw_faults :: "nat \<Rightarrow> (string \<times> nat) option"
  fw_ops :: nat
  fw_rand :: "nat \<Rightarrow> nat"
  fw_draws :: nat

definition tick :: "fsWorld \<Rightarrow> fsWorld" where
  "tick w = w\<lparr>fw_ops := Suc (fw_ops w)\<rparr>"

definition fault :: "fsWorld \<Rightarrow> fsErr option" where
  "fault w = map_option (\<lambda>(e, _). FsErr OtherFault e) (fw_faults w (fw_ops w))"

definition setNode :: "fileAt \<Rightarrow> fsNode option \<Rightarrow> fsWorld \<Rightarrow> fsWorld" where
  "setNode a n w = w\<lparr>fw_nodes := (fw_nodes w)(a := n)\<rparr>"

definition noSuch :: "string \<Rightarrow> string \<Rightarrow> fsErr" where
  "noSuch op p = FsErr NotExist (op @ '' '' @ p @ '': no such file or directory'')"

definition fsStat :: "fileAt \<Rightarrow> fsWorld \<Rightarrow> (fsErr + fsNode) \<times> fsWorld" where
  "fsStat a w =
     (case fault w of
        Some e \<Rightarrow> (Inl e, tick w)
      | None \<Rightarrow> (case fw_nodes w a of None \<Rightarrow> (Inl (noSuch ''statat'' (snd a)), tick w) | Some n \<Rightarrow> (Inr n, tick w)))"

definition fsReadFile :: "fileAt \<Rightarrow> fsWorld \<Rightarrow> (fsErr + string) \<times> fsWorld" where
  "fsReadFile a w =
     (case fault w of
        Some e \<Rightarrow> (Inl e, tick w)
      | None \<Rightarrow>
          (case fw_nodes w a of
             None \<Rightarrow> (Inl (noSuch ''openat'' (snd a)), tick w)
           | Some OtherNode \<Rightarrow> (Inl (FsErr OtherFault (''read '' @ snd a @ '': is a directory'')), tick w)
           | Some (FileNode c m) \<Rightarrow> (Inr c, tick w)))"

definition fsRemove :: "fileAt \<Rightarrow> fsWorld \<Rightarrow> fsErr option \<times> fsWorld" where
  "fsRemove a w =
     (case fault w of
        Some e \<Rightarrow> (Some e, tick w)
      | None \<Rightarrow>
          (case fw_nodes w a of
             None \<Rightarrow> (Some (noSuch ''removeat'' (snd a)), tick w)
           | Some OtherNode \<Rightarrow> (Some (FsErr OtherFault (''removeat '' @ snd a @ '': directory not empty'')), tick w)
           | Some (FileNode c m) \<Rightarrow> (None, setNode a None (tick w))))"

text \<open>A directory with its parents, and \<^verbatim>\<open>MkdirAll\<close>, which keeps the ones there are.\<close>

definition dirsOf :: "string \<Rightarrow> string list" where
  "dirsOf d = map (renderPath False) (tl (prefixes (pathComps d)))"

definition fsMkdirAll :: "nat \<Rightarrow> string \<Rightarrow> fsWorld \<Rightarrow> fsErr option \<times> fsWorld" where
  "fsMkdirAll r d w =
     (case fault w of
        Some e \<Rightarrow> (Some e, tick w)
      | None \<Rightarrow>
          if list_ex (\<lambda>p. fw_nodes w (r, p) \<notin> {None, Some OtherNode}) (dirsOf d)
          then (Some (FsErr OtherFault (''mkdirat '' @ d @ '': not a directory'')), tick w)
          else (None, fold (\<lambda>p. setNode (r, p) (Some OtherNode)) (dirsOf d) (tick w)))"

definition dirThere :: "nat \<Rightarrow> string \<Rightarrow> fsWorld \<Rightarrow> bool" where
  "dirThere r d w \<longleftrightarrow> d = ''.'' \<or> fw_nodes w (r, d) = Some OtherNode"

text \<open>\<^verbatim>\<open>OpenFile\<close> with create and exclusive.\<close>

definition fsCreate :: "fileAt \<Rightarrow> nat \<Rightarrow> fsWorld \<Rightarrow> fsErr option \<times> fsWorld" where
  "fsCreate a mode w =
     (case fault w of
        Some e \<Rightarrow> (Some e, tick w)
      | None \<Rightarrow>
          if fw_nodes w a \<noteq> None then (Some (FsErr Exists (''openat '' @ snd a @ '': file exists'')), tick w)
          else if \<not> dirThere (fst a) (filepathDir (snd a)) w then (Some (noSuch ''openat'' (snd a)), tick w)
          else (None, setNode a (Some (FileNode [] mode)) (tick w)))"

text \<open>Writing, changing the mode and closing the file just created at \<open>a\<close>.\<close>

definition fsWrite :: "fileAt \<Rightarrow> string \<Rightarrow> nat \<Rightarrow> fsWorld \<Rightarrow> fsErr option \<times> fsWorld" where
  "fsWrite a content mode w =
     (case fw_faults w (fw_ops w) of
        Some (e, k) \<Rightarrow> (Some (FsErr OtherFault e), setNode a (Some (FileNode (take k content) mode)) (tick w))
      | None \<Rightarrow> (None, setNode a (Some (FileNode content mode)) (tick w)))"

definition fsChmod :: "fileAt \<Rightarrow> string \<Rightarrow> nat \<Rightarrow> fsWorld \<Rightarrow> fsErr option \<times> fsWorld" where
  "fsChmod a content mode w =
     (case fault w of Some e \<Rightarrow> (Some e, tick w) | None \<Rightarrow> (None, setNode a (Some (FileNode content mode)) (tick w)))"

definition fsClose :: "fsWorld \<Rightarrow> fsErr option \<times> fsWorld" where
  "fsClose w = (fault w, tick w)"

definition fsRename :: "fileAt \<Rightarrow> fileAt \<Rightarrow> fsWorld \<Rightarrow> fsErr option \<times> fsWorld" where
  "fsRename a b w =
     (case fault w of
        Some e \<Rightarrow> (Some e, tick w)
      | None \<Rightarrow>
          if fw_nodes w b = Some OtherNode then (Some (FsErr OtherFault (''renameat '' @ snd b @ '': file exists'')), tick w)
          else (None, setNode b (fw_nodes w a) (setNode a None (tick w))))"

section \<open>Replacing a file\<close>

definition tempName :: "string \<Rightarrow> nat \<Rightarrow> string" where
  "tempName dir n = filepathJoin dir (''.files-'' @ dec_nat n @ ''.tmp'')"

fun openTemp :: "nat \<Rightarrow> nat \<Rightarrow> string \<Rightarrow> nat \<Rightarrow> fsWorld \<Rightarrow> (fsErr + string) \<times> fsWorld" where
  "openTemp left r dir mode w =
     (let tmp = tempName dir (fw_rand w (fw_draws w));
          w = w\<lparr>fw_draws := Suc (fw_draws w)\<rparr>
      in case fsCreate (r, tmp) mode w of
           (None, w') \<Rightarrow> (Inr tmp, w')
         | (Some e, w') \<Rightarrow>
             (if fe_kind e \<noteq> Exists then (Inl e, w')
              else case left of 0 \<Rightarrow> (Inl e, w') | Suc k \<Rightarrow> openTemp k r dir mode w'))"

declare openTemp.simps [simp del]

text \<open>The deferred removal of the temporary file ignores its error.\<close>

definition dropTemp :: "fileAt \<Rightarrow> fsErr option \<times> fsWorld \<Rightarrow> fsErr option \<times> fsWorld" where
  "dropTemp tmp res = (fst res, snd (fsRemove tmp (snd res)))"

definition writeThroughRoot :: "fileAt \<Rightarrow> string \<Rightarrow> nat \<Rightarrow> fsWorld \<Rightarrow> fsErr option \<times> fsWorld" where
  "writeThroughRoot a content mode w =
     (case openTemp 10 (fst a) (filepathDir (snd a)) mode w of
        (Inl e, w1) \<Rightarrow> (Some e, w1)
      | (Inr tmp, w1) \<Rightarrow>
          dropTemp (fst a, tmp)
            (case fsWrite (fst a, tmp) content mode w1 of
               (Some e, w2) \<Rightarrow> (Some e, snd (fsClose w2))
             | (None, w2) \<Rightarrow>
                 (case fsChmod (fst a, tmp) content mode w2 of
                    (Some e, w3) \<Rightarrow> (Some e, snd (fsClose w3))
                  | (None, w3) \<Rightarrow>
                      (case fsClose w3 of
                         (Some e, w4) \<Rightarrow> (Some e, w4)
                       | (None, w4) \<Rightarrow> fsRename (fst a, tmp) a w4))))"

definition mkdirFor :: "fileAt \<Rightarrow> fsWorld \<Rightarrow> fsErr option \<times> fsWorld" where
  "mkdirFor a w =
     (let dir = filepathDir (snd a) in if dir \<noteq> ''.'' then fsMkdirAll (fst a) dir w else (None, w))"

section \<open>Which root a path belongs to\<close>

definition outsideErr :: "string \<Rightarrow> goerr" where
  "outsideErr path = Errorf ''refusing %s: outside every workspace root'' [path] None"

definition resolve :: "string list \<Rightarrow> string \<Rightarrow> goerr + fileAt" where
  "resolve roots path =
     (if path = [] then Inl (ErrNew ''empty path'')
      else if isAbs path then
        (let clean = filepathClean path
         in case find (\<lambda>i. \<not> climbs (filepathRel (roots ! i) clean)) [0 ..< length roots] of
              Some i \<Rightarrow> Inr (i, filepathRel (roots ! i) clean)
            | None \<Rightarrow> Inl (outsideErr path))
      else (let rel = filepathClean path
            in if climbs rel then Inl (outsideErr path) else Inr (0, rel)))"

definition absPath :: "string list \<Rightarrow> fileAt \<Rightarrow> string" where
  "absPath roots a = filepathJoin (roots ! fst a) (snd a)"

definition escapeMessage :: "string \<Rightarrow> fsErr \<Rightarrow> string" where
  "escapeMessage path e =
     (if strContains (fe_text e) ''escapes from parent'' then errText (outsideErr path)
      else ''cannot access '' @ path @ '': '' @ fe_text e)"

section \<open>A replacement happens or does not\<close>

definition tempFile :: "fileAt \<Rightarrow> bool" where
  "tempFile a \<longleftrightarrow> (\<exists>dir n. snd a = tempName dir n)"

text \<open>What a caller can see of a file: its text and its mode.\<close>

definition fileOf :: "fsWorld \<Rightarrow> fileAt \<Rightarrow> (string \<times> nat) option" where
  "fileOf w a = (case fw_nodes w a of Some (FileNode c m) \<Rightarrow> Some (c, m) | _ \<Rightarrow> None)"

definition sameFiles :: "fsWorld \<Rightarrow> fsWorld \<Rightarrow> bool" where
  "sameFiles w w' \<longleftrightarrow> (\<forall>a. \<not> tempFile a \<longrightarrow> fw_nodes w' a = fw_nodes w a)"

lemma tick_nodes [simp]: "fw_nodes (tick w) = fw_nodes w"
  by (simp add: tick_def)

lemma setNode_nodes [simp]: "fw_nodes (setNode a n w) = (fw_nodes w)(a := n)"
  by (simp add: setNode_def)

lemma tempName_temp [simp]: "tempFile (r, tempName dir n)"
  by (auto simp: tempFile_def)

lemma sameFiles_refl [simp]: "sameFiles w w"
  by (simp add: sameFiles_def)

lemma sameFiles_trans: "sameFiles w w1 \<Longrightarrow> sameFiles w1 w2 \<Longrightarrow> sameFiles w w2"
  by (simp add: sameFiles_def)

lemma fsCreate_temp: "tempFile a \<Longrightarrow> sameFiles w (snd (fsCreate a mode w))"
  by (auto simp: fsCreate_def sameFiles_def split: option.splits)

lemma fsRemove_temp: "tempFile a \<Longrightarrow> sameFiles w (snd (fsRemove a w))"
  by (auto simp: fsRemove_def sameFiles_def split: option.splits fsNode.splits)

lemma openTemp_same:
  "openTemp left r dir mode w = (res, w') \<Longrightarrow> sameFiles w w' \<and> (\<forall>tmp. res = Inr tmp \<longrightarrow> tempFile (r, tmp))"
proof (induction left arbitrary: w)
  case 0
  obtain e w1 where c: "fsCreate (r, tempName dir (fw_rand w (fw_draws w))) mode (w\<lparr>fw_draws := Suc (fw_draws w)\<rparr>) = (e, w1)"
    by fastforce
  have "sameFiles (w\<lparr>fw_draws := Suc (fw_draws w)\<rparr>) w1" using fsCreate_temp c by (metis snd_conv tempName_temp)
  then show ?case using 0 c by (auto simp: openTemp.simps [of 0] sameFiles_def Let_def split: option.splits if_splits)
next
  case (Suc left)
  obtain e w1 where c: "fsCreate (r, tempName dir (fw_rand w (fw_draws w))) mode (w\<lparr>fw_draws := Suc (fw_draws w)\<rparr>) = (e, w1)"
    by fastforce
  have s: "sameFiles w w1" using fsCreate_temp [of _ "w\<lparr>fw_draws := Suc (fw_draws w)\<rparr>"] c by (metis (no_types, lifting) fsWorld.select_convs(1)
    fsWorld.surjective fsWorld.update_convs(5) sameFiles_def snd_conv tempName_temp)
  show ?case
  proof (cases "e = None \<or> fe_kind (the e) \<noteq> Exists")
    case True
    then show ?thesis using Suc.prems c s by (auto simp: openTemp.simps [of "Suc left"] Let_def split: option.splits)
  next
    case False
    then have "openTemp left r dir mode w1 = (res, w')"
      using Suc.prems c by (auto simp: openTemp.simps [of "Suc left"] Let_def)
    then show ?thesis using Suc.IH s sameFiles_trans by blast
  qed
qed

lemma writeThroughRoot_outcome:
  assumes "writeThroughRoot a content mode w = (res, w')" "\<not> tempFile x"
  shows "fw_nodes w' x = (if res = None \<and> x = a then Some (FileNode content mode) else fw_nodes w x)"
proof -
  obtain t w1 where t: "openTemp 10 (fst a) (filepathDir (snd a)) mode w = (t, w1)" by fastforce
  note same = openTemp_same [OF t]
  show ?thesis
  proof (cases t)
    case (Inl e)
    then have "w' = w1" "res = Some e" using assms(1) t by (simp_all add: writeThroughRoot_def)
    then show ?thesis using same assms(2) by (simp add: sameFiles_def del: split_paired_All)
  next
    case (Inr tmp)
    let ?t = "(fst a, tmp)"
    have tmp: "tempFile ?t" "x \<noteq> ?t" using same Inr assms(2) by auto
    have w1: "fw_nodes w1 x = fw_nodes w x" using same assms(2) by (simp add: sameFiles_def del: split_paired_All)
    have rm: "fw_nodes (snd (fsRemove ?t v)) x = fw_nodes v x" for v
      using fsRemove_temp [OF tmp(1), of v] assms(2) by (simp add: sameFiles_def del: split_paired_All)
    show ?thesis
      using assms t Inr tmp(2) w1 rm
      by (auto simp: writeThroughRoot_def dropTemp_def fsWrite_def fsChmod_def fsClose_def fsRename_def
          split: option.splits if_splits)
  qed
qed

lemma fsRemove_outcome:
  "fsRemove a w = (res, w') \<Longrightarrow>
   fw_nodes w' = (if res = None then (fw_nodes w)(a := None) else fw_nodes w) \<and> (res = None \<longrightarrow> fileOf w a \<noteq> None)"
  by (cases "fault w"; cases "fw_nodes w a") (auto simp: fsRemove_def fileOf_def dest: sym split: fsNode.splits)

lemma mkdirFor_outcome:
  assumes "mkdirFor a w = (res, w')"
  shows "fw_nodes w' x = fw_nodes w x \<or> fw_nodes w x \<in> {None, Some OtherNode} \<and> fw_nodes w' x = Some OtherNode"
proof -
  have f: "fw_nodes (fold (\<lambda>p. setNode (r, p) (Some OtherNode)) ps v) x =
      (if x \<in> (\<lambda>p. (r, p)) ` set ps then Some OtherNode else fw_nodes v x)" for r ps v
    by (induction ps arbitrary: v) auto
  show ?thesis
  proof (cases "fw_nodes w' = fw_nodes w")
    case False
    let ?ds = "dirsOf (filepathDir (snd a))"
    have "fault w = None" "\<not> list_ex (\<lambda>p. fw_nodes w (fst a, p) \<notin> {None, Some OtherNode}) ?ds"
      "w' = fold (\<lambda>p. setNode (fst a, p) (Some OtherNode)) ?ds (tick w)"
      using assms False by (auto simp: mkdirFor_def fsMkdirAll_def Let_def split: option.splits if_splits)
    then show ?thesis using f [of "fst a" ?ds "tick w"] by (auto simp: list_ex_iff)
  qed simp
qed

lemma mkdirFor_files: "mkdirFor a w = (res, w') \<Longrightarrow> fileOf w' x = fileOf w x"
  using mkdirFor_outcome [of a w res w' x] by (auto simp: fileOf_def)

lemma writeThroughRoot_files:
  "writeThroughRoot a content mode w = (res, w') \<Longrightarrow> \<not> tempFile x \<Longrightarrow>
   fileOf w' x = (if res = None \<and> x = a then Some (content, mode) else fileOf w x)"
  using writeThroughRoot_outcome [of a content mode w res w' x] by (simp add: fileOf_def)

lemma fsRemove_files:
  "fsRemove a w = (res, w') \<Longrightarrow> fileOf w' x = (if res = None \<and> x = a then None else fileOf w x)"
  using fsRemove_outcome [of a w res w'] by (auto simp: fileOf_def)

text \<open>A temporary file ends in \<^verbatim>\<open>.tmp\<close>.\<close>

lemma join_name:
  assumes "nameComp name"
  shows "\<exists>p. filepathJoin dir name = p @ name"
proof -
  have ns: "CHR ''/'' \<notin> set name" "name \<noteq> []" using assms by (simp_all add: nameComp_def)
  have step: "cleanStep rooted name st = st @ [name]" for rooted st using assms by (simp add: cleanStep_def nameComp_def)
  have render: "\<exists>p. renderPath rooted (cs @ [name]) = p @ name" for rooted cs
    by (cases "cs = []") (auto simp: renderPath_def strJoin_snoc)
  show ?thesis
  proof (cases "dir = []")
    case True
    have "pathComps name = [] @ [name]" using ns step [of "isAbs name" "[]"] by (simp add: pathComps_def strSplit_plain)
    then show ?thesis using render [of "isAbs name" "[]"] True ns by (simp add: filepathJoin_def filepathClean_def)
  next
    case False
    let ?q = "dir @ ''/'' @ name"
    have "strSplit (CHR ''/'') ?q = strSplit (CHR ''/'') dir @ [name]"
      using strSplit_two [of "CHR ''/''" dir name] ns by (simp add: strSplit_plain)
    then have "pathComps ?q = fold (cleanStep (isAbs ?q)) (strSplit (CHR ''/'') dir) [] @ [name]"
      by (simp add: pathComps_def step)
    then show ?thesis using render False by (simp add: filepathJoin_def filepathClean_def)
  qed
qed

lemma dec_nat_no_slash: "CHR ''/'' \<notin> set (dec_nat n)"
  using dec_nat_digits [of n] by (auto simp: list_all_iff is_dec_digit_def)

lemma not_tempFile:
  assumes "\<not> hasSuffix p ''.tmp''"
  shows "\<not> tempFile (r, p)"
proof
  assume "tempFile (r, p)"
  then obtain dir n where p: "p = tempName dir n" by (auto simp: tempFile_def)
  have "nameComp (''.files-'' @ dec_nat n @ ''.tmp'')" using dec_nat_no_slash by (simp add: nameComp_def)
  then obtain q where "p = q @ ''.files-'' @ dec_nat n @ ''.tmp''" using join_name p unfolding tempName_def by blast
  then have "p = (q @ ''.files-'' @ dec_nat n) @ ''.tmp''" by simp
  moreover have "hasSuffix (u @ v) v" for u v by (simp add: hasSuffix_def)
  ultimately show False using assms by metis
qed

section \<open>A resolved path is inside its root\<close>

lemma rel_clean_names:
  assumes "\<not> isAbs p" "p \<noteq> []" "\<not> climbs (filepathClean p)"
  shows "list_all nameComp (pathComps p)"
proof -
  obtain k names where k: "pathComps p = replicate k ''..'' @ names" "list_all nameComp names"
    using pathComps_clean [of p] assms(1) by (auto simp: cleanComps_def)
  have "k = 0"
  proof (rule ccontr)
    assume "k \<noteq> 0"
    then obtain n where "k = Suc n" by (cases k) auto
    then have "filepathClean p = strJoin (replicate (Suc n) ''..'' @ names) ''/''"
      using k assms(1) by (simp add: filepathClean_def renderPath_def)
    then show False using climbs_up assms(3) by simp
  qed
  then show ?thesis using k by simp
qed

lemma pathComps_join_names:
  assumes "isAbs root" "list_all nameComp cs"
  shows "pathComps (filepathJoin root (renderPath False cs)) = pathComps root @ cs \<and> isAbs (filepathJoin root (renderPath False cs))"
proof (cases "cs = []")
  case True
  then show ?thesis using pathComps_join [OF assms(1), of "''.''"] by (simp add: renderPath_def cleanStep_def)
next
  case False
  have "strSplit (CHR ''/'') (renderPath False cs) = cs"
    using strSplit_strJoin [OF False names_no_slash [OF assms(2)]] False by (simp add: renderPath_def)
  then show ?thesis using pathComps_join [OF assms(1)] fold_cleanStep_names [OF assms(2)] by simp
qed

text \<open>
  C33: what \<open>resolve\<close> accepts lies inside the root it names. The components of the absolute path shown to the
  model are those of the root followed by names only, without a climb, and for an absolute path they are
  the components of the path itself. A path with a climb out of every root is refused.
\<close>

theorem resolve_inside_root:
  assumes "roots \<noteq> []" "\<forall>r\<in>set roots. isAbs r" "resolve roots path = Inr a"
  shows "fst a < length roots \<and>
    (\<exists>names. list_all nameComp names \<and> snd a = renderPath False names \<and>
       pathComps (absPath roots a) = pathComps (roots ! fst a) @ names \<and>
       (isAbs path \<longrightarrow> pathComps path = pathComps (roots ! fst a) @ names))"
proof (cases "isAbs path")
  case True
  then obtain i where i: "i < length roots" "\<not> climbs (filepathRel (roots ! i) (filepathClean path))"
      "a = (i, filepathRel (roots ! i) (filepathClean path))"
    using assms(3) by (auto simp: resolve_def Let_def find_Some_iff split: option.splits if_splits)
  have abs: "isAbs (roots ! i)" using assms(2) i(1) by simp
  note cl = clean_abs [OF True]
  obtain down where d: "pathComps path = pathComps (roots ! i) @ down"
    using i(2) rel_inside [OF abs, of "filepathClean path"] cl by (auto simp: prefix_def)
  have n: "list_all nameComp down" using abs_names [OF True] d by simp
  have "snd a = renderPath False down"
    using names_rel [OF abs, of "filepathClean path" down] cl d i(3) by (simp add: renderPath_def)
  then show ?thesis
    using i(1,3) n d pathComps_join_names [OF abs n] by (intro conjI exI [of _ down]) (simp_all add: absPath_def)
next
  case False
  then have a: "a = (0, filepathClean path)" "\<not> climbs (filepathClean path)" "path \<noteq> []"
    using assms(3) by (auto simp: resolve_def Let_def split: if_splits)
  let ?n = "pathComps path"
  have n: "list_all nameComp ?n" using rel_clean_names [OF False] a by simp
  have abs: "isAbs (roots ! 0)" using assms(1,2) by (cases roots) auto
  have "snd a = renderPath False ?n" using a(1) False by (simp add: filepathClean_def)
  then show ?thesis
    using False n a(1) assms(1) pathComps_join_names [OF abs n] by (intro conjI exI [of _ ?n]) (simp_all add: absPath_def)
qed

theorem resolve_inside_root_witness:
  "resolve [''/w/a'', ''/w/b''] ''/w/c/../b/./x.go'' = Inr (1, ''x.go'') \<and>
   resolve [''/w/a'', ''/w/b''] ''/w/ab/x.go'' = Inl (outsideErr ''/w/ab/x.go'') \<and>
   pathComps (absPath [''/w/a'', ''/w/b''] (1, ''x.go'')) = [''w'', ''b'', ''x.go'']"
proof -
  have r: "resolve [''/w/a'', ''/w/b''] ''/w/c/../b/./x.go'' = Inr (1, ''x.go'')"
    "resolve [''/w/a'', ''/w/b''] ''/w/ab/x.go'' = Inl (outsideErr ''/w/ab/x.go'')"
    by code_simp+
  have abs: "\<forall>r\<in>set [''/w/a'', ''/w/b'']. isAbs r" by code_simp
  have "pathComps ''/w/c/../b/./x.go'' = [''w'', ''b'', ''x.go'']" "isAbs ''/w/c/../b/./x.go''" by code_simp+
  then show ?thesis using resolve_inside_root [OF _ abs r(1)] r by auto
qed

end
