(* ===== verification/FileEdit.thy ===== *)
theory FileEdit
  imports Prelude "HOL-Library.Multiset"
begin

text \<open>
  Anchored edits of a file's text, \<^verbatim>\<open>src/ext/files/edit.go\<close> and \<^verbatim>\<open>src/ext/files/hash.go\<close>. SHA-256 is the
  argument \<open>sha\<close>. The sentinel errors are told apart by their text.
\<close>

definition hashLen :: nat where "hashLen = 12"

definition fileHash :: "(string \<Rightarrow> string) \<Rightarrow> string \<Rightarrow> string" where
  "fileHash sha content = take hashLen (hexEncode (sha content))"

definition errStale :: goerr where "errStale = ErrNew ''file changed since it was read''"
definition errAnchorNotFound :: goerr where "errAnchorNotFound = ErrNew ''anchor not found''"
definition errAnchorAmbiguous :: goerr where "errAnchorAmbiguous = ErrNew ''anchor is not unique''"
definition errOverlap :: goerr where "errOverlap = ErrNew ''hunks overlap''"
definition errEmptyAnchor :: goerr where "errEmptyAnchor = ErrNew ''hunk has an empty anchor''"
definition errNoHunks :: goerr where "errNoHunks = ErrNew ''edit has no hunks''"

record hunk =
  hk_Old :: string
  hk_New :: string

record fileEdit =
  ed_ExpectHash :: string
  ed_Hunks :: "hunk list"

text \<open>\<^verbatim>\<open>strings.Count\<close> of a nonempty text: occurrences that do not overlap, from the left.\<close>

function strCount :: "string \<Rightarrow> string \<Rightarrow> nat" where
  "strCount s p =
     (if p = [] then Suc (length s)
      else case strIndex s p of None \<Rightarrow> 0 | Some i \<Rightarrow> Suc (strCount (drop (i + length p) s) p))"
  by pat_completeness auto
termination
proof (relation "measure (\<lambda>(s, p). length s)")
  fix s p i
  assume "p \<noteq> []" "strIndex s p = Some i"
  then show "((drop (i + length p) s, p), s, p) \<in> measure (\<lambda>(s, p). length s)"
    by (cases s) auto
qed simp

declare strCount.simps [simp del]

definition quoteAnchor :: "string \<Rightarrow> string" where
  "quoteAnchor s = go_quote (if length s > 60 then take 60 s @ ''...'' else s)"

record editSpan =
  sn_start :: nat
  sn_end :: nat
  sn_replace :: string

text \<open>The first loop: where each anchor is, or why there is no single place.\<close>

definition hunkSpan :: "string \<Rightarrow> nat \<Rightarrow> hunk \<Rightarrow> goerr + editSpan" where
  "hunkSpan src i h =
     (if hk_Old h = [] then Inl (Errorf ''hunk %d: %w'' [itoa (int i)] (Some errEmptyAnchor))
      else if strCount src (hk_Old h) = 0 then
        Inl (Errorf ''hunk %d: %w: %s'' [itoa (int i), quoteAnchor (hk_Old h)] (Some errAnchorNotFound))
      else if strCount src (hk_Old h) > 1 then
        Inl (Errorf ''hunk %d: %w: %s matches %d places; extend it until it matches one''
          [itoa (int i), quoteAnchor (hk_Old h), itoa (int (strCount src (hk_Old h)))] (Some errAnchorAmbiguous))
      else (let start = the (strIndex src (hk_Old h))
            in Inr \<lparr>sn_start = start, sn_end = start + length (hk_Old h), sn_replace = hk_New h\<rparr>))"

fun hunkSpans :: "string \<Rightarrow> nat \<Rightarrow> hunk list \<Rightarrow> goerr + editSpan list" where
  "hunkSpans src i [] = Inr []"
| "hunkSpans src i (h # hs) =
     (case hunkSpan src i h of
        Inl e \<Rightarrow> Inl e
      | Inr s \<Rightarrow> (case hunkSpans src (Suc i) hs of Inl e \<Rightarrow> Inl e | Inr ss \<Rightarrow> Inr (s # ss)))"

fun spanOverlap :: "editSpan list \<Rightarrow> goerr option" where
  "spanOverlap (a # b # ss) =
     (if sn_start b < sn_end a
      then Some (Errorf ''%w: two hunks both cover offset %d'' [itoa (int (sn_start b))] (Some errOverlap))
      else spanOverlap (b # ss))"
| "spanOverlap _ = None"

fun spliceFrom :: "string \<Rightarrow> nat \<Rightarrow> editSpan list \<Rightarrow> string" where
  "spliceFrom src prev [] = drop prev src"
| "spliceFrom src prev (s # ss) = drop prev (take (sn_start s) src) @ sn_replace s @ spliceFrom src (sn_end s) ss"

definition editApply :: "(string \<Rightarrow> string) \<Rightarrow> fileEdit \<Rightarrow> string \<Rightarrow> goerr + string" where
  "editApply sha e src =
     (if ed_ExpectHash e \<noteq> [] \<and> fileHash sha src \<noteq> ed_ExpectHash e then
        Inl (Errorf ''%w: expected %s, found %s; re-read it before editing'' [ed_ExpectHash e, fileHash sha src] (Some errStale))
      else if ed_Hunks e = [] then Inl errNoHunks
      else case hunkSpans src 0 (ed_Hunks e) of
             Inl err \<Rightarrow> Inl err
           | Inr spans \<Rightarrow>
               (let spans = sort_key sn_start spans
                in case spanOverlap spans of
                     Some err \<Rightarrow> Inl err
                   | None \<Rightarrow> Inr (spliceFrom src 0 spans)))"

section \<open>What an applied edit is\<close>

text \<open>A text cut into pieces: what is kept, and the anchors between.\<close>

fun weave :: "(hunk \<Rightarrow> string) \<Rightarrow> string list \<Rightarrow> hunk list \<Rightarrow> string" where
  "weave f (g # gs) (h # hs) = g @ f h @ weave f gs hs"
| "weave f gs hs = concat gs"

definition spanFor :: "string \<Rightarrow> hunk \<Rightarrow> editSpan" where
  "spanFor src h = (let start = the (strIndex src (hk_Old h))
     in \<lparr>sn_start = start, sn_end = start + length (hk_Old h), sn_replace = hk_New h\<rparr>)"

definition anchorOk :: "string \<Rightarrow> hunk \<Rightarrow> bool" where
  "anchorOk src h \<longleftrightarrow> hk_Old h \<noteq> [] \<and> strCount src (hk_Old h) = 1"

lemma hunkSpan_ok: "hunkSpan src i h = Inr s \<longleftrightarrow> anchorOk src h \<and> s = spanFor src h"
  by (auto simp: hunkSpan_def anchorOk_def spanFor_def Let_def)

lemma hunkSpans_ok: "hunkSpans src i hs = Inr ss \<longleftrightarrow> list_all (anchorOk src) hs \<and> ss = map (spanFor src) hs"
proof (induction hs arbitrary: i ss)
  case (Cons h hs)
  show ?case
  proof (cases "anchorOk src h")
    case True
    then have "hunkSpan src i h = Inr (spanFor src h)" by (simp add: hunkSpan_ok)
    then show ?thesis using True Cons.IH [of "Suc i"] by (cases "hunkSpans src (Suc i) hs") auto
  next
    case False
    then obtain e where "hunkSpan src i h = Inl e" using hunkSpan_ok [of src i h] by (cases "hunkSpan src i h") auto
    then show ?thesis using False by simp
  qed
qed auto

definition before :: "editSpan \<Rightarrow> editSpan \<Rightarrow> bool" where
  "before a b \<longleftrightarrow> sn_end a \<le> sn_start b"

lemma spanOverlap_None:
  "\<forall>s\<in>set ss. sn_start s < sn_end s \<Longrightarrow> spanOverlap ss = None \<longleftrightarrow> sorted_wrt before ss"
proof (induction ss rule: spanOverlap.induct)
  case (1 a b ss)
  have b: "sn_start b < sn_end b" using "1.prems" by simp
  have far: "before a c" if "before a b" "sorted_wrt before (b # ss)" "c \<in> set ss" for c
  proof -
    have "before b c" using that(2,3) by simp
    then show ?thesis using that(1) b by (simp add: before_def)
  qed
  show ?case
  proof (cases "before a b")
    case True
    then have "spanOverlap (a # b # ss) = spanOverlap (b # ss)" by (simp add: before_def)
    also have "\<dots> = None \<longleftrightarrow> sorted_wrt before (b # ss)" by (rule "1.IH") (use True "1.prems" in \<open>simp_all add: before_def\<close>)
    finally show ?thesis using True far by auto
  next
    case False
    then show ?thesis by (simp add: before_def)
  qed
qed auto

lemma spanFor_anchor:
  assumes "anchorOk src h"
  shows "drop (sn_start (spanFor src h)) src = hk_Old h @ drop (sn_end (spanFor src h)) src"
    and "sn_start (spanFor src h) < sn_end (spanFor src h)" "sn_end (spanFor src h) \<le> length src"
proof -
  obtain i where i: "strIndex src (hk_Old h) = Some i"
    using assms by (cases "strIndex src (hk_Old h)") (auto simp: anchorOk_def strCount.simps [of src])
  then obtain r where r: "drop i src = hk_Old h @ r" "i \<le> length src"
    using strIndex_Some [of src "hk_Old h" i] by (auto simp: hasPrefix_iff)
  have "drop (i + length (hk_Old h)) src = drop (length (hk_Old h)) (drop i src)" by (simp add: add.commute)
  then show "drop (sn_start (spanFor src h)) src = hk_Old h @ drop (sn_end (spanFor src h)) src"
    using i r by (simp add: spanFor_def Let_def)
  have "i + length (hk_Old h) \<le> length src" using r by (metis add_le_cancel_left le_add1 le_add_diff_inverse length_append length_drop)
  then show "sn_start (spanFor src h) < sn_end (spanFor src h)" "sn_end (spanFor src h) \<le> length src"
    using i assms by (simp_all add: spanFor_def Let_def anchorOk_def)
qed

lemma spanFor_replace [simp]: "sn_replace (spanFor src h) = hk_New h"
  by (simp add: spanFor_def Let_def)

lemma distinct_map_mset: "mset xs = mset ys \<Longrightarrow> distinct (map f xs) = distinct (map f ys)"
  by (rule mset_eq_imp_distinct_iff) simp

lemma splice_weave:
  "list_all (anchorOk src) hs \<Longrightarrow> sorted_wrt before (map (spanFor src) hs) \<Longrightarrow>
   \<forall>h\<in>set hs. prev \<le> sn_start (spanFor src h) \<Longrightarrow>
   \<exists>gs. length gs = Suc (length hs) \<and> drop prev src = weave hk_Old gs hs \<and>
     spliceFrom src prev (map (spanFor src) hs) = weave hk_New gs hs"
proof (induction hs arbitrary: prev)
  case Nil
  then show ?case by (intro exI [of _ "[drop prev src]"]) simp
next
  case (Cons h hs)
  let ?s = "spanFor src h"
  have a: "anchorOk src h" using Cons.prems by simp
  have "\<forall>k\<in>set hs. sn_end ?s \<le> sn_start (spanFor src k)" using Cons.prems(2) by (simp add: before_def)
  then obtain gs where gs: "length gs = Suc (length hs)" "drop (sn_end ?s) src = weave hk_Old gs hs"
    "spliceFrom src (sn_end ?s) (map (spanFor src) hs) = weave hk_New gs hs"
    using Cons.IH [of "sn_end ?s"] Cons.prems by auto
  have "drop prev src = drop prev (take (sn_start ?s) src) @ drop (sn_start ?s) src"
    using Cons.prems(3) by (metis append_take_drop_id drop_append drop_all drop_0 diff_is_0_eq' length_take
      list.set_intros(1) min.absorb2 spanFor_anchor(2,3) [OF a] less_imp_le order_trans)
  then show ?case
    using gs spanFor_anchor(1) [OF a]
    by (intro exI [of _ "drop prev (take (sn_start ?s) src) # gs"]) simp
qed

lemma sort_key_map: "sort_key f (map g xs) = map g (sort_key (f \<circ> g) xs)"
proof -
  have "insort_key f (g x) (map g ys) = map g (insort_key (f \<circ> g) x ys)" for x ys
    by (induction ys) auto
  then show ?thesis by (induction xs) auto
qed

lemma sort_key_perm:
  assumes "mset xs = mset ys" "distinct (map f xs)"
  shows "sort_key f xs = sort_key f ys"
proof (rule properties_for_sort_key [symmetric])
  show "mset (sort_key f xs) = mset ys" using assms(1) by simp
  fix k assume k: "k \<in> set (sort_key f xs)"
  have one: "filter (\<lambda>x. f k = f x) zs = [k]" if "k \<in> set zs" "distinct (map f zs)" for zs
    using that
  proof (induction zs)
    case (Cons z zs)
    show ?case
    proof (cases "z = k")
      case True
      then have "\<forall>x\<in>set zs. f k \<noteq> f x" using Cons.prems(2) by (auto simp: image_iff)
      then show ?thesis using True by (simp add: filter_empty_conv)
    next
      case False
      then have "k \<in> set zs" "f z \<noteq> f k" using Cons.prems by auto
      then show ?thesis using Cons False by auto
    qed
  qed simp
  have "distinct (map f ys)" "distinct (map f (sort_key f xs))"
    using assms distinct_map_mset [of xs ys f] distinct_map_mset [of "sort_key f xs" xs f] by simp_all
  moreover have "k \<in> set ys" using k assms(1) by (metis set_mset_mset set_sort)
  ultimately show "filter (\<lambda>x. f k = f x) (sort_key f xs) = filter (\<lambda>x. f k = f x) ys" using one k by metis
qed simp

lemma before_distinct:
  assumes "list_all (anchorOk src) hs" "sorted_wrt before (map (spanFor src) hs)"
  shows "distinct (map (\<lambda>h. sn_start (spanFor src h)) hs)"
  using assms
proof (induction hs)
  case (Cons h hs)
  have "sn_start (spanFor src h) < sn_start (spanFor src k)" if "k \<in> set hs" for k
    using Cons.prems that spanFor_anchor(2) [of src h] by (fastforce simp: before_def)
  then show ?case using Cons by force
qed simp

definition sortedHunks :: "string \<Rightarrow> hunk list \<Rightarrow> hunk list" where
  "sortedHunks src hs = sort_key (\<lambda>h. sn_start (spanFor src h)) hs"

text \<open>When an edit applies, without the loops.\<close>

definition editFits :: "(string \<Rightarrow> string) \<Rightarrow> fileEdit \<Rightarrow> string \<Rightarrow> bool" where
  "editFits sha e src \<longleftrightarrow>
     (ed_ExpectHash e = [] \<or> fileHash sha src = ed_ExpectHash e) \<and> ed_Hunks e \<noteq> [] \<and>
     list_all (anchorOk src) (ed_Hunks e) \<and> sorted_wrt before (map (spanFor src) (sortedHunks src (ed_Hunks e)))"

lemma list_all_sortedHunks [simp]: "list_all P (sortedHunks src hs) = list_all P hs"
  by (simp add: sortedHunks_def list_all_iff)

lemma editApply_Inr:
  "editApply sha e src = Inr out \<longleftrightarrow>
     editFits sha e src \<and> out = spliceFrom src 0 (map (spanFor src) (sortedHunks src (ed_Hunks e)))"
proof (cases "list_all (anchorOk src) (ed_Hunks e)")
  case True
  have s: "sort_key sn_start (map (spanFor src) (ed_Hunks e)) = map (spanFor src) (sortedHunks src (ed_Hunks e))"
    by (simp add: sort_key_map sortedHunks_def comp_def)
  have "\<forall>s\<in>set (map (spanFor src) (sortedHunks src (ed_Hunks e))). sn_start s < sn_end s"
    using True spanFor_anchor(2) by (auto simp: sortedHunks_def list_all_iff)
  from spanOverlap_None [OF this] True show ?thesis
    using hunkSpans_ok [of src 0 "ed_Hunks e" "map (spanFor src) (ed_Hunks e)"]
    by (auto simp: editApply_def editFits_def s Let_def split: option.splits)
next
  case False
  then have "\<nexists>ss. hunkSpans src 0 (ed_Hunks e) = Inr ss" by (simp add: hunkSpans_ok)
  then show ?thesis using False by (cases "hunkSpans src 0 (ed_Hunks e)") (auto simp: editApply_def editFits_def)
qed

text \<open>
  C30: an edit that applies replaces each anchor once and keeps the rest. The file still has the hash the
  caller saw; the text is what was kept with the anchors between, every anchor of the edit once, and
  the result is the same pieces with each anchor's replacement; and listing the hunks in any other
  order gives the same result.
\<close>

theorem edit_replaces_each_anchor_once:
  assumes "editApply sha e src = Inr out"
  shows "(ed_ExpectHash e = [] \<or> fileHash sha src = ed_ExpectHash e) \<and>
    (\<exists>gs hs. mset hs = mset (ed_Hunks e) \<and> hs \<noteq> [] \<and> length gs = Suc (length hs) \<and>
       (\<forall>h\<in>set hs. hk_Old h \<noteq> [] \<and> strCount src (hk_Old h) = 1) \<and>
       src = weave hk_Old gs hs \<and> out = weave hk_New gs hs) \<and>
    (\<forall>hs'. mset hs' = mset (ed_Hunks e) \<longrightarrow> editApply sha (e\<lparr>ed_Hunks := hs'\<rparr>) src = Inr out)"
proof -
  let ?hs = "sortedHunks src (ed_Hunks e)"
  have fit: "editFits sha e src" and out: "out = spliceFrom src 0 (map (spanFor src) ?hs)"
    using assms by (simp_all add: editApply_Inr)
  have ok: "list_all (anchorOk src) ?hs" and srt: "sorted_wrt before (map (spanFor src) ?hs)"
    using fit by (simp_all add: editFits_def)
  obtain gs where gs: "length gs = Suc (length ?hs)" "src = weave hk_Old gs ?hs" "out = weave hk_New gs ?hs"
    using splice_weave [OF ok srt, of 0] out by auto
  have m: "mset ?hs = mset (ed_Hunks e)" by (simp add: sortedHunks_def)
  then have ne: "?hs \<noteq> []" "mset ?hs = mset (ed_Hunks e)" using fit by (auto simp: editFits_def)
  have "distinct (map (\<lambda>h. sn_start (spanFor src h)) (ed_Hunks e))"
    using before_distinct [OF ok srt] distinct_map_mset [OF ne(2)] by blast
  then have same: "sortedHunks src hs' = ?hs" if "mset hs' = mset (ed_Hunks e)" for hs'
    unfolding sortedHunks_def using that by (intro sort_key_perm [symmetric]) simp_all
  have perm: "editApply sha (e\<lparr>ed_Hunks := hs'\<rparr>) src = Inr out" if m: "mset hs' = mset (ed_Hunks e)" for hs'
  proof -
    have "hs' \<noteq> []" "set hs' = set (ed_Hunks e)" using m fit by (auto simp: editFits_def dest: mset_eq_setD)
    then show ?thesis using fit out same [OF m] by (simp add: editApply_Inr editFits_def list_all_iff)
  qed
  have anchors: "\<forall>h\<in>set ?hs. hk_Old h \<noteq> [] \<and> strCount src (hk_Old h) = 1"
    using ok by (simp add: list_all_iff anchorOk_def)
  show ?thesis
    using fit gs ne anchors perm by (auto simp: editFits_def intro!: exI [of _ gs] exI [of _ ?hs])
qed

text \<open>
  The count does not see occurrences that overlap, so an anchor that is in two places can be taken for
  unique, and the first place is edited.
\<close>

lemma overlapping_anchor_not_ambiguous:
  "editApply sha \<lparr>ed_ExpectHash = [], ed_Hunks = [\<lparr>hk_Old = ''aba'', hk_New = ''x''\<rparr>]\<rparr> ''ababa'' = Inr ''xba'' \<and>
   hasPrefix (drop 0 ''ababa'') ''aba'' \<and> hasPrefix (drop 2 ''ababa'') ''aba''"
  by (simp add: editApply_def hunkSpan_def strCount.simps [of "''ababa''"] strCount.simps [of "''ba''"] hasPrefix_def Let_def)

theorem edit_replaces_each_anchor_once_witness:
  "editApply rev \<lparr>ed_ExpectHash = [], ed_Hunks = [\<lparr>hk_Old = ''c'', hk_New = ''z''\<rparr>, \<lparr>hk_Old = ''a'', hk_New = []\<rparr>]\<rparr> ''abcd'' = Inr ''bzd'' \<and>
   editApply rev \<lparr>ed_ExpectHash = [], ed_Hunks = [\<lparr>hk_Old = ''a'', hk_New = []\<rparr>, \<lparr>hk_Old = ''c'', hk_New = ''z''\<rparr>]\<rparr> ''abcd'' = Inr ''bzd''"
proof -
  let ?a = "\<lparr>hk_Old = ''a'', hk_New = []\<rparr>" and ?c = "\<lparr>hk_Old = ''c'', hk_New = ''z''\<rparr>"
  have r: "editApply rev \<lparr>ed_ExpectHash = [], ed_Hunks = [?c, ?a]\<rparr> ''abcd'' = Inr ''bzd''"
    by (simp add: editApply_def hunkSpan_def strCount.simps [of "''abcd''"] strCount.simps [of "''d''"] strCount.simps [of "''bcd''"] hasPrefix_def Let_def)
  have "mset [?a, ?c] = mset (ed_Hunks \<lparr>ed_ExpectHash = [], ed_Hunks = [?c, ?a]\<rparr>)" by simp
  then have "editApply rev (\<lparr>ed_ExpectHash = [], ed_Hunks = [?c, ?a]\<rparr>\<lparr>ed_Hunks := [?a, ?c]\<rparr>) ''abcd'' = Inr ''bzd''"
    using edit_replaces_each_anchor_once [OF r] by blast
  then show ?thesis using r by simp
qed

end
