(* ===== verification/FilePatch.thy ===== *)
theory FilePatch
  imports Prelude
begin

text \<open>
  The patch envelope of \<^verbatim>\<open>src/ext/files/patch.go\<close>: parsing it into one section per file, and applying the
  hunks of an update to a text. A parser consumes the remaining lines and counts them, as the index of
  the code does. In \<open>applyChunks\<close> the outer \<open>None\<close> is the panic of a slice out of range.
\<close>

definition patchBegin :: string where "patchBegin = ''*** Begin Patch''"
definition patchEnd :: string where "patchEnd = ''*** End Patch''"
definition patchAdd :: string where "patchAdd = ''*** Add File: ''"
definition patchDelete :: string where "patchDelete = ''*** Delete File: ''"
definition patchUpdate :: string where "patchUpdate = ''*** Update File: ''"
definition patchMove :: string where "patchMove = ''*** Move to: ''"
definition patchEOF :: string where "patchEOF = ''*** End of File''"

datatype patchKind = KindAdd | KindDelete | KindUpdate

record patchChunk =
  ck_Context :: string
  ck_Old :: "string list"
  ck_New :: "string list"
  ck_EOF :: bool

record filePatch =
  fp_Kind :: patchKind
  fp_Path :: string
  fp_MoveTo :: string
  fp_Content :: string
  fp_Chunks :: "patchChunk list"

text \<open>\<^verbatim>\<open>strings.ReplaceAll\<close> of a carriage return before a newline.\<close>

fun dropCR :: "string \<Rightarrow> string" where
  "dropCR (a # b # s) = (if a = CHR 0x0D \<and> b = CHR 0x0A then b # dropCR s else a # dropCR (b # s))"
| "dropCR s = s"

definition isSectionStart :: "string \<Rightarrow> bool" where
  "isSectionStart l \<longleftrightarrow> hasPrefix l patchAdd \<or> hasPrefix l patchDelete \<or> hasPrefix l patchUpdate"

definition lineErr :: "string \<Rightarrow> nat \<Rightarrow> string list \<Rightarrow> goerr" where
  "lineErr fmt n args = Errorf (''line %d: '' @ fmt) (itoa (int n) # args) None"

text \<open>The lines of an added file: their text, the index after them and what is left.\<close>

fun addLines :: "nat \<Rightarrow> string list \<Rightarrow> goerr + string list \<times> nat \<times> string list" where
  "addLines i [] = Inr ([], i, [])"
| "addLines i (l # ls) =
     (if hasPrefix l ''*** '' then Inr ([], i, l # ls)
      else if \<not> hasPrefix l ''+'' then Inl (lineErr ''every line of an added file starts with +'' (i + 2) [])
      else case addLines (Suc i) ls of
             Inl e \<Rightarrow> Inl e
           | Inr (content, j, rest) \<Rightarrow> Inr (trimPrefix l ''+'' # content, j, rest))"

definition hunkLine :: "nat \<Rightarrow> string \<Rightarrow> patchChunk \<Rightarrow> goerr + patchChunk" where
  "hunkLine i l c =
     (if l = patchEOF then Inr (c\<lparr>ck_EOF := True\<rparr>)
      else case l of
             [] \<Rightarrow> Inr (c\<lparr>ck_Old := ck_Old c @ [[]], ck_New := ck_New c @ [[]]\<rparr>)
           | x # r \<Rightarrow>
               if x = CHR '' '' then Inr (c\<lparr>ck_Old := ck_Old c @ [r], ck_New := ck_New c @ [r]\<rparr>)
               else if x = CHR ''-'' then Inr (c\<lparr>ck_Old := ck_Old c @ [r]\<rparr>)
               else if x = CHR ''+'' then Inr (c\<lparr>ck_New := ck_New c @ [r]\<rparr>)
               else Inl (lineErr ''a hunk line starts with a space, - or +, got %q'' (i + 2) [l]))"

fun hunkLines :: "nat \<Rightarrow> string list \<Rightarrow> patchChunk \<Rightarrow> goerr + patchChunk \<times> nat \<times> string list" where
  "hunkLines i [] c = Inr (c, i, [])"
| "hunkLines i (l # ls) c =
     (if isSectionStart l \<or> hasPrefix l ''@@'' then Inr (c, i, l # ls)
      else case hunkLine i l c of
             Inl e \<Rightarrow> Inl e
           | Inr c' \<Rightarrow> if ck_EOF c' then Inr (c', Suc i, ls) else hunkLines (Suc i) ls c')"

definition zeroChunk :: patchChunk where
  "zeroChunk = \<lparr>ck_Context = [], ck_Old = [], ck_New = [], ck_EOF = False\<rparr>"

lemma addLines_length: "addLines i ls = Inr (content, j, rest) \<Longrightarrow> length rest \<le> length ls"
  by (induction i ls arbitrary: content j rest rule: addLines.induct) (auto split: if_splits sum.splits prod.splits)

lemma hunkLines_length: "hunkLines i ls c = Inr (c', j, rest) \<Longrightarrow> length rest \<le> length ls \<and> j + length rest = i + length ls"
  by (induction i ls c rule: hunkLines.induct) (auto split: if_splits sum.splits)

text \<open>
  The hunks of one update. \<open>n\<close> is the line of its header, \<open>path\<close> its file.
\<close>

function parseChunks ::
  "nat \<Rightarrow> string \<Rightarrow> nat \<Rightarrow> string list \<Rightarrow> patchChunk list \<Rightarrow> goerr + patchChunk list \<times> nat \<times> string list" where
  "parseChunks n path i ls acc =
     (if ls = [] \<or> isSectionStart (hd ls) then Inr (acc, i, ls)
      else (let header = hasPrefix (hd ls) ''@@'';
                c = (if header then zeroChunk\<lparr>ck_Context := trimSpace (trimPrefix (hd ls) ''@@'')\<rparr> else zeroChunk);
                start = (if header then Suc i else i);
                body = (if header then tl ls else ls)
            in case hunkLines start body c of
                 Inl e \<Rightarrow> Inl e
               | Inr (c', j, rest) \<Rightarrow>
                   if j = start \<and> ck_Context c' = [] then Inl (lineErr ''empty hunk'' n [])
                   else if ck_Old c' = [] \<and> ck_New c' = [] then
                     Inl (lineErr ''a hunk in %s changes nothing'' (start + 2) [path])
                   else parseChunks n path j rest (acc @ [c'])))"
  by pat_completeness auto
termination
proof (relation "measure (\<lambda>(n, path, i, ls, acc). length ls)")
  fix n :: nat and path i ls acc header c start body r c' p j rest
  assume a: "\<not> (ls = [] \<or> isSectionStart (hd ls))" "header = hasPrefix (hd ls) ''@@''"
    "c = (if header then zeroChunk\<lparr>ck_Context := trimSpace (trimPrefix (hd ls) ''@@'')\<rparr> else zeroChunk)"
    "start = (if header then Suc i else i)" "body = (if header then tl ls else ls)"
    "hunkLines start body c = Inr r" "(c', p) = r" "(j, rest) = p"
    "\<not> (ck_Old c' = [] \<and> ck_New c' = [])"
  have l: "length rest \<le> length body" using hunkLines_length [of start body c c' j rest] a by simp
  show "((n, path, j, rest, acc @ [c']), n, path, i, ls, acc) \<in> measure (\<lambda>(n, path, i, ls, acc). length ls)"
  proof (cases header)
    case True
    then show ?thesis using l a(1,5) by (cases ls) auto
  next
    case False
    have "length rest \<noteq> length ls"
    proof
      assume eq: "length rest = length ls"
      obtain x xs where "ls = x # xs" using a(1) by (cases ls) auto
      then show False using a False eq hunkLines_length [of "Suc i" xs _ c' j rest]
        by (auto split: if_splits sum.splits)
    qed
    then show ?thesis using l a(5) False by simp
  qed
qed simp

declare parseChunks.simps [simp del]

lemma parseChunks_length: "parseChunks n path i ls acc = Inr (cs, j, rest) \<Longrightarrow> length rest \<le> length ls"
proof (induction n path i ls acc rule: parseChunks.induct)
  case (1 n path i ls acc)
  show ?case
  proof (cases "ls = [] \<or> isSectionStart (hd ls)")
    case True
    then show ?thesis using "1.prems" by (simp add: parseChunks.simps [of n path i ls acc])
  next
    case False
    define header where "header = hasPrefix (hd ls) ''@@''"
    define c where "c = (if header then zeroChunk\<lparr>ck_Context := trimSpace (trimPrefix (hd ls) ''@@'')\<rparr> else zeroChunk)"
    define start where "start = (if header then Suc i else i)"
    define body where "body = (if header then tl ls else ls)"
    obtain c' k r where h: "hunkLines start body c = Inr (c', k, r)" "\<not> (k = start \<and> ck_Context c' = [])"
        "\<not> (ck_Old c' = [] \<and> ck_New c' = [])" "parseChunks n path k r (acc @ [c']) = Inr (cs, j, rest)"
      using "1.prems" False unfolding header_def c_def start_def body_def
      by (subst (asm) parseChunks.simps) (auto simp: Let_def split: sum.splits if_split_asm)
    have "length r \<le> length body" using hunkLines_length [OF h(1)] by simp
    moreover have "length body \<le> length ls" by (simp add: body_def)
    ultimately show ?thesis
      using "1.IH" [OF False header_def c_def start_def body_def h(1) _ _ h(2,3,4)] by force
  qed
qed

definition claimPath :: "nat \<Rightarrow> string \<Rightarrow> string list \<Rightarrow> goerr + string list" where
  "claimPath n path seen =
     (if path \<in> set seen then Inl (lineErr ''%s appears twice in one patch'' n [path]) else Inr (path # seen))"

definition addContent :: "string list \<Rightarrow> string" where
  "addContent content = strJoin content [newline] @ (if content \<noteq> [] then [newline] else [])"

function parseBody :: "nat \<Rightarrow> string list \<Rightarrow> string list \<Rightarrow> filePatch list \<Rightarrow> goerr + filePatch list" where
  "parseBody i [] seen out = Inr out"
| "parseBody i (l # ls) seen out =
     (if hasPrefix l patchAdd then
        (let path = trimSpace (trimPrefix l patchAdd)
         in case addLines (Suc i) ls of
              Inl e \<Rightarrow> Inl e
            | Inr (content, j, rest) \<Rightarrow>
                (case claimPath (i + 2) path seen of
                   Inl e \<Rightarrow> Inl e
                 | Inr seen' \<Rightarrow> parseBody j rest seen'
                     (out @ [\<lparr>fp_Kind = KindAdd, fp_Path = path, fp_MoveTo = [], fp_Content = addContent content, fp_Chunks = []\<rparr>])))
      else if hasPrefix l patchDelete then
        (let path = trimSpace (trimPrefix l patchDelete)
         in case claimPath (i + 2) path seen of
              Inl e \<Rightarrow> Inl e
            | Inr seen' \<Rightarrow> parseBody (Suc i) ls seen'
                (out @ [\<lparr>fp_Kind = KindDelete, fp_Path = path, fp_MoveTo = [], fp_Content = [], fp_Chunks = []\<rparr>]))
      else if hasPrefix l patchUpdate then
        (let path = trimSpace (trimPrefix l patchUpdate);
             moves = (ls \<noteq> [] \<and> hasPrefix (hd ls) patchMove);
             moveTo = (if moves then trimSpace (trimPrefix (hd ls) patchMove) else [])
         in case parseChunks (i + 2) path (if moves then i + 2 else Suc i) (if moves then tl ls else ls) [] of
              Inl e \<Rightarrow> Inl e
            | Inr (cs, j, rest) \<Rightarrow>
                if cs = [] \<and> moveTo = [] then Inl (lineErr ''%s has no hunks'' (i + 2) [path])
                else (case claimPath (i + 2) path seen of
                        Inl e \<Rightarrow> Inl e
                      | Inr seen1 \<Rightarrow>
                          (case (if moveTo \<noteq> [] then claimPath (i + 2) moveTo seen1 else Inr seen1) of
                             Inl e \<Rightarrow> Inl e
                           | Inr seen2 \<Rightarrow> parseBody j rest seen2
                               (out @ [\<lparr>fp_Kind = KindUpdate, fp_Path = path, fp_MoveTo = moveTo, fp_Content = [], fp_Chunks = cs\<rparr>]))))
      else if trimSpace l = [] then parseBody (Suc i) ls seen out
      else Inl (lineErr ''expected *** Add File, *** Delete File or *** Update File, got %q'' (i + 2) [l]))"
  by pat_completeness auto
termination
  by (relation "measure (\<lambda>(i, ls, seen, out). length ls)")
    (auto dest!: addLines_length parseChunks_length split: if_splits simp: le_imp_less_Suc le_diff_conv)

declare parseBody.simps [simp del]

definition parsePatch :: "string \<Rightarrow> goerr + filePatch list" where
  "parsePatch txt =
     (let lines = strSplit newline (trimSpace (dropCR txt))
      in if length lines < 2 \<or> trimSpace (hd lines) \<noteq> patchBegin then Inl (Errorf ''a patch starts with %q'' [patchBegin] None)
         else if trimSpace (last lines) \<noteq> patchEnd then Inl (Errorf ''a patch ends with %q'' [patchEnd] None)
         else case parseBody 0 (butlast (tl lines)) [] [] of
                Inl e \<Rightarrow> Inl e
              | Inr out \<Rightarrow> if out = [] then Inl (ErrNew ''the patch changes no files'') else Inr out)"

subsection \<open>Applying hunks\<close>

definition trimBlanks :: "string \<Rightarrow> string" where
  "trimBlanks s = rev (dropWhile (\<lambda>c. c = CHR '' '' \<or> c = CHR 0x09) (rev s))"

definition norms :: "(string \<Rightarrow> string) list" where
  "norms = [\<lambda>s. s, trimBlanks, trimSpace]"

definition matchAt :: "(string \<Rightarrow> string) \<Rightarrow> string list \<Rightarrow> string list \<Rightarrow> nat \<Rightarrow> bool" where
  "matchAt norm lines want at \<longleftrightarrow>
     list_all (\<lambda>(j, w). norm (lines ! (at + j)) = norm w) (enumerate 0 want)"

definition seekNorm :: "(string \<Rightarrow> string) \<Rightarrow> string list \<Rightarrow> string list \<Rightarrow> nat \<Rightarrow> bool \<Rightarrow> nat option" where
  "seekNorm norm lines want start eof =
     (let at = length lines - length want
      in if eof \<and> start \<le> at \<and> matchAt norm lines want at then Some at
         else find (matchAt norm lines want) [start ..< Suc (length lines - length want)])"

fun seekNorms :: "(string \<Rightarrow> string) list \<Rightarrow> string list \<Rightarrow> string list \<Rightarrow> nat \<Rightarrow> bool \<Rightarrow> nat option" where
  "seekNorms [] lines want start eof = None"
| "seekNorms (norm # ns) lines want start eof =
     (case seekNorm norm lines want start eof of Some at \<Rightarrow> Some at | None \<Rightarrow> seekNorms ns lines want start eof)"

definition seek :: "string list \<Rightarrow> string list \<Rightarrow> nat \<Rightarrow> bool \<Rightarrow> nat option" where
  "seek lines want start eof = (if length lines < length want then None else seekNorms norms lines want start eof)"

record repl =
  rp_at :: nat
  rp_n :: nat
  rp_with :: "string list"

definition dropLastBlank :: "string list \<Rightarrow> string list" where
  "dropLastBlank ls = (if ls \<noteq> [] \<and> last ls = [] then butlast ls else ls)"

text \<open>Where a hunk goes: the place, the lines it replaces and the lines it puts there.\<close>

definition placeHunk :: "string list \<Rightarrow> nat \<Rightarrow> patchChunk \<Rightarrow> string list \<times> string list \<times> nat option" where
  "placeHunk lines cursor c =
     (case seek lines (ck_Old c) cursor (ck_EOF c) of
        Some at \<Rightarrow> (ck_Old c, ck_New c, Some at)
      | None \<Rightarrow>
          if length (ck_Old c) > 1 \<and> last (ck_Old c) = [] then
            (let old = butlast (ck_Old c) in (old, dropLastBlank (ck_New c), seek lines old cursor (ck_EOF c)))
          else (ck_Old c, ck_New c, None))"

fun chunkRepls :: "string list \<Rightarrow> nat \<Rightarrow> nat \<Rightarrow> patchChunk list \<Rightarrow> goerr + repl list" where
  "chunkRepls lines ci cursor [] = Inr []"
| "chunkRepls lines ci cursor (c # cs) =
     (case (if ck_Context c \<noteq> [] then map_option Suc (seek lines [ck_Context c] cursor False) else Some cursor) of
        None \<Rightarrow> Inl (Errorf ''hunk %d: can't find the line %q its @@ header names'' [itoa (int ci + 1), ck_Context c] None)
      | Some cursor' \<Rightarrow>
          if ck_Old c = [] then
            (case chunkRepls lines (Suc ci) cursor' cs of
               Inl e \<Rightarrow> Inl e
             | Inr rs \<Rightarrow> Inr (\<lparr>rp_at = length lines, rp_n = 0, rp_with = ck_New c\<rparr> # rs))
          else
            (case placeHunk lines cursor' c of
               (old, nw, None) \<Rightarrow>
                 Inl (Errorf (''hunk %d doesn't match the file; it expected these lines:'' @ [newline] @ ''%s'')
                   [itoa (int ci + 1), strJoin old [newline]] None)
             | (old, nw, Some at) \<Rightarrow>
                 (case chunkRepls lines (Suc ci) (at + length old) cs of
                    Inl e \<Rightarrow> Inl e
                  | Inr rs \<Rightarrow> Inr (\<lparr>rp_at = at, rp_n = length old, rp_with = nw\<rparr> # rs))))"

definition applyRepl :: "repl \<Rightarrow> string list option \<Rightarrow> string list option" where
  "applyRepl r lines =
     (case lines of
        None \<Rightarrow> None
      | Some ls \<Rightarrow>
          if length ls < rp_at r + rp_n r then None
          else Some (take (rp_at r) ls @ rp_with r @ drop (rp_at r + rp_n r) ls))"

definition fileLines :: "string \<Rightarrow> string list" where
  "fileLines src = dropLastBlank (strSplit newline src)"

definition linesText :: "string list \<Rightarrow> string" where
  "linesText ls = (if ls = [] then [] else strJoin ls [newline] @ [newline])"

definition applyChunks :: "string \<Rightarrow> patchChunk list \<Rightarrow> (goerr + string) option" where
  "applyChunks src chunks =
     (let lines = fileLines src
      in case chunkRepls lines 0 0 chunks of
           Inl e \<Rightarrow> Some (Inl e)
         | Inr rs \<Rightarrow> map_option (\<lambda>ls. Inr (linesText ls)) (foldr applyRepl rs (Some lines)))"

section \<open>Hunks replace their lines in order\<close>

fun weaveLines :: "string list list \<Rightarrow> string list list \<Rightarrow> string list" where
  "weaveLines (g # gs) (x # xs) = g @ x @ weaveLines gs xs"
| "weaveLines gs xs = concat gs"

text \<open>The lines \<open>seg\<close> of the file a hunk replaces, up to the tolerated blanks, and what it puts there.\<close>

definition hunkFits :: "patchChunk \<Rightarrow> string list \<times> string list \<Rightarrow> bool" where
  "hunkFits c = (\<lambda>(seg, nw).
     if ck_Old c = [] then seg = [] \<and> nw = ck_New c
     else \<exists>old. (old = ck_Old c \<and> nw = ck_New c \<or>
                 1 < length (ck_Old c) \<and> last (ck_Old c) = [] \<and> old = butlast (ck_Old c) \<and> nw = dropLastBlank (ck_New c)) \<and>
            (\<exists>norm\<in>set norms. list_all2 (\<lambda>a b. norm a = norm b) seg old))"

lemma matchAt_segment:
  assumes "matchAt norm lines want at" "at + length want \<le> length lines"
  shows "list_all2 (\<lambda>a b. norm a = norm b) (take (length want) (drop at lines)) want"
proof (rule list_all2_all_nthI)
  fix n assume "n < length (take (length want) (drop at lines))"
  then have n: "n < length want" by simp
  then have "(n, want ! n) \<in> set (enumerate 0 want)" by (simp add: in_set_enumerate_eq)
  then show "norm (take (length want) (drop at lines) ! n) = norm (want ! n)"
    using assms n by (auto simp: matchAt_def list_all_iff)
qed (use assms in simp)

lemma seekNorm_Some:
  assumes "seekNorm norm lines want start eof = Some at" "length want \<le> length lines"
  shows "start \<le> at \<and> at + length want \<le> length lines \<and> matchAt norm lines want at"
  using assms by (auto simp: seekNorm_def Let_def find_Some_iff nth_append split: if_splits)

lemma seek_Some:
  assumes "seek lines want start eof = Some at"
  shows "start \<le> at \<and> at + length want \<le> length lines \<and>
    (\<exists>norm\<in>set norms. list_all2 (\<lambda>a b. norm a = norm b) (take (length want) (drop at lines)) want)"
proof -
  have l: "length want \<le> length lines" and s: "seekNorms norms lines want start eof = Some at"
    using assms by (auto simp: seek_def split: if_splits)
  have "\<exists>norm\<in>set ns. seekNorm norm lines want start eof = Some at" if "seekNorms ns lines want start eof = Some at" for ns
    using that by (induction ns) (auto split: option.splits)
  from this [OF s] obtain norm where "norm \<in> set norms" "seekNorm norm lines want start eof = Some at" by blast
  then show ?thesis using seekNorm_Some [OF _ l] matchAt_segment by blast
qed

lemma placeHunk_Some:
  assumes "placeHunk lines cursor c = (old, nw, Some at)" "ck_Old c \<noteq> []"
  shows "cursor \<le> at \<and> at + length old \<le> length lines \<and> hunkFits c (take (length old) (drop at lines), nw)"
proof -
  have "(old = ck_Old c \<and> nw = ck_New c \<or>
      1 < length (ck_Old c) \<and> last (ck_Old c) = [] \<and> old = butlast (ck_Old c) \<and> nw = dropLastBlank (ck_New c)) \<and>
      seek lines old cursor (ck_EOF c) = Some at"
    using assms(1) by (auto simp: placeHunk_def Let_def split: option.splits if_splits)
  then show ?thesis using seek_Some [of lines old cursor "ck_EOF c" at] assms(2) by (auto simp: hunkFits_def)
qed

fun rebuild :: "string list \<Rightarrow> nat \<Rightarrow> repl list \<Rightarrow> string list" where
  "rebuild lines cur [] = drop cur lines"
| "rebuild lines cur (r # rs) = drop cur (take (rp_at r) lines) @ rp_with r @ rebuild lines (rp_at r + rp_n r) rs"

fun inOrder :: "string list \<Rightarrow> nat \<Rightarrow> repl list \<Rightarrow> bool" where
  "inOrder lines cur [] \<longleftrightarrow> cur \<le> length lines"
| "inOrder lines cur (r # rs) \<longleftrightarrow> cur \<le> rp_at r \<and> inOrder lines (rp_at r + rp_n r) rs"

lemma inOrder_bound: "inOrder lines cur rs \<Longrightarrow> cur \<le> length lines"
  by (induction rs arbitrary: cur) fastforce+

lemma applyRepl_Some:
  "rp_at r + rp_n r \<le> length ls \<Longrightarrow>
   applyRepl r (Some ls) = Some (take (rp_at r) ls @ rp_with r @ drop (rp_at r + rp_n r) ls)"
  by (simp add: applyRepl_def)

lemma foldr_applyRepl:
  "inOrder lines cur rs \<Longrightarrow> foldr applyRepl rs (Some lines) = Some (take cur lines @ rebuild lines cur rs)"
proof (induction rs arbitrary: cur)
  case (Cons r rs)
  let ?e = "rp_at r + rp_n r"
  have e: "?e \<le> length lines" using Cons.prems inOrder_bound by auto
  have "foldr applyRepl rs (Some lines) = Some (take ?e lines @ rebuild lines ?e rs)" using Cons by simp
  moreover have "take cur lines @ drop cur (take (rp_at r) lines) = take (rp_at r) lines"
    using Cons.prems by (metis append_take_drop_id inOrder.simps(2) min.absorb1 take_take)
  ultimately show ?case using e by (simp add: applyRepl_Some flip: append_assoc)
qed simp

lemma inOrder_weave:
  "inOrder lines cur rs \<Longrightarrow>
   \<exists>gs. length gs = Suc (length rs) \<and>
     drop cur lines = weaveLines gs (map (\<lambda>r. take (rp_n r) (drop (rp_at r) lines)) rs) \<and>
     rebuild lines cur rs = weaveLines gs (map rp_with rs)"
proof (induction rs arbitrary: cur)
  case Nil
  then show ?case by (intro exI [of _ "[drop cur lines]"]) simp
next
  case (Cons r rs)
  let ?e = "rp_at r + rp_n r"
  obtain gs where gs: "length gs = Suc (length rs)"
    "drop ?e lines = weaveLines gs (map (\<lambda>r. take (rp_n r) (drop (rp_at r) lines)) rs)"
    "rebuild lines ?e rs = weaveLines gs (map rp_with rs)"
    using Cons by fastforce
  have "drop cur lines = drop cur (take (rp_at r) lines) @ drop (rp_at r) lines"
    using Cons.prems inOrder_bound [of lines ?e rs]
    by (metis append_take_drop_id drop_append drop_0 diff_is_0_eq' inOrder.simps(2) length_take min.absorb2 add_leD1)
  moreover have "drop (rp_at r) lines = take (rp_n r) (drop (rp_at r) lines) @ drop ?e lines"
    by (metis append_take_drop_id drop_drop add.commute)
  ultimately show ?case
    using gs by (intro exI [of _ "drop cur (take (rp_at r) lines) # gs"]) simp
qed

lemma chunkRepls_inOrder:
  "chunkRepls lines ci cursor cs = Inr rs \<Longrightarrow> cursor \<le> length lines \<Longrightarrow> list_all (\<lambda>c. ck_Old c \<noteq> []) (butlast cs) \<Longrightarrow>
   inOrder lines cursor rs \<and>
   list_all2 (\<lambda>c r. hunkFits c (take (rp_n r) (drop (rp_at r) lines), rp_with r)) cs rs"
proof (induction cs arbitrary: ci cursor rs)
  case (Cons c cs)
  obtain cursor' where cur: "(if ck_Context c \<noteq> [] then map_option Suc (seek lines [ck_Context c] cursor False) else Some cursor) = Some cursor'"
    using Cons.prems(1) by (auto split: option.splits)
  have le: "cursor \<le> cursor'" "cursor' \<le> length lines"
    using cur Cons.prems(2) seek_Some [of lines "[ck_Context c]" cursor False] by (auto split: if_splits)
  show ?case
  proof (cases "ck_Old c = []")
    case True
    then have "cs = []" using Cons.prems(3) by (cases cs) auto
    then show ?thesis using True cur Cons.prems(1) le by (auto simp: hunkFits_def)
  next
    case False
    obtain old nw at rs' where p: "placeHunk lines cursor' c = (old, nw, Some at)"
        "chunkRepls lines (Suc ci) (at + length old) cs = Inr rs'"
        "rs = \<lparr>rp_at = at, rp_n = length old, rp_with = nw\<rparr> # rs'"
      using False cur Cons.prems(1) by (auto split: option.splits prod.splits sum.splits)
    note at = placeHunk_Some [OF p(1) False]
    have "list_all (\<lambda>c. ck_Old c \<noteq> []) (butlast cs)" using Cons.prems(3) by (cases cs) auto
    then show ?thesis using Cons.IH [OF p(2)] at p(3) le by auto
  qed
qed simp

text \<open>
  C28: the hunks of an update are applied in order, each to its own lines. When only the last hunk may be a
  pure insertion, applying hunks never panics; it fails with an error, or the file's lines are what is
  kept with the lines of each hunk between, equal to the hunk's up to the tolerated blanks, and the
  result is the same with the new lines of each hunk in their place.
\<close>

theorem patch_hunks_replace_in_order:
  assumes "list_all (\<lambda>c. ck_Old c \<noteq> []) (butlast chunks)"
  shows "applyChunks src chunks \<noteq> None \<and>
    (\<forall>out. applyChunks src chunks = Some (Inr out) \<longrightarrow>
      (\<exists>gs segs news. length gs = Suc (length chunks) \<and> length segs = length chunks \<and> length news = length chunks \<and>
         fileLines src = weaveLines gs segs \<and> out = linesText (weaveLines gs news) \<and>
         list_all2 hunkFits chunks (zip segs news)))"
proof (cases "chunkRepls (fileLines src) 0 0 chunks")
  case (Inl e)
  then show ?thesis by (simp add: applyChunks_def Let_def)
next
  case (Inr rs)
  let ?ls = "fileLines src"
  let ?segs = "map (\<lambda>r. take (rp_n r) (drop (rp_at r) ?ls)) rs"
  have io: "inOrder ?ls 0 rs" and fits: "list_all2 (\<lambda>c r. hunkFits c (take (rp_n r) (drop (rp_at r) ?ls), rp_with r)) chunks rs"
    using chunkRepls_inOrder [OF Inr _ assms] by simp_all
  then have len: "length rs = length chunks" by (simp add: list_all2_lengthD)
  have app: "applyChunks src chunks = Some (Inr (linesText (rebuild ?ls 0 rs)))"
    using foldr_applyRepl [OF io] Inr by (simp add: applyChunks_def Let_def)
  obtain gs where gs: "length gs = Suc (length rs)" "?ls = weaveLines gs ?segs" "rebuild ?ls 0 rs = weaveLines gs (map rp_with rs)"
    using inOrder_weave [OF io] by auto
  have "list_all2 hunkFits chunks (zip ?segs (map rp_with rs))"
    using fits len by (auto simp: list_all2_conv_all_nth)
  then show ?thesis
    using app gs len by (intro conjI allI impI exI [of _ gs] exI [of _ ?segs] exI [of _ "map rp_with rs"]) simp_all
qed

text \<open>A pure insertion before a hunk that removes lines is out of range when it is applied.\<close>

definition insertHunk :: patchChunk where "insertHunk = zeroChunk\<lparr>ck_New := [''new'']\<rparr>"
definition removeHunk :: patchChunk where "removeHunk = zeroChunk\<lparr>ck_Old := [''b'']\<rparr>"
definition growHunk :: patchChunk where "growHunk = zeroChunk\<lparr>ck_Old := [''b''], ck_New := [''b1'', ''b2'']\<rparr>"

lemmas patch_eval = applyChunks_def fileLines_def dropLastBlank_def placeHunk_def seek_def norms_def seekNorm_def matchAt_def
  applyRepl_def insertHunk_def removeHunk_def growHunk_def zeroChunk_def linesText_def Let_def upt_rec

lemma insertion_before_removal_panics:
  "applyChunks (''a'' @ [newline] @ ''b'' @ [newline]) [insertHunk, removeHunk] = None"
  by (simp add: patch_eval)

lemma insertion_before_growth_misplaced:
  "applyChunks (''a'' @ [newline] @ ''b'' @ [newline]) [insertHunk, growHunk] =
     Some (Inr (''a'' @ [newline] @ ''b1'' @ [newline] @ ''new'' @ [newline] @ ''b2'' @ [newline]))"
  by (simp add: patch_eval)

theorem patch_hunks_replace_in_order_witness:
  "\<exists>gs segs news. fileLines (''a'' @ [newline] @ ''b'' @ [newline]) = weaveLines gs segs \<and>
     ''a'' @ [newline] @ ''b1'' @ [newline] @ ''b2'' @ [newline] @ ''new'' @ [newline] = linesText (weaveLines gs news) \<and>
     list_all2 hunkFits [growHunk, insertHunk] (zip segs news)"
proof -
  let ?src = "''a'' @ [newline] @ ''b'' @ [newline]"
  have c: "list_all (\<lambda>c. ck_Old c \<noteq> []) (butlast [growHunk, insertHunk])" by (simp add: growHunk_def zeroChunk_def)
  have "applyChunks ?src [growHunk, insertHunk] =
      Some (Inr (''a'' @ [newline] @ ''b1'' @ [newline] @ ''b2'' @ [newline] @ ''new'' @ [newline]))"
    by (simp add: patch_eval)
  then show ?thesis using patch_hunks_replace_in_order [OF c, of ?src] by blast
qed

section \<open>Printing and parsing\<close>

text \<open>A printer of the envelope, for patches a section can express.\<close>

definition printChunk :: "patchChunk \<Rightarrow> string list" where
  "printChunk c =
     (''@@'' @ (if ck_Context c = [] then [] else '' '' @ ck_Context c)) #
     map ((#) (CHR ''-'')) (ck_Old c) @ map ((#) (CHR ''+'')) (ck_New c) @ (if ck_EOF c then [patchEOF] else [])"

definition printSection :: "filePatch \<Rightarrow> string list" where
  "printSection fp =
     (case fp_Kind fp of
        KindAdd \<Rightarrow> (patchAdd @ fp_Path fp) # map ((#) (CHR ''+'')) (fileLines (fp_Content fp))
      | KindDelete \<Rightarrow> [patchDelete @ fp_Path fp]
      | KindUpdate \<Rightarrow>
          (patchUpdate @ fp_Path fp) # (if fp_MoveTo fp = [] then [] else [patchMove @ fp_MoveTo fp]) @
          concat (map printChunk (fp_Chunks fp)))"

definition printPatch :: "filePatch list \<Rightarrow> string" where
  "printPatch fps = strJoin (patchBegin # concat (map printSection fps) @ [patchEnd]) [newline]"

definition plainLine :: "string \<Rightarrow> bool" where
  "plainLine l \<longleftrightarrow> newline \<notin> set l \<and> CHR 0x0D \<notin> set l"

definition plainName :: "string \<Rightarrow> bool" where
  "plainName p \<longleftrightarrow> plainLine p \<and> trimSpace p = p \<and> trimSpace ('' '' @ p) = p"

definition chunkOk :: "patchChunk \<Rightarrow> bool" where
  "chunkOk c \<longleftrightarrow> plainName (ck_Context c) \<and> list_all plainLine (ck_Old c) \<and> list_all plainLine (ck_New c) \<and>
     (ck_Old c \<noteq> [] \<or> ck_New c \<noteq> [])"

definition sectionOk :: "filePatch \<Rightarrow> bool" where
  "sectionOk fp \<longleftrightarrow> plainName (fp_Path fp) \<and> plainName (fp_MoveTo fp) \<and>
     (case fp_Kind fp of
        KindAdd \<Rightarrow> fp_MoveTo fp = [] \<and> fp_Chunks fp = [] \<and> CHR 0x0D \<notin> set (fp_Content fp) \<and>
          (fp_Content fp = [] \<or> last (fp_Content fp) = newline)
      | KindDelete \<Rightarrow> fp_MoveTo fp = [] \<and> fp_Chunks fp = [] \<and> fp_Content fp = []
      | KindUpdate \<Rightarrow> fp_Content fp = [] \<and> list_all chunkOk (fp_Chunks fp) \<and> (fp_Chunks fp \<noteq> [] \<or> fp_MoveTo fp \<noteq> []))"

definition claimed :: "filePatch \<Rightarrow> string list" where
  "claimed fp = fp_Path fp # (if fp_MoveTo fp = [] then [] else [fp_MoveTo fp])"

definition patchOk :: "filePatch list \<Rightarrow> bool" where
  "patchOk fps \<longleftrightarrow> fps \<noteq> [] \<and> list_all sectionOk fps \<and> distinct (concat (map claimed fps))"

subsection \<open>Lines\<close>

lemma fileLines_snoc: "fileLines (s @ [newline]) = strSplit newline s"
  by (simp add: fileLines_def strSplit_snoc dropLastBlank_def)

lemma addContent_fileLines:
  assumes "content = [] \<or> last content = newline"
  shows "addContent (fileLines content) = content"
proof (cases content rule: rev_cases)
  case Nil
  then show ?thesis by (simp add: addContent_def fileLines_def dropLastBlank_def)
next
  case (snoc s x)
  then have "content = s @ [newline]" using assms by simp
  then show ?thesis by (simp add: addContent_def fileLines_snoc strJoin_strSplit)
qed

lemma fileLines_plain: "CHR 0x0D \<notin> set content \<Longrightarrow> list_all plainLine (fileLines content)"
  using strSplit_no_sep [of _ newline content]
  by (auto simp: list_all_iff plainLine_def fileLines_def dropLastBlank_def dest!: in_set_butlastD split: if_splits)

lemma dropCR_id: "CHR 0x0D \<notin> set s \<Longrightarrow> dropCR s = s"
  by (induction s rule: dropCR.induct) auto

subsection \<open>Sections\<close>

lemmas patch_marks = patchBegin_def patchEnd_def patchAdd_def patchDelete_def patchUpdate_def patchMove_def patchEOF_def

lemma trimPrefix_append [simp]: "trimPrefix (p @ r) p = r"
  by (simp add: trimPrefix_def)

lemma mark_prefixes [simp]:
  "hasPrefix (patchAdd @ p) patchAdd" "\<not> hasPrefix (patchDelete @ p) patchAdd" "\<not> hasPrefix (patchUpdate @ p) patchAdd"
  "hasPrefix (patchDelete @ p) patchDelete" "\<not> hasPrefix (patchUpdate @ p) patchDelete" "hasPrefix (patchUpdate @ p) patchUpdate"
  "hasPrefix (patchMove @ p) patchMove" "\<not> hasPrefix (CHR ''@'' # p) patchMove" "\<not> hasPrefix (patchAdd @ p) patchMove"
  "\<not> hasPrefix (patchDelete @ p) patchMove" "\<not> hasPrefix (patchUpdate @ p) patchMove"
  "hasPrefix (patchAdd @ p) ''*** ''" "hasPrefix (patchDelete @ p) ''*** ''" "hasPrefix (patchUpdate @ p) ''*** ''"
  by (simp_all add: patch_marks hasPrefix_def)

lemma sectionStart_marks [simp]:
  "isSectionStart (patchAdd @ p)" "isSectionStart (patchDelete @ p)" "isSectionStart (patchUpdate @ p)"
  "\<not> isSectionStart (CHR ''@'' # p)" "\<not> isSectionStart (CHR ''-'' # p)" "\<not> isSectionStart (CHR ''+'' # p)" "\<not> isSectionStart patchEOF"
  by (simp_all add: isSectionStart_def) (simp_all add: patch_marks hasPrefix_def)

definition sectionNext :: "string list \<Rightarrow> bool" where
  "sectionNext rest \<longleftrightarrow> rest = [] \<or> isSectionStart (hd rest)"

lemma sectionNext_print: "sectionNext (concat (map printSection fps))"
  by (cases fps) (auto simp: sectionNext_def printSection_def split: patchKind.split)

lemma sectionStart_stars: "isSectionStart l \<Longrightarrow> hasPrefix l ''*** ''"
  by (auto simp: isSectionStart_def hasPrefix_iff patch_marks)

lemma addLines_print:
  "sectionNext rest \<Longrightarrow> addLines i (map ((#) (CHR ''+'')) ls @ rest) = Inr (ls, i + length ls, rest)"
proof (induction ls arbitrary: i)
  case Nil
  then show ?case using sectionStart_stars by (cases rest) (auto simp: sectionNext_def)
next
  case (Cons l ls)
  have "\<not> hasPrefix (CHR ''+'' # l) ''*** ''" "hasPrefix (CHR ''+'' # l) ''+''" "trimPrefix (CHR ''+'' # l) ''+'' = l"
    by (simp_all add: hasPrefix_def trimPrefix_def)
  then show ?case using Cons by simp
qed

lemma hunkLine_print:
  "hunkLine i (CHR ''-'' # l) c = Inr (c\<lparr>ck_Old := ck_Old c @ [l]\<rparr>)"
  "hunkLine i (CHR ''+'' # l) c = Inr (c\<lparr>ck_New := ck_New c @ [l]\<rparr>)"
  "hunkLine i patchEOF c = Inr (c\<lparr>ck_EOF := True\<rparr>)"
  by (simp_all add: hunkLine_def patch_marks)

lemma at_prefix [simp]: "\<not> hasPrefix (CHR ''-'' # l) ''@@''" "\<not> hasPrefix (CHR ''+'' # l) ''@@''" "\<not> hasPrefix patchEOF ''@@''"
  by (simp_all add: hasPrefix_def patch_marks)

lemma hunkLines_removed:
  "\<not> ck_EOF c \<Longrightarrow> hunkLines i (map ((#) (CHR ''-'')) ls @ rest) c = hunkLines (i + length ls) rest (c\<lparr>ck_Old := ck_Old c @ ls\<rparr>)"
  by (induction ls arbitrary: i c) (simp_all add: hunkLine_print)

lemma hunkLines_added:
  "\<not> ck_EOF c \<Longrightarrow> hunkLines i (map ((#) (CHR ''+'')) ls @ rest) c = hunkLines (i + length ls) rest (c\<lparr>ck_New := ck_New c @ ls\<rparr>)"
  by (induction ls arbitrary: i c) (simp_all add: hunkLine_print)

lemma hunkLines_end:
  "\<not> ck_EOF c \<Longrightarrow> rest = [] \<or> isSectionStart (hd rest) \<or> hasPrefix (hd rest) ''@@'' \<Longrightarrow>
   \<exists>j. hunkLines i ((if eof then [patchEOF] else []) @ rest) c = Inr (c\<lparr>ck_EOF := eof\<rparr>, j, rest)"
  by (cases rest) (auto simp: hunkLine_print)

lemma parseChunks_print:
  "list_all chunkOk cs \<Longrightarrow> sectionNext rest \<Longrightarrow>
   \<exists>j. parseChunks n path i (concat (map printChunk cs) @ rest) acc = Inr (acc @ cs, j, rest)"
proof (induction cs arbitrary: i acc)
  case Nil
  then show ?case by (simp add: parseChunks.simps [of n path i rest] sectionNext_def)
next
  case (Cons c cs)
  let ?rest = "concat (map printChunk cs) @ rest"
  let ?body = "map ((#) (CHR ''-'')) (ck_Old c) @ map ((#) (CHR ''+'')) (ck_New c) @ (if ck_EOF c then [patchEOF] else []) @ ?rest"
  let ?head = "''@@'' @ (if ck_Context c = [] then [] else '' '' @ ck_Context c)"
  let ?c0 = "zeroChunk\<lparr>ck_Context := ck_Context c\<rparr>"
  have nx: "?rest = [] \<or> isSectionStart (hd ?rest) \<or> hasPrefix (hd ?rest) ''@@''"
    using Cons.prems(2) by (cases cs) (auto simp: sectionNext_def printChunk_def hasPrefix_def)
  have ctx: "trimSpace (trimPrefix ?head ''@@'') = ck_Context c"
    using Cons.prems(1) by (auto simp: chunkOk_def plainName_def trimPrefix_def hasPrefix_def)
  have head: "hasPrefix ?head ''@@''" "\<not> isSectionStart ?head" by (simp_all add: hasPrefix_def)
  let ?i = "Suc i + length (ck_Old c) + length (ck_New c)"
  have c1: "?c0\<lparr>ck_Old := ck_Old c, ck_New := ck_New c\<rparr>\<lparr>ck_EOF := ck_EOF c\<rparr> = c" by (cases c) (simp add: zeroChunk_def)
  obtain j where j: "hunkLines (Suc i) ?body ?c0 = Inr (c, j, ?rest)"
    using hunkLines_end [OF _ nx, of "?c0\<lparr>ck_Old := ck_Old c, ck_New := ck_New c\<rparr>" ?i "ck_EOF c"] c1
    by (auto simp: hunkLines_removed hunkLines_added zeroChunk_def)
  have ne: "j \<noteq> Suc i" "ck_Old c \<noteq> [] \<or> ck_New c \<noteq> []"
    using hunkLines_length [OF j] Cons.prems(1) by (auto simp: chunkOk_def)
  have "parseChunks n path i (?head # ?body) acc = parseChunks n path j ?rest (acc @ [c])"
    using head ctx j ne by (subst parseChunks.simps) (auto simp: Let_def)
  moreover have "concat (map printChunk (c # cs)) @ rest = ?head # ?body" by (simp add: printChunk_def [of c])
  ultimately show ?case using Cons.IH [of j "acc @ [c]"] Cons.prems by simp
qed

lemma section_path:
  "plainName p \<Longrightarrow> trimSpace p = p" "plainName p \<Longrightarrow> trimSpace (CHR '' '' # p) = p"
  by (simp_all add: plainName_def)

lemma parseBody_section:
  assumes ok: "sectionOk fp" and rest: "sectionNext rest" and new: "distinct (claimed fp)" "set (claimed fp) \<inter> set seen = {}"
  shows "\<exists>j seen'. parseBody i (printSection fp @ rest) seen out = parseBody j rest seen' (out @ [fp]) \<and>
    set seen' = set (claimed fp) \<union> set seen"
proof (cases "fp_Kind fp")
  case KindAdd
  have fp: "\<lparr>fp_Kind = KindAdd, fp_Path = fp_Path fp, fp_MoveTo = [], fp_Content = fp_Content fp, fp_Chunks = []\<rparr> = fp"
    using ok KindAdd by (cases fp) (simp add: sectionOk_def)
  have "addContent (fileLines (fp_Content fp)) = fp_Content fp"
    using ok KindAdd by (intro addContent_fileLines) (simp add: sectionOk_def)
  moreover have "fp_Path fp \<notin> set seen" "plainName (fp_Path fp)" using new ok by (auto simp: claimed_def sectionOk_def)
  ultimately have "parseBody i (printSection fp @ rest) seen out =
      parseBody (Suc i + length (fileLines (fp_Content fp))) rest (fp_Path fp # seen) (out @ [fp])"
    using KindAdd fp addLines_print [OF rest] by (simp add: printSection_def parseBody.simps(2) claimPath_def section_path Let_def)
  moreover have "claimed fp = [fp_Path fp]" using ok KindAdd by (simp add: claimed_def sectionOk_def)
  ultimately show ?thesis by (metis list.set(1,2) insert_is_Un set_append append_Cons append_Nil)
next
  case KindDelete
  have fp: "\<lparr>fp_Kind = KindDelete, fp_Path = fp_Path fp, fp_MoveTo = [], fp_Content = [], fp_Chunks = []\<rparr> = fp"
    using ok KindDelete by (cases fp) (simp add: sectionOk_def)
  have "fp_Path fp \<notin> set seen" "plainName (fp_Path fp)" using new ok by (auto simp: claimed_def sectionOk_def)
  then have "parseBody i (printSection fp @ rest) seen out = parseBody (Suc i) rest (fp_Path fp # seen) (out @ [fp])"
    using KindDelete fp by (simp add: printSection_def parseBody.simps(2) claimPath_def section_path Let_def)
  moreover have "claimed fp = [fp_Path fp]" using ok KindDelete by (simp add: claimed_def sectionOk_def)
  ultimately show ?thesis by (metis list.set(1,2) insert_is_Un set_append append_Cons append_Nil)
next
  case KindUpdate
  have fp: "\<lparr>fp_Kind = KindUpdate, fp_Path = fp_Path fp, fp_MoveTo = fp_MoveTo fp, fp_Content = [], fp_Chunks = fp_Chunks fp\<rparr> = fp"
    using ok KindUpdate by (cases fp) (simp add: sectionOk_def)
  have k: "fp_Path fp \<notin> set seen" "plainName (fp_Path fp)" "plainName (fp_MoveTo fp)" "list_all chunkOk (fp_Chunks fp)"
      "fp_Chunks fp \<noteq> [] \<or> fp_MoveTo fp \<noteq> []"
    using new ok KindUpdate by (auto simp: claimed_def sectionOk_def)
  show ?thesis
  proof (cases "fp_MoveTo fp = []")
    case True
    define body where "body = concat (map printChunk (fp_Chunks fp)) @ rest"
    obtain c cs where "fp_Chunks fp = c # cs" using k(5) True by (cases "fp_Chunks fp") auto
    then have nm: "(body \<noteq> [] \<and> hasPrefix (hd body) patchMove) = False" by (simp add: body_def printChunk_def)
    obtain j where j: "parseChunks (i + 2) (fp_Path fp) (Suc i) body [] = Inr (fp_Chunks fp, j, rest)"
      using parseChunks_print [OF k(4) rest, of "i + 2" "fp_Path fp" "Suc i" "[]"] by (auto simp: body_def)
    have "printSection fp @ rest = (patchUpdate @ fp_Path fp) # body"
      using KindUpdate True by (simp add: printSection_def body_def)
    then have "parseBody i (printSection fp @ rest) seen out = parseBody j rest (fp_Path fp # seen) (out @ [fp])"
      using fp k nm j True by (simp only: parseBody.simps(2)) (simp add: claimPath_def section_path Let_def)
    then show ?thesis using True by (intro exI [of _ j] exI [of _ "fp_Path fp # seen"]) (simp add: claimed_def)
  next
    case False
    define body where "body = concat (map printChunk (fp_Chunks fp)) @ rest"
    obtain j where j: "parseChunks (i + 2) (fp_Path fp) (i + 2) body [] = Inr (fp_Chunks fp, j, rest)"
      using parseChunks_print [OF k(4) rest, of "i + 2" "fp_Path fp" "i + 2" "[]"] by (auto simp: body_def)
    have "printSection fp @ rest = (patchUpdate @ fp_Path fp) # (patchMove @ fp_MoveTo fp) # body"
      using KindUpdate False by (simp add: printSection_def body_def)
    moreover have "fp_MoveTo fp \<notin> set seen" "fp_MoveTo fp \<noteq> fp_Path fp" using new False by (auto simp: claimed_def)
    ultimately have "parseBody i (printSection fp @ rest) seen out = parseBody j rest (fp_MoveTo fp # fp_Path fp # seen) (out @ [fp])"
      using fp k j False by (simp only: parseBody.simps(2)) (simp add: claimPath_def section_path Let_def)
    then show ?thesis
      using False by (intro exI [of _ j] exI [of _ "fp_MoveTo fp # fp_Path fp # seen"]) (auto simp: claimed_def)
  qed
qed

lemma parseBody_print:
  "list_all sectionOk fps \<Longrightarrow> distinct (concat (map claimed fps)) \<Longrightarrow> set (concat (map claimed fps)) \<inter> set seen = {} \<Longrightarrow>
   parseBody i (concat (map printSection fps)) seen out = Inr (out @ fps)"
proof (induction fps arbitrary: i seen out)
  case Nil
  then show ?case by (simp add: parseBody.simps(1))
next
  case (Cons fp fps)
  let ?rest = "concat (map printSection fps)"
  obtain j seen' where j: "parseBody i (printSection fp @ ?rest) seen out = parseBody j ?rest seen' (out @ [fp])"
      "set seen' = set (claimed fp) \<union> set seen"
    using parseBody_section [OF _ sectionNext_print [of fps], of fp seen i out] Cons.prems by auto
  have "parseBody j ?rest seen' (out @ [fp]) = Inr ((out @ [fp]) @ fps)"
    by (rule Cons.IH) (use Cons.prems j(2) in auto)
  then show ?case using j(1) by simp
qed

subsection \<open>The envelope\<close>

lemma starts_star:
  "trimSpace (CHR ''*'' # s @ [CHR ''h'']) = CHR ''*'' # s @ [CHR ''h'']"
proof (rule trimSpace_id)
  show "find (hasPrefix (CHR ''*'' # s @ [CHR ''h''])) space_seqs = None" by (simp add: space_seqs_def hasPrefix_def)
  have "\<not> hasSuffix (CHR ''*'' # s @ [CHR ''h'']) q" if "q \<noteq> []" "last q \<noteq> CHR ''h''" for q
    using that by (metis hasSuffix_def append_Cons append_take_drop_id last_appendR last_snoc)
  moreover have "q \<noteq> [] \<and> last q \<noteq> CHR ''h''" if "q \<in> set space_seqs" for q
    using that by (auto simp: space_seqs_def)
  ultimately show "find (hasSuffix (CHR ''*'' # s @ [CHR ''h''])) space_seqs = None" by (auto simp: find_None_iff)
qed

lemma plainLine_simps [simp]:
  "plainLine []" "plainLine (x # l) \<longleftrightarrow> x \<noteq> newline \<and> x \<noteq> CHR 0x0D \<and> plainLine l"
  "plainLine (l @ k) \<longleftrightarrow> plainLine l \<and> plainLine k"
  by (auto simp: plainLine_def)

lemma plain_marks [simp]:
  "plainLine patchBegin" "plainLine patchEnd" "plainLine patchAdd" "plainLine patchDelete" "plainLine patchUpdate"
  "plainLine patchMove" "plainLine patchEOF"
  by (simp_all add: patch_marks)

lemma plainName_line: "plainName p \<Longrightarrow> plainLine p"
  by (simp add: plainName_def)

lemma plain_map: "x \<noteq> newline \<Longrightarrow> x \<noteq> CHR 0x0D \<Longrightarrow> list_all plainLine (map ((#) x) ls) = list_all plainLine ls"
  by (induction ls) auto

lemma printChunk_plain:
  assumes "chunkOk c"
  shows "list_all plainLine (printChunk c)"
proof -
  have "plainLine (ck_Context c)" "list_all plainLine (ck_Old c)" "list_all plainLine (ck_New c)"
    using assms by (simp_all add: chunkOk_def plainName_def)
  then show ?thesis by (simp add: printChunk_def plain_map)
qed

lemma printSection_plain:
  assumes "sectionOk fp"
  shows "list_all plainLine (printSection fp)"
proof -
  have "list_all plainLine (concat (map printChunk cs))" if "list_all chunkOk cs" for cs
    using that printChunk_plain by (induction cs) auto
  then show ?thesis
    using assms fileLines_plain [of "fp_Content fp"]
      plainName_line [of "fp_Path fp"] plainName_line [of "fp_MoveTo fp"]
    by (cases "fp_Kind fp") (simp_all add: printSection_def sectionOk_def plain_map)
qed

lemma set_strJoin: "set (strJoin ls sep) \<subseteq> \<Union> (set (map set ls)) \<union> set sep"
  by (induction ls sep rule: strJoin.induct) auto

text \<open>
  C29: a printed patch is read back. For every patch with plain names and lines, at least one file and no
  path named twice, parsing the printed envelope returns the same sections in the same order, with
  their contexts, lines, anchors at the end of the file and moves.
\<close>

theorem patch_print_parse:
  assumes "patchOk fps"
  shows "parsePatch (printPatch fps) = Inr fps"
proof -
  let ?lines = "patchBegin # concat (map printSection fps) @ [patchEnd]"
  let ?t = "strJoin ?lines [newline]"
  have plain: "list_all plainLine ?lines"
    using assms printSection_plain by (fastforce simp: patchOk_def list_all_iff)
  then have "CHR 0x0D \<notin> set ?t" using set_strJoin [of ?lines "[newline]"] by (fastforce simp: list_all_iff plainLine_def)
  then have cr: "dropCR ?t = ?t" by (rule dropCR_id)
  obtain m where "?t = CHR ''*'' # m @ [CHR ''h'']"
  proof -
    have "?t = strJoin (patchBegin # concat (map printSection fps)) [newline] @ [newline] @ patchEnd"
      using strJoin_snoc [of "patchBegin # concat (map printSection fps)" patchEnd "[newline]"] by simp
    moreover obtain r where "strJoin (patchBegin # concat (map printSection fps)) [newline] = patchBegin @ r"
      using strJoin_Cons_prefix by blast
    ultimately show ?thesis by (intro that [of "tl patchBegin @ r @ [newline] @ butlast patchEnd"]) (simp add: patch_marks)
  qed
  then have tr: "trimSpace ?t = ?t" using starts_star by simp
  have sp: "strSplit newline ?t = ?lines"
    using plain by (intro strSplit_strJoin) (auto simp: list_all_iff plainLine_def)
  have marks: "trimSpace patchBegin = patchBegin" "trimSpace patchEnd = patchEnd"
    using starts_star [of "''** Begin Patc''"] starts_star [of "''** End Patc''"] by (simp_all add: patch_marks)
  have "parseBody 0 (concat (map printSection fps)) [] [] = Inr fps"
    using parseBody_print [of fps "[]" 0 "[]"] assms by (simp add: patchOk_def)
  then show ?thesis
    using assms by (simp add: parsePatch_def printPatch_def cr tr sp marks Let_def patchOk_def)
qed

definition demoPatch :: "filePatch list" where
  "demoPatch =
     [\<lparr>fp_Kind = KindAdd, fp_Path = ''new.go'', fp_MoveTo = [], fp_Content = ''package x'' @ [newline], fp_Chunks = []\<rparr>,
      \<lparr>fp_Kind = KindUpdate, fp_Path = ''a.go'', fp_MoveTo = ''b.go'', fp_Content = [], fp_Chunks = [growHunk]\<rparr>,
      \<lparr>fp_Kind = KindDelete, fp_Path = ''c.go'', fp_MoveTo = [], fp_Content = [], fp_Chunks = []\<rparr>]"

theorem patch_print_parse_witness: "parsePatch (printPatch demoPatch) = Inr demoPatch"
proof -
  have n: "plainName ''new.go'' \<and> plainName ''a.go'' \<and> plainName ''b.go'' \<and> plainName ''c.go'' \<and> plainName []"
    by code_simp
  then have "patchOk demoPatch"
    by (simp add: patchOk_def demoPatch_def sectionOk_def claimed_def chunkOk_def growHunk_def zeroChunk_def plainLine_def)
  then show ?thesis by (rule patch_print_parse)
qed

end
