(* ===== verification/FileTools.thy ===== *)
theory FileTools
  imports FileRoot FileEdit FilePatch
begin

text \<open>
  The workspace tools of \<^verbatim>\<open>src/ext/files/tools.go\<close> and \<^verbatim>\<open>src/ext/files/patchtool.go\<close>: reading, editing, writing
  and deleting a file, and applying a patch to several files. Arguments are decoded JSON; a type
  assertion that fails is \<open>None\<close>. Every handler returns its result with the changed files. The outer
  option of the patch handlers is the panic of \<open>applyChunks\<close>.
\<close>

record fileResult =
  fr_IsError :: bool
  fr_Text :: string
  fr_Data :: jargs

definition toolError :: "string \<Rightarrow> fileResult" where
  "toolError msg = \<lparr>fr_IsError = True, fr_Text = msg, fr_Data = []\<rparr>"

definition okResult :: "string \<Rightarrow> jargs \<Rightarrow> fileResult" where
  "okResult t d = \<lparr>fr_IsError = False, fr_Text = t, fr_Data = d\<rparr>"

definition strArg :: "jargs \<Rightarrow> string \<Rightarrow> string option" where
  "strArg args k = (case map_of args k of Some (JStr s) \<Rightarrow> Some s | _ \<Rightarrow> None)"

definition intArg :: "jargs \<Rightarrow> string \<Rightarrow> int option" where
  "intArg args k = (case map_of args k of Some (JNum n) \<Rightarrow> Some n | _ \<Rightarrow> None)"

subsection \<open>Reading\<close>

definition splitAfter :: "string \<Rightarrow> string list" where
  "splitAfter s = map (\<lambda>l. l @ [newline]) (butlast (strSplit newline s)) @ [last (strSplit newline s)]"

definition lineRange :: "jargs \<Rightarrow> int \<Rightarrow> (int \<times> int) option" where
  "lineRange args cnt =
     (let s = intArg args ''start_line''; e = intArg args ''end_line''
      in if s = None \<and> e = None then None
         else (let start = (case s of Some v \<Rightarrow> if v > 1 then v else 1 | None \<Rightarrow> 1);
                   end1 = (case e of Some v \<Rightarrow> if v < cnt then v else cnt | None \<Rightarrow> cnt);
                   end2 = (if end1 < start then start else end1);
                   end3 = (if end2 > cnt then cnt else end2)
               in Some (start, end3)))"

definition readTool :: "(string \<Rightarrow> string) \<Rightarrow> string list \<Rightarrow> jargs \<Rightarrow> fsWorld \<Rightarrow> fileResult \<times> fsWorld" where
  "readTool sha roots args w =
     (case strArg args ''path'' of
        None \<Rightarrow> (toolError ''read_file needs a path'', w)
      | Some path \<Rightarrow>
          if path = [] then (toolError ''read_file needs a path'', w)
          else case resolve roots path of
                 Inl e \<Rightarrow> (toolError (errText e), w)
               | Inr a \<Rightarrow>
                   (case fsReadFile a w of
                      (Inl e, w1) \<Rightarrow> (toolError (escapeMessage path e), w1)
                    | (Inr content, w1) \<Rightarrow>
                        (let hash = fileHash sha content; shown = absPath roots a;
                             lines = dropLastBlank (splitAfter content); count = int (length lines)
                         in case lineRange args count of
                              None \<Rightarrow>
                                (okResult (''path: '' @ shown @ [newline] @ ''hash: '' @ hash @ [newline] @ ''lines: '' @ itoa count @
                                   [newline, newline] @ content)
                                   [(''path'', JStr shown), (''hash'', JStr hash), (''lines'', JNum count), (''content'', JStr content)], w1)
                            | Some (start, stop) \<Rightarrow>
                                if start > count then
                                  (toolError (''start_line '' @ itoa start @ '' is past the end of '' @ path @ '', which has '' @ itoa count @ '' lines''), w1)
                                else (let part = concat (drop (nat (start - 1)) (take (nat stop) lines))
                                      in (okResult (''path: '' @ shown @ [newline] @ ''hash: '' @ hash @ '' (whole file)'' @ [newline] @
                                            ''lines: '' @ itoa start @ ''-'' @ itoa stop @ '' of '' @ itoa count @ [newline, newline] @ part)
                                            [(''path'', JStr shown), (''hash'', JStr hash), (''lines'', JNum count), (''start_line'', JNum start),
                                             (''end_line'', JNum stop), (''content'', JStr part)], w1)))))"

subsection \<open>Editing\<close>

definition parseHunk :: "nat \<Rightarrow> jval \<Rightarrow> goerr + hunk" where
  "parseHunk i item =
     (case item of
        JObj m \<Rightarrow>
          (case strArg m ''old'' of
             None \<Rightarrow> Inl (Errorf ''edit %d has no `old` string'' [itoa (int i)] None)
           | Some old \<Rightarrow>
               (case map_of m ''new'' of
                  None \<Rightarrow> Inr \<lparr>hk_Old = old, hk_New = []\<rparr>
                | Some JNull \<Rightarrow> Inr \<lparr>hk_Old = old, hk_New = []\<rparr>
                | Some (JStr nw) \<Rightarrow> Inr \<lparr>hk_Old = old, hk_New = nw\<rparr>
                | Some _ \<Rightarrow> Inl (Errorf ''edit %d has a non-string `new`'' [itoa (int i)] None)))
      | _ \<Rightarrow> Inl (Errorf ''edit %d is not an object'' [itoa (int i)] None))"

fun parseHunkList :: "nat \<Rightarrow> jval list \<Rightarrow> goerr + hunk list" where
  "parseHunkList i [] = Inr []"
| "parseHunkList i (x # xs) =
     (case parseHunk i x of
        Inl e \<Rightarrow> Inl e
      | Inr h \<Rightarrow> (case parseHunkList (Suc i) xs of Inl e \<Rightarrow> Inl e | Inr hs \<Rightarrow> Inr (h # hs)))"

definition parseHunks :: "jval option \<Rightarrow> goerr + hunk list" where
  "parseHunks raw =
     (case raw of
        Some (JArr (x # xs)) \<Rightarrow> parseHunkList 0 (x # xs)
      | _ \<Rightarrow> Inl (ErrNew ''edit_file needs a non-empty edits array''))"

definition editFileAt ::
  "(string \<Rightarrow> string) \<Rightarrow> string list \<Rightarrow> string \<Rightarrow> string \<Rightarrow> hunk list \<Rightarrow> fileAt \<Rightarrow> fsWorld \<Rightarrow> fileResult \<times> fsWorld" where
  "editFileAt sha roots path expect hunks a w =
     (case fsStat a w of
        (Inl e, w1) \<Rightarrow> (toolError (escapeMessage path e), w1)
      | (Inr info, w1) \<Rightarrow>
          (case fsReadFile a w1 of
             (Inl e, w2) \<Rightarrow> (toolError (escapeMessage path e), w2)
           | (Inr b, w2) \<Rightarrow>
               (case editApply sha \<lparr>ed_ExpectHash = expect, ed_Hunks = hunks\<rparr> b of
                  Inl e \<Rightarrow> (toolError (path @ '': '' @ errText e), w2)
                | Inr out \<Rightarrow>
                    (case writeThroughRoot a out (case info of FileNode _ m \<Rightarrow> m | OtherNode \<Rightarrow> 0) w2 of
                       (Some e, w3) \<Rightarrow> (toolError (''cannot write '' @ path @ '': '' @ fe_text e), w3)
                     | (None, w3) \<Rightarrow>
                         (okResult (''edited '' @ absPath roots a @ '', '' @ itoa (int (length hunks)) @ '' edit(s) applied'' @
                            [newline] @ ''hash: '' @ fileHash sha out)
                            [(''path'', JStr (absPath roots a)), (''hash'', JStr (fileHash sha out)), (''edits'', JNum (int (length hunks)))], w3)))))"

definition editTool :: "(string \<Rightarrow> string) \<Rightarrow> string list \<Rightarrow> jargs \<Rightarrow> fsWorld \<Rightarrow> fileResult \<times> fsWorld" where
  "editTool sha roots args w =
     (let path = (case strArg args ''path'' of None \<Rightarrow> [] | Some p \<Rightarrow> p);
          expect = (case strArg args ''expect_hash'' of None \<Rightarrow> [] | Some h \<Rightarrow> h)
      in if path = [] then (toolError ''edit_file needs a path'', w)
         else if expect = [] then (toolError ''edit_file needs expect_hash; read the file first and pass the hash it returned'', w)
         else case parseHunks (map_of args ''edits'') of
                Inl e \<Rightarrow> (toolError (errText e), w)
              | Inr hunks \<Rightarrow>
                  (case resolve roots path of
                     Inl e \<Rightarrow> (toolError (errText e), w)
                   | Inr a \<Rightarrow> editFileAt sha roots path expect hunks a w))"

subsection \<open>Writing and deleting\<close>

definition staleText :: "string \<Rightarrow> string \<Rightarrow> string \<Rightarrow> string \<Rightarrow> string" where
  "staleText path expect got verb =
     path @ '': '' @ errText errStale @ '': expected '' @ expect @ '', found '' @ got @ ''; re-read it before '' @ verb"

text \<open>The end of \<open>write\<close>, once the checks passed: \<open>was\<close> is the file's mode if it existed.\<close>

definition writeContent ::
  "(string \<Rightarrow> string) \<Rightarrow> string list \<Rightarrow> string \<Rightarrow> string \<Rightarrow> fileAt \<Rightarrow> nat option \<Rightarrow> fsWorld \<Rightarrow> fileResult \<times> fsWorld" where
  "writeContent sha roots path content a was w =
     (case (if was = None then mkdirFor a w else (None, w)) of
        (Some e, w1) \<Rightarrow> (toolError (escapeMessage path e), w1)
      | (None, w1) \<Rightarrow>
          (case writeThroughRoot a content (case was of None \<Rightarrow> 420 | Some m \<Rightarrow> m) w1 of
             (Some e, w2) \<Rightarrow> (toolError (''cannot write '' @ path @ '': '' @ fe_text e), w2)
           | (None, w2) \<Rightarrow>
               (okResult ((if was = None then ''created '' else ''replaced '') @ absPath roots a @ '', '' @ itoa (int (length content)) @
                  '' byte(s)'' @ [newline] @ ''hash: '' @ fileHash sha content)
                  [(''path'', JStr (absPath roots a)), (''hash'', JStr (fileHash sha content)), (''bytes'', JNum (int (length content))),
                   (''created'', JBool (was = None))], w2)))"

definition writeTool :: "(string \<Rightarrow> string) \<Rightarrow> string list \<Rightarrow> jargs \<Rightarrow> fsWorld \<Rightarrow> fileResult \<times> fsWorld" where
  "writeTool sha roots args w =
     (let path = (case strArg args ''path'' of None \<Rightarrow> [] | Some p \<Rightarrow> p);
          expect = (case strArg args ''expect_hash'' of None \<Rightarrow> [] | Some h \<Rightarrow> h)
      in if path = [] then (toolError ''write_file needs a path'', w)
         else case strArg args ''content'' of
                None \<Rightarrow> (toolError ''write_file needs content (pass an empty string to write an empty file)'', w)
              | Some content \<Rightarrow>
                  (case resolve roots path of
                     Inl e \<Rightarrow> (toolError (errText e), w)
                   | Inr a \<Rightarrow>
                       (case fsStat a w of
                          (Inr OtherNode, w1) \<Rightarrow> (toolError (''refusing '' @ path @ '': it is not a regular file''), w1)
                        | (Inr (FileNode _ m), w1) \<Rightarrow>
                            if expect = [] then
                              (toolError (''refusing '' @ path @ '': it already exists. Read it first and pass expect_hash to replace it, or use edit_file to change part of it.''), w1)
                            else (case fsReadFile a w1 of
                                    (Inl e, w2) \<Rightarrow> (toolError (escapeMessage path e), w2)
                                  | (Inr b, w2) \<Rightarrow>
                                      if fileHash sha b \<noteq> expect then (toolError (staleText path expect (fileHash sha b) ''writing''), w2)
                                      else writeContent sha roots path content a (Some m) w2)
                        | (Inl e, w1) \<Rightarrow>
                            if fe_kind e \<noteq> NotExist then (toolError (escapeMessage path e), w1)
                            else if expect \<noteq> [] then
                              (toolError (''refusing '' @ path @ '': expect_hash was given but the file does not exist. Omit it to create the file.''), w1)
                            else writeContent sha roots path content a None w1)))"

definition deleteTool :: "(string \<Rightarrow> string) \<Rightarrow> string list \<Rightarrow> jargs \<Rightarrow> fsWorld \<Rightarrow> fileResult \<times> fsWorld" where
  "deleteTool sha roots args w =
     (let path = (case strArg args ''path'' of None \<Rightarrow> [] | Some p \<Rightarrow> p);
          expect = (case strArg args ''expect_hash'' of None \<Rightarrow> [] | Some h \<Rightarrow> h)
      in if path = [] then (toolError ''delete_file needs a path'', w)
         else if expect = [] then (toolError ''delete_file needs expect_hash; read the file first and pass the hash it returned'', w)
         else case resolve roots path of
                Inl e \<Rightarrow> (toolError (errText e), w)
              | Inr a \<Rightarrow>
                  (case fsStat a w of
                     (Inl e, w1) \<Rightarrow>
                       (if fe_kind e = NotExist then (toolError (''cannot delete '' @ path @ '': it does not exist''), w1)
                        else (toolError (escapeMessage path e), w1))
                   | (Inr OtherNode, w1) \<Rightarrow> (toolError (''refusing '' @ path @ '': it is not a regular file''), w1)
                   | (Inr (FileNode _ _), w1) \<Rightarrow>
                       (case fsReadFile a w1 of
                          (Inl e, w2) \<Rightarrow> (toolError (escapeMessage path e), w2)
                        | (Inr b, w2) \<Rightarrow>
                            if fileHash sha b \<noteq> expect then (toolError (staleText path expect (fileHash sha b) ''deleting''), w2)
                            else (case fsRemove a w2 of
                                    (Some e, w3) \<Rightarrow> (toolError (''cannot delete '' @ path @ '': '' @ fe_text e), w3)
                                  | (None, w3) \<Rightarrow>
                                      (okResult (''deleted '' @ absPath roots a @ '', '' @ itoa (int (length b)) @ '' byte(s)'')
                                         [(''path'', JStr (absPath roots a)), (''bytes'', JNum (int (length b))), (''deleted'', JBool True)], w3)))))"

subsection \<open>Patches\<close>

record patchOp =
  po_fp :: filePatch
  po_at :: fileAt
  po_mode :: nat
  po_had :: bool
  po_old :: string
  po_nw :: string
  po_to :: "fileAt option"

text \<open>The state of the file a section names: its content and mode if it is a regular file.\<close>

definition planState :: "string \<Rightarrow> fileAt \<Rightarrow> fsWorld \<Rightarrow> (goerr + (string \<times> nat) option) \<times> fsWorld" where
  "planState path a w =
     (case fsStat a w of
        (Inr OtherNode, w1) \<Rightarrow> (Inl (Errorf ''%s is not a regular file'' [path] None), w1)
      | (Inr (FileNode _ m), w1) \<Rightarrow>
          (case fsReadFile a w1 of
             (Inl e, w2) \<Rightarrow> (Inl (ErrNew (escapeMessage path e)), w2)
           | (Inr b, w2) \<Rightarrow> (Inr (Some (b, m)), w2))
      | (Inl e, w1) \<Rightarrow>
          if fe_kind e \<noteq> NotExist then (Inl (ErrNew (escapeMessage path e)), w1) else (Inr None, w1))"

definition planMove :: "string list \<Rightarrow> filePatch \<Rightarrow> fsWorld \<Rightarrow> (goerr + fileAt option) \<times> fsWorld" where
  "planMove roots fp w =
     (if fp_MoveTo fp = [] then (Inr None, w)
      else case resolve roots (fp_MoveTo fp) of
             Inl e \<Rightarrow> (Inl e, w)
           | Inr t \<Rightarrow>
               (case fsStat t w of
                  (Inr _, w1) \<Rightarrow> (Inl (Errorf ''can't move %s to %s: the target exists'' [fp_Path fp, fp_MoveTo fp] None), w1)
                | (Inl e, w1) \<Rightarrow>
                    if fe_kind e \<noteq> NotExist then (Inl (ErrNew (escapeMessage (fp_MoveTo fp) e)), w1) else (Inr (Some t), w1)))"

definition planOp :: "string list \<Rightarrow> filePatch \<Rightarrow> fsWorld \<Rightarrow> (goerr + patchOp) option \<times> fsWorld" where
  "planOp roots fp w =
     (case resolve roots (fp_Path fp) of
        Inl e \<Rightarrow> (Some (Inl e), w)
      | Inr a \<Rightarrow>
          (case planState (fp_Path fp) a w of
             (Inl e, w1) \<Rightarrow> (Some (Inl e), w1)
           | (Inr st, w1) \<Rightarrow>
               (let op = \<lparr>po_fp = fp, po_at = a, po_mode = (case st of None \<Rightarrow> 420 | Some (_, m) \<Rightarrow> m), po_had = (st \<noteq> None),
                     po_old = (case st of None \<Rightarrow> [] | Some (c, _) \<Rightarrow> c), po_nw = [], po_to = None\<rparr>
                in case fp_Kind fp of
                     KindAdd \<Rightarrow>
                       (if po_had op then
                          (Some (Inl (Errorf ''can't add %s: it already exists; use *** Update File to change it'' [fp_Path fp] None)), w1)
                        else (Some (Inr (op\<lparr>po_nw := fp_Content fp\<rparr>)), w1))
                   | KindDelete \<Rightarrow>
                       (if \<not> po_had op then (Some (Inl (Errorf ''can't delete %s: it doesn't exist'' [fp_Path fp] None)), w1)
                        else (Some (Inr op), w1))
                   | KindUpdate \<Rightarrow>
                       (if \<not> po_had op then
                          (Some (Inl (Errorf ''can't update %s: it doesn't exist; use *** Add File to create it'' [fp_Path fp] None)), w1)
                        else (case (if fp_Chunks fp = [] then Some (Inr (po_old op)) else applyChunks (po_old op) (fp_Chunks fp)) of
                                None \<Rightarrow> (None, w1)
                              | Some (Inl e) \<Rightarrow> (Some (Inl (Errorf ''%s: %v'' [fp_Path fp, errText e] None)), w1)
                              | Some (Inr nw) \<Rightarrow>
                                  (case planMove roots fp w1 of
                                     (Inl e, w2) \<Rightarrow> (Some (Inl e), w2)
                                   | (Inr t, w2) \<Rightarrow> (Some (Inr (op\<lparr>po_nw := nw, po_to := t\<rparr>)), w2)))))))"

fun planPatch :: "string list \<Rightarrow> filePatch list \<Rightarrow> fsWorld \<Rightarrow> (goerr + patchOp list) option \<times> fsWorld" where
  "planPatch roots [] w = (Some (Inr []), w)"
| "planPatch roots (fp # fps) w =
     (case planOp roots fp w of
        (None, w1) \<Rightarrow> (None, w1)
      | (Some (Inl e), w1) \<Rightarrow> (Some (Inl e), w1)
      | (Some (Inr op), w1) \<Rightarrow>
          (case planPatch roots fps w1 of
             (Some (Inr ops), w2) \<Rightarrow> (Some (Inr (op # ops)), w2)
           | r \<Rightarrow> r))"

datatype undoOp = UndoRestore fileAt string nat | UndoRemove fileAt

fun undo1 :: "undoOp \<Rightarrow> fsWorld \<Rightarrow> fsErr option \<times> fsWorld" where
  "undo1 (UndoRestore a c m) w = writeThroughRoot a c m w"
| "undo1 (UndoRemove a) w = fsRemove a w"

fun runUndo :: "undoOp list \<Rightarrow> fsWorld \<Rightarrow> string list \<times> fsWorld" where
  "runUndo [] w = ([], w)"
| "runUndo (u # us) w =
     (case undo1 u w of
        (Some e, w1) \<Rightarrow> (case runUndo us w1 of (bad, w2) \<Rightarrow> (fe_text e # bad, w2))
      | (None, w1) \<Rightarrow> runUndo us w1)"

text \<open>\<open>undo\<close> is kept newest first. The flag says that everything was put back.\<close>

definition failCommit :: "undoOp list \<Rightarrow> goerr \<Rightarrow> fsWorld \<Rightarrow> (goerr \<times> bool) option \<times> fsWorld" where
  "failCommit undo err w =
     (case runUndo undo w of
        (bad, w1) \<Rightarrow>
          if bad \<noteq> [] then
            (Some (Errorf ''%v, and putting back the files already changed failed too: %s'' [errText err, strJoin bad ''; ''] None, False), w1)
          else (Some (Errorf ''%v. The files already changed were put back'' [errText err] None, True), w1))"

definition undoWrite :: "patchOp \<Rightarrow> undoOp" where
  "undoWrite op = (if po_had op then UndoRestore (po_at op) (po_old op) (po_mode op) else UndoRemove (po_at op))"

definition pathErr :: "string \<Rightarrow> string list \<Rightarrow> fsErr \<Rightarrow> goerr" where
  "pathErr fmt paths e = Errorf fmt (paths @ [fe_text e]) None"

text \<open>One planned change: the error of the step that failed, or \<open>None\<close>, and what undoes the steps done.\<close>

definition commitOp :: "patchOp \<Rightarrow> fsWorld \<Rightarrow> goerr option \<times> undoOp list \<times> fsWorld" where
  "commitOp op w =
     (let path = fp_Path (po_fp op); moveTo = fp_MoveTo (po_fp op)
      in if fp_Kind (po_fp op) = KindDelete then
           (case fsRemove (po_at op) w of
              (Some e, w1) \<Rightarrow> (Some (pathErr ''can't delete %s: %v'' [path] e), [], w1)
            | (None, w1) \<Rightarrow> (None, [UndoRestore (po_at op) (po_old op) (po_mode op)], w1))
         else case po_to op of
                Some t \<Rightarrow>
                  (case mkdirFor t w of
                     (Some e, w1) \<Rightarrow> (Some (pathErr ''can't move %s to %s: %v'' [path, moveTo] e), [], w1)
                   | (None, w1) \<Rightarrow>
                       (case writeThroughRoot t (po_nw op) (po_mode op) w1 of
                          (Some e, w2) \<Rightarrow> (Some (pathErr ''can't write %s: %v'' [moveTo] e), [], w2)
                        | (None, w2) \<Rightarrow>
                            (case fsRemove (po_at op) w2 of
                               (Some e, w3) \<Rightarrow> (Some (pathErr ''can't remove %s after moving it: %v'' [path] e), [UndoRemove t], w3)
                             | (None, w3) \<Rightarrow> (None, [UndoRestore (po_at op) (po_old op) (po_mode op), UndoRemove t], w3))))
              | None \<Rightarrow>
                  (case (if po_had op then (None, w) else mkdirFor (po_at op) w) of
                     (Some e, w1) \<Rightarrow> (Some (pathErr ''can't create %s: %v'' [path] e), [], w1)
                   | (None, w1) \<Rightarrow>
                       (case writeThroughRoot (po_at op) (po_nw op) (po_mode op) w1 of
                          (Some e, w2) \<Rightarrow> (Some (pathErr ''can't write %s: %v'' [path] e), [], w2)
                        | (None, w2) \<Rightarrow> (None, [undoWrite op], w2))))"

fun commitLoop :: "patchOp list \<Rightarrow> undoOp list \<Rightarrow> fsWorld \<Rightarrow> (goerr \<times> bool) option \<times> fsWorld" where
  "commitLoop [] undo w = (None, w)"
| "commitLoop (op # ops) undo w =
     (case commitOp op w of
        (Some e, us, w1) \<Rightarrow> failCommit (us @ undo) e w1
      | (None, us, w1) \<Rightarrow> commitLoop ops (us @ undo) w1)"

definition commitPatch :: "patchOp list \<Rightarrow> fsWorld \<Rightarrow> (goerr \<times> bool) option \<times> fsWorld" where
  "commitPatch ops w = commitLoop ops [] w"

definition patchEntry :: "(string \<Rightarrow> string) \<Rightarrow> string list \<Rightarrow> patchOp \<Rightarrow> string \<times> jval" where
  "patchEntry sha roots op =
     (let path = absPath roots (po_at op); kind = fp_Kind (po_fp op);
          verb = (if kind = KindAdd then ''A'' else if kind = KindDelete then ''D'' else if po_to op \<noteq> None then ''R'' else ''M'');
          shown = (if verb = ''R'' then absPath roots (the (po_to op)) else path);
          hash = fileHash sha (po_nw op)
      in (verb @ '' '' @ shown @ (if kind \<noteq> KindDelete then '' (hash: '' @ hash @ '')'' else []),
          JObj ((if verb = ''R'' then [(''from'', JStr path)] else []) @ [(''path'', JStr shown), (''change'', JStr verb)] @
            (if kind \<noteq> KindDelete then [(''hash'', JStr hash)] else []))))"

definition patchToolCall ::
  "(string \<Rightarrow> string) \<Rightarrow> string list \<Rightarrow> jargs \<Rightarrow> fsWorld \<Rightarrow> fileResult option \<times> fsWorld" where
  "patchToolCall sha roots args w =
     (let txt = (case strArg args ''input'' of None \<Rightarrow> [] | Some s \<Rightarrow> s)
      in if trimSpace txt = [] then
           (Some (toolError ''apply_patch needs input: the patch, from *** Begin Patch to *** End Patch''), w)
         else case parsePatch txt of
                Inl e \<Rightarrow> (Some (toolError (''apply_patch: '' @ errText e)), w)
              | Inr patches \<Rightarrow>
                  (case planPatch roots patches w of
                     (None, w1) \<Rightarrow> (None, w1)
                   | (Some (Inl e), w1) \<Rightarrow> (Some (toolError (''apply_patch: '' @ errText e @ ''. No file was changed.'')), w1)
                   | (Some (Inr ops), w1) \<Rightarrow>
                       (case commitPatch ops w1 of
                          (Some (e, _), w2) \<Rightarrow> (Some (toolError (''apply_patch: '' @ errText e)), w2)
                        | (None, w2) \<Rightarrow>
                            (Some (okResult (strJoin (''Patch applied:'' # map (fst \<circ> patchEntry sha roots) ops) [newline])
                               [(''files'', JArr (map (snd \<circ> patchEntry sha roots) ops))]), w2))))"

subsection \<open>The files a call will touch\<close>

fun resolveAll :: "string list \<Rightarrow> string list \<Rightarrow> string list option" where
  "resolveAll roots [] = Some []"
| "resolveAll roots (p # ps) =
     (if p = [] then resolveAll roots ps
      else case resolve roots p of
             Inl e \<Rightarrow> None
           | Inr a \<Rightarrow> map_option (\<lambda>out. absPath roots a # out) (resolveAll roots ps))"

definition patchPaths :: "string list \<Rightarrow> jargs \<Rightarrow> string list" where
  "patchPaths roots args =
     (case parsePatch (case strArg args ''input'' of None \<Rightarrow> [] | Some s \<Rightarrow> s) of
        Inl e \<Rightarrow> []
      | Inr patches \<Rightarrow>
          (case resolveAll roots (concat (map (\<lambda>fp. [fp_Path fp, fp_MoveTo fp]) patches)) of None \<Rightarrow> [] | Some out \<Rightarrow> out))"

definition writePaths :: "string list \<Rightarrow> jargs \<Rightarrow> string list" where
  "writePaths roots args =
     (if strArg args ''input'' \<noteq> None then patchPaths roots args
      else case strArg args ''path'' of
             None \<Rightarrow> []
           | Some p \<Rightarrow> (case resolve roots p of Inl e \<Rightarrow> [] | Inr a \<Rightarrow> [absPath roots a]))"

section \<open>A patch is put back\<close>

text \<open>Planning reads and changes nothing.\<close>

lemma fsStat_nodes: "fsStat a w = (r, w') \<Longrightarrow> fw_nodes w' = fw_nodes w \<and> (\<forall>n. r = Inr n \<longrightarrow> fw_nodes w a = Some n) \<and>
    (\<forall>e. r = Inl e \<and> fe_kind e = NotExist \<longrightarrow> fw_nodes w a = None)"
  by (auto simp: fsStat_def fault_def noSuch_def split: option.splits)

lemma fsReadFile_nodes: "fsReadFile a w = (r, w') \<Longrightarrow> fw_nodes w' = fw_nodes w \<and>
    (\<forall>c. r = Inr c \<longrightarrow> (\<exists>m. fw_nodes w a = Some (FileNode c m)))"
  by (auto simp: fsReadFile_def split: option.splits fsNode.splits)

lemma fileOf_cong: "fw_nodes w' = fw_nodes w \<Longrightarrow> fileOf w' = fileOf w"
  by (rule ext) (simp add: fileOf_def)

lemma planState_nodes:
  assumes "planState path a w = (r, w')"
  shows "fw_nodes w' = fw_nodes w \<and> (\<forall>st. r = Inr st \<longrightarrow> fileOf w a = st)"
proof -
  obtain s w1 where s: "fsStat a w = (s, w1)" by fastforce
  obtain b w2 where b: "fsReadFile a w1 = (b, w2)" by fastforce
  show ?thesis
    using assms s b fsStat_nodes [OF s] fsReadFile_nodes [OF b]
    by (auto simp: planState_def fileOf_def split: sum.splits fsNode.splits if_splits)
qed

lemma planMove_nodes:
  assumes "planMove roots fp w = (r, w')"
  shows "fw_nodes w' = fw_nodes w \<and> (\<forall>t. r = Inr (Some t) \<longrightarrow> fileOf w t = None)"
proof (cases "fp_MoveTo fp = []")
  case False
  show ?thesis
  proof (cases "resolve roots (fp_MoveTo fp)")
    case (Inr t)
    obtain s w1 where s: "fsStat t w = (s, w1)" by fastforce
    show ?thesis
      using assms s Inr False fsStat_nodes [OF s] by (auto simp: planMove_def fileOf_def split: sum.splits if_splits)
  qed (use assms False in \<open>auto simp: planMove_def\<close>)
qed (use assms in \<open>auto simp: planMove_def\<close>)

text \<open>What an operation remembers of its file is the file before the patch.\<close>

definition opTrue :: "fsWorld \<Rightarrow> patchOp \<Rightarrow> bool" where
  "opTrue w op \<longleftrightarrow>
     fileOf w (po_at op) = (if po_had op then Some (po_old op, po_mode op) else None) \<and>
     (fp_Kind (po_fp op) = KindDelete \<or> po_to op \<noteq> None \<longrightarrow> po_had op) \<and>
     (\<forall>t. po_to op = Some t \<longrightarrow> fileOf w t = None)"

lemma planOp_true:
  assumes "planOp roots fp w = (r, w')"
  shows "fw_nodes w' = fw_nodes w \<and> (\<forall>op. r = Some (Inr op) \<longrightarrow> opTrue w op)"
proof (cases "resolve roots (fp_Path fp)")
  case (Inl e)
  then show ?thesis using assms by (auto simp: planOp_def)
next
  case (Inr a)
  obtain s w1 where s: "planState (fp_Path fp) a w = (s, w1)" by fastforce
  obtain m w2 where m: "planMove roots fp w1 = (m, w2)" by fastforce
  have n1: "fw_nodes w1 = fw_nodes w" and n2: "fw_nodes w2 = fw_nodes w"
    using planState_nodes [OF s] planMove_nodes [OF m] by simp_all
  have f: "fileOf w1 = fileOf w" by (rule fileOf_cong [OF n1])
  show ?thesis
    using assms s m Inr n1 n2 planState_nodes [OF s] planMove_nodes [OF m] f
    by (auto simp: planOp_def opTrue_def Let_def split: sum.splits patchKind.splits option.splits if_splits)
qed

lemma planPatch_true:
  "planPatch roots fps w = (r, w') \<Longrightarrow>
   fw_nodes w' = fw_nodes w \<and> (\<forall>ops. r = Some (Inr ops) \<longrightarrow> list_all (opTrue w) ops)"
proof (induction fps arbitrary: w r w')
  case (Cons fp fps)
  obtain p w1 where p: "planOp roots fp w = (p, w1)" by fastforce
  obtain q w2 where q: "planPatch roots fps w1 = (q, w2)" by fastforce
  note t = planOp_true [OF p] and ih = Cons.IH [OF q]
  have "fileOf w1 = fileOf w" using t by (intro fileOf_cong) simp
  then have f: "opTrue w1 = opTrue w" by (intro ext) (simp add: opTrue_def)
  show ?case
    using Cons.prems p q t ih f by (auto split: option.splits sum.splits)
qed simp

text \<open>What undoing a step restores is the file before the patch.\<close>

fun undoTrue :: "fsWorld \<Rightarrow> undoOp \<Rightarrow> bool" where
  "undoTrue w (UndoRestore a c m) \<longleftrightarrow> fileOf w a = Some (c, m)"
| "undoTrue w (UndoRemove a) \<longleftrightarrow> fileOf w a = None"

fun undoAt :: "undoOp \<Rightarrow> fileAt" where
  "undoAt (UndoRestore a c m) = a"
| "undoAt (UndoRemove a) = a"

definition changedAt :: "fsWorld \<Rightarrow> undoOp list \<Rightarrow> fsWorld \<Rightarrow> bool" where
  "changedAt w0 us w \<longleftrightarrow> list_all (undoTrue w0) us \<and>
     (\<forall>x. \<not> tempFile x \<and> x \<notin> undoAt ` set us \<longrightarrow> fileOf w x = fileOf w0 x)"

lemma undo1_restores:
  assumes "undo1 u w = (None, w')" "undoTrue w0 u" "\<not> tempFile x"
  shows "fileOf w' x = (if x = undoAt u then fileOf w0 x else fileOf w x)"
  using assms by (cases u) (auto simp: writeThroughRoot_files fsRemove_files)

lemma runUndo_restores:
  "runUndo us w = ([], w') \<Longrightarrow> changedAt w0 us w \<Longrightarrow> \<not> tempFile x \<Longrightarrow> fileOf w' x = fileOf w0 x"
proof (induction us arbitrary: w)
  case Nil
  then show ?case by (simp add: changedAt_def del: split_paired_All)
next
  case (Cons u us)
  obtain e w1 where u: "undo1 u w = (e, w1)" by fastforce
  then have e: "undo1 u w = (None, w1)" and r: "runUndo us w1 = ([], w')"
    using Cons.prems(1) by (auto split: option.splits prod.splits)
  have "changedAt w0 us w1"
    using Cons.prems(2) undo1_restores [OF e, of w0] by (auto simp: changedAt_def)
  then show ?case using Cons.IH [OF r] Cons.prems(3) by blast
qed

lemma commitOp_changedAt:
  assumes "commitOp op w = (e, us, w')" "opTrue w0 op" "changedAt w0 undo w"
  shows "changedAt w0 (us @ undo) w'"
proof -
  have f: "\<not> tempFile x \<Longrightarrow> x \<notin> undoAt ` set us \<Longrightarrow> fileOf w' x = fileOf w x" for x
    using assms(1)
    by (auto simp: commitOp_def undoWrite_def Let_def mkdirFor_files writeThroughRoot_files fsRemove_files
        split: if_splits option.splits prod.splits)
  have "list_all (undoTrue w0) us"
    using assms(1,2)
    by (auto simp: commitOp_def undoWrite_def opTrue_def Let_def split: if_splits option.splits prod.splits)
  then show ?thesis using f assms(3) by (simp add: changedAt_def image_Un del: split_paired_All)
qed

lemma commitLoop_put_back:
  "commitLoop ops undo w = (Some (e, True), w') \<Longrightarrow> list_all (opTrue w0) ops \<Longrightarrow> changedAt w0 undo w \<Longrightarrow>
   \<not> tempFile x \<Longrightarrow> fileOf w' x = fileOf w0 x"
proof (induction ops arbitrary: undo w)
  case (Cons op ops)
  obtain err us w1 where c: "commitOp op w = (err, us, w1)" by (metis prod_cases3)
  have ch: "changedAt w0 (us @ undo) w1" using commitOp_changedAt [OF c] Cons.prems(2,3) by simp
  show ?case
  proof (cases err)
    case None
    then show ?thesis using Cons.IH [OF _ _ ch] Cons.prems c by simp
  next
    case (Some er)
    obtain bad w2 where r: "runUndo (us @ undo) w1 = (bad, w2)" by fastforce
    then have "bad = []" "w2 = w'" using Cons.prems(1) c Some by (auto simp: failCommit_def split: if_splits)
    then show ?thesis using runUndo_restores [OF _ ch Cons.prems(4)] r by simp
  qed
qed simp

text \<open>What a planned change does to the files when all its steps succeed.\<close>

definition opEffect :: "patchOp \<Rightarrow> (fileAt \<Rightarrow> (string \<times> nat) option) \<Rightarrow> (fileAt \<Rightarrow> (string \<times> nat) option)" where
  "opEffect op f =
     (if fp_Kind (po_fp op) = KindDelete then f(po_at op := None)
      else case po_to op of
             Some t \<Rightarrow> (f(t := Some (po_nw op, po_mode op)))(po_at op := None)
           | None \<Rightarrow> f(po_at op := Some (po_nw op, po_mode op)))"

lemma commitOp_effect:
  assumes "commitOp op w = (None, us, w')" "\<not> tempFile x"
  shows "fileOf w' x = opEffect op (fileOf w) x"
  using assms
  by (auto simp: commitOp_def opEffect_def Let_def mkdirFor_files writeThroughRoot_files fsRemove_files
      split: if_splits option.splits prod.splits)

lemma opEffect_local: "(\<And>x. \<not> tempFile x \<Longrightarrow> f x = g x) \<Longrightarrow> \<not> tempFile x \<Longrightarrow> opEffect op f x = opEffect op g x"
  by (auto simp: opEffect_def split: option.split)

lemma commitLoop_effect:
  "commitLoop ops undo w = (None, w') \<Longrightarrow> (\<And>x. \<not> tempFile x \<Longrightarrow> fileOf w x = f x) \<Longrightarrow> \<not> tempFile x \<Longrightarrow>
   fileOf w' x = fold opEffect ops f x"
proof (induction ops arbitrary: undo w f)
  case (Cons op ops)
  obtain err us w1 where c: "commitOp op w = (err, us, w1)" by (metis prod_cases3)
  then have e: "commitOp op w = (None, us, w1)" and r: "commitLoop ops (us @ undo) w1 = (None, w')"
    using Cons.prems(1) by (auto simp: failCommit_def split: option.splits prod.splits if_splits)
  have "fileOf w1 y = opEffect op f y" if "\<not> tempFile y" for y
    using commitOp_effect [OF e that] opEffect_local [of "fileOf w" f y op] Cons.prems(2) that by simp
  then show ?case using Cons.IH [OF r] Cons.prems(3) by simp
qed simp

text \<open>
  C32: a patch applies completely or the files are put back, whatever operations on the file system fail. A
  patch that fails to plan touches no file. When the commit succeeds, the files are the ones before the
  call with every planned change made in order. When it fails and reports the files put back, every file
  has the text and mode it had before the call.
\<close>

theorem patch_applies_or_is_put_back:
  assumes "\<not> tempFile x" "planPatch roots fps w = (r, w1)"
  shows "fileOf w1 x = fileOf w x \<and>
    (\<forall>ops w2. r = Some (Inr ops) \<and> commitPatch ops w1 = (None, w2) \<longrightarrow> fileOf w2 x = fold opEffect ops (fileOf w) x) \<and>
    (\<forall>ops e w2. r = Some (Inr ops) \<and> commitPatch ops w1 = (Some (e, True), w2) \<longrightarrow> fileOf w2 x = fileOf w x)"
proof -
  have f: "fileOf w1 = fileOf w" using planPatch_true [OF assms(2)] by (intro fileOf_cong) simp
  have restored: "fileOf w2 x = fileOf w x" if "r = Some (Inr ops)" "commitPatch ops w1 = (Some (e, True), w2)" for ops e w2
  proof -
    have p: "list_all (opTrue w) ops" using planPatch_true [OF assms(2)] that(1) by simp
    have "changedAt w [] w1" using f by (simp add: changedAt_def)
    then show ?thesis
      using commitLoop_put_back [of ops "[]" w1 e w2 w x] p that(2) assms(1) by (simp add: commitPatch_def)
  qed
  have full: "fileOf w2 x = fold opEffect ops (fileOf w) x" if "commitPatch ops w1 = (None, w2)" for ops w2
    by (rule commitLoop_effect [of ops "[]" w1]) (use that f assms(1) in \<open>simp_all add: commitPatch_def\<close>)
  show ?thesis using f restored full by (intro conjI allI impI) auto
qed

section \<open>Declared paths\<close>

definition opFiles :: "patchOp \<Rightarrow> fileAt set" where
  "opFiles op = insert (po_at op) (set_option (po_to op))"

lemma opEffect_other: "x \<notin> opFiles op \<Longrightarrow> opEffect op f x = f x"
  by (auto simp: opEffect_def opFiles_def split: option.split)

lemma fold_opEffect_other: "x \<notin> \<Union> (opFiles ` set ops) \<Longrightarrow> fold opEffect ops f x = f x"
  by (induction ops arbitrary: f) (auto simp: opEffect_other)

lemma planOp_files:
  assumes "planOp roots fp w = (Some (Inr op), w1)"
  shows "resolve roots (fp_Path fp) = Inr (po_at op) \<and>
    (\<forall>t. po_to op = Some t \<longrightarrow> fp_MoveTo fp \<noteq> [] \<and> resolve roots (fp_MoveTo fp) = Inr t) \<and> fp_Path fp \<noteq> []"
proof -
  have mv: "fp_MoveTo fp \<noteq> [] \<and> resolve roots (fp_MoveTo fp) = Inr t" if "planMove roots fp v = (Inr (Some t), v')" for t v v'
    using that by (auto simp: planMove_def split: sum.splits prod.splits if_splits)
  obtain a where a: "resolve roots (fp_Path fp) = Inr a" using assms by (auto simp: planOp_def split: sum.splits)
  have "po_at op = a \<and> (\<forall>t. po_to op = Some t \<longrightarrow> fp_MoveTo fp \<noteq> [] \<and> resolve roots (fp_MoveTo fp) = Inr t)"
    using assms a by (auto simp: planOp_def Let_def dest: mv split: sum.splits prod.splits patchKind.splits option.splits if_splits)
  moreover have "fp_Path fp \<noteq> []" using a by (auto simp: resolve_def)
  ultimately show ?thesis using a by simp
qed

lemma planPatch_files:
  "planPatch roots fps w = (Some (Inr ops), w1) \<Longrightarrow> resolveAll roots (concat (map (\<lambda>fp. [fp_Path fp, fp_MoveTo fp]) fps)) = Some out \<Longrightarrow>
   absPath roots ` \<Union> (opFiles ` set ops) \<subseteq> set out"
proof (induction fps arbitrary: w ops out)
  case (Cons fp fps)
  obtain p v where p: "planOp roots fp w = (p, v)" by fastforce
  then obtain op ops' where op: "planOp roots fp w = (Some (Inr op), v)" "planPatch roots fps v = (Some (Inr ops'), w1)" "ops = op # ops'"
    using Cons.prems(1) by (auto split: option.splits sum.splits prod.splits)
  note f = planOp_files [OF op(1)]
  obtain out' where o: "resolveAll roots (concat (map (\<lambda>fp. [fp_Path fp, fp_MoveTo fp]) fps)) = Some out'"
      "set out = {absPath roots (po_at op)} \<union> (if fp_MoveTo fp = [] then {} else absPath roots ` {t. resolve roots (fp_MoveTo fp) = Inr t}) \<union> set out'"
    using Cons.prems(2) f by (auto split: sum.splits if_splits)
  have "absPath roots ` opFiles op \<subseteq> set out" using f o(2) by (auto simp: opFiles_def)
  moreover have "absPath roots ` \<Union> (opFiles ` set ops') \<subseteq> set out'" by (rule Cons.IH [OF op(2) o(1)])
  moreover have "set out' \<subseteq> set out" using o(2) by blast
  ultimately show ?case using op(3) by (simp add: image_Un)
qed simp

text \<open>A committed patch changes only files whose absolute paths were declared before the call.\<close>

lemma patch_changes_declared_files:
  assumes "strArg args ''input'' = Some txt" "parsePatch txt = Inr fps"
    and "planPatch roots fps w = (Some (Inr ops), w1)" "commitPatch ops w1 = (None, w2)"
    and "\<not> tempFile x" "fileOf w2 x \<noteq> fileOf w x"
    and "resolveAll roots (concat (map (\<lambda>fp. [fp_Path fp, fp_MoveTo fp]) fps)) \<noteq> None"
  shows "absPath roots x \<in> set (writePaths roots args)"
proof -
  have "fileOf w1 = fileOf w" using planPatch_true [OF assms(3)] by (intro fileOf_cong) simp
  then have "fileOf w2 x = fold opEffect ops (fileOf w) x"
    by (intro commitLoop_effect [of ops "[]" w1]) (use assms(4,5) in \<open>simp_all add: commitPatch_def\<close>)
  then have x: "x \<in> \<Union> (opFiles ` set ops)" using fold_opEffect_other assms(6) by metis
  obtain out where o: "resolveAll roots (concat (map (\<lambda>fp. [fp_Path fp, fp_MoveTo fp]) fps)) = Some out" using assms(7) by blast
  have "absPath roots x \<in> set out" using planPatch_files [OF assms(3) o] x by blast
  then show ?thesis using assms(1,2) o by (simp add: writePaths_def patchPaths_def)
qed

section \<open>Nothing unseen is replaced\<close>

lemma editFileAt_files:
  assumes "editFileAt sha roots path expect hunks a w = (res, w')" "\<not> tempFile x"
  shows "fileOf w' x = fileOf w x \<or>
    \<not> fr_IsError res \<and> x = a \<and> (\<exists>c m. fileOf w a = Some (c, m) \<and> (expect = [] \<or> fileHash sha c = expect))"
proof -
  obtain s w1 where s: "fsStat a w = (s, w1)" by fastforce
  obtain b w2 where b: "fsReadFile a w1 = (b, w2)" by fastforce
  have f1: "fileOf w1 = fileOf w" "fileOf w2 = fileOf w"
    using fsStat_nodes [OF s] fsReadFile_nodes [OF b] by (auto intro: fileOf_cong)
  have h: "expect = [] \<or> fileHash sha c = expect" if "editApply sha \<lparr>ed_ExpectHash = expect, ed_Hunks = hunks\<rparr> c = Inr out" for c out
    using that by (auto simp: editApply_Inr editFits_def)
  have c: "\<exists>m. fileOf w a = Some (c, m)" if "b = Inr c" for c
    using fsReadFile_nodes [OF b] fsStat_nodes [OF s] that by (auto simp: fileOf_def)
  show ?thesis
    using assms s b f1 h c writeThroughRoot_files [OF _ assms(2)]
    by (auto simp: editFileAt_def toolError_def okResult_def split: sum.splits option.splits prod.splits)
qed

lemma writeContent_files:
  assumes "writeContent sha roots path content a was w = (res, w')" "\<not> tempFile x"
  shows "fileOf w' x = fileOf w x \<or> \<not> fr_IsError res \<and> x = a"
  using assms(1) mkdirFor_files writeThroughRoot_files [OF _ assms(2)]
  by (auto simp: writeContent_def toolError_def okResult_def split: option.splits prod.splits if_splits)

lemma writeTool_files:
  assumes "writeTool sha roots args w = (res, w')" "\<not> tempFile x" "fileOf w x = Some (c, m)"
  shows "fileOf w' x = fileOf w x \<or>
    \<not> fr_IsError res \<and> (\<exists>path. strArg args ''path'' = Some path \<and> resolve roots path = Inr x) \<and>
      strArg args ''expect_hash'' = Some (fileHash sha c)"
proof (cases "\<exists>path content. strArg args ''path'' = Some path \<and> path \<noteq> [] \<and> strArg args ''content'' = Some content")
  case False
  then have "w' = w" using assms(1) by (auto simp: writeTool_def Let_def split: option.splits if_splits)
  then show ?thesis by simp
next
  case True
  then obtain path content where p: "strArg args ''path'' = Some path" "path \<noteq> []" "strArg args ''content'' = Some content" by blast
  show ?thesis
  proof (cases "resolve roots path")
    case (Inl e)
    then show ?thesis using assms(1) p by (simp add: writeTool_def)
  next
    case (Inr a)
    obtain s w1 where s: "fsStat a w = (s, w1)" by fastforce
    obtain b w2 where b: "fsReadFile a w1 = (b, w2)" by fastforce
    note n = fsStat_nodes [OF s] fsReadFile_nodes [OF b]
    have f1: "fileOf w1 = fileOf w" "fileOf w2 = fileOf w" using n by (auto intro: fileOf_cong)
    have wr: "fileOf w' x = fileOf v x \<or> \<not> fr_IsError res \<and> x = a" if "writeContent sha roots path content a was v = (res, w')" for was v
      by (rule writeContent_files [OF that assms(2)])
    show ?thesis
    proof (cases s)
      case (Inl e)
      then show ?thesis
        using assms(1,3) p Inr s f1 n(1) wr [of None w1] by (auto simp: writeTool_def fileOf_def split: if_splits)
    next
      case (Inr nd)
      then show ?thesis
        using assms(1,3) p \<open>resolve roots path = Inr a\<close> s b f1 n wr [of _ w2]
        by (auto simp: writeTool_def fileOf_def split: if_splits fsNode.splits sum.splits option.splits)
    qed
  qed
qed

lemma deleteTool_files:
  assumes "deleteTool sha roots args w = (res, w')" "fileOf w x = Some (c, m)"
  shows "fileOf w' x = fileOf w x \<or>
    \<not> fr_IsError res \<and> (\<exists>path. strArg args ''path'' = Some path \<and> resolve roots path = Inr x) \<and>
      strArg args ''expect_hash'' = Some (fileHash sha c)"
proof (cases "\<exists>path expect. strArg args ''path'' = Some path \<and> path \<noteq> [] \<and> strArg args ''expect_hash'' = Some expect \<and> expect \<noteq> []")
  case False
  then have "w' = w" using assms(1) by (auto simp: deleteTool_def Let_def split: option.splits if_splits)
  then show ?thesis by simp
next
  case True
  then obtain path expect where p: "strArg args ''path'' = Some path" "path \<noteq> []" "strArg args ''expect_hash'' = Some expect" "expect \<noteq> []"
    by blast
  show ?thesis
  proof (cases "resolve roots path")
    case (Inl e)
    then show ?thesis using assms(1) p by (simp add: deleteTool_def)
  next
    case (Inr a)
    obtain s w1 where s: "fsStat a w = (s, w1)" by fastforce
    obtain b w2 where b: "fsReadFile a w1 = (b, w2)" by fastforce
    obtain e w3 where e: "fsRemove a w2 = (e, w3)" by fastforce
    note n = fsStat_nodes [OF s] fsReadFile_nodes [OF b]
    have f1: "fileOf w1 = fileOf w" "fileOf w2 = fileOf w" using n by (auto intro: fileOf_cong)
    have rm: "fileOf w3 x = (if e = None \<and> x = a then None else fileOf w x)" using fsRemove_files [OF e, of x] f1 by simp
    have c: "fileHash sha c' = fileHash sha c" if "b = Inr c'" "x = a" for c'
      using n that assms(2) by (auto simp: fileOf_def)
    show ?thesis
      using assms p Inr s b e f1 rm c
      by (auto simp: deleteTool_def toolError_def okResult_def split: sum.splits fsNode.splits option.splits if_splits)
  qed
qed

lemma editTool_files:
  assumes "editTool sha roots args w = (res, w')" "\<not> tempFile x" "fileOf w x = Some (c, m)"
  shows "fileOf w' x = fileOf w x \<or>
    \<not> fr_IsError res \<and> (\<exists>path. strArg args ''path'' = Some path \<and> resolve roots path = Inr x) \<and>
      strArg args ''expect_hash'' = Some (fileHash sha c)"
proof -
  have e: "fileOf w' x = fileOf w x \<or>
      \<not> fr_IsError res \<and> x = a \<and> (\<exists>c m. fileOf w a = Some (c, m) \<and> (expect = [] \<or> fileHash sha c = expect))"
    if "editFileAt sha roots path expect hunks a w = (res, w')" for path expect hunks a
    by (rule editFileAt_files [OF that assms(2)])
  show ?thesis
    using assms(1,3) e
    by (auto simp: editTool_def Let_def split: option.splits sum.splits if_splits) (blast | force)+
qed

text \<open>
  C31: the editing tools never replace or remove content the caller has not seen. Whatever operations on the
  file system fail, if \<open>edit_file\<close>, \<open>write_file\<close> or \<open>delete_file\<close> changes a file that was there, the call
  named that file and carried the hash of exactly the content it replaced, and it reported success.
\<close>

theorem file_tools_replace_only_seen_content:
  assumes "tool \<in> {editTool, writeTool, deleteTool}" "tool sha roots args w = (res, w')"
    and "\<not> tempFile x" "fileOf w x = Some (c, m)" "fileOf w' x \<noteq> Some (c, m)"
  shows "\<not> fr_IsError res \<and> (\<exists>path. strArg args ''path'' = Some path \<and> resolve roots path = Inr x) \<and>
    strArg args ''expect_hash'' = Some (fileHash sha c)"
proof -
  consider "editTool sha roots args w = (res, w')" | "writeTool sha roots args w = (res, w')" | "deleteTool sha roots args w = (res, w')"
    using assms(1,2) by blast
  then show ?thesis
  proof cases
    case 1
    show ?thesis using editTool_files [OF 1 assms(3,4)] assms(4,5) by simp
  next
    case 2
    show ?thesis using writeTool_files [OF 2 assms(3,4)] assms(4,5) by simp
  next
    case 3
    show ?thesis using deleteTool_files [OF 3 assms(4)] assms(4,5) by simp
  qed
qed

subsection \<open>Concrete workspaces\<close>

text \<open>One root with the file \<open>a\<close>; the file system fails at the operations of \<open>bad\<close>.\<close>

definition demoFs :: "nat list \<Rightarrow> fsWorld" where
  "demoFs bad = \<lparr>fw_nodes = (\<lambda>x. if x = (0, ''a'') then Some (FileNode (''x'' @ [newline] @ ''y'' @ [newline]) 384) else None),
     fw_faults = (\<lambda>n. if n \<in> set bad then Some (''input/output error'', 0) else None), fw_ops = 0, fw_rand = (\<lambda>n. n), fw_draws = 0\<rparr>"

definition demoSections :: "filePatch list" where
  "demoSections =
     [\<lparr>fp_Kind = KindDelete, fp_Path = ''a'', fp_MoveTo = [], fp_Content = [], fp_Chunks = []\<rparr>,
      \<lparr>fp_Kind = KindAdd, fp_Path = ''b'', fp_MoveTo = [], fp_Content = ''z'' @ [newline], fp_Chunks = []\<rparr>]"

definition plannedOps :: "filePatch list \<Rightarrow> fsWorld \<Rightarrow> patchOp list" where
  "plannedOps fps w = (case fst (planPatch [''/w''] fps w) of Some (Inr ops) \<Rightarrow> ops | _ \<Rightarrow> [])"

text \<open>A path spelled in two ways is claimed twice; the change planned last overwrites the other one.\<close>

definition respelled :: "filePatch list" where
  "respelled =
     [\<lparr>fp_Kind = KindUpdate, fp_Path = ''a'', fp_MoveTo = [], fp_Content = [], fp_Chunks = [zeroChunk\<lparr>ck_Old := [''x''], ck_New := [''x1'']\<rparr>]\<rparr>,
      \<lparr>fp_Kind = KindUpdate, fp_Path = ''./a'', fp_MoveTo = [], fp_Content = [], fp_Chunks = [zeroChunk\<lparr>ck_Old := [''y''], ck_New := [''y1'']\<rparr>]\<rparr>]"

lemma respelled_path_loses_change:
  "parsePatch (printPatch respelled) = Inr respelled \<and>
   fst (commitPatch (plannedOps respelled (demoFs [])) (snd (planPatch [''/w''] respelled (demoFs [])))) = None \<and>
   fileOf (snd (commitPatch (plannedOps respelled (demoFs [])) (snd (planPatch [''/w''] respelled (demoFs []))))) (0, ''a'') =
     Some (''x'' @ [newline] @ ''y1'' @ [newline], 384)"
  by (intro conjI) code_simp+

theorem patch_applies_or_is_put_back_witness:
  "map_option snd (fst (commitPatch (plannedOps demoSections (demoFs [4])) (snd (planPatch [''/w''] demoSections (demoFs [4]))))) = Some True \<and>
   fileOf (snd (commitPatch (plannedOps demoSections (demoFs [4])) (snd (planPatch [''/w''] demoSections (demoFs [4]))))) (0, ''a'') =
     Some (''x'' @ [newline] @ ''y'' @ [newline], 384)"
proof -
  let ?w = "demoFs [4]" and ?ops = "plannedOps demoSections (demoFs [4])"
  let ?w1 = "snd (planPatch [''/w''] demoSections ?w)"
  have p: "planPatch [''/w''] demoSections ?w = (fst (planPatch [''/w''] demoSections ?w), ?w1)" by simp
  have r: "fst (planPatch [''/w''] demoSections ?w) = Some (Inr ?ops)" by code_simp
  have c: "map_option snd (fst (commitPatch ?ops ?w1)) = Some True" by code_simp
  then obtain e where e: "commitPatch ?ops ?w1 = (Some (e, True), snd (commitPatch ?ops ?w1))"
    by (cases "commitPatch ?ops ?w1") auto
  have t: "\<not> tempFile (0, ''a'')" by (rule not_tempFile) (simp add: hasSuffix_def)
  have "fileOf ?w (0, ''a'') = Some (''x'' @ [newline] @ ''y'' @ [newline], 384)" by (simp add: demoFs_def fileOf_def)
  then show ?thesis using patch_applies_or_is_put_back [OF t p] r e c by metis
qed

theorem file_tools_replace_only_seen_content_witness:
  "strArg [(''path'', JStr ''./a''), (''expect_hash'', JStr ''780a790a'')] ''expect_hash'' =
     Some (fileHash (\<lambda>s. s) (''x'' @ [newline] @ ''y'' @ [newline])) \<and>
   resolve [''/w''] ''./a'' = Inr (0, ''a'')"
proof -
  let ?args = "[(''path'', JStr ''./a''), (''expect_hash'', JStr ''780a790a'')]"
  let ?r = "deleteTool (\<lambda>s. s) [''/w''] ?args (demoFs [])"
  have t: "\<not> tempFile (0, ''a'')" by (rule not_tempFile) (simp add: hasSuffix_def)
  have f: "fileOf (demoFs []) (0, ''a'') = Some (''x'' @ [newline] @ ''y'' @ [newline], 384)" by (simp add: demoFs_def fileOf_def)
  have "fileOf (snd ?r) (0, ''a'') = None" by code_simp
  then have n: "fileOf (snd ?r) (0, ''a'') \<noteq> Some (''x'' @ [newline] @ ''y'' @ [newline], 384)" by simp
  have d: "deleteTool \<in> {editTool, writeTool, deleteTool}" by simp
  have e: "deleteTool (\<lambda>s. s) [''/w''] ?args (demoFs []) = (fst ?r, snd ?r)" by simp
  have "\<not> fr_IsError (fst ?r) \<and> (\<exists>path. strArg ?args ''path'' = Some path \<and> resolve [''/w''] path = Inr (0, ''a'')) \<and>
      strArg ?args ''expect_hash'' = Some (fileHash (\<lambda>s. s) (''x'' @ [newline] @ ''y'' @ [newline]))"
    using d e t f n by (rule file_tools_replace_only_seen_content)
  then show ?thesis by (auto simp: strArg_def)
qed

end
