(* ===== verification/ShellRules.thy ===== *)
theory ShellRules
  imports Filepath
begin

text \<open>
  The prefix rules of the command extension, \<^verbatim>\<open>src/ext/exec/rules.go\<close>: rules with their examples, the
  rule that decides a command, and the splitter that reads the commands of a shell script or gives up.
  A decision is a string in the code; \<open>newRules\<close> refuses the others.
\<close>

type_synonym decision = string

definition Allow :: decision where "Allow = ''allow''"
definition Prompt :: decision where "Prompt = ''prompt''"
definition Forbidden :: decision where "Forbidden = ''forbidden''"

record prefixRule =
  pr_Prefix :: "string list list"
  pr_Decision :: decision
  pr_Justification :: string
  pr_Match :: "string list list"
  pr_NotMatch :: "string list list"

definition ruleString :: "prefixRule \<Rightarrow> string" where
  "ruleString r = strJoin (map (\<lambda>alts. strJoin alts ''|'') (pr_Prefix r)) '' ''"

definition ruleMatches :: "prefixRule \<Rightarrow> string list \<Rightarrow> bool" where
  "ruleMatches r argv \<longleftrightarrow>
     \<not> length argv < length (pr_Prefix r) \<and>
     list_all (\<lambda>(i, alts). let w = argv ! i; w = (if i = 0 then filepathBase w else w) in w \<in> set alts)
       (enumerate 0 (pr_Prefix r))"

text \<open>What is wrong with rule \<open>i\<close>, in the order the loop checks it.\<close>

definition ruleError :: "nat \<Rightarrow> prefixRule \<Rightarrow> goerr option" where
  "ruleError i r =
     (if pr_Prefix r = [] then Some (Errorf ''exec: shell rule %d has an empty prefix'' [itoa (int i)] None)
      else if [] \<in> set (pr_Prefix r) then
        Some (Errorf ''exec: shell rule %d (%s) has a position with no words'' [itoa (int i), ruleString r] None)
      else if pr_Decision r \<notin> {Allow, Prompt, Forbidden} then
        Some (Errorf ''exec: shell rule %d (%s): decision %q, want allow, prompt or forbidden''
          [itoa (int i), ruleString r, pr_Decision r] None)
      else case find (\<lambda>ex. \<not> ruleMatches r ex) (pr_Match r) of
             Some ex \<Rightarrow> Some (Errorf ''exec: shell rule %d (%s) does not match its example %q''
               [itoa (int i), ruleString r, strJoin ex '' ''] None)
           | None \<Rightarrow>
               (case find (ruleMatches r) (pr_NotMatch r) of
                  Some ex \<Rightarrow> Some (Errorf ''exec: shell rule %d (%s) matches %q, listed under notMatch''
                    [itoa (int i), ruleString r, strJoin ex '' ''] None)
                | None \<Rightarrow> None))"

fun newRulesFrom :: "nat \<Rightarrow> prefixRule list \<Rightarrow> goerr option" where
  "newRulesFrom i [] = None"
| "newRulesFrom i (r # rs) = (case ruleError i r of Some e \<Rightarrow> Some e | None \<Rightarrow> newRulesFrom (Suc i) rs)"

definition newRules :: "prefixRule list \<Rightarrow> goerr + prefixRule list" where
  "newRules rs = (case newRulesFrom 0 rs of Some e \<Rightarrow> Inl e | None \<Rightarrow> Inr rs)"

definition strictness :: "decision \<Rightarrow> nat" where
  "strictness d = (if d = Forbidden then 2 else if d = Prompt then 1 else 0)"

definition ruleBeats :: "prefixRule \<Rightarrow> prefixRule option \<Rightarrow> bool" where
  "ruleBeats r best =
     (case best of
        None \<Rightarrow> True
      | Some b \<Rightarrow> length (pr_Prefix b) < length (pr_Prefix r) \<or>
          length (pr_Prefix r) = length (pr_Prefix b) \<and> strictness (pr_Decision b) < strictness (pr_Decision r))"

definition rulesMatch :: "prefixRule list \<Rightarrow> string list \<Rightarrow> prefixRule option" where
  "rulesMatch rs argv = fold (\<lambda>r best. if ruleMatches r argv \<and> ruleBeats r best then Some r else best) rs None"

subsection \<open>Scripts\<close>

record splitState =
  sp_cmds :: "string list list"
  sp_cur :: "string list"
  sp_word :: string
  sp_inWord :: bool

definition endWord :: "splitState \<Rightarrow> splitState" where
  "endWord st = (if sp_inWord st then st\<lparr>sp_cur := sp_cur st @ [sp_word st], sp_word := [], sp_inWord := False\<rparr> else st)"

text \<open>\<open>None\<close> is the answer false, on which the splitter gives up.\<close>

definition endCmd :: "splitState \<Rightarrow> splitState option" where
  "endCmd st =
     (let st = endWord st
      in if sp_cur st = [] then None else Some (st\<lparr>sp_cmds := sp_cmds st @ [sp_cur st], sp_cur := []\<rparr>))"

definition addWord :: "string \<Rightarrow> splitState \<Rightarrow> splitState" where
  "addWord b st = st\<lparr>sp_word := sp_word st @ b, sp_inWord := True\<rparr>"

fun indexByte :: "string \<Rightarrow> char \<Rightarrow> nat option" where
  "indexByte [] c = None"
| "indexByte (x # s) c = (if x = c then Some 0 else map_option Suc (indexByte s c))"

definition quoteHazards :: "char list" where "quoteHazards = [CHR ''$'', CHR 0x60, CHR 0x5C]"
definition scriptHazards :: "char list" where
  "scriptHazards = ''<>()$'' @ [CHR 0x60, CHR 0x5C] @ ''*?[]{}~!#'' @ [CHR 0x0A, CHR 0x0D]"

function splitLoop :: "string \<Rightarrow> splitState \<Rightarrow> splitState option" where
  "splitLoop [] st = Some st"
| "splitLoop (c # s) st =
     (if c = CHR '' '' \<or> c = CHR 0x09 then splitLoop s (endWord st)
      else if c = CHR 0x27 then
        (case indexByte s (CHR 0x27) of
           None \<Rightarrow> None
         | Some j \<Rightarrow> splitLoop (drop (Suc j) s) (addWord (take j s) st))
      else if c = CHR 0x22 then
        (case indexByte s (CHR 0x22) of
           None \<Rightarrow> None
         | Some j \<Rightarrow>
             if list_ex (\<lambda>x. x \<in> set quoteHazards) (take j s) then None
             else splitLoop (drop (Suc j) s) (addWord (take j s) st))
      else if c = CHR '';'' then (case endCmd st of None \<Rightarrow> None | Some st' \<Rightarrow> splitLoop s st')
      else if c = CHR ''&'' \<or> c = CHR ''|'' then
        (if c = CHR ''&'' \<and> (s = [] \<or> hd s \<noteq> CHR ''&'') then None
         else case endCmd st of
                None \<Rightarrow> None
              | Some st' \<Rightarrow> splitLoop (if s \<noteq> [] \<and> hd s = c then tl s else s) st')
      else if c \<in> set scriptHazards then None
      else splitLoop s (addWord [c] st))"
  by pat_completeness auto
termination
  by (relation "measure (\<lambda>(s, _). length s)") auto

declare splitLoop.simps(2) [simp del]

definition splitInit :: splitState where
  "splitInit = \<lparr>sp_cmds = [], sp_cur = [], sp_word = [], sp_inWord = False\<rparr>"

definition splitScript :: "string \<Rightarrow> string list list option" where
  "splitScript script =
     (case splitLoop script splitInit of
        None \<Rightarrow> None
      | Some st \<Rightarrow>
          (case endCmd st of
             None \<Rightarrow> None
           | Some st' \<Rightarrow>
               if list_ex (\<lambda>cmd. strContains (hd cmd) ''='') (sp_cmds st') then None else Some (sp_cmds st')))"

definition shells :: "string set" where "shells = {''sh'', ''bash'', ''zsh'', ''dash''}"

definition commandsOf :: "string list \<Rightarrow> string list list option" where
  "commandsOf argv =
     (if length argv = 3 \<and> filepathBase (argv ! 0) \<in> shells \<and> (argv ! 1 = ''-c'' \<or> argv ! 1 = ''-lc'')
      then splitScript (argv ! 2)
      else if argv = [] then None else Some [argv])"

section \<open>The deciding rule\<close>

definition ruleRank :: "prefixRule \<Rightarrow> nat \<times> nat" where
  "ruleRank r = (length (pr_Prefix r), strictness (pr_Decision r))"

definition rankLess :: "nat \<times> nat \<Rightarrow> nat \<times> nat \<Rightarrow> bool" where
  "rankLess a b \<longleftrightarrow> fst a < fst b \<or> fst a = fst b \<and> snd a < snd b"

lemma ruleBeats_rank: "ruleBeats r (Some b) \<longleftrightarrow> rankLess (ruleRank b) (ruleRank r)"
  by (auto simp: ruleBeats_def rankLess_def ruleRank_def)

lemma rankLess_trans: "\<not> rankLess b a \<Longrightarrow> rankLess b c \<Longrightarrow> \<not> rankLess c a"
  by (auto simp: rankLess_def)

lemma rulesMatch_snoc:
  "rulesMatch (rs @ [r]) argv =
     (if ruleMatches r argv \<and> ruleBeats r (rulesMatch rs argv) then Some r else rulesMatch rs argv)"
  by (simp add: rulesMatch_def)

lemma rulesMatch_None: "rulesMatch rs argv = None \<longleftrightarrow> (\<forall>r\<in>set rs. \<not> ruleMatches r argv)"
  by (induction rs rule: rev_induct) (auto simp: rulesMatch_snoc rulesMatch_def [of "[]"] ruleBeats_def split: option.splits)

lemma rulesMatch_Some:
  "rulesMatch rs argv = Some b \<Longrightarrow>
     b \<in> set rs \<and> ruleMatches b argv \<and> (\<forall>r\<in>set rs. ruleMatches r argv \<longrightarrow> \<not> rankLess (ruleRank b) (ruleRank r))"
proof (induction rs arbitrary: b rule: rev_induct)
  case Nil
  then show ?case by (simp add: rulesMatch_def)
next
  case (snoc r rs)
  show ?case
  proof (cases "ruleMatches r argv \<and> ruleBeats r (rulesMatch rs argv)")
    case True
    then have b: "b = r" using snoc.prems by (simp add: rulesMatch_snoc)
    have old: "\<not> rankLess (ruleRank b) (ruleRank q)" if q: "q \<in> set rs" "ruleMatches q argv" for q
    proof -
      obtain a where a: "rulesMatch rs argv = Some a" using q rulesMatch_None [of rs argv] by auto
      then have "rankLess (ruleRank a) (ruleRank r)" using True by (simp add: ruleBeats_rank)
      then show ?thesis using snoc.IH [OF a] q b rankLess_trans by blast
    qed
    show ?thesis using True b old by (auto simp: rankLess_def)
  next
    case False
    then have m: "rulesMatch rs argv = Some b" using snoc.prems by (auto simp: rulesMatch_snoc)
    show ?thesis using snoc.IH [OF m] False m by (auto simp: ruleBeats_rank)
  qed
qed

section \<open>What the splitter accepts\<close>

text \<open>
  A plain script as a sequence of tokens: a blank, a piece of a word (a bare byte, a quoted string), an
  operator. Its commands are the words between operators; a word is a run of pieces without a blank.
\<close>

datatype scriptTok = Blank char | Bare char | Quoted char string | Operator string

fun tokText :: "scriptTok \<Rightarrow> string" where
  "tokText (Blank c) = [c]"
| "tokText (Bare c) = [c]"
| "tokText (Quoted q b) = q # b @ [q]"
| "tokText (Operator s) = s"

fun tokVal :: "scriptTok \<Rightarrow> string" where
  "tokVal (Bare c) = [c]"
| "tokVal (Quoted q b) = b"
| "tokVal _ = []"

fun tokOk :: "scriptTok \<Rightarrow> bool" where
  "tokOk (Blank c) \<longleftrightarrow> c \<in> {CHR '' '', CHR 0x09}"
| "tokOk (Bare c) \<longleftrightarrow> c \<notin> {CHR '' '', CHR 0x09, CHR 0x27, CHR 0x22} \<and> c \<notin> set '';&|'' \<and> c \<notin> set scriptHazards"
| "tokOk (Quoted q b) \<longleftrightarrow> q = CHR 0x27 \<and> q \<notin> set b \<or> q = CHR 0x22 \<and> q \<notin> set b \<and> set b \<inter> set quoteHazards = {}"
| "tokOk (Operator s) \<longleftrightarrow> s \<in> {'';'', ''&&'', ''||'', ''|''}"

fun isBlank :: "scriptTok \<Rightarrow> bool" where
  "isBlank (Blank _) = True"
| "isBlank _ = False"

fun isOperator :: "scriptTok \<Rightarrow> bool" where
  "isOperator (Operator _) = True"
| "isOperator _ = False"

fun chunks :: "('a \<Rightarrow> bool) \<Rightarrow> 'a list \<Rightarrow> 'a list list" where
  "chunks p [] = [[]]"
| "chunks p (x # xs) = (if p x then [] # chunks p xs else (x # hd (chunks p xs)) # tl (chunks p xs))"

definition scriptText :: "scriptTok list \<Rightarrow> string" where
  "scriptText ts = concat (map tokText ts)"

definition wordVal :: "scriptTok list \<Rightarrow> string" where
  "wordVal ts = concat (map tokVal ts)"

definition cmdWords :: "scriptTok list \<Rightarrow> string list" where
  "cmdWords ts = map wordVal (filter (\<lambda>g. g \<noteq> []) (chunks isBlank ts))"

definition scriptCommands :: "scriptTok list \<Rightarrow> string list list" where
  "scriptCommands ts = map cmdWords (chunks isOperator ts)"

definition plainScript :: "scriptTok list \<Rightarrow> bool" where
  "plainScript ts \<longleftrightarrow>
     list_all tokOk ts \<and> list_all (\<lambda>cmd. cmd \<noteq> [] \<and> CHR ''='' \<notin> set (hd cmd)) (scriptCommands ts)"

subsection \<open>Tokens drive the splitter\<close>

fun tokStep :: "scriptTok \<Rightarrow> splitState \<Rightarrow> splitState option" where
  "tokStep (Blank _) st = Some (endWord st)"
| "tokStep (Bare c) st = Some (addWord [c] st)"
| "tokStep (Quoted _ b) st = Some (addWord b st)"
| "tokStep (Operator _) st = endCmd st"

fun runToks :: "scriptTok list \<Rightarrow> splitState \<Rightarrow> splitState option" where
  "runToks [] st = Some st"
| "runToks (t # ts) st = (case tokStep t st of None \<Rightarrow> None | Some st' \<Rightarrow> runToks ts st')"

lemma runToks_snoc:
  "runToks (ts @ [t]) st = (case runToks ts st of None \<Rightarrow> None | Some st' \<Rightarrow> tokStep t st')"
  by (induction ts arbitrary: st) (auto split: option.splits)

lemma indexByte_append [simp]: "c \<notin> set b \<Longrightarrow> indexByte (b @ c # r) c = Some (length b)"
  by (induction b) auto

lemma indexByte_Some: "indexByte s c = Some j \<Longrightarrow> c \<notin> set (take j s) \<and> s = take j s @ c # drop (Suc j) s"
  by (induction s arbitrary: j) (auto split: if_splits)

lemma endCmd_empties: "endCmd st = Some st' \<Longrightarrow> endCmd st' = None"
  by (auto simp: endCmd_def endWord_def Let_def split: if_splits)

lemma scriptText_Cons [simp]: "scriptText (t # ts) = tokText t @ scriptText ts"
  by (simp add: scriptText_def)

lemma scriptText_Nil [simp]: "scriptText [] = []"
  by (simp add: scriptText_def)

text \<open>An operator that is a prefix of another is never followed by its rest in a script that is accepted.\<close>

lemma pipe_not_followed:
  assumes "list_all tokOk ts" "endCmd st = None" "runToks ts st = Some st'"
  shows "scriptText ts = [] \<or> hd (scriptText ts) \<noteq> CHR ''|''"
  using assms by (cases ts; cases "hd ts") (auto simp: scriptHazards_def)

lemma splitLoop_bare:
  assumes "tokOk (Bare c)"
  shows "splitLoop (c # r) st = splitLoop r (addWord [c] st)"
proof -
  have "c \<notin> set scriptHazards" "c \<noteq> CHR '' ''" "c \<noteq> CHR 0x09" "c \<noteq> CHR 0x27" "c \<noteq> CHR 0x22"
    "c \<noteq> CHR '';''" "c \<noteq> CHR ''&''" "c \<noteq> CHR ''|''"
    using assms by auto
  then show ?thesis by (simp only: splitLoop.simps(2) [of c r] if_False HOL.simp_thms)
qed

lemma splitLoop_quoted:
  assumes "tokOk (Quoted q b)"
  shows "splitLoop (q # b @ q # r) st = splitLoop r (addWord b st)"
proof -
  consider (single) "q = CHR 0x27" "q \<notin> set b"
    | (double) "q = CHR 0x22" "q \<notin> set b" "set b \<inter> set quoteHazards = {}"
    using assms by auto
  then show ?thesis
  proof cases
    case single
    then show ?thesis by (simp add: splitLoop.simps(2) [of "CHR 0x27" "b @ CHR 0x27 # r"])
  next
    case double
    have "\<not> list_ex (\<lambda>x. x \<in> set quoteHazards) b" using double(3) by (auto simp: list_ex_iff)
    then show ?thesis using double(1,2) by (simp add: splitLoop.simps(2) [of "CHR 0x22" "b @ CHR 0x22 # r"])
  qed
qed

lemma splitLoop_operator:
  assumes "tokOk (Operator s)" "endCmd st = Some st'" "s = ''|'' \<longrightarrow> r = [] \<or> hd r \<noteq> CHR ''|''"
  shows "splitLoop (s @ r) st = splitLoop r st'"
proof -
  consider "s = '';''" | "s = ''&&''" | "s = ''||''" | "s = ''|''" using assms(1) by auto
  then show ?thesis
  proof cases
    case 1
    then show ?thesis using assms(2) by (simp add: splitLoop.simps(2) [of "CHR '';''" r])
  next
    case 2
    then show ?thesis using assms(2) by (simp add: splitLoop.simps(2) [of "CHR ''&''" "CHR ''&'' # r"])
  next
    case 3
    then show ?thesis using assms(2) by (simp add: splitLoop.simps(2) [of "CHR ''|''" "CHR ''|'' # r"])
  next
    case 4
    then show ?thesis using assms(2,3) by (auto simp: splitLoop.simps(2) [of "CHR ''|''" r])
  qed
qed

lemma splitLoop_tok:
  assumes "tokOk t" and "tokStep t st = Some st'"
    and "t = Operator ''|'' \<longrightarrow> r = [] \<or> hd r \<noteq> CHR ''|''"
  shows "splitLoop (tokText t @ r) st = splitLoop r st'"
proof (cases t)
  case (Blank c)
  then show ?thesis using assms by (auto simp: splitLoop.simps(2) [of _ r])
next
  case (Bare c)
  then show ?thesis using assms splitLoop_bare by simp
next
  case (Quoted q b)
  then show ?thesis using assms splitLoop_quoted by simp
next
  case (Operator s)
  then show ?thesis using assms splitLoop_operator [of s st st' r] by simp
qed

lemma splitLoop_runToks:
  "list_all tokOk ts \<Longrightarrow> runToks ts st = Some st' \<Longrightarrow> splitLoop (scriptText ts) st = Some st'"
proof (induction ts arbitrary: st)
  case Nil
  then show ?case by simp
next
  case (Cons t ts)
  obtain st1 where st1: "tokStep t st = Some st1" "runToks ts st1 = Some st'"
    using Cons.prems(2) by (auto split: option.splits)
  have p: "t = Operator ''|'' \<longrightarrow> scriptText ts = [] \<or> hd (scriptText ts) \<noteq> CHR ''|''"
    using pipe_not_followed [of ts st1 st'] endCmd_empties [of st st1] st1 Cons.prems(1) by auto
  show ?case
    using splitLoop_tok [OF _ st1(1) p] Cons.IH [OF _ st1(2)] Cons.prems(1) by simp
qed

lemma splitLoop_toks:
  "splitLoop s st = Some st' \<Longrightarrow> \<exists>ts. list_all tokOk ts \<and> scriptText ts = s \<and> runToks ts st = Some st'"
proof (induction s st rule: splitLoop.induct)
  case (1 st)
  then show ?case by (intro exI [of _ "[]"]) simp
next
  case (2 c s st)
  have pack: "\<exists>ts. list_all tokOk ts \<and> scriptText ts = c # s \<and> runToks ts st = Some st'"
    if t: "tokOk t" "tokStep t st = Some st1" "c # s = tokText t @ r"
      "\<exists>ts. list_all tokOk ts \<and> scriptText ts = r \<and> runToks ts st1 = Some st'" for t st1 r
  proof -
    obtain ts where "list_all tokOk ts" "scriptText ts = r" "runToks ts st1 = Some st'" using t(4) by blast
    then show ?thesis using t(1,2,3) by (intro exI [of _ "t # ts"]) simp
  qed
  consider (blank) "c = CHR '' '' \<or> c = CHR 0x09" | (quote) "c = CHR 0x27" | (dquote) "c = CHR 0x22"
    | (semi) "c = CHR '';''" | (list) "c = CHR ''&'' \<or> c = CHR ''|''" | (bare) "tokOk (Bare c) \<or> c \<in> set scriptHazards"
    by auto
  then show ?case
  proof cases
    case blank
    then show ?thesis
      using pack [of "Blank c" "endWord st" s] "2.IH"(1) "2.prems" by (auto simp: splitLoop.simps(2))
  next
    case quote
    then obtain j where j: "indexByte s (CHR 0x27) = Some j"
      "splitLoop (drop (Suc j) s) (addWord (take j s) st) = Some st'"
      using "2.prems" by (auto simp: splitLoop.simps(2) split: option.splits)
    show ?thesis
      using pack [of "Quoted c (take j s)" "addWord (take j s) st" "drop (Suc j) s"] "2.IH"(2) [OF _ _ j] indexByte_Some [OF j(1)] quote
      by auto
  next
    case dquote
    then obtain j where j: "indexByte s (CHR 0x22) = Some j" "\<not> list_ex (\<lambda>x. x \<in> set quoteHazards) (take j s)"
      "splitLoop (drop (Suc j) s) (addWord (take j s) st) = Some st'"
      using "2.prems" by (auto simp: splitLoop.simps(2) split: option.splits if_splits)
    show ?thesis
      using pack [of "Quoted c (take j s)" "addWord (take j s) st" "drop (Suc j) s"] "2.IH"(3) [OF _ _ _ j] indexByte_Some [OF j(1)]
        j(2) dquote
      by (auto simp: list_ex_iff)
  next
    case semi
    then obtain st1 where st1: "endCmd st = Some st1" "splitLoop s st1 = Some st'"
      using "2.prems" by (auto simp: splitLoop.simps(2) split: option.splits)
    show ?thesis using pack [of "Operator '';''" st1 s] "2.IH"(4) [OF _ _ _ _ st1] st1(1) semi by auto
  next
    case list
    define r where "r = (if s \<noteq> [] \<and> hd s = c then tl s else s)"
    have nb: "\<not> (c = CHR ''&'' \<and> (s = [] \<or> hd s \<noteq> CHR ''&''))"
      using "2.prems" by (auto simp: splitLoop.simps(2) [of c s] split: if_split_asm)
    obtain st1 where st1: "endCmd st = Some st1" "splitLoop r st1 = Some st'"
      using "2.prems" list nb unfolding r_def by (auto simp: splitLoop.simps(2) [of c s] split: option.splits if_split_asm)
    have ih: "\<exists>ts. list_all tokOk ts \<and> scriptText ts = r \<and> runToks ts st1 = Some st'"
      using "2.IH"(5) [OF _ _ _ _ list nb st1(1)] st1(2) list unfolding r_def by auto
    have "\<exists>q. tokOk (Operator q) \<and> c # s = q @ r"
      using list nb by (cases s) (auto simp: r_def)
    then obtain q where "tokOk (Operator q)" "c # s = q @ r" by blast
    then show ?thesis using pack [of "Operator q" st1 r] ih st1(1) by simp
  next
    case bare
    then show ?thesis
      using pack [of "Bare c" "addWord [c] st" s] "2.IH"(6) "2.prems" by (auto simp: splitLoop.simps(2) scriptHazards_def)
  qed
qed

subsection \<open>The state after some tokens\<close>

lemma chunks_not_Nil [simp]: "chunks p xs \<noteq> []"
  by (cases xs) auto

lemma chunks_snoc:
  "chunks p (xs @ [x]) =
     (if p x then chunks p xs @ [[]] else butlast (chunks p xs) @ [last (chunks p xs) @ [x]])"
proof (induction xs)
  case (Cons a xs)
  then show ?case by (cases "chunks p xs") (auto simp: neq_Nil_conv)
qed simp

lemma filter_ne_butlast_last:
  "ws \<noteq> [] \<Longrightarrow> filter (\<lambda>g. g \<noteq> []) ws = filter (\<lambda>g. g \<noteq> []) (butlast ws) @ (if last ws = [] then [] else [last ws])"
  by (induction ws) auto

definition absState :: "scriptTok list \<Rightarrow> splitState" where
  "absState ts =
     (let ws = chunks isBlank (last (chunks isOperator ts))
      in \<lparr>sp_cmds = map cmdWords (butlast (chunks isOperator ts)),
          sp_cur = map wordVal (filter (\<lambda>g. g \<noteq> []) (butlast ws)),
          sp_word = wordVal (last ws), sp_inWord = (last ws \<noteq> [])\<rparr>)"

lemma endWord_absState:
  "endWord (absState ts) = \<lparr>sp_cmds = map cmdWords (butlast (chunks isOperator ts)),
     sp_cur = cmdWords (last (chunks isOperator ts)), sp_word = [], sp_inWord = False\<rparr>"
proof -
  let ?ws = "chunks isBlank (last (chunks isOperator ts))"
  have "filter (\<lambda>g. g \<noteq> []) ?ws = filter (\<lambda>g. g \<noteq> []) (butlast ?ws) @ (if last ?ws = [] then [] else [last ?ws])"
    by (rule filter_ne_butlast_last) simp
  then show ?thesis by (auto simp: endWord_def absState_def Let_def cmdWords_def wordVal_def)
qed

lemma endCmd_absState:
  "endCmd (absState ts) =
     (if cmdWords (last (chunks isOperator ts)) = [] then None
      else Some \<lparr>sp_cmds = scriptCommands ts, sp_cur = [], sp_word = [], sp_inWord = False\<rparr>)"
proof -
  have "scriptCommands ts = map cmdWords (butlast (chunks isOperator ts)) @ [cmdWords (last (chunks isOperator ts))]"
    unfolding scriptCommands_def by (metis append_butlast_last_id chunks_not_Nil list.simps(8,9) map_append)
  then show ?thesis by (simp add: endCmd_def endWord_absState Let_def)
qed

lemma tokStep_absState:
  assumes "tokOk t"
  shows "tokStep t (absState ts) =
     (if isOperator t \<and> cmdWords (last (chunks isOperator ts)) = [] then None else Some (absState (ts @ [t])))"
proof (cases t)
  case (Blank c)
  then show ?thesis
    by (simp add: endWord_absState) (simp add: absState_def chunks_snoc Let_def cmdWords_def wordVal_def)
next
  case (Bare c)
  then show ?thesis by (simp add: absState_def addWord_def chunks_snoc Let_def wordVal_def)
next
  case (Quoted q b)
  then show ?thesis by (simp add: absState_def addWord_def chunks_snoc Let_def wordVal_def)
next
  case (Operator s)
  then show ?thesis
    by (simp add: endCmd_absState) (simp add: absState_def chunks_snoc Let_def scriptCommands_def wordVal_def)
qed

lemma runToks_absState:
  "list_all tokOk ts \<Longrightarrow>
   runToks ts splitInit =
     (if [] \<in> cmdWords ` set (butlast (chunks isOperator ts)) then None else Some (absState ts))"
proof (induction ts rule: rev_induct)
  case Nil
  then show ?case by (simp add: absState_def splitInit_def wordVal_def)
next
  case (snoc t ts)
  have "set (chunks isOperator ts) = insert (last (chunks isOperator ts)) (set (butlast (chunks isOperator ts)))"
    by (metis append_butlast_last_id chunks_not_Nil list.set(1,2) set_append Un_insert_right sup_bot.right_neutral)
  then show ?case
    using snoc tokStep_absState [of t ts] by (auto simp: runToks_snoc chunks_snoc)
qed

lemma strContains_byte: "strContains s [c] \<longleftrightarrow> c \<in> set s"
  by (induction s) (auto simp: strContains_def hasPrefix_def)

lemma splitScript_toks:
  assumes "list_all tokOk ts" "splitLoop s splitInit = runToks ts splitInit"
  shows "splitScript s = (if plainScript ts then Some (scriptCommands ts) else None)"
proof -
  let ?gs = "chunks isOperator ts"
  have "set ?gs = insert (last ?gs) (set (butlast ?gs))"
    by (metis append_butlast_last_id chunks_not_Nil list.set(1,2) set_append Un_insert_right sup_bot.right_neutral)
  then have ne: "[] \<in> set (scriptCommands ts) \<longleftrightarrow> [] \<in> cmdWords ` set (butlast ?gs) \<or> cmdWords (last ?gs) = []"
    by (auto simp: scriptCommands_def)
  show ?thesis
    using assms ne
    by (auto simp: splitScript_def runToks_absState endCmd_absState plainScript_def strContains_byte list_ex_iff list_all_iff
        split: option.splits)
qed

text \<open>
  C27: the splitter returns the commands of exactly the plain scripts. A script is read when, and only
  when, it is a sequence of blanks, bare bytes, quoted strings and list operators in which every
  command has a word and no command starts with an assignment; what is returned is then the words
  between the operators, and every other script is given up.
\<close>

theorem split_script_exact:
  "splitScript s = Some cmds \<longleftrightarrow> (\<exists>ts. plainScript ts \<and> scriptText ts = s \<and> scriptCommands ts = cmds)"
proof
  assume s: "splitScript s = Some cmds"
  then obtain st where st: "splitLoop s splitInit = Some st" by (auto simp: splitScript_def split: option.splits)
  then obtain ts where ts: "list_all tokOk ts" "scriptText ts = s" "runToks ts splitInit = Some st"
    using splitLoop_toks by blast
  show "\<exists>ts. plainScript ts \<and> scriptText ts = s \<and> scriptCommands ts = cmds"
    using splitScript_toks [of ts s] st ts s by (auto split: if_splits)
next
  assume "\<exists>ts. plainScript ts \<and> scriptText ts = s \<and> scriptCommands ts = cmds"
  then obtain ts where ts: "plainScript ts" "scriptText ts = s" "scriptCommands ts = cmds" by blast
  have ok: "list_all tokOk ts" using ts(1) by (simp add: plainScript_def)
  have "[] \<notin> set (scriptCommands ts)" using ts(1) by (auto simp: plainScript_def list_all_iff)
  then have "runToks ts splitInit = Some (absState ts)"
    using runToks_absState [OF ok] in_set_butlastD by (force simp: scriptCommands_def)
  then have "splitLoop s splitInit = runToks ts splitInit" using splitLoop_runToks [OF ok] ts(2) by simp
  then show "splitScript s = Some cmds" using splitScript_toks [OF ok] ts(1,3) by simp
qed

end
