(* ===== verification/ShellTool.thy ===== *)
theory ShellTool
  imports ShellRules Approval
begin

text \<open>
  How a call of the general command tool is judged, \<^verbatim>\<open>src/ext/exec/shell.go\<close>: reading its arguments, the
  class of a command under the prefix rules, the classifier the approval policy asks, and the question
  the user reads. JSON decoding is the argument \<open>dec\<close>; it returns the decoder's error text or the
  arguments.
\<close>

definition ShellName :: string where "ShellName = ''shell''"

record shellCfg =
  sh_rules :: "prefixRule list"
  sh_timeout :: gotime
  sh_allowNetwork :: bool

record shellArgs =
  sa_Command :: "string list"
  sa_Workdir :: string
  sa_TimeoutMS :: int
  sa_Escalate :: bool
  sa_Justification :: string

record sandbox =
  sb_Name :: string
  sb_unconfined :: bool

text \<open>The part of \<^verbatim>\<open>Source\<close> that judging a call reads.\<close>

record execSource =
  es_roots :: "string list"
  es_sandbox :: sandbox
  es_shell :: "shellCfg option"

definition sandboxed :: "'a execSource_scheme \<Rightarrow> bool" where
  "sandboxed s \<longleftrightarrow> \<not> sb_unconfined (es_sandbox s)"

definition parseShellArgs :: "(rawjson \<Rightarrow> string + shellArgs) \<Rightarrow> rawjson \<Rightarrow> bool \<Rightarrow> goerr + shellArgs" where
  "parseShellArgs dec raw boxed =
     (case dec raw of
        Inl e \<Rightarrow> Inl (Errorf ''shell: %v'' [e] None)
      | Inr a \<Rightarrow>
          (let a = (if boxed then a else a\<lparr>sa_Escalate := False, sa_Justification := []\<rparr>)
           in if sa_Command a = [] \<or> hd (sa_Command a) = [] then
                Inl (ErrNew (''shell: command is empty; pass an argv such as ['' @ [CHR 0x22] @ ''go'' @ [CHR 0x22] @ '', '' @
                  [CHR 0x22] @ ''test'' @ [CHR 0x22] @ '', '' @ [CHR 0x22] @ ''./...'' @ [CHR 0x22] @ '']''))
              else if sa_Escalate a \<and> trimSpace (sa_Justification a) = [] then
                Inl (ErrNew ''shell: escalate needs a justification saying why the command must run outside the sandbox'')
              else Inr a))"

definition firstWords :: "string list \<Rightarrow> nat \<Rightarrow> string" where
  "firstWords argv n =
     (let words = take n argv
      in strJoin (case words of [] \<Rightarrow> [] | w # ws \<Rightarrow> filepathBase w # ws) '' '')"

definition noClass :: callClass where
  "noClass = \<lparr>cc_Disposition = DispositionUnknown, cc_Key = [], cc_Reason = []\<rparr>"

record classifyState =
  cl_keys :: "string list"
  cl_unmatched :: bool
  cl_prompt :: bool
  cl_reasons :: "string list"

text \<open>The loop over the commands; \<open>Inl\<close> is the return from inside it on a forbidden command.\<close>

fun classifyLoop :: "prefixRule list \<Rightarrow> string list list \<Rightarrow> classifyState \<Rightarrow> callClass + classifyState" where
  "classifyLoop rs [] st = Inr st"
| "classifyLoop rs (cmd # cmds) st =
     (case rulesMatch rs cmd of
        None \<Rightarrow> classifyLoop rs cmds (st\<lparr>cl_unmatched := True, cl_keys := cl_keys st @ [firstWords cmd 2]\<rparr>)
      | Some r \<Rightarrow>
          if pr_Decision r = Forbidden then
            Inl \<lparr>cc_Disposition = DispositionForbidden, cc_Key = [],
              cc_Reason = (if pr_Justification r = [] then ruleString r @ '' is forbidden'' else pr_Justification r)\<rparr>
          else
            (let st = (if pr_Decision r = Prompt
                       then st\<lparr>cl_prompt := True,
                         cl_reasons := cl_reasons st @ (if pr_Justification r \<noteq> [] then [pr_Justification r] else [])\<rparr>
                       else st)
             in classifyLoop rs cmds (st\<lparr>cl_keys := cl_keys st @ [firstWords cmd (length (pr_Prefix r))]\<rparr>)))"

definition classify :: "prefixRule list \<Rightarrow> string list \<Rightarrow> callClass" where
  "classify rs argv =
     (case commandsOf argv of
        None \<Rightarrow> noClass\<lparr>cc_Reason := ''a script the rules can't read''\<rparr>
      | Some cmds \<Rightarrow>
          (case classifyLoop rs cmds \<lparr>cl_keys = [], cl_unmatched = False, cl_prompt = False, cl_reasons = []\<rparr> of
             Inl c \<Rightarrow> c
           | Inr st \<Rightarrow>
               (let key = (if length cmds = 1 then hd (cl_keys st) else []);
                    reason = strJoin (cl_reasons st) ''; ''
                in if cl_unmatched st then \<lparr>cc_Disposition = DispositionUnknown, cc_Key = key, cc_Reason = reason\<rparr>
                   else if cl_prompt st then \<lparr>cc_Disposition = DispositionDestructive, cc_Key = key, cc_Reason = reason\<rparr>
                   else \<lparr>cc_Disposition = DispositionReadOnly, cc_Key = key, cc_Reason = []\<rparr>)))"

definition classifyShell :: "(rawjson \<Rightarrow> string + shellArgs) \<Rightarrow> 'a execSource_scheme \<Rightarrow> toolCallInfo \<Rightarrow> callClass option" where
  "classifyShell dec s info =
     (case es_shell s of
        None \<Rightarrow> None
      | Some sh \<Rightarrow>
          if tc_Name (ti_Call info) \<noteq> ShellName then None
          else case parseShellArgs dec (tc_Args (ti_Call info)) (sandboxed s) of
                 Inl e \<Rightarrow> Some noClass
               | Inr a \<Rightarrow>
                   (let class = classify (sh_rules sh) (sa_Command a)
                    in if cc_Disposition class = DispositionForbidden \<or> \<not> sa_Escalate a then Some class
                       else Some \<lparr>cc_Disposition = DispositionAlwaysAsk, cc_Key = [],
                              cc_Reason = ''outside the sandbox: '' @ sa_Justification a\<rparr>))"

definition denialSigns :: "string list" where
  "denialSigns = [''operation not permitted'', ''read-only file system'', ''sandbox-exec'', ''deny(1)'']"

definition networkSigns :: "string list" where
  "networkSigns = [''could not resolve host'', ''temporary failure in name resolution'', ''no such host'',
     ''network is unreachable'', ''dial tcp'', ''connection refused'']"

definition looksLikeSandboxDenial :: "string \<Rightarrow> bool \<Rightarrow> bool" where
  "looksLikeSandboxDenial output networkAllowed \<longleftrightarrow>
     (let out = toLowerAscii output
      in list_ex (strContains out) denialSigns \<or> (\<not> networkAllowed \<and> list_ex (strContains out) networkSigns))"

section \<open>What the class of a script says\<close>

definition decidedBy :: "prefixRule list \<Rightarrow> decision \<Rightarrow> string list \<Rightarrow> bool" where
  "decidedBy rs d cmd \<longleftrightarrow> (case rulesMatch rs cmd of None \<Rightarrow> False | Some r \<Rightarrow> pr_Decision r = d)"

text \<open>Reading the disposition off the whole list of commands, with no loop.\<close>

definition scriptDisposition :: "prefixRule list \<Rightarrow> string list list \<Rightarrow> callDisposition" where
  "scriptDisposition rs cmds =
     (if list_ex (decidedBy rs Forbidden) cmds then DispositionForbidden
      else if list_ex (\<lambda>cmd. rulesMatch rs cmd = None) cmds then DispositionUnknown
      else if list_ex (decidedBy rs Prompt) cmds then DispositionDestructive
      else DispositionReadOnly)"

lemma decisions_differ [simp]: "Forbidden \<noteq> Prompt" "Forbidden \<noteq> Allow" "Prompt \<noteq> Allow"
  by (simp_all add: Forbidden_def Prompt_def Allow_def)

lemma classifyLoop_Inl:
  "list_ex (decidedBy rs Forbidden) cmds \<Longrightarrow>
   \<exists>c. classifyLoop rs cmds st = Inl c \<and> cc_Disposition c = DispositionForbidden"
  by (induction cmds arbitrary: st) (auto simp: decidedBy_def Let_def split: option.split)

lemma classifyLoop_Inr:
  "\<not> list_ex (decidedBy rs Forbidden) cmds \<Longrightarrow>
   \<exists>st'. classifyLoop rs cmds st = Inr st' \<and> length (cl_keys st') = length (cl_keys st) + length cmds \<and>
     cl_unmatched st' = (cl_unmatched st \<or> list_ex (\<lambda>cmd. rulesMatch rs cmd = None) cmds) \<and>
     cl_prompt st' = (cl_prompt st \<or> list_ex (decidedBy rs Prompt) cmds)"
proof (induction cmds arbitrary: st)
  case (Cons cmd cmds)
  have ih: "\<exists>st'. classifyLoop rs cmds st1 = Inr st' \<and> length (cl_keys st') = length (cl_keys st1) + length cmds \<and>
     cl_unmatched st' = (cl_unmatched st1 \<or> list_ex (\<lambda>cmd. rulesMatch rs cmd = None) cmds) \<and>
     cl_prompt st' = (cl_prompt st1 \<or> list_ex (decidedBy rs Prompt) cmds)" for st1
    by (rule Cons.IH) (use Cons.prems in simp)
  show ?case
  proof (cases "rulesMatch rs cmd")
    case None
    then show ?thesis
      using ih [of "st\<lparr>cl_unmatched := True, cl_keys := cl_keys st @ [firstWords cmd 2]\<rparr>"]
      by (auto simp: decidedBy_def [of _ _ cmd])
  next
    case (Some r)
    define st1 where "st1 = (if pr_Decision r = Prompt
        then st\<lparr>cl_prompt := True,
          cl_reasons := cl_reasons st @ (if pr_Justification r \<noteq> [] then [pr_Justification r] else [])\<rparr> else st)"
    have "classifyLoop rs (cmd # cmds) st =
        classifyLoop rs cmds (st1\<lparr>cl_keys := cl_keys st1 @ [firstWords cmd (length (pr_Prefix r))]\<rparr>)"
      using Some Cons.prems by (simp add: decidedBy_def st1_def Let_def)
    moreover have "cl_keys st1 = cl_keys st" "cl_unmatched st1 = cl_unmatched st"
      "cl_prompt st1 = (cl_prompt st \<or> decidedBy rs Prompt cmd)"
      using Some by (simp_all add: st1_def decidedBy_def)
    ultimately show ?thesis
      using ih [of "st1\<lparr>cl_keys := cl_keys st1 @ [firstWords cmd (length (pr_Prefix r))]\<rparr>"] Some by auto
  qed
qed simp

lemma classify_disposition:
  "cc_Disposition (classify rs argv) =
     (case commandsOf argv of None \<Rightarrow> DispositionUnknown | Some cmds \<Rightarrow> scriptDisposition rs cmds)"
proof (cases "commandsOf argv")
  case (Some cmds)
  let ?st = "\<lparr>cl_keys = [], cl_unmatched = False, cl_prompt = False, cl_reasons = []\<rparr>"
  show ?thesis
  proof (cases "list_ex (decidedBy rs Forbidden) cmds")
    case True
    then show ?thesis using classifyLoop_Inl [OF True, of ?st] Some by (auto simp: classify_def scriptDisposition_def)
  next
    case False
    then show ?thesis
      using classifyLoop_Inr [OF False, of ?st] Some by (auto simp: classify_def scriptDisposition_def Let_def)
  qed
qed (simp add: classify_def noClass_def)

section \<open>The rules and the approval policy\<close>

lemma newRulesFrom_decisions:
  "newRulesFrom i rs = None \<Longrightarrow> r \<in> set rs \<Longrightarrow> pr_Decision r \<in> {Allow, Prompt, Forbidden}"
  by (induction rs arbitrary: i) (auto simp: ruleError_def split: option.splits if_splits)

lemma newRules_decisions:
  "newRules rs = Inr rs \<Longrightarrow> r \<in> set rs \<Longrightarrow> pr_Decision r \<in> {Allow, Prompt, Forbidden}"
  using newRulesFrom_decisions [of 0 rs r] by (auto simp: newRules_def split: option.splits)

lemma scriptDisposition_ReadOnly:
  assumes "newRules rs = Inr rs" "scriptDisposition rs cmds = DispositionReadOnly"
  shows "list_all (decidedBy rs Allow) cmds"
  unfolding list_all_iff
proof
  fix cmd assume cmd: "cmd \<in> set cmds"
  then obtain r where r: "rulesMatch rs cmd = Some r"
    using assms(2) by (auto simp: scriptDisposition_def list_ex_iff split: if_splits)
  have "\<not> decidedBy rs Forbidden cmd" "\<not> decidedBy rs Prompt cmd"
    using assms(2) cmd by (auto simp: scriptDisposition_def list_ex_iff split: if_splits)
  then show "decidedBy rs Allow cmd"
    using newRules_decisions [OF assms(1), of r] rulesMatch_Some [OF r] r by (auto simp: decidedBy_def)
qed

text \<open>A policy that asks this classifier, and a call of the tool with arguments that parse.\<close>

definition shellCall ::
  "(rawjson \<Rightarrow> string + shellArgs) \<Rightarrow> 'a execSource_scheme \<Rightarrow> shellCfg \<Rightarrow> 'w tieredApproval \<Rightarrow> toolCallInfo \<Rightarrow> shellArgs \<Rightarrow> bool" where
  "shellCall dec s sh t info a \<longleftrightarrow>
     ta_classify t = Some (\<lambda>i w. classifyShell dec s i) \<and> es_shell s = Some sh \<and> tc_Name (ti_Call info) = ShellName \<and>
     parseShellArgs dec (tc_Args (ti_Call info)) (sandboxed s) = Inr a"

lemma shellCall_verdict:
  assumes "shellCall dec s sh t info a"
  shows "verdictOf t info w =
    (let class = classify (sh_rules sh) (sa_Command a)
     in if cc_Disposition class = DispositionForbidden \<or> \<not> sa_Escalate a then Some class
        else Some \<lparr>cc_Disposition = DispositionAlwaysAsk, cc_Key = [], cc_Reason = ''outside the sandbox: '' @ sa_Justification a\<rparr>)"
  using assms by (auto simp: shellCall_def verdictOf_def classifyShell_def Let_def)

lemma forbidden_neverDispatched:
  "verdictOf t info w = Some c \<Longrightarrow> cc_Disposition c = DispositionForbidden \<Longrightarrow> neverDispatched t info w"
  by (simp add: neverDispatched_def wrap_cases)

lemma alwaysAsk_dispatch_consent:
  assumes "verdictOf t info w = Some c" "cc_Disposition c = DispositionAlwaysAsk" "\<not> neverDispatched t info w"
  shows "consent t (seenInfo t info w) w \<and> ta_rules t (tc_Name (ti_Call info)) \<noteq> Some RuleDeny"
  using assms doAsk_refuses [of t "seenInfo t info w" w] by (auto simp: neverDispatched_def wrap_cases split: if_splits)

lemma unaided_dispatch_modeAdmits:
  assumes "verdictOf t info w = Some c" "cc_Disposition c \<noteq> DispositionAlwaysAsk" "\<not> neverDispatched t info w"
    "\<not> consent t (seenInfo t info w) w" "\<not> rememberedCall t (seenInfo t info w)" "\<not> granted t (seenInfo t info w) w"
    "ta_rules t (tc_Name (ti_Call info)) = None"
  shows "modeAdmits (ta_mode t) (seenInfo t info w)"
  using assms doAsk_refuses [OF assms(4)]
  by (auto simp: neverDispatched_def wrap_cases applyPolicy_cases Let_def split: if_splits)


subsection \<open>Concrete rules\<close>

definition demoRules :: "prefixRule list" where
  "demoRules =
     [\<lparr>pr_Prefix = [[''git''], [''status'', ''diff'']], pr_Decision = Allow, pr_Justification = [], pr_Match = [], pr_NotMatch = []\<rparr>,
      \<lparr>pr_Prefix = [[''rm'']], pr_Decision = Forbidden, pr_Justification = ''use the trash'', pr_Match = [], pr_NotMatch = []\<rparr>]"

definition demoShell :: shellCfg where
  "demoShell = \<lparr>sh_rules = demoRules, sh_timeout = 0, sh_allowNetwork = False\<rparr>"

definition demoSource :: execSource where
  "demoSource = \<lparr>es_roots = [''/w''], es_sandbox = \<lparr>sb_Name = ''seatbelt'', sb_unconfined = False\<rparr>, es_shell = Some demoShell\<rparr>"

definition demoArgs :: shellArgs where
  "demoArgs = \<lparr>sa_Command = [''bash'', ''-lc'', ''git status && /bin/rm -rf x''], sa_Workdir = [], sa_TimeoutMS = 0,
     sa_Escalate = True, sa_Justification = ''why''\<rparr>"

definition demoShellPolicy :: "nat tieredApproval" where
  "demoShellPolicy = newTieredApproval [withDefaultMode ModeAlwaysAllow, withAsk (Some (\<lambda>_ w. (Inr True, w))),
     withClassifier (Some (\<lambda>i w. classifyShell (\<lambda>_. Inr demoArgs) demoSource i))]"

lemma demo_commands: "commandsOf (sa_Command demoArgs) = Some [[''git'', ''status''], [''/bin/rm'', ''-rf'', ''x'']]"
  by code_simp

lemma demo_forbidden: "list_ex (decidedBy demoRules Forbidden) [[''git'', ''status''], [''/bin/rm'', ''-rf'', ''x'']]"
  by code_simp

lemma demo_rules: "newRules demoRules = Inr demoRules"
  by code_simp

text \<open>
  Words the shell reserves are read as commands, so the command behind one is not seen by the rules. Nor is
  a script with a word after it, which is matched as one command.
\<close>

lemma reserved_word_hides_command:
  "cc_Disposition (classify demoRules [''bash'', ''-c'', ''if true; then rm -rf x; fi'']) = DispositionUnknown"
  by code_simp

lemma script_with_extra_word_not_split:
  "cc_Disposition (classify demoRules [''bash'', ''-c'', ''rm -rf x'', ''y'']) = DispositionUnknown \<and>
   cc_Key (classify demoRules [''bash'', ''-c'', ''rm -rf x'', ''y'']) = ''bash -c''"
  by code_simp


end
