(* ===== verification/ExecOutput.thy ===== *)
theory ExecOutput
  imports Prelude
begin

text \<open>
  The three buffers of the command extension: \<open>capBuffer\<close> (\<^verbatim>\<open>src/ext/exec/output.go\<close>) keeps the ends of a
  finished run, \<open>tailBuffer\<close> (\<^verbatim>\<open>src/ext/exec/procs.go\<close>) the end of a running process for reads that go on
  where the last one stopped, and \<open>outputStream\<close> (\<^verbatim>\<open>src/ext/exec/procs_stream.go\<close>) batches output for the
  surfaces within a budget. Locks make each method one step. Sizes are unbounded integers.
\<close>

subsection \<open>The ends of a run\<close>

record capBuffer =
  cb_max :: nat
  cb_head :: string
  cb_tail :: string
  cb_dropped :: nat

definition newCapBuffer :: "nat \<Rightarrow> capBuffer" where
  "newCapBuffer m = \<lparr>cb_max = m, cb_head = [], cb_tail = [], cb_dropped = 0\<rparr>"

definition capWrite :: "string \<Rightarrow> capBuffer \<Rightarrow> capBuffer" where
  "capWrite p c =
     (let half = cb_max c div 2;
          room = half - length (cb_head c);
          n = min room (length p);
          c1 = (if room > 0 then c\<lparr>cb_head := cb_head c @ take n p\<rparr> else c);
          p1 = (if room > 0 then drop n p else p)
      in if p1 = [] then c1
         else (let tail = cb_tail c1 @ p1;
                   excess = length tail - (cb_max c1 - half)
               in if excess > 0 then c1\<lparr>cb_tail := drop excess tail, cb_dropped := cb_dropped c1 + excess\<rparr>
                  else c1\<lparr>cb_tail := tail\<rparr>))"

definition droppedText :: "string \<Rightarrow> nat \<Rightarrow> string \<Rightarrow> string" where
  "droppedText h n t = h @ [newline] @ ''... '' @ itoa (int n) @ '' bytes of output dropped from the middle ...'' @ [newline] @ t"

definition capView :: "capBuffer \<Rightarrow> int \<Rightarrow> string \<times> bool" where
  "capView c m =
     (let kept = length (cb_head c) + length (cb_tail c);
          cut = (m > 0 \<and> int kept > m);
          k = nat m;
          all = cb_head c @ cb_tail c;
          h = (if cut then take (k div 2) all else cb_head c);
          t = (if cut then drop (kept - (k - k div 2)) all else cb_tail c);
          dropped = (if cut then cb_dropped c + (kept - k) else cb_dropped c)
      in if dropped = 0 then (h @ t, False) else (droppedText h dropped t, True))"

definition capString :: "capBuffer \<Rightarrow> string" where
  "capString c = fst (capView c 0)"

definition capTruncated :: "capBuffer \<Rightarrow> bool" where
  "capTruncated c \<longleftrightarrow> cb_dropped c > 0"

subsection \<open>The end of a process\<close>

record tailBuffer =
  tb_buf :: string
  tb_max :: nat
  tb_total :: nat

definition tailWrite :: "string \<Rightarrow> tailBuffer \<Rightarrow> tailBuffer" where
  "tailWrite p b =
     (let buf = tb_buf b @ p; over = length buf - tb_max b
      in b\<lparr>tb_buf := (if over > 0 then drop over buf else buf), tb_total := tb_total b + length p\<rparr>)"

text \<open>The text after a position, the new position, and how many bytes between them are gone.\<close>

definition tailSince :: "tailBuffer \<Rightarrow> nat \<Rightarrow> string \<times> nat \<times> nat" where
  "tailSince b from =
     (let start = tb_total b - length (tb_buf b);
          dropped = (if from < start then start - from else 0);
          from = (if from < start then start else from)
      in (drop (from - start) (tb_buf b), tb_total b, dropped))"

text \<open>The same for the log file of a detached process, whose whole content is \<open>log\<close>, \<open>None\<close> if it cannot be read.\<close>

definition readLogSince :: "string option \<Rightarrow> nat \<Rightarrow> nat \<Rightarrow> string \<times> nat \<times> nat" where
  "readLogSince log from m =
     (case log of
        None \<Rightarrow> ([], from, 0)
      | Some s \<Rightarrow>
          if length s \<le> from then ([], from, 0)
          else (let size = length s;
                    start = (if size - from > m then size - m else from);
                    dropped = (if size - from > m then size - m - from else 0);
                    b = drop start s
                in (b, start + length b, dropped)))"

subsection \<open>Output for the surfaces\<close>

definition streamAt :: nat where "streamAt = 8 * 1024"
definition streamMax :: nat where "streamMax = 16 * 1024"

record outputStream =
  os_pending :: string
  os_dropped :: nat
  os_paused :: bool
  os_sent :: nat
  os_budget :: int
  os_kick :: bool

definition newOutputStream :: "int \<Rightarrow> outputStream" where
  "newOutputStream budget = \<lparr>os_pending = [], os_dropped = 0, os_paused = False, os_sent = 0, os_budget = budget, os_kick = False\<rparr>"

definition streamAdd :: "string \<Rightarrow> outputStream \<Rightarrow> outputStream" where
  "streamAdd b st =
     (if os_paused st then st
      else (let pending = os_pending st @ b; over = length pending - streamMax;
                st = (if over > 0 then st\<lparr>os_pending := drop over pending, os_dropped := os_dropped st + over\<rparr>
                      else st\<lparr>os_pending := pending\<rparr>)
            in if length (os_pending st) \<ge> streamAt then st\<lparr>os_kick := True\<rparr> else st))"

record processOutput =
  pr_Text :: string
  pr_Dropped :: nat
  pr_Paused :: bool

definition streamTake :: "outputStream \<Rightarrow> processOutput option \<times> outputStream" where
  "streamTake st =
     (if os_pending st = [] \<and> os_dropped st = 0 then (None, st)
      else (let o1 = \<lparr>pr_Text = os_pending st, pr_Dropped = os_dropped st, pr_Paused = False\<rparr>;
                st1 = st\<lparr>os_pending := [], os_dropped := 0\<rparr>;
                left = os_budget st1 - int (os_sent st1);
                over = (os_budget st1 \<ge> 0 \<and> int (length (pr_Text o1)) \<ge> left);
                o2 = (if over then o1\<lparr>pr_Text := take (nat (max left 0)) (pr_Text o1), pr_Paused := True\<rparr> else o1);
                st2 = (if over then st1\<lparr>os_paused := True\<rparr> else st1)
            in (Some o2, st2\<lparr>os_sent := os_sent st2 + length (pr_Text o2)\<rparr>)))"

section \<open>What the buffers keep\<close>

definition lastBytes :: "nat \<Rightarrow> 'a list \<Rightarrow> 'a list" where
  "lastBytes n s = drop (length s - n) s"

lemma length_lastBytes [simp]: "length (lastBytes n s) = min n (length s)"
  by (simp add: lastBytes_def)

lemma lastBytes_append: "lastBytes n (lastBytes n s @ p) = lastBytes n (s @ p)"
  by (cases "length s \<le> n") (auto simp: lastBytes_def add.commute)

lemma lastBytes_all: "length s \<le> n \<Longrightarrow> lastBytes n s = s"
  by (simp add: lastBytes_def)

text \<open>The buffer after all writes, from everything written.\<close>

definition capOf :: "nat \<Rightarrow> string \<Rightarrow> capBuffer" where
  "capOf m s =
     (let half = m div 2; rest = drop half s
      in \<lparr>cb_max = m, cb_head = take half s, cb_tail = lastBytes (m - half) rest, cb_dropped = length rest - (m - half)\<rparr>)"

text \<open>Once the head is full, a write goes to the tail.\<close>

lemma capWrite_full:
  assumes "length (cb_head c) = cb_max c div 2" "length (cb_tail c) \<le> cb_max c - cb_max c div 2"
  shows "capWrite p c = c\<lparr>cb_tail := lastBytes (cb_max c - cb_max c div 2) (cb_tail c @ p),
    cb_dropped := cb_dropped c + (length (cb_tail c @ p) - (cb_max c - cb_max c div 2))\<rparr>"
  using assms by (cases "p = []") (auto simp: capWrite_def lastBytes_def Let_def)

lemma capWrite_capOf: "capWrite p (capOf m s) = capOf m (s @ p)"
proof (cases "length s < m div 2")
  case True
  then show ?thesis
    by (cases "length p \<le> m div 2 - length s")
      (auto simp: capWrite_def capOf_def lastBytes_def Let_def min_def)
next
  case False
  define k r where "k = m - m div 2" and "r = drop (m div 2) s"
  have c: "capOf m s = \<lparr>cb_max = m, cb_head = take (m div 2) s, cb_tail = lastBytes k r, cb_dropped = length r - k\<rparr>"
    by (simp only: capOf_def Let_def k_def r_def)
  have "drop (m div 2) (s @ p) = r @ p" "take (m div 2) (s @ p) = take (m div 2) s"
    using False by (simp_all add: r_def)
  then have c': "capOf m (s @ p) =
      \<lparr>cb_max = m, cb_head = take (m div 2) s, cb_tail = lastBytes k (r @ p), cb_dropped = length (r @ p) - k\<rparr>"
    by (simp only: capOf_def Let_def k_def)
  have "length r - k + (length (lastBytes k r @ p) - k) = length (r @ p) - k"
    by (cases "length r \<le> k") simp_all
  moreover have "capWrite p (capOf m s) = (capOf m s)\<lparr>cb_tail := lastBytes k (lastBytes k r @ p),
      cb_dropped := length r - k + (length (lastBytes k r @ p) - k)\<rparr>"
    using capWrite_full [of "capOf m s" p] False by (simp only: c) (simp add: k_def)
  ultimately show ?thesis unfolding c c' by (simp only: lastBytes_append capBuffer.simps)
qed

lemma capWrites_capOf: "fold capWrite ps (newCapBuffer m) = capOf m (concat ps)"
proof (induction ps rule: rev_induct)
  case Nil
  then show ?case by (simp add: newCapBuffer_def capOf_def lastBytes_def)
next
  case (snoc p ps)
  then show ?case by (simp add: capWrite_capOf)
qed

text \<open>
  What a reader of a view gets: the whole output when nothing is missing, else its two ends with the exact
  number of bytes between them.
\<close>

lemma capOf_ends:
  "\<exists>mid. s = cb_head (capOf m s) @ mid @ cb_tail (capOf m s) \<and> length mid = cb_dropped (capOf m s) \<and>
     length (cb_head (capOf m s)) + length (cb_tail (capOf m s)) \<le> m"
proof -
  let ?half = "m div 2" and ?rest = "drop (m div 2) s"
  let ?mid = "take (length ?rest - (m - ?half)) ?rest"
  have "s = take ?half s @ ?mid @ lastBytes (m - ?half) ?rest"
    unfolding lastBytes_def by (metis append_take_drop_id)
  then show ?thesis by (intro exI [of _ ?mid]) (auto simp: capOf_def Let_def)
qed

lemma halves_fit:
  fixes k n :: nat
  assumes "k \<le> n"
  shows "n - (n - (k - k div 2)) = k - k div 2" "min n (k div 2) + (k - k div 2) = k"
proof -
  have "k div 2 \<le> k" "k div 2 \<le> n" using assms by simp_all
  with assms show "n - (n - (k - k div 2)) = k - k div 2" "min n (k div 2) + (k - k div 2) = k" by simp_all
qed

lemma middle_cut:
  assumes "k \<le> length xs"
  shows "\<exists>mid. xs = take (k div 2) xs @ mid @ drop (length xs - (k - k div 2)) xs \<and> length mid = length xs - k"
proof -
  let ?n = "length xs - (k - k div 2)"
  have le: "k div 2 \<le> ?n" using assms by auto
  have "xs = take (k div 2) xs @ drop (k div 2) (take ?n xs) @ drop ?n xs"
    by (metis le append.assoc append_take_drop_id min.absorb1 take_take)
  moreover have "length (drop (k div 2) (take ?n xs)) = length xs - k" using assms by auto
  ultimately show ?thesis by blast
qed

lemma append_split_ends:
  assumes "a @ b = h @ mid @ t" "length h \<le> length a" "length t \<le> length b"
  shows "\<exists>h' t'. a = h @ h' \<and> b = t' @ t \<and> mid = h' @ t'"
proof -
  from assms(1) obtain w where "(a = h @ w \<and> w @ b = mid @ t) \<or> (a @ w = h \<and> b = w @ mid @ t)"
    unfolding append_eq_append_conv2 by blast
  then obtain u where u: "a = h @ u" "u @ b = mid @ t" using assms(2) by force
  from u(2) have "\<exists>w. (u = mid @ w \<and> w @ b = t) \<or> (u @ w = mid \<and> b = w @ t)" by (simp add: append_eq_append_conv2)
  with u(1) assms(3) show ?thesis by auto
qed

text \<open>What a view shows of a buffer, and which bytes of the buffer it leaves out.\<close>

lemma capView_cases:
  "(\<exists>h mid t. cb_head c @ cb_tail c = h @ mid @ t \<and> mid \<noteq> [] \<and> v > 0 \<and> length h + length t = nat v \<and>
      h = take (nat v div 2) (cb_head c @ cb_tail c) \<and>
      length t = nat v - nat v div 2 \<and> capView c v = (droppedText h (cb_dropped c + length mid) t, True)) \<or>
   (v > 0 \<longrightarrow> int (length (cb_head c) + length (cb_tail c)) \<le> v) \<and>
     capView c v = (if cb_dropped c = 0 then (cb_head c @ cb_tail c, False) else (droppedText (cb_head c) (cb_dropped c) (cb_tail c), True))"
proof (cases "v > 0 \<and> int (length (cb_head c) + length (cb_tail c)) > v")
  case True
  let ?all = "cb_head c @ cb_tail c"
  let ?h = "take (nat v div 2) ?all" and ?t = "drop (length ?all - (nat v - nat v div 2)) ?all"
  have k: "nat v \<le> length ?all" "nat v < length ?all" using True by auto
  obtain mid where mid: "?all = ?h @ mid @ ?t" "length mid = length ?all - nat v"
    using middle_cut [OF k(1)] by blast
  have ne: "mid \<noteq> []" using mid(2) k(2) by auto
  have len: "length ?t = nat v - nat v div 2" "length ?h + length ?t = nat v"
    using halves_fit [OF k(1)] unfolding length_take length_drop by simp_all
  have "capView c v = (droppedText ?h (cb_dropped c + length mid) ?t, True)"
    using True k(2) mid(2) by (simp add: capView_def Let_def)
  with mid(1) ne True len show ?thesis
    by metis
next
  case False
  then show ?thesis by (auto simp: capView_def Let_def)
qed

lemma capView_missing:
  assumes gap: "s = cb_head c @ gap @ cb_tail c" "length gap = cb_dropped c"
      "length (cb_head c) + length (cb_tail c) \<le> m"
    and full: "gap \<noteq> [] \<Longrightarrow> length (cb_head c) = m div 2 \<and> length (cb_tail c) = m - m div 2"
  shows "\<exists>h mid t. s = h @ mid @ t \<and> length h + length t \<le> m \<and> (v > 0 \<longrightarrow> int (length h + length t) \<le> v) \<and>
    capView c v = (if mid = [] then (s, False) else (droppedText h (length mid) t, True))"
  using capView_cases [of c v]
proof (elim disjE)
  assume whole: "(v > 0 \<longrightarrow> int (length (cb_head c) + length (cb_tail c)) \<le> v) \<and>
     capView c v = (if cb_dropped c = 0 then (cb_head c @ cb_tail c, False) else (droppedText (cb_head c) (cb_dropped c) (cb_tail c), True))"
  then show ?thesis
    using gap by (intro exI [of _ "cb_head c"] exI [of _ gap] exI [of _ "cb_tail c"]) auto
next
  assume "\<exists>h mid t. cb_head c @ cb_tail c = h @ mid @ t \<and> mid \<noteq> [] \<and> v > 0 \<and> length h + length t = nat v \<and>
      h = take (nat v div 2) (cb_head c @ cb_tail c) \<and>
      length t = nat v - nat v div 2 \<and> capView c v = (droppedText h (cb_dropped c + length mid) t, True)"
  then obtain h mid t where cut: "cb_head c @ cb_tail c = h @ mid @ t" "mid \<noteq> []" "v > 0" "length h + length t = nat v"
      "h = take (nat v div 2) (cb_head c @ cb_tail c)" "length t = nat v - nat v div 2"
      "capView c v = (droppedText h (cb_dropped c + length mid) t, True)" by blast
  have len: "length h + length mid + length t = length (cb_head c) + length (cb_tail c)"
    using arg_cong [OF cut(1), of length] by simp
  have "\<exists>lost. s = h @ lost @ t \<and> length lost = length gap + length mid"
  proof (cases "gap = []")
    case True
    then show ?thesis using gap(1) cut(1) by (intro exI [of _ mid]) simp
  next
    case False
    have small: "nat v < m" using full [OF False] cut(4) len length_greater_0_conv [THEN iffD2, OF cut(2)] by linarith
    have "nat v div 2 \<le> m div 2" "nat v - nat v div 2 \<le> m - m div 2" using small by (simp_all add: div_le_mono)
    moreover have "length h = nat v div 2" using cut(4,6) by linarith
    ultimately have ends: "length h \<le> length (cb_head c)" "length t \<le> length (cb_tail c)"
      using cut(6) full [OF False] by simp_all
    obtain h' t' where "cb_head c = h @ h'" "cb_tail c = t' @ t" "mid = h' @ t'"
      using append_split_ends [OF cut(1) ends] by blast
    then show ?thesis using gap(1) by (intro exI [of _ "h' @ gap @ t'"]) simp
  qed
  then obtain lost where lost: "s = h @ lost @ t" "length lost = cb_dropped c + length mid" using gap(2) by auto
  have "length h + length t \<le> m" using len gap(3) by simp
  moreover have "lost \<noteq> []" using lost(2) cut(2) by auto
  ultimately show ?thesis
    using lost cut(3,4,7) by (intro exI [of _ h] exI [of _ lost] exI [of _ t]) simp
qed

text \<open>
  A view of a run is honest. Whatever pieces the output was written in, the view is the whole output and
  says that nothing is missing, or it is a start and an end of the output around a line with the exact
  number of bytes missing between them; it keeps at most the buffer's size, and at most the view's limit.
\<close>

lemma run_view_counts_missing_bytes:
  "\<exists>h mid t. concat ps = h @ mid @ t \<and> length h + length t \<le> m \<and> (v > 0 \<longrightarrow> int (length h + length t) \<le> v) \<and>
     capView (fold capWrite ps (newCapBuffer m)) v =
       (if mid = [] then (concat ps, False) else (droppedText h (length mid) t, True))"
proof -
  define s where "s = concat ps"
  obtain gap where gap: "s = cb_head (capOf m s) @ gap @ cb_tail (capOf m s)" "length gap = cb_dropped (capOf m s)"
      "length (cb_head (capOf m s)) + length (cb_tail (capOf m s)) \<le> m"
    using capOf_ends by blast
  have "length (cb_head (capOf m s)) = m div 2 \<and> length (cb_tail (capOf m s)) = m - m div 2" if "gap \<noteq> []"
  proof -
    have "m < length s" using that gap(2) by (auto simp: capOf_def Let_def simp flip: length_greater_0_conv)
    then show ?thesis by (simp add: capOf_def Let_def)
  qed
  from capView_missing [OF gap this, of v] show ?thesis unfolding capWrites_capOf s_def .
qed

theorem run_view_counts_missing_bytes_witness:
  "fst (capView (fold capWrite [''make: *** '', ''12 lines of noise '', ''exit 2''] (newCapBuffer 12)) 8) =
     ''make'' @ [newline] @ ''... 26 bytes of output dropped from the middle ...'' @ [newline] @ ''it 2'' \<and>
   (\<exists>h mid t. concat [''make: *** '', ''12 lines of noise '', ''exit 2''] = h @ mid @ t \<and> int (length h + length t) \<le> 8)"
proof
  show "fst (capView (fold capWrite [''make: *** '', ''12 lines of noise '', ''exit 2''] (newCapBuffer 12)) 8) =
     ''make'' @ [newline] @ ''... 26 bytes of output dropped from the middle ...'' @ [newline] @ ''it 2''" by code_simp
  show "\<exists>h mid t. concat [''make: *** '', ''12 lines of noise '', ''exit 2''] = h @ mid @ t \<and> int (length h + length t) \<le> 8"
    using run_view_counts_missing_bytes [of "[''make: *** '', ''12 lines of noise '', ''exit 2'']" 12 8] by fastforce
qed

section \<open>Reads that go on\<close>

text \<open>
  A process writes and the model reads, in any order. A read returns the text since the last one, of which the
  buffer may have lost a beginning.
\<close>

datatype procIO = Wrote string | Read

fun procRun :: "procIO list \<Rightarrow> tailBuffer \<times> nat \<Rightarrow> (string \<times> nat) list \<times> tailBuffer \<times> nat" where
  "procRun [] (b, pos) = ([], b, pos)"
| "procRun (Wrote p # es) (b, pos) = procRun es (tailWrite p b, pos)"
| "procRun (Read # es) (b, pos) =
     (case tailSince b pos of
        (s, pos', dropped) \<Rightarrow> (case procRun es (b, pos') of (rs, st) \<Rightarrow> ((s, dropped) # rs, st)))"

fun written :: "procIO list \<Rightarrow> string" where
  "written [] = []"
| "written (Wrote p # es) = p @ written es"
| "written (Read # es) = written es"

text \<open>The buffer holds the end of everything written.\<close>

definition tailHolds :: "string \<Rightarrow> tailBuffer \<Rightarrow> bool" where
  "tailHolds s b \<longleftrightarrow> tb_buf b = lastBytes (tb_max b) s \<and> tb_total b = length s"

lemma tailWrite_holds: "tailHolds s b \<Longrightarrow> tailHolds (s @ p) (tailWrite p b)"
  using lastBytes_append [of "tb_max b" s p]
  by (auto simp: tailHolds_def tailWrite_def Let_def lastBytes_def)

lemma tailSince_holds:
  assumes "tailHolds s b" "pos \<le> length s" "tailSince b pos = (t, pos', dropped)"
  shows "pos' = length s \<and> dropped \<le> length s - pos \<and> t = drop (pos + dropped) s \<and> dropped = length s - pos - tb_max b"
  using assms by (auto simp: tailHolds_def tailSince_def lastBytes_def Let_def split: if_splits)

text \<open>Each read returns the output since the last one, less exactly the bytes it reports as dropped.\<close>

fun readsOf :: "nat \<Rightarrow> string \<Rightarrow> nat \<Rightarrow> procIO list \<Rightarrow> (string \<times> nat) list" where
  "readsOf m s pos [] = []"
| "readsOf m s pos (Wrote p # es) = readsOf m (s @ p) pos es"
| "readsOf m s pos (Read # es) = (lastBytes m (drop pos s), length s - pos - m) # readsOf m s (length s) es"

lemma procRun_readsOf:
  "tailHolds s b \<Longrightarrow> pos \<le> length s \<Longrightarrow> fst (procRun es (b, pos)) = readsOf (tb_max b) s pos es"
proof (induction es "(b, pos)" arbitrary: s b pos rule: procRun.induct)
  case (2 p es b pos)
  have "tb_max (tailWrite p b) = tb_max b" by (simp add: tailWrite_def Let_def)
  then show ?case using 2(1) [OF tailWrite_holds [OF 2(2)]] 2(3) by simp
next
  case (3 es b pos)
  obtain t pos' d where r: "tailSince b pos = (t, pos', d)" by (metis prod_cases3)
  note h = tailSince_holds [OF 3(2,3) r]
  have "fst (procRun es (b, pos')) = readsOf (tb_max b) s pos' es"
    using 3(1) [OF r [symmetric] refl, of s] 3(2) h by simp
  then show ?case using r h by (auto simp: lastBytes_def add.commute split: prod.split)
qed simp

section \<open>What the surfaces are sent\<close>

datatype streamIO = Add string | Take

fun streamRun :: "streamIO list \<Rightarrow> outputStream \<Rightarrow> processOutput list \<times> outputStream" where
  "streamRun [] st = ([], st)"
| "streamRun (Add b # es) st = streamRun es (streamAdd b st)"
| "streamRun (Take # es) st =
     (case streamTake st of
        (None, st1) \<Rightarrow> streamRun es st1
      | (Some r, st1) \<Rightarrow> (case streamRun es st1 of (rs, st2) \<Rightarrow> (r # rs, st2)))"

fun added :: "streamIO list \<Rightarrow> nat" where
  "added [] = 0"
| "added (Add b # es) = length b + added es"
| "added (Take # es) = added es"

definition reported :: "processOutput list \<Rightarrow> nat" where
  "reported rs = sum_list (map (\<lambda>r. length (pr_Text r) + pr_Dropped r) rs)"

definition sentBytes :: "processOutput list \<Rightarrow> nat" where
  "sentBytes rs = sum_list (map (length \<circ> pr_Text) rs)"

definition waiting :: "outputStream \<Rightarrow> nat" where
  "waiting st = length (os_pending st) + os_dropped st"

lemmas streamDefs = streamAdd_def streamTake_def Let_def waiting_def sentBytes_def reported_def

definition streamOk :: "outputStream \<Rightarrow> bool" where
  "streamOk st \<longleftrightarrow> length (os_pending st) \<le> streamMax \<and> (os_budget st \<ge> 0 \<longrightarrow> int (os_sent st) \<le> os_budget st) \<and>
     (os_paused st \<longrightarrow> waiting st = 0)"

lemma streamAdd_ok:
  "streamOk st \<Longrightarrow> streamOk (streamAdd b st) \<and> os_budget (streamAdd b st) = os_budget st \<and>
     os_paused (streamAdd b st) = os_paused st \<and> os_sent (streamAdd b st) = os_sent st \<and>
     waiting (streamAdd b st) = (if os_paused st then 0 else waiting st + length b)"
  by (auto simp: streamOk_def streamDefs)

lemma streamTake_None: "streamTake st = (None, st1) \<Longrightarrow> st1 = st \<and> waiting st = 0"
  by (auto simp: streamDefs split: if_splits)

lemma streamTake_Some:
  assumes "streamOk st" "streamTake st = (Some r, st1)"
  shows "streamOk st1 \<and> os_budget st1 = os_budget st \<and> os_sent st1 = os_sent st + length (pr_Text r) \<and>
    waiting st1 = 0 \<and> length (pr_Text r) \<le> streamMax \<and> \<not> os_paused st \<and> os_paused st1 = pr_Paused r \<and>
    (\<not> pr_Paused r \<longrightarrow> length (pr_Text r) + pr_Dropped r = waiting st)"
proof -
  have st: "\<not> (os_pending st = [] \<and> os_dropped st = 0)" "\<not> os_paused st" "length (os_pending st) \<le> streamMax"
      "os_budget st \<ge> 0 \<Longrightarrow> int (os_sent st) \<le> os_budget st"
    using assms by (auto simp: streamOk_def streamTake_def waiting_def split: if_splits)
  show ?thesis
  proof (cases "os_budget st \<ge> 0 \<and> int (length (os_pending st)) \<ge> os_budget st - int (os_sent st)")
    case True
    then show ?thesis using assms(2) st by (auto simp: streamOk_def streamDefs)
  next
    case False
    then show ?thesis using assms(2) st by (auto simp: streamOk_def streamDefs)
  qed
qed

lemma streamRun_paused: "streamOk st \<Longrightarrow> os_paused st \<Longrightarrow> streamRun es st = ([], st)"
proof (induction es arbitrary: st)
  case (Cons e es)
  show ?case
  proof (cases e)
    case (Add b)
    then show ?thesis using Cons by (simp add: streamAdd_def)
  next
    case Take
    have "streamTake st = (None, st)" using Cons.prems by (simp add: streamOk_def streamDefs)
    then show ?thesis using Take Cons by simp
  qed
qed simp

text \<open>Everything the runs of a stream promise, from any state that keeps the invariant.\<close>

definition streamFrom :: "outputStream \<Rightarrow> nat \<Rightarrow> processOutput list \<Rightarrow> outputStream \<Rightarrow> bool" where
  "streamFrom st n rs st' \<longleftrightarrow>
     streamOk st' \<and> os_budget st' = os_budget st \<and> os_sent st' = os_sent st + sentBytes rs \<and>
     list_all (\<lambda>r. length (pr_Text r) \<le> streamMax) rs \<and>
     (\<not> os_paused st' \<longrightarrow> reported rs + waiting st' = waiting st + n) \<and>
     (os_paused st \<or> (\<not> os_paused st' \<longrightarrow> list_all (\<lambda>r. \<not> pr_Paused r) rs) \<and>
       (os_paused st' \<longrightarrow> rs \<noteq> [] \<and> pr_Paused (last rs) \<and> list_all (\<lambda>r. \<not> pr_Paused r) (butlast rs)))"

lemma streamRun_from: "streamOk st \<Longrightarrow> case streamRun es st of (rs, st') \<Rightarrow> streamFrom st (added es) rs st'"
proof (induction es arbitrary: st)
  case Nil
  then show ?case by (simp add: streamFrom_def reported_def sentBytes_def)
next
  case (Cons e es)
  show ?case
  proof (cases e)
    case (Add b)
    note a = streamAdd_ok [OF Cons.prems, of b]
    show ?thesis
    proof (cases "os_paused st")
      case True
      then show ?thesis using streamRun_paused [OF Cons.prems, of "e # es"] Cons.prems
        by (simp add: streamFrom_def reported_def sentBytes_def)
    next
      case False
      then show ?thesis using Cons.IH [of "streamAdd b st"] a Add by (simp add: streamFrom_def split: prod.splits)
    qed
  next
    case Take
    obtain o1 st1 where t: "streamTake st = (o1, st1)" by fastforce
    show ?thesis
    proof (cases o1)
      case None
      then show ?thesis using Cons.IH [OF Cons.prems] streamTake_None [of st st1] t Take by simp
    next
      case (Some r)
      note s = streamTake_Some [OF Cons.prems t [unfolded Some]]
      obtain rs st2 where u: "streamRun es st1 = (rs, st2)" by fastforce
      have ih: "streamFrom st1 (added es) rs st2" using Cons.IH [of st1] s u by simp
      show ?thesis
      proof (cases "pr_Paused r")
        case True
        then have "rs = [] \<and> st2 = st1" using streamRun_paused [of st1 es] s u by simp
        then show ?thesis using True s t u Take Some by (simp add: streamFrom_def reported_def sentBytes_def)
      next
        case False
        then show ?thesis using ih s t u Take Some
          by (auto simp: streamFrom_def reported_def sentBytes_def)
      qed
    qed
  qed
qed



end
