(* ===== verification/ExecTools.thy ===== *)
theory ExecTools
  imports ShellTool ExecOutput
begin

text \<open>
  The command tools of \<^verbatim>\<open>src/ext/exec/tools.go\<close>, with the part of \<^verbatim>\<open>src/ext/exec/shell.go\<close> that runs a call and
  the argument policies of \<^verbatim>\<open>src/ext/exec/config.go\<close>: which process a call starts, where, under which policy, and
  what the model reads of it. The operating system is a parameter: \<open>ev\<close> resolves the links of a path, \<open>look\<close>
  finds a program, \<open>os\<close> runs a process and says what it did. A regular expression is its test.
\<close>

subsection \<open>Configuration\<close>

record argPolicy =
  ap_Max :: int
  ap_Match :: string
  ap_Paths :: bool

definition argPolicyValidate :: "(string \<Rightarrow> string option) \<Rightarrow> argPolicy \<Rightarrow> goerr option" where
  "argPolicyValidate compile p =
     (if ap_Max p \<le> 0 then Some (ErrNew ''ArgPolicy.Max must be positive'')
      else if ap_Match p = [] then
        Some (ErrNew ''ArgPolicy.Match is required; a policy that constrains nothing permits everything'')
      else map_option (\<lambda>e. Errorf ''ArgPolicy.Match: %w'' [] (Some (ErrNew e))) (compile (ap_Match p)))"

record commandSpec =
  cs_Name :: string
  cs_Argv :: "string list"
  cs_Dir :: string
  cs_Description :: string
  cs_Args :: "argPolicy option"
  cs_AllowNetwork :: bool
  cs_ReadOnly :: bool
  cs_Reversible :: bool
  cs_Timeout :: gotime

record command =
  cm_spec :: commandSpec
  cm_tool :: string
  cm_path :: string
  cm_dir :: string
  cm_timeout :: gotime

record toolsSource = execSource +
  ts_cmds :: "(string \<times> command) list"
  ts_maxOutput :: nat
  ts_inline :: int
  ts_write :: "string list"
  ts_denyRead :: "string list"

definition DefaultInlineOutput :: int where "DefaultInlineOutput = 32 * 1024"
definition toolPrefix :: string where "toolPrefix = ''run_''"

subsection \<open>Keeping a path inside a root\<close>

text \<open>
  The search for the longest part of a path that exists. Every round drops a component, so the number of
  components bounds the rounds; \<open>None\<close> is a bound chosen too small.
\<close>

fun confineLoop :: "(string \<Rightarrow> string option) \<Rightarrow> nat \<Rightarrow> string \<Rightarrow> string \<Rightarrow> string \<Rightarrow> string option" where
  "confineLoop ev 0 p probe rest = None"
| "confineLoop ev (Suc n) p probe rest =
     (case ev probe of
        Some real \<Rightarrow> Some (filepathJoin real rest)
      | None \<Rightarrow>
          (let parent = filepathDir probe
           in if parent = probe then Some p
              else confineLoop ev n p parent (filepathJoin (filepathBase probe) rest)))"

definition insideSome :: "string list \<Rightarrow> string \<Rightarrow> bool" where
  "insideSome roots p \<longleftrightarrow> list_ex (\<lambda>r. filepathRel r p = ''.'' \<or> \<not> climbs (filepathRel r p)) roots"

definition confine :: "(string \<Rightarrow> string option) \<Rightarrow> string list \<Rightarrow> string \<Rightarrow> (goerr + string) option" where
  "confine ev roots path =
     (let c = filepathClean path;
          p = (if isAbs c then c else filepathJoin (hd roots) c)
      in case confineLoop ev (Suc (length (pathComps p))) p p [] of
           None \<Rightarrow> None
         | Some q \<Rightarrow> if insideSome roots q then Some (Inr q)
                     else Some (Inl (Errorf ''%s is outside every workspace root'' [q] None)))"

subsection \<open>Construction\<close>

definition nameChar :: "char \<Rightarrow> bool" where
  "nameChar c \<longleftrightarrow> (CHR ''a'' \<le> c \<and> c \<le> CHR ''z'') \<or> (CHR ''0'' \<le> c \<and> c \<le> CHR ''9'') \<or> c = CHR ''_''"

text \<open>\<^verbatim>\<open>nameRE\<close>, the regular expression a command name matches.\<close>

definition nameRE :: "string \<Rightarrow> bool" where
  "nameRE s \<longleftrightarrow> (case s of [] \<Rightarrow> False | c # cs \<Rightarrow> CHR ''a'' \<le> c \<and> c \<le> CHR ''z'' \<and> list_all nameChar cs)"

definition resolveCommand ::
  "(string \<Rightarrow> string option) \<Rightarrow> (string \<Rightarrow> string + string) \<Rightarrow> (string \<Rightarrow> bool) \<Rightarrow> (string \<Rightarrow> string option) \<Rightarrow>
   string list \<Rightarrow> commandSpec \<Rightarrow> gotime \<Rightarrow> (goerr + command) option" where
  "resolveCommand ev look isDir compile roots spec defaultTimeout =
     (if \<not> nameRE (cs_Name spec) then
        Some (Inl (Errorf ''exec: command name %q must match %s'' [cs_Name spec, ''^[a-z][a-z0-9_]*$''] None))
      else if cs_Argv spec = [] then Some (Inl (Errorf ''exec: command %q has no Argv'' [cs_Name spec] None))
      else if cs_Description spec = [] then
        Some (Inl (Errorf ''exec: command %q has no Description; it is the only thing the model has to choose by'' [cs_Name spec] None))
      else case look (hd (cs_Argv spec)) of
        Inl e \<Rightarrow> Some (Inl (Errorf ''exec: command %q: %w'' [cs_Name spec] (Some (ErrNew e))))
      | Inr path \<Rightarrow>
          (let dir = (if cs_Dir spec = [] then hd roots
                      else if \<not> isAbs (cs_Dir spec) then filepathJoin (hd roots) (cs_Dir spec) else cs_Dir spec)
           in case confine ev roots dir of
                None \<Rightarrow> None
              | Some (Inl e) \<Rightarrow> Some (Inl (Errorf ''exec: command %q Dir: %w'' [cs_Name spec] (Some e)))
              | Some (Inr dir1) \<Rightarrow>
                  if \<not> isDir dir1 then
                    Some (Inl (Errorf ''exec: command %q Dir %s is not a directory'' [cs_Name spec, dir1] None))
                  else case (case cs_Args spec of None \<Rightarrow> None | Some p \<Rightarrow> argPolicyValidate compile p) of
                         Some e \<Rightarrow> Some (Inl (Errorf ''exec: command %q: %w'' [cs_Name spec] (Some e)))
                       | None \<Rightarrow>
                           Some (Inr \<lparr>cm_spec = spec, cm_tool = toolPrefix @ cs_Name spec, cm_path = path, cm_dir = dir1,
                             cm_timeout = (if cs_Timeout spec \<le> 0 then defaultTimeout else cs_Timeout spec)\<rparr>)))"

text \<open>The loop of \<^verbatim>\<open>NewSource\<close> over the allowlist.\<close>

fun addCommands ::
  "(commandSpec \<Rightarrow> (goerr + command) option) \<Rightarrow> commandSpec list \<Rightarrow> (string \<times> command) list \<Rightarrow>
   (goerr + (string \<times> command) list) option" where
  "addCommands res [] cmds = Some (Inr cmds)"
| "addCommands res (spec # specs) cmds =
     (case res spec of
        None \<Rightarrow> None
      | Some (Inl e) \<Rightarrow> Some (Inl e)
      | Some (Inr c) \<Rightarrow>
          if map_of cmds (cm_tool c) \<noteq> None then
            Some (Inl (Errorf ''exec: two commands named %q'' [cs_Name (cm_spec c)] None))
          else addCommands res specs (cmds @ [(cm_tool c, c)]))"

text \<open>The annotations of a command's definition: what the approval gate reads.\<close>

definition commandAnnotations :: "command \<Rightarrow> (string \<times> annotation) list" where
  "commandAnnotations c =
     (if cs_ReadOnly (cm_spec c) then [(''readOnlyHint'', ABool True)] else []) @
     (if cs_Reversible (cm_spec c) then [(''destructiveHint'', ABool False)] else [])"

subsection \<open>Arguments\<close>

fun checkArgList ::
  "(string \<Rightarrow> string option) \<Rightarrow> (string \<Rightarrow> string \<Rightarrow> bool) \<Rightarrow> string list \<Rightarrow> command \<Rightarrow> argPolicy \<Rightarrow> jval list \<Rightarrow>
   (goerr + string list) option" where
  "checkArgList ev re roots c p [] = Some (Inr [])"
| "checkArgList ev re roots c p (v # vs) =
     (case v of
        JStr sv \<Rightarrow>
          if \<not> re (ap_Match p) sv then
            Some (Inl (Errorf ''%s: argument %q is not permitted; it must match %s'' [cm_tool c, sv, ap_Match p] None))
          else (case (if ap_Paths p then confine ev roots (filepathJoin (cm_dir c) sv) else Some (Inr [])) of
                  None \<Rightarrow> None
                | Some (Inl e) \<Rightarrow> Some (Inl (Errorf ''%s: argument %q: %w'' [cm_tool c, sv] (Some e)))
                | Some (Inr _) \<Rightarrow>
                    (case checkArgList ev re roots c p vs of
                       Some (Inr out) \<Rightarrow> Some (Inr (sv # out))
                     | r \<Rightarrow> r))
      | _ \<Rightarrow> Some (Inl (Errorf ''%s: args must be an array of strings'' [cm_tool c] None)))"

definition checkArgs ::
  "(string \<Rightarrow> string option) \<Rightarrow> (string \<Rightarrow> string \<Rightarrow> bool) \<Rightarrow> string list \<Rightarrow> command \<Rightarrow> jargs \<Rightarrow> (goerr + string list) option" where
  "checkArgs ev re roots c args =
     (case cs_Args (cm_spec c) of
        None \<Rightarrow> if map_of args ''args'' \<noteq> None then Some (Inl (Errorf ''%s takes no arguments'' [cm_tool c] None))
                else Some (Inr [])
      | Some p \<Rightarrow>
          (case map_of args ''args'' of
             None \<Rightarrow> Some (Inr [])
           | Some JNull \<Rightarrow> Some (Inr [])
           | Some (JArr list) \<Rightarrow>
               if int (length list) > ap_Max p then
                 Some (Inl (Errorf ''%s takes at most %d arguments, got %d'' [cm_tool c, itoa (ap_Max p), itoa (int (length list))] None))
               else checkArgList ev re roots c p list
           | Some _ \<Rightarrow> Some (Inl (Errorf ''%s: args must be an array of strings'' [cm_tool c] None))))"

subsection \<open>Running a process\<close>

record policy =
  po_Write :: "string list"
  po_DenyRead :: "string list"
  po_Dir :: string
  po_AllowNetwork :: bool

record spawnSpec =
  sp_path :: string
  sp_argv :: "string list"
  sp_dir :: string
  sp_timeout :: gotime
  sp_allowNetwork :: bool
  sp_unconfined :: bool
  sp_tool :: string

text \<open>
  What the system did with one process: the errors of confining and starting it, or the pieces of output it
  wrote, its exit code, whether the deadline ended it, the error of waiting for it, and how long it took.
\<close>

record osRun =
  or_confineErr :: "string option"
  or_startErr :: "string option"
  or_stdout :: "string list"
  or_stderr :: "string list"
  or_exit :: int
  or_timedOut :: bool
  or_waitErr :: "string option"
  or_elapsed :: gotime

record execResult =
  xr_IsError :: bool
  xr_Content :: "string list"
  xr_Data :: jargs

definition execError :: "string \<Rightarrow> execResult" where
  "execError msg = \<lparr>xr_IsError = True, xr_Content = [msg], xr_Data = []\<rparr>"

record streamView =
  sv_text :: string
  sv_dropped :: bool

definition viewOf :: "capBuffer \<Rightarrow> int \<Rightarrow> streamView" where
  "viewOf b m = (case capView b m of (t, d) \<Rightarrow> \<lparr>sv_text = t, sv_dropped = d\<rparr>)"

definition millisecond :: int where "millisecond = 1000000"

definition roundMs :: "gotime \<Rightarrow> gotime" where
  "roundMs d = (d + millisecond div 2) div millisecond * millisecond"

definition renderRun ::
  "(gotime \<Rightarrow> string) \<Rightarrow> gotime \<Rightarrow> string list \<Rightarrow> int \<Rightarrow> gotime \<Rightarrow> bool \<Rightarrow> streamView \<Rightarrow> streamView \<Rightarrow> string option \<Rightarrow> execResult" where
  "renderRun dur timeout argv exit elapsed timedOut stdout stderr waitErr =
     (let line = strJoin argv '' '';
          first = (if timedOut then line @ '' timed out after '' @ dur timeout @ '' and was killed. Output so far:'' @ [newline]
                   else line @ '' exited '' @ itoa exit @ '' after '' @ dur (roundMs elapsed) @ ''.'' @ [newline]);
          o1 = (if sv_text stdout \<noteq> [] then [newline] @ ''stdout:'' @ [newline] @ sv_text stdout else []);
          o2 = (if sv_text stderr \<noteq> [] then [newline] @ ''stderr:'' @ [newline] @ sv_text stderr else []);
          o3 = (case waitErr of
                  Some e \<Rightarrow> if \<not> timedOut \<and> exit \<noteq> 0 \<and> sv_text stdout = [] \<and> sv_text stderr = [] then [newline] @ e else []
                | None \<Rightarrow> [])
      in \<lparr>xr_IsError = timedOut, xr_Content = [first @ o1 @ o2 @ o3],
          xr_Data = [(''command'', JStr line), (''exit_code'', JNum exit), (''timed_out'', JBool timedOut),
            (''duration_ms'', JNum (elapsed div millisecond)), (''stdout'', JStr (sv_text stdout)),
            (''stderr'', JStr (sv_text stderr)), (''truncated'', JBool (sv_dropped stdout \<or> sv_dropped stderr))]\<rparr>)"

record spawned =
  sd_result :: execResult
  sd_exit :: int
  sd_timedOut :: bool
  sd_stdout :: streamView
  sd_stderr :: streamView

definition noView :: streamView where "noView = \<lparr>sv_text = [], sv_dropped = False\<rparr>"

definition spawnPolicy :: "'a toolsSource_scheme \<Rightarrow> spawnSpec \<Rightarrow> policy option" where
  "spawnPolicy s sp =
     (if sp_unconfined sp then None
      else Some \<lparr>po_Write = ts_write s, po_DenyRead = ts_denyRead s, po_Dir = sp_dir sp, po_AllowNetwork = sp_allowNetwork sp\<rparr>)"

definition failedSpawn :: "spawnSpec \<Rightarrow> string \<Rightarrow> spawned" where
  "failedSpawn sp msg =
     \<lparr>sd_result = execError (sp_tool sp @ '': '' @ msg), sd_exit = -1, sd_timedOut = False, sd_stdout = noView, sd_stderr = noView\<rparr>"

definition spawn ::
  "(policy option \<Rightarrow> spawnSpec \<Rightarrow> osRun) \<Rightarrow> (gotime \<Rightarrow> string) \<Rightarrow> 'a toolsSource_scheme \<Rightarrow> spawnSpec \<Rightarrow> spawned" where
  "spawn os dur s sp =
     (let r = os (spawnPolicy s sp) sp
      in case (if sp_unconfined sp then None else or_confineErr r) of
           Some e \<Rightarrow> failedSpawn sp (''sandbox: '' @ e)
         | None \<Rightarrow>
             (case or_startErr r of
                Some e \<Rightarrow> failedSpawn sp e
              | None \<Rightarrow>
                  (let stdout = fold capWrite (or_stdout r) (newCapBuffer (ts_maxOutput s));
                       stderr = fold capWrite (or_stderr r) (newCapBuffer (ts_maxOutput s));
                       inline = (if or_timedOut r \<and> ts_inline s < 0 then DefaultInlineOutput else ts_inline s);
                       out = viewOf stdout inline; errOut = viewOf stderr inline
                   in \<lparr>sd_result = renderRun dur (sp_timeout sp) (sp_argv sp) (or_exit r) (or_elapsed r) (or_timedOut r) out errOut (or_waitErr r),
                       sd_exit = or_exit r, sd_timedOut = or_timedOut r, sd_stdout = out, sd_stderr = errOut\<rparr>)))"

text \<open>The process of an allowlisted command.\<close>

definition runSpec :: "command \<Rightarrow> string list \<Rightarrow> spawnSpec" where
  "runSpec c extra =
     \<lparr>sp_path = cm_path c, sp_argv = cs_Argv (cm_spec c) @ extra, sp_dir = cm_dir c, sp_timeout = cm_timeout c,
      sp_allowNetwork = cs_AllowNetwork (cm_spec c), sp_unconfined = False, sp_tool = cm_tool c\<rparr>"

subsection \<open>The shell tool\<close>

text \<open>
  The first half of \<^verbatim>\<open>callShell\<close>: from the arguments to the process to start, or the refusal. A product of
  durations wraps at 64 bits.
\<close>

definition shellSpec ::
  "(rawjson \<Rightarrow> string + shellArgs) \<Rightarrow> (string \<Rightarrow> string option) \<Rightarrow> (string \<Rightarrow> string + string) \<Rightarrow> 'a toolsSource_scheme \<Rightarrow>
   shellCfg \<Rightarrow> rawjson \<Rightarrow> (execResult + spawnSpec) option" where
  "shellSpec dec ev look s sh raw =
     (case parseShellArgs dec raw (sandboxed s) of
        Inl e \<Rightarrow> Some (Inl (execError (errText e)))
      | Inr a \<Rightarrow>
          (case (if sa_Workdir a = [] then Some (Inr (hd (es_roots s))) else confine ev (es_roots s) (sa_Workdir a)) of
             None \<Rightarrow> None
           | Some (Inl e) \<Rightarrow> Some (Inl (execError (''shell: workdir: '' @ errText e)))
           | Some (Inr dir) \<Rightarrow>
               (case look (hd (sa_Command a)) of
                  Inl e \<Rightarrow> Some (Inl (execError (''shell: '' @ e)))
                | Inr path \<Rightarrow>
                    (let asked = wrap64 (sa_TimeoutMS a * millisecond)
                     in Some (Inr \<lparr>sp_path = path, sp_argv = sa_Command a, sp_dir = dir,
                          sp_timeout = (if sa_TimeoutMS a > 0 \<and> asked < sh_timeout sh then asked else sh_timeout sh),
                          sp_allowNetwork = sh_allowNetwork sh, sp_unconfined = sa_Escalate a, sp_tool = ShellName\<rparr>)))))"

definition denialNote :: "string \<Rightarrow> string" where
  "denialNote name =
     [newline] @ ''This looks like the '' @ name @ '' sandbox blocking the command (a write outside the workspace, or the network). '' @
     ''If it has to run anyway, call shell again with the same command, escalate: true, and a justification the user can judge.''"

definition shellResult :: "'a toolsSource_scheme \<Rightarrow> shellCfg \<Rightarrow> spawnSpec \<Rightarrow> spawned \<Rightarrow> execResult" where
  "shellResult s sh sp out =
     (if sandboxed s \<and> \<not> sp_unconfined sp \<and> sd_exit out \<noteq> 0 \<and> \<not> sd_timedOut out \<and>
         looksLikeSandboxDenial (sv_text (sd_stderr out) @ [newline] @ sv_text (sd_stdout out)) (sh_allowNetwork sh)
      then (sd_result out)\<lparr>xr_Content := xr_Content (sd_result out) @ [denialNote (sb_Name (es_sandbox s))],
             xr_Data := (if xr_Data (sd_result out) = [] then [] else xr_Data (sd_result out) @ [(''sandbox_denied'', JBool True)])\<rparr>
      else sd_result out)"

text \<open>The question the user reads before a shell call.\<close>

definition renderShellApproval :: "(rawjson \<Rightarrow> string + shellArgs) \<Rightarrow> 'a execSource_scheme \<Rightarrow> toolCallInfo \<Rightarrow> string option" where
  "renderShellApproval dec s info =
     (if es_shell s = None \<or> tc_Name (ti_Call info) \<noteq> ShellName then None
      else case parseShellArgs dec (tc_Args (ti_Call info)) (sandboxed s) of
             Inl e \<Rightarrow> None
           | Inr a \<Rightarrow>
               (let dir = (if sa_Workdir a = [] then hd (es_roots s) else filepathJoin (hd (es_roots s)) (sa_Workdir a));
                    line = strJoin (sa_Command a) '' ''
                in if sa_Escalate a then
                     Some (''Run OUTSIDE the sandbox, with full access to this machine:'' @ [newline] @ ''  '' @ line @ [newline] @
                       ''in '' @ dir @ [newline] @ ''The agent says: '' @ sa_Justification a)
                   else
                     Some (''Run in the '' @ sb_Name (es_sandbox s) @ '' sandbox:'' @ [newline] @ ''  '' @ line @ [newline] @ ''in '' @ dir @
                       (case ti_Class info of
                          Some cl \<Rightarrow> if cc_Reason cl \<noteq> [] then [newline] @ ''('' @ cc_Reason cl @ '')'' else []
                        | None \<Rightarrow> []))))"

subsection \<open>Dispatch\<close>

text \<open>
  A call of the tools that end with one process. \<open>Inl\<close> is an unknown tool; the process tools of a session are
  dispatched before it. The result comes with the process that was started, if any.
\<close>

definition execCall ::
  "(rawjson \<Rightarrow> string + shellArgs) \<Rightarrow> (jargs \<Rightarrow> rawjson) \<Rightarrow> (string \<Rightarrow> string option) \<Rightarrow> (string \<Rightarrow> string + string) \<Rightarrow>
   (string \<Rightarrow> string \<Rightarrow> bool) \<Rightarrow> (policy option \<Rightarrow> spawnSpec \<Rightarrow> osRun) \<Rightarrow> (gotime \<Rightarrow> string) \<Rightarrow> 'a toolsSource_scheme \<Rightarrow>
   string \<Rightarrow> jargs \<Rightarrow> (goerr + execResult \<times> spawnSpec option) option" where
  "execCall dec enc ev look re os dur s name args =
     (case (if name = ShellName then es_shell s else None) of
        Some sh \<Rightarrow>
          (case shellSpec dec ev look s sh (enc args) of
             None \<Rightarrow> None
           | Some (Inl r) \<Rightarrow> Some (Inr (r, None))
           | Some (Inr sp) \<Rightarrow> Some (Inr (shellResult s sh sp (spawn os dur s sp), Some sp)))
      | None \<Rightarrow>
          (case map_of (ts_cmds s) name of
             None \<Rightarrow> Some (Inl (Errorf ''exec: unknown tool %q'' [name] None))
           | Some c \<Rightarrow>
               (case checkArgs ev re (es_roots s) c args of
                  None \<Rightarrow> None
                | Some (Inl e) \<Rightarrow> Some (Inr (execError (errText e), None))
                | Some (Inr extra) \<Rightarrow> Some (Inr (sd_result (spawn os dur s (runSpec c extra)), Some (runSpec c extra))))))"

section \<open>A path that is accepted lies inside a root\<close>

lemma isAbs_append: "isAbs a \<Longrightarrow> isAbs (a @ b)"
  by (auto simp: isAbs_def hasPrefix_iff)

lemma pathComps_slash: "isAbs a \<Longrightarrow> pathComps (a @ ''/'') = pathComps a"
  using strSplit_two [of "CHR ''/''" a "[]"] isAbs_append [of a "''/''"] by (simp add: pathComps_def cleanStep_def)

lemma renderPath_snoc: "renderPath True (cs @ [c]) = (if cs = [] then ''/'' @ c else renderPath True cs @ ''/'' @ c)"
  by (simp add: renderPath_def strJoin_snoc)

lemma dir_renderPath:
  assumes "list_all nameComp (cs @ [c])"
  shows "filepathDir (renderPath True (cs @ [c])) = renderPath True cs"
proof -
  have c: "CHR ''/'' \<notin> set c" using assms by (simp add: nameComp_def)
  have cut: "rev (dropWhile (\<lambda>x. x \<noteq> CHR ''/'') (rev (a @ ''/'' @ c))) = a @ ''/''" for a
    using c by (subst rev_append, subst rev_append, subst append.assoc, subst dropWhile_append2) auto
  show ?thesis
  proof (cases "cs = []")
    case True
    then show ?thesis
      using cut [of "[]"] by (simp add: filepathDir_def renderPath_snoc filepathClean_def)
        (simp add: renderPath_def pathComps_def cleanStep_def isAbs_def hasPrefix_def)
  next
    case False
    have cs: "list_all nameComp cs" using assms by simp
    have "filepathDir (renderPath True (cs @ [c])) = filepathClean (renderPath True cs @ ''/'')"
      using cut [of "renderPath True cs"] False by (simp add: filepathDir_def renderPath_snoc)
    also have "\<dots> = renderPath True cs"
      using pathComps_slash [OF renderPath_abs, of cs] pathComps_renderPath [OF cs] isAbs_append [OF renderPath_abs]
      by (simp add: filepathClean_def)
    finally show ?thesis .
  qed
qed

lemma dir_root: "filepathDir (renderPath True []) = renderPath True []"
  by code_simp

lemma renderPath_shorter:
  assumes "list_all nameComp (cs @ [c])"
  shows "renderPath True cs \<noteq> renderPath True (cs @ [c])"
proof
  assume "renderPath True cs = renderPath True (cs @ [c])"
  then have "pathComps (renderPath True cs) = pathComps (renderPath True (cs @ [c]))" by simp
  then show False using pathComps_renderPath assms by (simp add: pathComps_renderPath)
qed

text \<open>What \<^verbatim>\<open>filepath.EvalSymlinks\<close> promises for an absolute path: the path it returns is absolute.\<close>

definition resolvesAbs :: "(string \<Rightarrow> string option) \<Rightarrow> bool" where
  "resolvesAbs ev \<longleftrightarrow> (\<forall>p q. isAbs p \<and> ev p = Some q \<longrightarrow> isAbs q)"

lemma confineLoop_returns:
  assumes "resolvesAbs ev" "isAbs p"
  shows "list_all nameComp cs \<Longrightarrow> length cs < n \<Longrightarrow> \<exists>q. confineLoop ev n p (renderPath True cs) rest = Some q \<and> isAbs q"
proof (induction n arbitrary: cs rest)
  case (Suc n)
  show ?case
  proof (cases "ev (renderPath True cs)")
    case (Some real)
    then have "isAbs real" using assms(1) renderPath_abs unfolding resolvesAbs_def by blast
    then show ?thesis using Some pathComps_join by simp
  next
    case None
    show ?thesis
    proof (cases cs rule: rev_cases)
      case Nil
      then show ?thesis using None assms(2) dir_root by (simp add: Let_def)
    next
      case (snoc cs' c)
      let ?r = "filepathJoin (filepathBase (renderPath True cs)) rest"
      have "confineLoop ev (Suc n) p (renderPath True cs) rest = confineLoop ev n p (renderPath True cs') ?r"
        using None dir_renderPath [of cs' c] renderPath_shorter [of cs' c] Suc.prems snoc by (simp add: Let_def)
      moreover have "\<exists>q. confineLoop ev n p (renderPath True cs') ?r = Some q \<and> isAbs q"
        by (rule Suc.IH) (use Suc.prems snoc in simp_all)
      ultimately show ?thesis by simp
    qed
  qed
qed simp

lemma rel_not_abs: "cleanComps False cs \<Longrightarrow> \<not> isAbs (renderPath False cs)"
proof -
  assume "cleanComps False cs"
  then obtain k names where cs: "cs = replicate k ''..'' @ names" "list_all nameComp names"
    by (auto simp: cleanComps_def)
  have "list_all (\<lambda>c. c \<noteq> [] \<and> CHR ''/'' \<notin> set c) names"
    using cs(2) by (rule list.pred_mono_strong) (simp add: nameComp_def)
  moreover have "list_all (\<lambda>c. c \<noteq> [] \<and> CHR ''/'' \<notin> set c) (replicate k ''..'')" by (simp add: list_all_iff)
  ultimately have "list_all (\<lambda>c. c \<noteq> [] \<and> CHR ''/'' \<notin> set c) cs" by (simp add: cs(1))
  then show ?thesis
  proof (cases cs)
    case (Cons c cs')
    with \<open>list_all (\<lambda>c. c \<noteq> [] \<and> CHR ''/'' \<notin> set c) cs\<close> obtain x c' where "c = x # c'" "x \<noteq> CHR ''/''" by (cases c) auto
    then show ?thesis using Cons by (cases cs') (simp_all add: renderPath_def isAbs_def hasPrefix_def)
  qed (simp add: renderPath_def isAbs_def hasPrefix_def)
qed

definition insideRoot :: "string list \<Rightarrow> string \<Rightarrow> bool" where
  "insideRoot roots p \<longleftrightarrow> isAbs p \<and> list_ex (\<lambda>r. prefix (pathComps r) (pathComps p)) roots"

lemma insideSome_insideRoot:
  assumes "\<forall>r\<in>set roots. isAbs r" "isAbs q"
  shows "insideSome roots q \<longleftrightarrow> insideRoot roots q"
proof -
  have "filepathRel r q = ''.'' \<or> \<not> climbs (filepathRel r q) \<longleftrightarrow> prefix (pathComps r) (pathComps q)" if "r \<in> set roots" for r
    using rel_inside [of r q] assms that by (auto simp: climbs_def hasPrefix_def)
  then show ?thesis using assms(2) by (auto simp: insideSome_def insideRoot_def list_ex_iff)
qed

lemma confine_cases:
  assumes "resolvesAbs ev" "roots \<noteq> []" "\<forall>r\<in>set roots. isAbs r"
  shows "\<exists>q. isAbs q \<and> confine ev roots path =
    Some (if insideRoot roots q then Inr q else Inl (Errorf ''%s is outside every workspace root'' [q] None))"
proof -
  define p where "p = (if isAbs (filepathClean path) then filepathClean path else filepathJoin (hd roots) (filepathClean path))"
  have root: "isAbs (hd roots)" using assms(2,3) by (cases roots) auto
  have p: "isAbs p \<and> p = renderPath True (pathComps p) \<and> list_all nameComp (pathComps p)"
  proof (cases "isAbs (filepathClean path)")
    case True
    have "isAbs path"
    proof (rule ccontr)
      assume "\<not> isAbs path"
      then have rel: "filepathClean path = renderPath False (pathComps path)" "cleanComps False (pathComps path)"
        using pathComps_clean [of path] by (simp_all add: filepathClean_def)
      then show False using True rel_not_abs by simp
    qed
    then show ?thesis using True clean_abs [of path] abs_names [of path] by (simp add: p_def) (simp add: filepathClean_def)
  next
    case False
    let ?x = "hd roots @ ''/'' @ filepathClean path"
    have x: "isAbs ?x" "hd roots \<noteq> []" using root by (auto simp: isAbs_def hasPrefix_iff)
    then have "p = filepathClean ?x" using False by (simp add: p_def filepathJoin_def)
    then show ?thesis using clean_abs [OF x(1)] abs_names [OF x(1)] x(1) by simp (simp add: filepathClean_def)
  qed
  obtain q where q: "confineLoop ev (Suc (length (pathComps p))) p p [] = Some q" "isAbs q"
    using confineLoop_returns [of ev p "pathComps p" "Suc (length (pathComps p))" "[]"] assms(1) p by auto
  then show ?thesis
    using insideSome_insideRoot [OF assms(3) q(2)] unfolding confine_def Let_def p_def [symmetric] by (intro exI [of _ q]) simp
qed

section \<open>What a call can start\<close>

text \<open>The arguments a policy lets through.\<close>

definition permitted ::
  "(string \<Rightarrow> string option) \<Rightarrow> (string \<Rightarrow> string \<Rightarrow> bool) \<Rightarrow> string list \<Rightarrow> string \<Rightarrow> argPolicy option \<Rightarrow> string list \<Rightarrow> bool" where
  "permitted ev re roots dir pol extra \<longleftrightarrow>
     (case pol of
        None \<Rightarrow> extra = []
      | Some p \<Rightarrow> int (length extra) \<le> max 0 (ap_Max p) \<and>
          list_all (\<lambda>x. re (ap_Match p) x \<and> (ap_Paths p \<longrightarrow> (\<exists>q. confine ev roots (filepathJoin dir x) = Some (Inr q)))) extra)"

lemma checkArgList_permitted:
  "checkArgList ev re roots c p vs = Some (Inr extra) \<Longrightarrow>
   length extra = length vs \<and>
   list_all (\<lambda>x. re (ap_Match p) x \<and> (ap_Paths p \<longrightarrow> (\<exists>q. confine ev roots (filepathJoin (cm_dir c) x) = Some (Inr q)))) extra"
proof (induction vs arbitrary: extra)
  case (Cons v vs)
  then obtain sv out where sv: "v = JStr sv" "re (ap_Match p) sv" "checkArgList ev re roots c p vs = Some (Inr out)" "extra = sv # out"
      "ap_Paths p \<Longrightarrow> \<exists>q. confine ev roots (filepathJoin (cm_dir c) sv) = Some (Inr q)"
    by (auto split: jval.splits if_splits option.splits sum.splits)
  show ?case using Cons.IH [OF sv(3)] sv by simp
qed simp

lemma checkArgs_permitted:
  "checkArgs ev re roots c args = Some (Inr extra) \<Longrightarrow> permitted ev re roots (cm_dir c) (cs_Args (cm_spec c)) extra"
  using checkArgList_permitted [of ev re roots c _ _ extra]
  by (auto simp: checkArgs_def permitted_def split: option.splits if_splits jval.splits)

lemma resolveCommand_Inr:
  assumes "resolvesAbs ev" "roots \<noteq> []" "\<forall>r\<in>set roots. isAbs r"
    and "resolveCommand ev look isDir compile roots spec t = Some (Inr c)"
  shows "cm_spec c = spec \<and> cm_tool c = toolPrefix @ cs_Name spec \<and> insideRoot roots (cm_dir c)"
proof -
  obtain dir where dir: "confine ev roots dir = Some (Inr (cm_dir c))"
    and c: "cm_spec c = spec" "cm_tool c = toolPrefix @ cs_Name spec"
    using assms(4) by (auto simp: resolveCommand_def Let_def split: if_splits sum.splits option.splits)
  then show ?thesis using confine_cases [OF assms(1-3), of dir] by (auto split: if_splits)
qed

lemma addCommands_entries:
  "addCommands res specs cmds = Some (Inr out) \<Longrightarrow> (n, c) \<in> set out \<Longrightarrow>
   (n, c) \<in> set cmds \<or> (\<exists>spec\<in>set specs. res spec = Some (Inr c) \<and> n = cm_tool c)"
proof (induction specs arbitrary: cmds)
  case (Cons spec specs)
  then obtain d where d: "res spec = Some (Inr d)" "addCommands res specs (cmds @ [(cm_tool d, d)]) = Some (Inr out)"
    by (auto split: option.splits sum.splits if_splits)
  show ?case using Cons.IH [OF d(2) Cons.prems(2)] d(1) by auto
qed simp

lemma addCommands_distinct:
  "addCommands res specs cmds = Some (Inr out) \<Longrightarrow> distinct (map fst cmds) \<Longrightarrow> distinct (map fst out)"
proof (induction specs arbitrary: cmds)
  case (Cons spec specs)
  then obtain d where d: "cm_tool d \<notin> fst ` set cmds" "addCommands res specs (cmds @ [(cm_tool d, d)]) = Some (Inr out)"
    by (fastforce split: option.splits sum.splits if_splits)
  show ?case using Cons.IH [OF d(2)] Cons.prems(2) d(1) by simp
qed simp

lemma shellSpec_Inr:
  assumes "resolvesAbs ev" "es_roots s \<noteq> []" "\<forall>r\<in>set (es_roots s). isAbs r"
    and "shellSpec dec ev look s sh raw = Some (Inr sp)"
  shows "insideRoot (es_roots s) (sp_dir sp) \<and> sp_timeout sp \<le> sh_timeout sh \<and>
    (\<exists>a. dec raw = Inr a \<and> sp_argv sp = sa_Command a \<and>
      (sp_unconfined sp \<longrightarrow> sandboxed s \<and> sa_Escalate a \<and> trimSpace (sa_Justification a) \<noteq> []))"
proof -
  obtain a where a: "parseShellArgs dec raw (sandboxed s) = Inr a"
    using assms(4) by (auto simp: shellSpec_def split: sum.splits)
  have root: "insideRoot (es_roots s) (hd (es_roots s))"
    using assms(2,3) by (cases "es_roots s") (auto simp: insideRoot_def)
  have dir: "insideRoot (es_roots s) d" if "confine ev (es_roots s) w = Some (Inr d)" for w d
    using confine_cases [OF assms(1-3), of w] that by (auto split: if_splits)
  have sp: "insideRoot (es_roots s) (sp_dir sp)" "sp_timeout sp \<le> sh_timeout sh" "sp_argv sp = sa_Command a" "sp_unconfined sp = sa_Escalate a"
    using assms(4) a root dir by (auto simp: shellSpec_def Let_def split: option.splits sum.splits if_splits)
  obtain b where b: "dec raw = Inr b" "sa_Command b = sa_Command a"
      "sa_Escalate a \<longrightarrow> sandboxed s \<and> sa_Escalate b \<and> trimSpace (sa_Justification b) \<noteq> []"
    using a by (cases "sandboxed s") (auto simp: parseShellArgs_def Let_def split: sum.splits if_splits)
  then show ?thesis using sp by auto
qed


subsection \<open>Concrete calls\<close>

definition demoSpec :: commandSpec where
  "demoSpec = \<lparr>cs_Name = ''test'', cs_Argv = [''go'', ''test''], cs_Dir = ''pkg'', cs_Description = ''Run the tests.'',
     cs_Args = Some \<lparr>ap_Max = 2, ap_Match = ''path'', ap_Paths = True\<rparr>, cs_AllowNetwork = False, cs_ReadOnly = False,
     cs_Reversible = True, cs_Timeout = 0\<rparr>"

text \<open>A link in the workspace leads out of it.\<close>

definition demoLinks :: "string \<Rightarrow> string option" where
  "demoLinks p = (if p = ''/w/out'' then Some ''/etc'' else if hasPrefix p ''/w/out/'' then Some (''/etc'' @ drop 6 p)
     else if p \<in> set [''/w'', ''/w/pkg'', ''/w/pkg/a''] then Some p else if p = ''/'' then Some p else None)"

definition demoCmds :: "(string \<times> command) list" where
  "demoCmds = [(''run_test'', \<lparr>cm_spec = demoSpec, cm_tool = ''run_test'', cm_path = ''/bin/go'', cm_dir = ''/w/pkg'', cm_timeout = 60\<rparr>)]"

definition demoTools :: toolsSource where
  "demoTools = \<lparr>es_roots = [''/w''], es_sandbox = \<lparr>sb_Name = ''seatbelt'', sb_unconfined = False\<rparr>, es_shell = None,
     ts_cmds = demoCmds, ts_maxOutput = 64, ts_inline = 0, ts_write = [''/w''], ts_denyRead = []\<rparr>"

definition demoRun :: "policy option \<Rightarrow> spawnSpec \<Rightarrow> osRun" where
  "demoRun p sp = \<lparr>or_confineErr = None, or_startErr = None, or_stdout = [''ok''], or_stderr = [], or_exit = 0, or_timedOut = False,
     or_waitErr = None, or_elapsed = 5\<rparr>"

definition demoExec :: "string list \<Rightarrow> (goerr + execResult \<times> spawnSpec option) option" where
  "demoExec xs = execCall (\<lambda>_. Inl ''no'') (\<lambda>_. []) demoLinks (\<lambda>n. Inr (''/bin/'' @ n)) (\<lambda>_ _. True) demoRun (\<lambda>_. ''5ms'')
     demoTools ''run_test'' [(''args'', JArr (map JStr xs))]"

definition startedArgv :: "(goerr + execResult \<times> spawnSpec option) option \<Rightarrow> string list option" where
  "startedArgv r = (case r of Some (Inr (_, Some sp)) \<Rightarrow> Some (sp_argv sp) | _ \<Rightarrow> None)"

lemma demoLinks_abs: "resolvesAbs demoLinks"
  by (auto simp: resolvesAbs_def demoLinks_def isAbs_def hasPrefix_iff split: if_splits)

lemma demoCmds_added:
  "addCommands (\<lambda>spec. resolveCommand demoLinks (\<lambda>n. Inr (''/bin/'' @ n)) (\<lambda>_. True) (\<lambda>_. None) [''/w''] spec 60) [demoSpec] [] =
     Some (Inr demoCmds)"
  by code_simp

lemma demo_starts: "startedArgv (demoExec [''./a/...'', ''b'']) = Some [''go'', ''test'', ''./a/...'', ''b'']"
  by code_simp

text \<open>
  A link that leads out is refused. A path through the link and up again is cleaned as text before the link is
  resolved, so it is accepted, although the system follows the link first.
\<close>

lemma link_out_refused: "startedArgv (demoExec [''../out/x'']) = None"
  by code_simp

lemma link_then_parent_accepted: "startedArgv (demoExec [''../out/../x'']) = Some [''go'', ''test'', ''../out/../x'']"
  by code_simp


text \<open>
  A timeout in milliseconds so large that the product wraps is negative, so it replaces the configured timeout,
  and the command is stopped at once. And the directory the user is asked about is not the one the command runs
  in when the call names an absolute directory.
\<close>

definition demoWorkdir :: shellArgs where
  "demoWorkdir = \<lparr>sa_Command = [''ls''], sa_Workdir = ''/w/pkg'', sa_TimeoutMS = 9223372036855, sa_Escalate = False, sa_Justification = []\<rparr>"

lemma huge_timeout_stops_at_once:
  "(case shellSpec (\<lambda>_. Inr demoWorkdir) demoLinks (\<lambda>n. Inr n) demoTools (demoShell\<lparr>sh_timeout := 60\<rparr>) [] of
      Some (Inr sp) \<Rightarrow> sp_timeout sp < 0 | _ \<Rightarrow> False)"
  by code_simp

lemma approval_shows_other_directory:
  "(case shellSpec (\<lambda>_. Inr demoWorkdir) demoLinks (\<lambda>n. Inr n) demoTools demoShell [] of
      Some (Inr sp) \<Rightarrow> sp_dir sp = ''/w/pkg'' | _ \<Rightarrow> False) \<and>
   renderShellApproval (\<lambda>_. Inr demoWorkdir) (demoTools\<lparr>es_shell := Some demoShell\<rparr>) (callInfo ShellName) =
     Some (''Run in the seatbelt sandbox:'' @ [newline] @ ''  ls'' @ [newline] @ ''in /w/w/pkg'')"
  by code_simp

end
