(* ===== verification/Procs.thy ===== *)
theory Procs
  imports ExecTools
begin

text \<open>
  The processes that outlive a call, \<^verbatim>\<open>src/ext/exec/procs.go\<close>, and the registry of detached ones,
  \<^verbatim>\<open>src/ext/exec/registry.go\<close>. Calls, processes and readers run at the same time: every critical section and
  every event of a process is one action, and a run is any sequence of actions. A call keeps its place in a list
  of program counters, a process is an entry of a list of objects, so a call that holds a process keeps it
  after the manager has forgotten it.
\<close>

subsection \<open>Data\<close>

record processConfig =
  pg_Max :: nat
  pg_MaxOutput :: nat
  pg_DefaultYield :: gotime
  pg_MaxYield :: gotime
  pg_StreamBudget :: int
  pg_AllowDetach :: bool

text \<open>The defaults of \<^verbatim>\<open>newProcManager\<close>; the fields of the configuration are integers before it.\<close>

record rawProcessConfig =
  rp_Max :: int
  rp_MaxOutput :: int
  rp_DefaultYield :: gotime
  rp_MaxYield :: gotime
  rp_StreamBudget :: int
  rp_AllowDetach :: bool

definition withDefaults :: "rawProcessConfig \<Rightarrow> processConfig" where
  "withDefaults c =
     \<lparr>pg_Max = (if rp_Max c \<le> 0 then 8 else nat (rp_Max c)),
      pg_MaxOutput = (if rp_MaxOutput c \<le> 0 then 1024 * 1024 else nat (rp_MaxOutput c)),
      pg_DefaultYield = (if rp_DefaultYield c \<le> 0 then 10000 * millisecond else rp_DefaultYield c),
      pg_MaxYield = (if rp_MaxYield c \<le> 0 then 30000 * millisecond else rp_MaxYield c),
      pg_StreamBudget = (if rp_StreamBudget c = 0 then 4 * 1024 * 1024 else rp_StreamBudget c),
      pg_AllowDetach = rp_AllowDetach c\<rparr>"

definition yieldFor :: "processConfig \<Rightarrow> int \<Rightarrow> gotime" where
  "yieldFor c ms =
     (if ms \<le> 0 then pg_DefaultYield c
      else (let d = wrap64 (ms * millisecond) in if d > pg_MaxYield c then pg_MaxYield c else d))"

text \<open>
  A process. \<open>pc_done\<close> is the closed channel. \<open>pc_wrote\<close> is what the process has written so far: the content of
  the log file of a detached process, and what passed through the buffer of any other.
\<close>

record proc =
  pc_id :: string
  pc_command :: string
  pc_dir :: string
  pc_tty :: bool
  pc_log :: string
  pc_pid :: int
  pc_entry :: string
  pc_adopted :: bool
  pc_out :: tailBuffer
  pc_started :: gotime
  pc_done :: bool
  pc_exit :: int
  pc_read :: nat
  pc_wrote :: string

definition procRunning :: "proc \<Rightarrow> bool" where
  "procRunning p \<longleftrightarrow> \<not> pc_done p"

record regEntry =
  re_ID :: string
  re_PID :: int
  re_Cmd :: string
  re_Workdir :: string
  re_Started :: gotime
  re_StartToken :: string
  re_Owner :: string
  re_OwnerPID :: int
  re_OwnerStart :: string

text \<open>The registry's directory: the entries in the order of their file names, and the exit files.\<close>

record registry =
  rg_dir :: string
  rg_entries :: "regEntry list"
  rg_exit :: "string \<Rightarrow> string option"

definition regPath :: "registry \<Rightarrow> string \<Rightarrow> string \<Rightarrow> string" where
  "regPath r entry ext = filepathJoin (rg_dir r) (entry @ ext)"

definition regWrite :: "regEntry \<Rightarrow> registry \<Rightarrow> registry" where
  "regWrite e r = r\<lparr>rg_entries := (if re_ID e \<in> re_ID ` set (rg_entries r)
     then map (\<lambda>x. if re_ID x = re_ID e then e else x) (rg_entries r) else rg_entries r @ [e])\<rparr>"

definition regRemove :: "string \<Rightarrow> registry \<Rightarrow> registry" where
  "regRemove entry r = r\<lparr>rg_entries := filter (\<lambda>x. re_ID x \<noteq> entry) (rg_entries r), rg_exit := (rg_exit r)(entry := None)\<rparr>"

definition regExitCode :: "registry \<Rightarrow> string \<Rightarrow> int option" where
  "regExitCode r entry = (case rg_exit r entry of None \<Rightarrow> None | Some s \<Rightarrow> atoi (trimSpace s))"

text \<open>\<open>start\<close> is the start time the system reports for a process id, if there is such a process.\<close>

definition alive :: "(int \<Rightarrow> string option) \<Rightarrow> int \<Rightarrow> string \<Rightarrow> bool" where
  "alive start pid tok \<longleftrightarrow> start pid = Some tok"

definition ownerOpen :: "(int \<Rightarrow> string option) \<Rightarrow> int \<Rightarrow> string set \<Rightarrow> regEntry \<Rightarrow> bool" where
  "ownerOpen start self openOwners e \<longleftrightarrow>
     (if re_OwnerPID e = self then re_Owner e \<in> openOwners else alive start (re_OwnerPID e) (re_OwnerStart e))"

record procManager =
  pm_cfg :: processConfig
  pm_procs :: "(string \<times> nat) list"
  pm_next :: nat
  pm_owner :: string

definition procId :: "nat \<Rightarrow> string" where
  "procId n = ''p'' @ itoa (int n)"

subsection \<open>Adopting what earlier sessions left\<close>

text \<open>The process an entry stands for.\<close>

definition adoptedProc :: "processConfig \<Rightarrow> registry \<Rightarrow> regEntry \<Rightarrow> string \<Rightarrow> string \<Rightarrow> proc" where
  "adoptedProc cfg r e pid log =
     \<lparr>pc_id = pid, pc_command = re_Cmd e, pc_dir = re_Workdir e, pc_tty = False, pc_log = regPath r (re_ID e) ''.log'',
      pc_pid = re_PID e, pc_entry = re_ID e, pc_adopted = True,
      pc_out = \<lparr>tb_buf = [], tb_max = pg_MaxOutput cfg, tb_total = 0\<rparr>, pc_started = re_Started e,
      pc_done = False, pc_exit = 0, pc_read = 0, pc_wrote = log\<rparr>"

text \<open>
  The loop of \<^verbatim>\<open>adopt\<close>, under the lock of the directory. \<open>logOf\<close> is the content of the log files, \<open>writes\<close> says
  which entries can be written.
\<close>

fun adoptLoop ::
  "(int \<Rightarrow> string option) \<Rightarrow> int \<Rightarrow> string set \<Rightarrow> (string \<Rightarrow> string) \<Rightarrow> (string \<Rightarrow> bool) \<Rightarrow> regEntry list \<Rightarrow>
   procManager \<times> registry \<times> proc list \<Rightarrow> procManager \<times> registry \<times> proc list" where
  "adoptLoop start self openOwners logOf writes [] st = st"
| "adoptLoop start self openOwners logOf writes (e # es) (m, r, ps) =
     (if ownerOpen start self openOwners e then adoptLoop start self openOwners logOf writes es (m, r, ps)
      else (let running = alive start (re_PID e) (re_StartToken e); code = regExitCode r (re_ID e)
            in if \<not> running \<and> code = None then adoptLoop start self openOwners logOf writes es (m, regRemove (re_ID e) r, ps)
               else if \<not> writes (re_ID e) then adoptLoop start self openOwners logOf writes es (m, r, ps)
               else (let e1 = e\<lparr>re_Owner := pm_owner m, re_OwnerPID := self,
                           re_OwnerStart := (case start self of Some t \<Rightarrow> t | None \<Rightarrow> [])\<rparr>;
                         n = Suc (pm_next m);
                         p = adoptedProc (pm_cfg m) r e1 (procId n) (logOf (re_ID e));
                         p1 = (if running then p else p\<lparr>pc_done := True, pc_exit := the code\<rparr>)
                     in adoptLoop start self openOwners logOf writes es
                          (m\<lparr>pm_next := n, pm_procs := pm_procs m @ [(procId n, length ps)]\<rparr>, regWrite e1 r, ps @ [p1]))))"

definition adopt ::
  "(int \<Rightarrow> string option) \<Rightarrow> int \<Rightarrow> string set \<Rightarrow> (string \<Rightarrow> string) \<Rightarrow> (string \<Rightarrow> bool) \<Rightarrow> procManager \<Rightarrow> registry \<Rightarrow>
   procManager \<times> registry \<times> proc list" where
  "adopt start self openOwners logOf writes m r =
     adoptLoop start self openOwners logOf writes (filter (\<lambda>e. re_ID e \<noteq> [] \<and> re_PID e > 0) (rg_entries r)) (m, r, [])"

subsection \<open>Calls\<close>

record execCommandArgs =
  ea_Cmd :: string
  ea_Workdir :: string
  ea_YieldMS :: int
  ea_TTY :: bool
  ea_Detach :: bool

record writeStdinArgs =
  wa_SessionID :: string
  wa_Chars :: string
  wa_YieldMS :: int

text \<open>
  How starting a process ended: the error of finding, confining or starting it (or of recording a detached one,
  which is killed again), or its process id, the time, and the fresh registry id a detached one got.
\<close>

datatype startOutcome = StartErr string | StartOk int gotime string

datatype callPc =
    Starting execCommandArgs
  | Started nat
  | Collecting nat string
  | HasRead nat string string nat
  | Returned execResult

text \<open>The state: the manager, the registry, every process there ever was, every call, and what was read of which process.\<close>

record procSys =
  py_mgr :: procManager
  py_reg :: registry
  py_objs :: "proc list"
  py_calls :: "callPc list"
  py_reads :: "(nat \<times> string \<times> nat) list"

definition runningCount :: "procSys \<Rightarrow> nat" where
  "runningCount y = length (filter (\<lambda>(i, k). procRunning (py_objs y ! k)) (pm_procs (py_mgr y)))"

text \<open>\<^verbatim>\<open>execCommand\<close> up to the end of its first critical section.\<close>

definition execCheck :: "execCommandArgs option \<Rightarrow> procSys \<Rightarrow> string option" where
  "execCheck arg y =
     (case arg of
        None \<Rightarrow> Some ''exec_command needs cmd, the command line to run''
      | Some a \<Rightarrow>
          if trimSpace (ea_Cmd a) = [] then Some ''exec_command needs cmd, the command line to run''
          else if ea_Detach a \<and> \<not> pg_AllowDetach (pm_cfg (py_mgr y)) then
            Some ''exec_command: detach is not allowed in this workspace''
          else if ea_Detach a \<and> ea_TTY a then Some ''exec_command: a detached command can't have a tty''
          else if runningCount y \<ge> pg_Max (pm_cfg (py_mgr y)) then
            Some (''exec_command: '' @ itoa (int (runningCount y)) @
              '' commands are already running, the most allowed; stop one with kill_process'')
          else None)"

text \<open>Where the command runs, as for the shell tool.\<close>

definition execDir :: "(string \<Rightarrow> string option) \<Rightarrow> string list \<Rightarrow> execCommandArgs \<Rightarrow> (goerr + string) option" where
  "execDir ev roots a = (if ea_Workdir a = [] then Some (Inr (hd roots)) else confine ev roots (ea_Workdir a))"

definition startedProc :: "processConfig \<Rightarrow> registry \<Rightarrow> string \<Rightarrow> execCommandArgs \<Rightarrow> int \<Rightarrow> gotime \<Rightarrow> string \<Rightarrow> proc" where
  "startedProc cfg r dir a pid t entry =
     \<lparr>pc_id = [], pc_command = ea_Cmd a, pc_dir = dir, pc_tty = ea_TTY a,
      pc_log = (if ea_Detach a then regPath r entry ''.log'' else []), pc_pid = pid,
      pc_entry = (if ea_Detach a then entry else []), pc_adopted = False,
      pc_out = \<lparr>tb_buf = [], tb_max = pg_MaxOutput cfg, tb_total = 0\<rparr>, pc_started = t, pc_done = False,
      pc_exit = 0, pc_read = 0, pc_wrote = []\<rparr>"

text \<open>The read inside \<^verbatim>\<open>collect\<close>, under the lock of the process's reads.\<close>

definition logContent :: "registry \<Rightarrow> proc \<Rightarrow> string option" where
  "logContent r p = (if pc_entry p \<in> re_ID ` set (rg_entries r) then Some (pc_wrote p) else None)"

definition procSince :: "processConfig \<Rightarrow> registry \<Rightarrow> proc \<Rightarrow> string \<times> nat \<times> nat" where
  "procSince cfg r p =
     (if pc_log p \<noteq> [] then readLogSince (logContent r p) (pc_read p) (pg_MaxOutput cfg)
      else tailSince (pc_out p) (pc_read p))"

definition procReadMax :: nat where "procReadMax = 16 * 1024"

definition collectText :: "string \<Rightarrow> string \<Rightarrow> nat \<Rightarrow> string" where
  "collectText header t dropped =
     (if header \<noteq> [] then header @ [newline] else []) @
     (if dropped > 0 then ''... '' @ itoa (int dropped) @ '' bytes of earlier output were dropped ...'' @ [newline] else []) @
     (if length t > procReadMax
      then take (procReadMax div 2) t @ [newline] @ ''... '' @ itoa (int (length t - procReadMax)) @
             '' bytes dropped from the middle ...'' @ [newline] @ drop (length t - procReadMax div 2) t
      else t)"

text \<open>The rest of \<^verbatim>\<open>collect\<close>: the result, and whether the process is forgotten.\<close>

definition collectResult :: "proc \<Rightarrow> string \<Rightarrow> string \<Rightarrow> nat \<Rightarrow> string \<Rightarrow> execResult" where
  "collectResult p header t dropped elapsed =
     (let sc = [(''session_id'', JStr (pc_id p)), (''dropped'', JNum (int dropped))] @
            (if pc_log p \<noteq> [] then [(''detached'', JBool True), (''pid'', JNum (pc_pid p)), (''log'', JStr (pc_log p))] @
               (if pc_adopted p then [(''earlier_session'', JBool True)] else []) else []);
          body = collectText header t dropped
      in if procRunning p then
           \<lparr>xr_IsError = False,
            xr_Content = [body @ [newline] @
              (if pc_log p \<noteq> [] then
                 ''[still running as '' @ pc_id p @ '' (pid '' @ itoa (pc_pid p) @ '') after '' @ elapsed @
                 '', detached: it keeps running after this session ends, with its output in '' @ pc_log p @ ''; kill_process stops it]''
               else ''[still running as '' @ pc_id p @ '' after '' @ elapsed @
                 ''; call write_stdin to send input or collect output, kill_process to stop it]'')],
            xr_Data = sc @ [(''running'', JBool True)]\<rparr>
         else
           \<lparr>xr_IsError = False, xr_Content = [body @ [newline] @ ''[exited '' @ itoa (pc_exit p) @ '' after '' @ elapsed @ '']''],
            xr_Data = sc @ [(''running'', JBool False), (''exit_code'', JNum (pc_exit p))]\<rparr>)"

definition procGet :: "procManager \<Rightarrow> string \<Rightarrow> goerr + nat" where
  "procGet m sid = (case map_of (pm_procs m) sid of
     None \<Rightarrow> Inl (Errorf ''no process %q; list_processes shows the ones there are'' [sid] None) | Some k \<Rightarrow> Inr k)"

text \<open>\<^verbatim>\<open>writeStdin\<close> up to its call of \<^verbatim>\<open>collect\<close>; \<open>werr\<close> is the error of writing to the process.\<close>

definition writeStdin :: "writeStdinArgs option \<Rightarrow> string option \<Rightarrow> procSys \<Rightarrow> callPc" where
  "writeStdin arg werr y =
     (case arg of
        None \<Rightarrow> Returned (execError ''write_stdin needs session_id'')
      | Some a \<Rightarrow>
          if wa_SessionID a = [] then Returned (execError ''write_stdin needs session_id'')
          else case procGet (py_mgr y) (wa_SessionID a) of
                 Inl e \<Rightarrow> Returned (execError (''write_stdin: '' @ errText e))
               | Inr k \<Rightarrow>
                   (let p = py_objs y ! k
                    in if wa_Chars a = [] then Collecting k []
                       else if \<not> procRunning p then Collecting k ''write_stdin: the process has already exited, so nothing was written''
                       else if pc_log p \<noteq> [] then
                         Returned (execError (''write_stdin: '' @ pc_id p @ '' is detached and reads no input; send empty chars to collect its output''))
                       else (case werr of Some e \<Rightarrow> Returned (execError (''write_stdin: '' @ e)) | None \<Rightarrow> Collecting k [])))"

text \<open>\<^verbatim>\<open>killProcess\<close> up to its call of \<^verbatim>\<open>collect\<close>; the signal reaches the process as its exit.\<close>

definition killProcess :: "writeStdinArgs option \<Rightarrow> procSys \<Rightarrow> callPc" where
  "killProcess arg y =
     (case arg of
        None \<Rightarrow> Returned (execError ''kill_process needs session_id'')
      | Some a \<Rightarrow>
          if wa_SessionID a = [] then Returned (execError ''kill_process needs session_id'')
          else case procGet (py_mgr y) (wa_SessionID a) of
                 Inl e \<Rightarrow> Returned (execError (''kill_process: '' @ errText e))
               | Inr k \<Rightarrow> Collecting k [])"

definition listState :: "proc \<Rightarrow> string" where
  "listState p =
     (if procRunning p then ''running'' else ''exited '' @ itoa (pc_exit p) @ '', output not yet read'') @
     (if pc_adopted p then ''; detached, from an earlier session'' else [])"

text \<open>\<^verbatim>\<open>listProcesses\<close>, oldest first; \<open>ago\<close> writes how long ago a time was.\<close>

definition listProcesses :: "(gotime \<Rightarrow> string) \<Rightarrow> procSys \<Rightarrow> execResult" where
  "listProcesses ago y =
     (let ps = sort_key pc_started (map (\<lambda>(i, k). py_objs y ! k) (pm_procs (py_mgr y)))
      in if ps = [] then \<lparr>xr_IsError = False, xr_Content = [''no processes''], xr_Data = []\<rparr>
         else \<lparr>xr_IsError = False,
           xr_Content = [strJoin (map (\<lambda>p. pc_id p @ ''  '' @ pc_command p @ ''  ('' @ listState p @ '', started '' @ ago (pc_started p) @ '' ago)'') ps) [newline]],
           xr_Data = [(''processes'', JArr (map (\<lambda>p. JObj ([(''session_id'', JStr (pc_id p)), (''cmd'', JStr (pc_command p)), (''running'', JBool (procRunning p))] @
             (if pc_adopted p then [(''earlier_session'', JBool True), (''pid'', JNum (pc_pid p)), (''log'', JStr (pc_log p))] else []))) ps))]\<rparr>)"


subsection \<open>Actions\<close>

record procEnv =
  pv_ev :: "string \<Rightarrow> string option"
  pv_roots :: "string list"
  pv_self :: int
  pv_start :: "int \<Rightarrow> string option"

datatype procAct =
    ActExec "execCommandArgs option"
  | ActStart nat startOutcome
  | ActRegister nat
  | ActWrite "writeStdinArgs option" "string option"
  | ActKill "writeStdinArgs option"
  | ActRead nat
  | ActReport nat string
  | ActOutput nat string
  | ActExit nat int
  | ActClose

definition startEntry :: "procEnv \<Rightarrow> string \<Rightarrow> string \<Rightarrow> execCommandArgs \<Rightarrow> int \<Rightarrow> gotime \<Rightarrow> string \<Rightarrow> regEntry" where
  "startEntry v owner dir a pid t entry =
     (let tok = (\<lambda>i. case pv_start v i of Some s \<Rightarrow> s | None \<Rightarrow> [])
      in \<lparr>re_ID = entry, re_PID = pid, re_Cmd = ea_Cmd a, re_Workdir = dir, re_Started = t, re_StartToken = tok pid,
          re_Owner = owner, re_OwnerPID = pv_self v, re_OwnerStart = tok (pv_self v)\<rparr>)"

definition actStart :: "procEnv \<Rightarrow> nat \<Rightarrow> execCommandArgs \<Rightarrow> startOutcome \<Rightarrow> procSys \<Rightarrow> procSys option" where
  "actStart v i a oc y =
     (case execDir (pv_ev v) (pv_roots v) a of
        None \<Rightarrow> None
      | Some (Inl e) \<Rightarrow> Some (y\<lparr>py_calls := (py_calls y)[i := Returned (execError (''exec_command: workdir: '' @ errText e))]\<rparr>)
      | Some (Inr dir) \<Rightarrow>
          (case oc of
             StartErr e \<Rightarrow> Some (y\<lparr>py_calls := (py_calls y)[i := Returned (execError (''exec_command: '' @ e))]\<rparr>)
           | StartOk pid t entry \<Rightarrow>
               if ea_Detach a \<and> (entry = [] \<or> entry \<in> re_ID ` set (rg_entries (py_reg y))) then None
               else Some (y\<lparr>
                 py_reg := (if ea_Detach a then regWrite (startEntry v (pm_owner (py_mgr y)) dir a pid t entry) (py_reg y) else py_reg y),
                 py_objs := py_objs y @ [startedProc (pm_cfg (py_mgr y)) (py_reg y) dir a pid t entry],
                 py_calls := (py_calls y)[i := Started (length (py_objs y))]\<rparr>)))"

definition actRegister :: "nat \<Rightarrow> nat \<Rightarrow> procSys \<Rightarrow> procSys" where
  "actRegister i k y =
     (let m = py_mgr y; n = Suc (pm_next m); p = (py_objs y ! k)\<lparr>pc_id := procId n\<rparr>
      in y\<lparr>py_mgr := m\<lparr>pm_next := n, pm_procs := pm_procs m @ [(procId n, k)]\<rparr>, py_objs := (py_objs y)[k := p],
           py_calls := (py_calls y)[i := Collecting k (''$ '' @ pc_command p)]\<rparr>)"

definition actRead :: "nat \<Rightarrow> nat \<Rightarrow> string \<Rightarrow> procSys \<Rightarrow> procSys" where
  "actRead i k h y =
     (case procSince (pm_cfg (py_mgr y)) (py_reg y) (py_objs y ! k) of
        (t, pos, dropped) \<Rightarrow>
          y\<lparr>py_objs := (py_objs y)[k := (py_objs y ! k)\<lparr>pc_read := pos\<rparr>], py_calls := (py_calls y)[i := HasRead k h t dropped],
            py_reads := py_reads y @ [(k, t, dropped)]\<rparr>)"

definition actReport :: "nat \<Rightarrow> nat \<Rightarrow> string \<Rightarrow> string \<Rightarrow> nat \<Rightarrow> string \<Rightarrow> procSys \<Rightarrow> procSys" where
  "actReport i k h t d elapsed y =
     (let p = py_objs y ! k;
          y1 = y\<lparr>py_calls := (py_calls y)[i := Returned (collectResult p h t d elapsed)]\<rparr>
      in if procRunning p then y1
         else y1\<lparr>py_mgr := (py_mgr y)\<lparr>pm_procs := filter (\<lambda>(s, _). s \<noteq> pc_id p) (pm_procs (py_mgr y))\<rparr>,
                 py_reg := (if pc_entry p \<noteq> [] then regRemove (pc_entry p) (py_reg y) else py_reg y)\<rparr>)"

definition actOutput :: "nat \<Rightarrow> string \<Rightarrow> procSys \<Rightarrow> procSys" where
  "actOutput k s y =
     (let p = py_objs y ! k
      in y\<lparr>py_objs := (py_objs y)[k := p\<lparr>pc_wrote := pc_wrote p @ s,
             pc_out := (if pc_log p = [] then tailWrite s (pc_out p) else pc_out p)\<rparr>]\<rparr>)"

text \<open>\<open>None\<close> is an action that is not possible in the state.\<close>

fun procStep :: "procEnv \<Rightarrow> procAct \<Rightarrow> procSys \<Rightarrow> procSys option" where
  "procStep v (ActExec arg) y =
     (case execCheck arg y of
        Some e \<Rightarrow> Some (y\<lparr>py_calls := py_calls y @ [Returned (execError e)]\<rparr>)
      | None \<Rightarrow> Some (y\<lparr>py_calls := py_calls y @ [Starting (the arg)]\<rparr>))"
| "procStep v (ActStart i oc) y =
     (if i < length (py_calls y) then (case py_calls y ! i of Starting a \<Rightarrow> actStart v i a oc y | _ \<Rightarrow> None) else None)"
| "procStep v (ActRegister i) y =
     (if i < length (py_calls y) then (case py_calls y ! i of Started k \<Rightarrow> Some (actRegister i k y) | _ \<Rightarrow> None) else None)"
| "procStep v (ActWrite arg werr) y = Some (y\<lparr>py_calls := py_calls y @ [writeStdin arg werr y]\<rparr>)"
| "procStep v (ActKill arg) y = Some (y\<lparr>py_calls := py_calls y @ [killProcess arg y]\<rparr>)"
| "procStep v (ActRead i) y =
     (if i < length (py_calls y) then (case py_calls y ! i of Collecting k h \<Rightarrow> Some (actRead i k h y) | _ \<Rightarrow> None) else None)"
| "procStep v (ActReport i elapsed) y =
     (if i < length (py_calls y) then (case py_calls y ! i of HasRead k h t d \<Rightarrow> Some (actReport i k h t d elapsed y) | _ \<Rightarrow> None) else None)"
| "procStep v (ActOutput k s) y = (if k < length (py_objs y) then Some (actOutput k s y) else None)"
| "procStep v (ActExit k code) y =
     (if k < length (py_objs y) \<and> procRunning (py_objs y ! k)
      then Some (y\<lparr>py_objs := (py_objs y)[k := (py_objs y ! k)\<lparr>pc_done := True, pc_exit := code\<rparr>]\<rparr>) else None)"
| "procStep v ActClose y = Some (y\<lparr>py_mgr := (py_mgr y)\<lparr>pm_procs := []\<rparr>\<rparr>)"

text \<open>A session: what it adopts when it opens, then any actions.\<close>

definition openSession ::
  "procEnv \<Rightarrow> string set \<Rightarrow> (string \<Rightarrow> string) \<Rightarrow> (string \<Rightarrow> bool) \<Rightarrow> processConfig \<Rightarrow> string \<Rightarrow> registry \<Rightarrow> procSys" where
  "openSession v openOwners logOf writes cfg owner r =
     (let m = \<lparr>pm_cfg = cfg, pm_procs = [], pm_next = 0, pm_owner = owner\<rparr>
      in case (if pg_AllowDetach cfg then adopt (pv_start v) (pv_self v) (insert owner openOwners) logOf writes m r else (m, r, [])) of
           (m1, r1, ps) \<Rightarrow> \<lparr>py_mgr = m1, py_reg = r1, py_objs = ps, py_calls = [], py_reads = []\<rparr>)"

inductive procReach :: "procEnv \<Rightarrow> procSys \<Rightarrow> procSys \<Rightarrow> bool" for v y0 where
  start: "procReach v y0 y0"
| step: "procReach v y0 y \<Longrightarrow> procStep v a y = Some y' \<Longrightarrow> procReach v y0 y'"

fun procRunActs :: "procEnv \<Rightarrow> procAct list \<Rightarrow> procSys \<Rightarrow> procSys option" where
  "procRunActs v [] y = Some y"
| "procRunActs v (a # as) y = Option.bind (procStep v a y) (procRunActs v as)"

lemma procRunActs_reach: "procRunActs v as y = Some y' \<Longrightarrow> procReach v y0 y \<Longrightarrow> procReach v y0 y'"
  by (induction as arbitrary: y) (auto simp: Option.bind_eq_Some_conv intro: procReach.step)

subsection \<open>Judging the calls\<close>

definition shellArgv :: "bool \<Rightarrow> string \<Rightarrow> string list" where
  "shellArgv hasBash cmd = (if hasBash then [''bash'', ''-lc'', cmd] else [''sh'', ''-c'', cmd])"

text \<open>\<open>decE\<close> and \<open>decW\<close> decode the arguments of a call; \<open>None\<close> is their error.\<close>

definition classifyProcs ::
  "(rawjson \<Rightarrow> execCommandArgs option) \<Rightarrow> (rawjson \<Rightarrow> writeStdinArgs option) \<Rightarrow> bool \<Rightarrow> bool \<Rightarrow> prefixRule list \<Rightarrow> toolCallInfo \<Rightarrow> callClass option" where
  "classifyProcs decE decW hasProcs hasBash rules info =
     (if \<not> hasProcs then None
      else if tc_Name (ti_Call info) = ''exec_command'' then
        (case decE (tc_Args (ti_Call info)) of
           None \<Rightarrow> Some noClass
         | Some a \<Rightarrow>
             if ea_Cmd a = [] then Some noClass
             else (let class = classify rules (shellArgv hasBash (ea_Cmd a))
                   in if ea_Detach a \<and> cc_Disposition class \<noteq> DispositionForbidden
                      then Some \<lparr>cc_Disposition = DispositionDestructive, cc_Key = ''detach '' @ ea_Cmd a,
                             cc_Reason = ''keeps running after this session ends''\<rparr>
                      else Some class))
      else if tc_Name (ti_Call info) = ''write_stdin'' then
        (case decW (tc_Args (ti_Call info)) of
           None \<Rightarrow> Some noClass
         | Some a \<Rightarrow>
             if wa_Chars a = [] then Some \<lparr>cc_Disposition = DispositionReadOnly, cc_Key = ''poll'', cc_Reason = []\<rparr>
             else Some \<lparr>cc_Disposition = DispositionDestructive, cc_Key = wa_SessionID a, cc_Reason = ''types into a running command''\<rparr>)
      else if tc_Name (ti_Call info) = ''kill_process'' then
        Some \<lparr>cc_Disposition = DispositionReversible, cc_Key = ''kill'', cc_Reason = []\<rparr>
      else None)"

definition renderProcApproval ::
  "(rawjson \<Rightarrow> execCommandArgs option) \<Rightarrow> (rawjson \<Rightarrow> writeStdinArgs option) \<Rightarrow> 'a execSource_scheme \<Rightarrow> procSys \<Rightarrow> toolCallInfo \<Rightarrow> string option" where
  "renderProcApproval decE decW s y info =
     (if tc_Name (ti_Call info) = ''exec_command'' then
        (case decE (tc_Args (ti_Call info)) of
           None \<Rightarrow> None
         | Some a \<Rightarrow>
             if ea_Cmd a = [] then None
             else (let where1 = (if sandboxed s then ''in the '' @ sb_Name (es_sandbox s) @ '' sandbox'' else ''without a sandbox'')
                   in Some (''Start, '' @ where1 @ (if ea_Detach a then '', and leave running after this session ends:'' else '', and leave running:'') @
                        [newline] @ ''  '' @ ea_Cmd a)))
      else if tc_Name (ti_Call info) = ''write_stdin'' then
        (case decW (tc_Args (ti_Call info)) of
           None \<Rightarrow> None
         | Some a \<Rightarrow>
             (let cmd = (case procGet (py_mgr y) (wa_SessionID a) of
                           Inr k \<Rightarrow> wa_SessionID a @ '' ('' @ pc_command (py_objs y ! k) @ '')'' | Inl _ \<Rightarrow> wa_SessionID a)
              in Some (''Type into '' @ cmd @ '':'' @ [newline] @ ''  '' @ go_quote (wa_Chars a))))
      else None)"

section \<open>What is read of a process\<close>

text \<open>A list of reads covers a text if each read's missing bytes and its text follow the previous one.\<close>

inductive covers :: "nat \<Rightarrow> (string \<times> nat) list \<Rightarrow> string \<Rightarrow> bool" for m where
  none: "covers m [] []"
| more: "covers m rs s \<Longrightarrow> length gap = d \<Longrightarrow> (d > 0 \<longrightarrow> length t = m) \<Longrightarrow> covers m (rs @ [(t, d)]) (s @ gap @ t)"

definition readsFor :: "nat \<Rightarrow> procSys \<Rightarrow> (string \<times> nat) list" where
  "readsFor k y = map snd (filter (\<lambda>r. fst r = k) (py_reads y))"

definition objOk :: "nat \<Rightarrow> (string \<times> nat) list \<Rightarrow> proc \<Rightarrow> bool" where
  "objOk m rs p \<longleftrightarrow> pc_read p \<le> length (pc_wrote p) \<and> covers m rs (take (pc_read p) (pc_wrote p)) \<and>
     (pc_log p = [] \<longrightarrow> tailHolds (pc_wrote p) (pc_out p) \<and> tb_max (pc_out p) = m)"

lemma readLogSince_next:
  assumes "readLogSince log from m = (t, pos, d)" "log = None \<or> log = Some s" "from \<le> length s"
  shows "\<exists>gap. length gap = d \<and> take pos s = take from s @ gap @ t \<and> pos \<le> length s \<and> (d > 0 \<longrightarrow> length t = m)"
proof (cases "log = None \<or> length s \<le> from")
  case True
  then have "t = [] \<and> pos = from \<and> d = 0" using assms by (auto simp: readLogSince_def)
  then show ?thesis using assms(3) by simp
next
  case False
  then have log: "log = Some s" "from < length s" using assms(2) by auto
  show ?thesis
  proof (cases "length s - from > m")
    case True
    have "take (length s - m) s = take from s @ drop from (take (length s - m) s)"
    proof -
      have "from \<le> length s - m" using True by linarith
      then have "take from (take (length s - m) s) = take from s" by simp
      then show ?thesis by (metis append_take_drop_id)
    qed
    then have "s = take from s @ drop from (take (length s - m) s) @ drop (length s - m) s"
      by (metis append.assoc append_take_drop_id)
    then show ?thesis using assms(1) log True
      by (intro exI [of _ "drop from (take (length s - m) s)"]) (auto simp: readLogSince_def Let_def)
  next
    case False
    then show ?thesis using assms(1) log by (auto simp: readLogSince_def Let_def)
  qed
qed

lemma tailSince_next:
  assumes "tailHolds s b" "pos \<le> length s" "tailSince b pos = (t, pos', d)"
  shows "\<exists>gap. length gap = d \<and> take pos' s = take pos s @ gap @ t \<and> pos' \<le> length s \<and> (d > 0 \<longrightarrow> length t = tb_max b)"
proof -
  note h = tailSince_holds [OF assms]
  have "s = take pos s @ take d (drop pos s) @ drop (pos + d) s"
    by (metis append_take_drop_id drop_drop add.commute)
  then show ?thesis using h by (intro exI [of _ "take d (drop pos s)"]) auto
qed

lemma objOk_read:
  assumes "objOk (pg_MaxOutput cfg) rs p" "procSince cfg r p = (t, pos, d)"
  shows "objOk (pg_MaxOutput cfg) (rs @ [(t, d)]) (p\<lparr>pc_read := pos\<rparr>)"
proof -
  have "\<exists>gap. length gap = d \<and> take pos (pc_wrote p) = take (pc_read p) (pc_wrote p) @ gap @ t \<and> pos \<le> length (pc_wrote p) \<and>
      (d > 0 \<longrightarrow> length t = pg_MaxOutput cfg)"
  proof (cases "pc_log p = []")
    case True
    then show ?thesis using assms tailSince_next [of "pc_wrote p" "pc_out p" "pc_read p" t pos d] by (auto simp: objOk_def procSince_def)
  next
    case False
    then show ?thesis
      using assms readLogSince_next [of "logContent r p" "pc_read p" "pg_MaxOutput cfg" t pos d "pc_wrote p"]
      by (auto simp: objOk_def procSince_def logContent_def)
  qed
  then obtain gap where "length gap = d" "take pos (pc_wrote p) = take (pc_read p) (pc_wrote p) @ gap @ t" "pos \<le> length (pc_wrote p)"
      "d > 0 \<longrightarrow> length t = pg_MaxOutput cfg" by blast
  then show ?thesis using assms(1) covers.more [of "pg_MaxOutput cfg" rs "take (pc_read p) (pc_wrote p)" gap d t]
    by (simp add: objOk_def)
qed

lemma objOk_output:
  "objOk m rs p \<Longrightarrow> objOk m rs (p\<lparr>pc_wrote := pc_wrote p @ s, pc_out := (if pc_log p = [] then tailWrite s (pc_out p) else pc_out p)\<rparr>)"
  using tailWrite_holds [of "pc_wrote p" "pc_out p" s] by (auto simp: objOk_def tailWrite_def Let_def)

lemma objOk_same:
  "objOk m rs p \<Longrightarrow> pc_read q = pc_read p \<Longrightarrow> pc_wrote q = pc_wrote p \<Longrightarrow> pc_log q = pc_log p \<Longrightarrow> pc_out q = pc_out p \<Longrightarrow> objOk m rs q"
  by (simp add: objOk_def)

text \<open>Calls hold processes that exist, and reads are of processes that exist.\<close>

fun callRef :: "callPc \<Rightarrow> nat option" where
  "callRef (Starting a) = None"
| "callRef (Started k) = Some k"
| "callRef (Collecting k h) = Some k"
| "callRef (HasRead k h t d) = Some k"
| "callRef (Returned r) = None"

definition sysOk :: "processConfig \<Rightarrow> procSys \<Rightarrow> bool" where
  "sysOk cfg y \<longleftrightarrow> pm_cfg (py_mgr y) = cfg \<and>
     (\<forall>k < length (py_objs y). objOk (pg_MaxOutput cfg) (readsFor k y) (py_objs y ! k)) \<and>
     (\<forall>r\<in>set (py_reads y). fst r < length (py_objs y)) \<and>
     (\<forall>c\<in>set (py_calls y). \<forall>k. callRef c = Some k \<longrightarrow> k < length (py_objs y)) \<and>
     (\<forall>e\<in>set (pm_procs (py_mgr y)). snd e < length (py_objs y))"

lemma readsFor_same: "py_reads y' = py_reads y \<Longrightarrow> readsFor k y' = readsFor k y"
  by (simp add: readsFor_def)

text \<open>An update of one process that keeps what is read of it, and any change of calls and table within bounds.\<close>

lemma sysOk_update:
  assumes "sysOk cfg y" "k < length (py_objs y)" "objOk (pg_MaxOutput cfg) (readsFor k y) p"
    and "pm_cfg (py_mgr y') = cfg" "py_objs y' = (py_objs y)[k := p]" "py_reads y' = py_reads y"
    and "\<forall>c\<in>set (py_calls y'). \<forall>j. callRef c = Some j \<longrightarrow> j < length (py_objs y)"
    and "\<forall>e\<in>set (pm_procs (py_mgr y')). snd e < length (py_objs y)"
  shows "sysOk cfg y'"
  using assms readsFor_same [OF assms(6)] by (auto simp: sysOk_def nth_list_update)

lemma sysOk_frame:
  assumes "sysOk cfg y" "pm_cfg (py_mgr y') = cfg" "py_objs y' = py_objs y" "py_reads y' = py_reads y"
    and "\<forall>c\<in>set (py_calls y'). \<forall>j. callRef c = Some j \<longrightarrow> j < length (py_objs y)"
    and "\<forall>e\<in>set (pm_procs (py_mgr y')). snd e < length (py_objs y)"
  shows "sysOk cfg y'"
  using assms readsFor_same [OF assms(4)] by (auto simp: sysOk_def)

lemma calls_update:
  "\<forall>c\<in>set cs. \<forall>j. callRef c = Some j \<longrightarrow> j < n \<Longrightarrow> (\<And>j. callRef d = Some j \<Longrightarrow> j < n) \<Longrightarrow>
   \<forall>c\<in>set (cs[i := d]). \<forall>j. callRef c = Some j \<longrightarrow> j < n"
  by (auto dest!: set_update_subset_insert [THEN subsetD])

lemma sysOkD:
  assumes "sysOk cfg y"
  shows "pm_cfg (py_mgr y) = cfg" "k < length (py_objs y) \<Longrightarrow> objOk (pg_MaxOutput cfg) (readsFor k y) (py_objs y ! k)"
    "\<forall>c\<in>set (py_calls y). \<forall>j. callRef c = Some j \<longrightarrow> j < length (py_objs y)"
    "\<forall>e\<in>set (pm_procs (py_mgr y)). snd e < length (py_objs y)"
    "i < length (py_calls y) \<Longrightarrow> callRef (py_calls y ! i) = Some k \<Longrightarrow> k < length (py_objs y)"
  using assms by (auto simp: sysOk_def)

lemma procGet_bound:
  "\<forall>e\<in>set (pm_procs m). snd e < n \<Longrightarrow> procGet m sid = Inr k \<Longrightarrow> k < n"
  by (auto simp: procGet_def split: option.splits dest!: map_of_SomeD)

lemma objOk_started: "objOk (pg_MaxOutput cfg) [] (startedProc cfg r dir a pid t entry)"
  by (simp add: objOk_def startedProc_def tailHolds_def lastBytes_def covers.none)

lemma sysOk_start:
  assumes ok: "sysOk cfg y" and step: "actStart v i a oc y = Some y'"
  shows "sysOk cfg y'"
proof (cases "py_objs y' = py_objs y")
  case True
  then show ?thesis
    using step sysOkD(1,3,4) [OF ok] calls_update [OF sysOkD(3) [OF ok], of "Returned _" i]
    by (intro sysOk_frame [OF ok])
      (auto simp: actStart_def split: option.splits sum.splits startOutcome.splits if_splits)
next
  case False
  let ?n = "length (py_objs y)"
  obtain p where p: "py_objs y' = py_objs y @ [p]" "objOk (pg_MaxOutput cfg) [] p" "py_mgr y' = py_mgr y" "py_reads y' = py_reads y"
      "py_calls y' = (py_calls y)[i := Started ?n]"
    using step False sysOkD(1) [OF ok] objOk_started
    by (auto simp: actStart_def split: option.splits sum.splits startOutcome.splits if_splits)
  have none: "readsFor ?n y = []" using ok by (auto simp: sysOk_def readsFor_def filter_empty_conv)
  have "\<forall>c\<in>set (py_calls y'). \<forall>j. callRef c = Some j \<longrightarrow> j < Suc ?n"
    unfolding p(5) using sysOkD(3) [OF ok] by (intro calls_update) auto
  then show ?thesis
    using ok p none readsFor_same [OF p(4)] unfolding sysOk_def
    by (auto simp: nth_append less_Suc_eq)
qed

lemma sysOk_step: "sysOk cfg y \<Longrightarrow> procStep v a y = Some y' \<Longrightarrow> sysOk cfg y'"
proof (induction v a y rule: procStep.induct)
  case (1 v arg y)
  then show ?case using sysOkD(1,3,4) [OF 1(1)] by (intro sysOk_frame [OF 1(1)]) (auto split: option.splits)
next
  case (2 v i oc y)
  then show ?case by (auto intro: sysOk_start split: if_splits callPc.splits)
next
  case (3 v i y)
  then obtain k where k: "i < length (py_calls y)" "py_calls y ! i = Started k" "y' = actRegister i k y"
    by (auto split: if_splits callPc.splits)
  have len: "k < length (py_objs y)" using sysOkD(5) [OF 3(1) k(1), of k] k(2) by simp
  have "\<forall>c\<in>set (py_calls y'). \<forall>j. callRef c = Some j \<longrightarrow> j < length (py_objs y)"
    using calls_update [OF sysOkD(3) [OF 3(1)], of "Collecting k (''$ '' @ pc_command (py_objs y ! k))" i] k(3) len
    by (simp add: actRegister_def Let_def)
  moreover have "objOk (pg_MaxOutput cfg) (readsFor k y) ((py_objs y ! k)\<lparr>pc_id := procId (Suc (pm_next (py_mgr y)))\<rparr>)"
    by (rule objOk_same [OF sysOkD(2) [OF 3(1) len]]) simp_all
  ultimately show ?case
    using k(3) len sysOkD(1,4) [OF 3(1)]
    by (intro sysOk_update [OF 3(1), of k "(py_objs y ! k)\<lparr>pc_id := procId (Suc (pm_next (py_mgr y)))\<rparr>"])
      (auto simp: actRegister_def Let_def)
next
  case (4 v arg werr y)
  then show ?case
    using sysOkD(1,3,4) [OF 4(1)] procGet_bound [OF sysOkD(4) [OF 4(1)]]
    by (intro sysOk_frame [OF 4(1)])
      (auto simp: writeStdin_def Let_def split: option.splits sum.splits if_splits)
next
  case (5 v arg y)
  then show ?case
    using sysOkD(1,3,4) [OF 5(1)] procGet_bound [OF sysOkD(4) [OF 5(1)]]
    by (intro sysOk_frame [OF 5(1)])
      (auto simp: killProcess_def split: option.splits sum.splits if_splits)
next
  case (6 v i y)
  then obtain k h where k: "i < length (py_calls y)" "py_calls y ! i = Collecting k h" "y' = actRead i k h y"
    by (auto split: if_splits callPc.splits)
  have len: "k < length (py_objs y)" using sysOkD(5) [OF 6(1) k(1), of k] k(2) by simp
  obtain t pos d where r: "procSince cfg (py_reg y) (py_objs y ! k) = (t, pos, d)" by (metis prod_cases3)
  have y': "y' = y\<lparr>py_objs := (py_objs y)[k := (py_objs y ! k)\<lparr>pc_read := pos\<rparr>], py_calls := (py_calls y)[i := HasRead k h t d],
      py_reads := py_reads y @ [(k, t, d)]\<rparr>"
    using k(3) r sysOkD(1) [OF 6(1)] by (simp add: actRead_def)
  have "objOk (pg_MaxOutput cfg) (readsFor k y @ [(t, d)]) ((py_objs y ! k)\<lparr>pc_read := pos\<rparr>)"
    by (rule objOk_read [OF sysOkD(2) [OF 6(1) len] r])
  moreover have "readsFor j y' = (if j = k then readsFor j y @ [(t, d)] else readsFor j y)" for j
    by (simp add: y' readsFor_def)
  moreover have "\<forall>c\<in>set (py_calls y'). \<forall>j. callRef c = Some j \<longrightarrow> j < length (py_objs y)"
    unfolding y' using calls_update [OF sysOkD(3) [OF 6(1)], of "HasRead k h t d" i] len by simp
  ultimately show ?case using 6(1) len by (auto simp: sysOk_def y' nth_list_update)
next
  case (7 v i elapsed y)
  then obtain k h t d where k: "i < length (py_calls y)" "py_calls y ! i = HasRead k h t d" "y' = actReport i k h t d elapsed y"
    by (auto split: if_splits callPc.splits)
  then show ?case
    using sysOkD(1,3,4) [OF 7(1)] calls_update [OF sysOkD(3) [OF 7(1)], of "Returned _" i]
    by (intro sysOk_frame [OF 7(1)]) (auto simp: actReport_def Let_def)
next
  case (8 v k s y)
  then show ?case
    using sysOkD [OF 8(1)] objOk_output [OF sysOkD(2) [OF 8(1)]]
    by (intro sysOk_update [OF 8(1), of k]) (auto simp: actOutput_def Let_def split: if_splits)
next
  case (9 v k code y)
  have len: "k < length (py_objs y)" using 9(2) by (simp split: if_splits)
  have "objOk (pg_MaxOutput cfg) (readsFor k y) ((py_objs y ! k)\<lparr>pc_done := True, pc_exit := code\<rparr>)"
    by (rule objOk_same [OF sysOkD(2) [OF 9(1) len]]) simp_all
  then show ?case
    using 9(2) len sysOkD(1,3,4) [OF 9(1)]
    by (intro sysOk_update [OF 9(1), of k "(py_objs y ! k)\<lparr>pc_done := True, pc_exit := code\<rparr>"])
      (auto split: if_splits)
next
  case (10 v y)
  then show ?case using sysOkD(1,3) [OF 10(1)] by (intro sysOk_frame [OF 10(1)]) auto
qed

lemma filepathClean_not_Nil: "filepathClean p \<noteq> []"
proof -
  have "renderPath False cs \<noteq> []" if clean: "cleanComps False cs" for cs
  proof -
    obtain k names where cs: "cs = replicate k ''..'' @ names" "list_all nameComp names"
      using clean by (auto simp: cleanComps_def)
    show ?thesis
    proof (cases cs)
      case (Cons c cs')
      have "c \<in> set (replicate k ''..'' @ names)" using cs(1) Cons by (metis list.set_intros(1))
      then have "c \<noteq> []" using cs(2) by (auto simp: list_all_iff nameComp_def)
      then show ?thesis using Cons by (cases cs') (simp_all add: renderPath_def)
    qed (simp add: renderPath_def)
  qed
  moreover have "renderPath True cs \<noteq> []" for cs by (simp add: renderPath_def)
  ultimately show ?thesis using pathComps_clean [of p] by (cases "isAbs p") (auto simp: filepathClean_def)
qed

lemma regPath_not_Nil: "ext \<noteq> [] \<Longrightarrow> regPath r entry ext \<noteq> []"
  by (simp add: regPath_def filepathJoin_def filepathClean_not_Nil)

lemma objOk_adopted: "objOk m [] (adoptedProc cfg r e pid log)"
  using regPath_not_Nil [of "''.log''"] by (simp add: objOk_def adoptedProc_def covers.none)

lemma adoptLoop_ok:
  assumes "adoptLoop start self ow logOf writes es (m, r, ps) = (m', r', ps')"
    and "\<forall>p\<in>set ps. objOk k [] p" "\<forall>e\<in>set (pm_procs m). snd e < length ps"
  shows "pm_cfg m' = pm_cfg m \<and> (\<forall>p\<in>set ps'. objOk k [] p) \<and> (\<forall>e\<in>set (pm_procs m'). snd e < length ps')"
  using assms
proof (induction start self ow logOf writes es "(m, r, ps)" arbitrary: m r ps rule: adoptLoop.induct)
  case (2 start self openOwners logOf writes e es m r ps)
  let ?running = "alive start (re_PID e) (re_StartToken e)" and ?code = "regExitCode r (re_ID e)"
  consider (skip) "ownerOpen start self openOwners e \<or> (?running \<or> ?code \<noteq> None) \<and> \<not> writes (re_ID e)"
    | (drop) "\<not> ownerOpen start self openOwners e" "\<not> ?running \<and> ?code = None"
    | (take) "\<not> ownerOpen start self openOwners e" "?running \<or> ?code \<noteq> None" "writes (re_ID e)" by metis
  then show ?case
  proof cases
    case skip
    then show ?thesis using 2 by (auto simp: Let_def split: if_splits)
  next
    case drop
    then show ?thesis using "2.hyps"(2) [OF drop(1) refl refl] "2.prems" by simp
  next
    case take
    let ?e1 = "e\<lparr>re_Owner := pm_owner m, re_OwnerPID := self, re_OwnerStart := (case start self of Some t \<Rightarrow> t | None \<Rightarrow> [])\<rparr>"
    let ?p = "adoptedProc (pm_cfg m) r ?e1 (procId (Suc (pm_next m))) (logOf (re_ID e))"
    let ?p1 = "if ?running then ?p else ?p\<lparr>pc_done := True, pc_exit := the ?code\<rparr>"
    have p1: "objOk k [] ?p1" using objOk_adopted objOk_same [OF objOk_adopted] by auto
    have eq: "adoptLoop start self openOwners logOf writes es
        (m\<lparr>pm_next := Suc (pm_next m), pm_procs := pm_procs m @ [(procId (Suc (pm_next m)), length ps)]\<rparr>, regWrite ?e1 r, ps @ [?p1]) = (m', r', ps')"
    proof -
      have "(\<not> ?running \<and> ?code = None) = False" using take(2) by blast
      then show ?thesis using "2.prems"(1) take(1,3) unfolding adoptLoop.simps Let_def by (simp only: if_False if_True simp_thms)
    qed
    have "pm_cfg m' = pm_cfg (m\<lparr>pm_next := Suc (pm_next m), pm_procs := pm_procs m @ [(procId (Suc (pm_next m)), length ps)]\<rparr>) \<and>
        (\<forall>p\<in>set ps'. objOk k [] p) \<and> (\<forall>e\<in>set (pm_procs m'). snd e < length ps')"
      by (rule "2.hyps"(4) [OF take(1) refl refl _ _ refl refl refl refl eq])
        (use take "2.prems" p1 in \<open>auto simp: less_Suc_eq\<close>)
    then show ?thesis by simp
  qed
qed simp

lemma sysOk_open: "sysOk cfg (openSession v ow logOf writes cfg owner r)"
proof -
  let ?m = "\<lparr>pm_cfg = cfg, pm_procs = [], pm_next = 0, pm_owner = owner\<rparr>"
  obtain m1 r1 ps where a: "adopt (pv_start v) (pv_self v) (insert owner ow) logOf writes ?m r = (m1, r1, ps)"
    using prod_cases3 by blast
  have ok: "pm_cfg m1 = cfg \<and> (\<forall>p\<in>set ps. objOk (pg_MaxOutput cfg) [] p) \<and> (\<forall>e\<in>set (pm_procs m1). snd e < length ps)"
    using adoptLoop_ok [OF a [unfolded adopt_def], of "pg_MaxOutput cfg"] by simp
  then show ?thesis using a by (auto simp: openSession_def sysOk_def readsFor_def Let_def)
qed

text \<open>
  C36: what a process prints is shown once and in order, whoever reads. In any interleaving of calls, output
  and exits, the reads of a process, in the order they took place, cover exactly the output up to the process's
  read position: each one's text follows the previous one's after as many missing bytes as it reports, and a
  read that misses bytes returns as much as the buffer holds.
\<close>

theorem process_output_shown_once:
  assumes "procReach v (openSession v ow logOf writes cfg owner r) y" "k < length (py_objs y)"
  shows "covers (pg_MaxOutput cfg) (readsFor k y) (take (pc_read (py_objs y ! k)) (pc_wrote (py_objs y ! k)))"
proof -
  from assms(1) have "sysOk cfg y" by induction (auto intro: sysOk_open sysOk_step)
  from sysOkD(2) [OF this assms(2)] show ?thesis by (simp add: objOk_def)
qed

subsection \<open>A run\<close>

definition demoProcs :: processConfig where
  "demoProcs = \<lparr>pg_Max = 1, pg_MaxOutput = 4, pg_DefaultYield = 10, pg_MaxYield = 30, pg_StreamBudget = 100, pg_AllowDetach = False\<rparr>"

definition demoProcEnv :: procEnv where
  "demoProcEnv = \<lparr>pv_ev = (\<lambda>p. Some p), pv_roots = [''/w''], pv_self = 1, pv_start = (\<lambda>_. None)\<rparr>"

definition emptyReg :: registry where
  "emptyReg = \<lparr>rg_dir = ''/r'', rg_entries = [], rg_exit = (\<lambda>_. None)\<rparr>"

definition demoSession :: procSys where
  "demoSession = openSession demoProcEnv {} (\<lambda>_. []) (\<lambda>_. True) demoProcs ''me'' emptyReg"

definition demoExecArgs :: execCommandArgs where
  "demoExecArgs = \<lparr>ea_Cmd = ''make'', ea_Workdir = [], ea_YieldMS = 0, ea_TTY = False, ea_Detach = False\<rparr>"

definition demoPoll :: "writeStdinArgs option" where
  "demoPoll = Some \<lparr>wa_SessionID = ''p1'', wa_Chars = [], wa_YieldMS = 0\<rparr>"

definition launch :: "nat \<Rightarrow> procAct list" where
  "launch i = [ActExec (Some demoExecArgs), ActStart i (StartOk 7 0 []), ActRegister i]"

definition finished :: "procSys option \<Rightarrow> (bool \<times> nat \<times> nat) option" where
  "finished r = map_option (\<lambda>y. (pm_procs (py_mgr y) = [], pc_read (py_objs y ! 0), length (pc_wrote (py_objs y ! 0)))) r"

theorem process_output_shown_once_witness:
  "\<exists>y. procRunActs demoProcEnv (launch 0 @ [ActOutput 0 ''ab'', ActRead 0, ActReport 0 ''1s'', ActOutput 0 ''cdefgh'', ActWrite demoPoll None, ActRead 1])
      demoSession = Some y \<and> readsFor 0 y = [(''ab'', 0), (''efgh'', 2)] \<and> covers 4 (readsFor 0 y) ''abcdefgh''"
proof -
  let ?acts = "launch 0 @ [ActOutput 0 ''ab'', ActRead 0, ActReport 0 ''1s'', ActOutput 0 ''cdefgh'', ActWrite demoPoll None, ActRead 1]"
  have "map_option (\<lambda>y. (readsFor 0 y, length (py_objs y), take (pc_read (py_objs y ! 0)) (pc_wrote (py_objs y ! 0))))
      (procRunActs demoProcEnv ?acts demoSession) = Some ([(''ab'', 0), (''efgh'', 2)], 1, ''abcdefgh'')"
    by code_simp
  then obtain y where y: "procRunActs demoProcEnv ?acts demoSession = Some y" "readsFor 0 y = [(''ab'', 0), (''efgh'', 2)]"
      "length (py_objs y) = 1" "take (pc_read (py_objs y ! 0)) (pc_wrote (py_objs y ! 0)) = ''abcdefgh''" by auto
  have "procReach demoProcEnv demoSession y" using procRunActs_reach [OF y(1) procReach.start] .
  then have "covers (pg_MaxOutput demoProcs) (readsFor 0 y) (take (pc_read (py_objs y ! 0)) (pc_wrote (py_objs y ! 0)))"
    unfolding demoSession_def by (rule process_output_shown_once) (simp add: y(3))
  then show ?thesis using y by (auto simp: demoProcs_def)
qed

text \<open>
  Output between the read and the test of \<^verbatim>\<open>collect\<close> is never shown if the process also exits there: the call
  forgets the process with the end of its output unread. And two calls that count before either has
  registered its process exceed the limit.
\<close>

lemma last_output_lost:
  "finished (procRunActs demoProcEnv (launch 0 @ [ActOutput 0 ''ab'', ActRead 0, ActOutput 0 ''cd'', ActExit 0 1, ActReport 0 ''1s'']) demoSession) =
     Some (True, 2, 4)"
  by code_simp

lemma process_limit_exceeded:
  "map_option (\<lambda>y. (pg_Max (pm_cfg (py_mgr y)), runningCount y))
     (procRunActs demoProcEnv [ActExec (Some demoExecArgs), ActExec (Some demoExecArgs), ActStart 0 (StartOk 7 0 []), ActRegister 0,
        ActStart 1 (StartOk 8 0 []), ActRegister 1] demoSession) = Some (1, 2)"
  by code_simp

text \<open>A wait so long that its product wraps is no wait at all, although the configuration caps it.\<close>

lemma huge_yield_does_not_wait: "yieldFor demoProcs 9223372036855 < 0"
  by code_simp

end
