(* ===== verification/ProcAdopt.thy ===== *)
theory ProcAdopt
  imports Procs
begin

text \<open>
  What a session finds of the processes earlier sessions left running (\<^verbatim>\<open>adopt\<close> of \<^verbatim>\<open>src/ext/exec/procs.go\<close>):
  which registry entries it takes, and that sessions which open one after the other, as the lock of the
  directory makes them, never share a process. And how the approval policy judges the process tools.
\<close>

section \<open>Which entries are taken\<close>

definition adoptable ::
  "(int \<Rightarrow> string option) \<Rightarrow> int \<Rightarrow> string set \<Rightarrow> (string \<Rightarrow> bool) \<Rightarrow> registry \<Rightarrow> regEntry \<Rightarrow> bool" where
  "adoptable start self ow writes r e \<longleftrightarrow> \<not> ownerOpen start self ow e \<and>
     (alive start (re_PID e) (re_StartToken e) \<or> regExitCode r (re_ID e) \<noteq> None) \<and> writes (re_ID e)"

definition ownedBy :: "procManager \<Rightarrow> int \<Rightarrow> string option \<Rightarrow> regEntry \<Rightarrow> bool" where
  "ownedBy m self tok e \<longleftrightarrow> re_Owner e = pm_owner m \<and> re_OwnerPID e = self \<and> re_OwnerStart e = (case tok of Some t \<Rightarrow> t | None \<Rightarrow> [])"

text \<open>What one entry does to the state of the loop.\<close>

definition adoptStep ::
  "(int \<Rightarrow> string option) \<Rightarrow> int \<Rightarrow> string set \<Rightarrow> (string \<Rightarrow> string) \<Rightarrow> (string \<Rightarrow> bool) \<Rightarrow> regEntry \<Rightarrow>
   procManager \<times> registry \<times> proc list \<Rightarrow> procManager \<times> registry \<times> proc list" where
  "adoptStep start self ow logOf writes e st = adoptLoop start self ow logOf writes [e] st"

lemma adoptLoop_Cons:
  "adoptLoop start self ow logOf writes (e # es) st = adoptLoop start self ow logOf writes es (adoptStep start self ow logOf writes e st)"
  by (cases st) (simp add: adoptStep_def Let_def)

lemma adoptStep_cases:
  assumes "adoptStep start self ow logOf writes e (m, r, ps) = (m', r', ps')"
  shows "pm_owner m' = pm_owner m \<and> (\<forall>i. i \<noteq> re_ID e \<longrightarrow> rg_exit r' i = rg_exit r i) \<and>
    (if adoptable start self ow writes r e
     then (\<exists>p. ps' = ps @ [p] \<and> pc_entry p = re_ID e \<and> pc_read p = 0 \<and> pc_wrote p = logOf (re_ID e)) \<and>
       (\<exists>e1. r' = regWrite e1 r \<and> re_ID e1 = re_ID e \<and> ownedBy m self (start self) e1)
     else ps' = ps \<and> (r' = r \<or> r' = regRemove (re_ID e) r))"
proof (cases "adoptable start self ow writes r e")
  case True
  define e1 where "e1 = e\<lparr>re_Owner := pm_owner m, re_OwnerPID := self, re_OwnerStart := (case start self of Some t \<Rightarrow> t | None \<Rightarrow> [])\<rparr>"
  let ?running = "alive start (re_PID e) (re_StartToken e)" and ?code = "regExitCode r (re_ID e)"
  let ?p = "adoptedProc (pm_cfg m) r e1 (procId (Suc (pm_next m))) (logOf (re_ID e))"
  define p where "p = (if ?running then ?p else ?p\<lparr>pc_done := True, pc_exit := the ?code\<rparr>)"
  define m1 where "m1 = m\<lparr>pm_next := Suc (pm_next m), pm_procs := pm_procs m @ [(procId (Suc (pm_next m)), length ps)]\<rparr>"
  have t: "ownerOpen start self ow e = False" "(\<not> ?running \<and> ?code = None) = False" "writes (re_ID e) = True"
    using True by (auto simp: adoptable_def)
  have "(m', r', ps') = (m1, regWrite e1 r, ps @ [p])"
    using assms unfolding adoptStep_def adoptLoop.simps Let_def t e1_def [symmetric] p_def [symmetric] m1_def [symmetric]
    by (simp only: if_False if_True simp_thms)
  then have eq: "m' = m1" "r' = regWrite e1 r" "ps' = ps @ [p]" by simp_all
  have "re_ID e1 = re_ID e" "ownedBy m self (start self) e1" by (simp_all add: ownedBy_def e1_def)
  moreover have "pc_entry p = re_ID e" "pc_read p = 0" "pc_wrote p = logOf (re_ID e)" by (simp_all add: p_def adoptedProc_def e1_def)
  moreover have "\<forall>i. rg_exit r' i = rg_exit r i" "pm_owner m' = pm_owner m" by (simp_all add: eq regWrite_def m1_def)
  ultimately show ?thesis using True eq(2,3) by auto
next
  case False
  then have "m' = m \<and> ps' = ps \<and> (r' = r \<or> r' = regRemove (re_ID e) r)"
    using assms by (auto simp: adoptStep_def adoptable_def Let_def split: if_splits)
  then show ?thesis using False by (auto simp: regRemove_def)
qed

lemma adoptable_cong: "rg_exit r' (re_ID e) = rg_exit r (re_ID e) \<Longrightarrow> adoptable start self ow writes r' e = adoptable start self ow writes r e"
  by (simp add: adoptable_def regExitCode_def)

definition fresh :: "(string \<Rightarrow> string) \<Rightarrow> proc \<Rightarrow> bool" where
  "fresh logOf p \<longleftrightarrow> pc_read p = 0 \<and> pc_wrote p = logOf (pc_entry p)"

lemma regWrite_owned:
  "\<forall>x\<in>set (rg_entries r). re_ID x \<in> A \<longrightarrow> P x \<Longrightarrow> P e1 \<Longrightarrow> \<forall>x\<in>set (rg_entries (regWrite e1 r)). re_ID x \<in> insert (re_ID e1) A \<longrightarrow> P x"
  by (auto simp: regWrite_def) (metis imageI)

lemma adoptLoop_spec:
  assumes "adoptLoop start self ow logOf writes es (m, r, ps) = (m', r', ps')" "distinct (map re_ID es)"
    and "\<forall>x\<in>set (rg_entries r). re_ID x \<in> A \<longrightarrow> ownedBy m self (start self) x" "list_all (fresh logOf) ps"
  shows "map pc_entry ps' = map pc_entry ps @ map re_ID (filter (adoptable start self ow writes r) es) \<and> list_all (fresh logOf) ps' \<and>
    (\<forall>x\<in>set (rg_entries r'). re_ID x \<in> A \<union> re_ID ` {e \<in> set es. adoptable start self ow writes r e} \<longrightarrow> ownedBy m self (start self) x)"
  using assms
proof (induction es arbitrary: m r ps A)
  case (Cons e es)
  obtain m1 r1 ps1 where s: "adoptStep start self ow logOf writes e (m, r, ps) = (m1, r1, ps1)" using prod_cases3 by blast
  note c = adoptStep_cases [OF s]
  have rest: "adoptLoop start self ow logOf writes es (m1, r1, ps1) = (m', r', ps')" using Cons.prems(1) s by (simp add: adoptLoop_Cons)
  have own: "ownedBy m1 = ownedBy m" using c by (auto simp: ownedBy_def fun_eq_iff)
  have same: "adoptable start self ow writes r1 x = adoptable start self ow writes r x" if "x \<in> set es" for x
    using c Cons.prems(2) that by (intro adoptable_cong) (auto simp: image_iff)
  then have filt: "filter (adoptable start self ow writes r1) es = filter (adoptable start self ow writes r) es"
    and sets: "{x \<in> set es. adoptable start self ow writes r1 x} = {x \<in> set es. adoptable start self ow writes r x}"
    by (auto cong: filter_cong)
  show ?case
  proof (cases "adoptable start self ow writes r e")
    case True
    then obtain p e1 where p: "ps1 = ps @ [p]" "pc_entry p = re_ID e" "fresh logOf p"
      and e1: "r1 = regWrite e1 r" "re_ID e1 = re_ID e" "ownedBy m self (start self) e1"
      using c by (auto simp: fresh_def)
    have "\<forall>x\<in>set (rg_entries r1). re_ID x \<in> insert (re_ID e) A \<longrightarrow> ownedBy m1 self (start self) x"
      using regWrite_owned [OF Cons.prems(3) e1(3)] e1 own by simp
    from Cons.IH [OF rest _ this] Cons.prems(2,4) p True filt sets own show ?thesis by auto
  next
    case False
    then have r1: "ps1 = ps" "set (rg_entries r1) \<subseteq> set (rg_entries r)" using c by (auto simp: regRemove_def)
    have "\<forall>x\<in>set (rg_entries r1). re_ID x \<in> A \<longrightarrow> ownedBy m1 self (start self) x" using Cons.prems(3) r1(2) own by auto
    from Cons.IH [OF rest _ this] Cons.prems(2,4) r1 False filt sets own show ?thesis by auto
  qed
qed simp

lemma adoptLoop_closed_owner:
  assumes "adoptLoop start self ow logOf writes es (m, r, ps) = (m', r', ps')"
  shows "pc_entry ` set ps' \<subseteq> pc_entry ` set ps \<union> {re_ID e |e. e \<in> set es \<and> \<not> ownerOpen start self ow e}"
  using assms
proof (induction es arbitrary: m r ps)
  case (Cons e es)
  obtain m1 r1 ps1 where s: "adoptStep start self ow logOf writes e (m, r, ps) = (m1, r1, ps1)" using prod_cases3 by blast
  have rest: "adoptLoop start self ow logOf writes es (m1, r1, ps1) = (m', r', ps')" using Cons.prems s by (simp add: adoptLoop_Cons)
  have "pc_entry ` set ps1 \<subseteq> pc_entry ` set ps \<union> (if ownerOpen start self ow e then {} else {re_ID e})"
    using adoptStep_cases [OF s] by (cases "adoptable start self ow writes r e") (auto simp: adoptable_def)
  then have "pc_entry ` set ps1 \<union> {re_ID x |x. x \<in> set es \<and> \<not> ownerOpen start self ow x} \<subseteq>
      pc_entry ` set ps \<union> {re_ID x |x. x \<in> set (e # es) \<and> \<not> ownerOpen start self ow x}"
    by (auto split: if_splits)
  with Cons.IH [OF rest] show ?case by (rule subset_trans)
qed simp

text \<open>
  C37: a detached process is found again, by one session. A session that opens takes exactly the entries whose
  owner has closed and whose process still runs or has left an exit code (and that can be recorded), each with
  its whole log still to be read. And what it took is not taken by a session that opens later while it is
  still open, in the same program or in another.
\<close>

theorem detached_processes_adopted_once:
  assumes one: "adopt start1 self1 ow1 log1 w1 m1 r = (m1', r1, ps1)"
    and two: "adopt start2 self2 ow2 log2 w2 m2 r1 = (m2', r2, ps2)"
    and ids: "distinct (map re_ID (rg_entries r))" "\<forall>e\<in>set (rg_entries r). re_ID e \<noteq> [] \<and> re_PID e > 0"
    and openStill: "if self1 = self2 then pm_owner m1 \<in> ow2 else alive start2 self1 (case start1 self1 of Some t \<Rightarrow> t | None \<Rightarrow> [])"
  shows "map pc_entry ps1 = map re_ID (filter (adoptable start1 self1 ow1 w1 r) (rg_entries r)) \<and>
    list_all (\<lambda>p. pc_read p = 0 \<and> pc_wrote p = log1 (pc_entry p)) ps1 \<and>
    pc_entry ` set ps1 \<inter> pc_entry ` set ps2 = {}"
proof -
  have valid: "filter (\<lambda>e. re_ID e \<noteq> [] \<and> re_PID e > 0) (rg_entries r) = rg_entries r" using ids(2) by (simp add: filter_id_conv)
  have "map pc_entry ps1 = map re_ID (filter (adoptable start1 self1 ow1 w1 r) (rg_entries r)) \<and> list_all (fresh log1) ps1 \<and>
    (\<forall>x\<in>set (rg_entries r1). re_ID x \<in> re_ID ` {e \<in> set (rg_entries r). adoptable start1 self1 ow1 w1 r e} \<longrightarrow>
       ownedBy m1 self1 (start1 self1) x)"
    using adoptLoop_spec [OF one [unfolded adopt_def valid] ids(1), of "{}"] by simp
  then have first: "map pc_entry ps1 = map re_ID (filter (adoptable start1 self1 ow1 w1 r) (rg_entries r))" "list_all (fresh log1) ps1"
    and owned: "\<And>x. x \<in> set (rg_entries r1) \<Longrightarrow> re_ID x \<in> re_ID ` {e \<in> set (rg_entries r). adoptable start1 self1 ow1 w1 r e} \<Longrightarrow>
       ownedBy m1 self1 (start1 self1) x" by blast+
  have "pc_entry ` set ps1 = re_ID ` {e \<in> set (rg_entries r). adoptable start1 self1 ow1 w1 r e}"
    using arg_cong [OF first(1), of set] by simp
  then have own: "\<And>x. x \<in> set (rg_entries r1) \<Longrightarrow> re_ID x \<in> pc_entry ` set ps1 \<Longrightarrow> ownedBy m1 self1 (start1 self1) x"
    using owned by simp
  have open2: "ownerOpen start2 self2 ow2 x" if "ownedBy m1 self1 (start1 self1) x" for x
    using that openStill by (auto simp: ownedBy_def ownerOpen_def split: if_splits)
  have "False" if i: "i \<in> pc_entry ` set ps1" "i \<in> pc_entry ` set ps2" for i
  proof -
    obtain x where x: "x \<in> set (rg_entries r1)" "re_ID x = i" "\<not> ownerOpen start2 self2 ow2 x"
      using subsetD [OF adoptLoop_closed_owner [OF two [unfolded adopt_def]] i(2)] by auto
    show False using open2 [OF own [OF x(1)]] x(2,3) i(1) by simp
  qed
  then have "pc_entry ` set ps1 \<inter> pc_entry ` set ps2 = {}" by blast
  then show ?thesis using first by (simp add: fresh_def list_all_iff)
qed

subsection \<open>Two sessions\<close>

definition leftEntry :: "string \<Rightarrow> int \<Rightarrow> string \<Rightarrow> regEntry" where
  "leftEntry i pid owner = \<lparr>re_ID = i, re_PID = pid, re_Cmd = ''serve'', re_Workdir = ''/w'', re_Started = 0, re_StartToken = ''t'',
     re_Owner = owner, re_OwnerPID = 100, re_OwnerStart = ''s''\<rparr>"

definition leftReg :: registry where
  "leftReg = \<lparr>rg_dir = ''/r'', rg_entries = [leftEntry ''a'' 5 ''gone'', leftEntry ''b'' 6 ''gone'', leftEntry ''c'' 5 ''other''], rg_exit = (\<lambda>_. None)\<rparr>"

definition leftStart :: "int \<Rightarrow> string option" where
  "leftStart pid = (if pid = 5 then Some ''t'' else if pid = 100 then Some ''s'' else None)"

definition session :: "string \<Rightarrow> procManager" where
  "session owner = \<lparr>pm_cfg = demoProcs, pm_procs = [], pm_next = 0, pm_owner = owner\<rparr>"

definition adoptIn :: "string \<Rightarrow> string set \<Rightarrow> registry \<Rightarrow> procManager \<times> registry \<times> proc list" where
  "adoptIn owner ow r = adopt leftStart 100 ow (\<lambda>_. ''log'') (\<lambda>_. True) (session owner) r"

theorem detached_processes_adopted_once_witness:
  "map pc_entry (snd (snd (adoptIn ''one'' {''one'', ''other''} leftReg))) = [''a''] \<and>
   pc_entry ` set (snd (snd (adoptIn ''one'' {''one'', ''other''} leftReg))) \<inter>
     pc_entry ` set (snd (snd (adoptIn ''two'' {''one'', ''two'', ''other''} (fst (snd (adoptIn ''one'' {''one'', ''other''} leftReg)))))) = {}"
proof -
  obtain m1' r1 ps1 where one: "adoptIn ''one'' {''one'', ''other''} leftReg = (m1', r1, ps1)" using prod_cases3 by blast
  obtain m2' r2 ps2 where two: "adoptIn ''two'' {''one'', ''two'', ''other''} r1 = (m2', r2, ps2)" using prod_cases3 by blast
  have ids: "distinct (map re_ID (rg_entries leftReg))" "\<forall>e\<in>set (rg_entries leftReg). re_ID e \<noteq> [] \<and> re_PID e > 0"
    by (simp_all add: leftReg_def leftEntry_def)
  have "filter (adoptable leftStart 100 {''one'', ''other''} (\<lambda>_. True) leftReg) (rg_entries leftReg) = [leftEntry ''a'' 5 ''gone'']"
    by (simp add: leftReg_def leftEntry_def adoptable_def ownerOpen_def alive_def leftStart_def regExitCode_def)
  then show ?thesis
    using detached_processes_adopted_once [OF one [unfolded adoptIn_def] two [unfolded adoptIn_def] ids] one two
    by (auto simp: leftEntry_def session_def)
qed

section \<open>Judging the process tools\<close>

text \<open>
  A detached command is judged at least as strictly as the same command in the shell tool: what the rules
  forbid stays forbidden, and all else asks. Typing into a process asks; only reading its output does not.
\<close>

lemma classifyProcs_exec:
  assumes "tc_Name (ti_Call info) = ''exec_command''" "decE (tc_Args (ti_Call info)) = Some a" "ea_Cmd a \<noteq> []"
  shows "\<exists>c. classifyProcs decE decW True bash rules info = Some c \<and>
    (let d = cc_Disposition (classify rules (shellArgv bash (ea_Cmd a)))
     in if ea_Detach a \<and> d \<noteq> DispositionForbidden then cc_Disposition c = DispositionDestructive else cc_Disposition c = d)"
  using assms by (auto simp: classifyProcs_def Let_def)

text \<open>A command string is read as the script of a shell, so the rules judge every command in it.\<close>

lemma shellArgv_script: "length (shellArgv bash cmd) = 3 \<and> last (shellArgv bash cmd) = cmd"
  by (simp add: shellArgv_def)

lemma forbidden_exec_never_runs:
  assumes "ta_classify t = Some (\<lambda>i w. classifyProcs decE decW True bash rules i)"
    and "tc_Name (ti_Call info) = ''exec_command''" "decE (tc_Args (ti_Call info)) = Some a" "ea_Cmd a \<noteq> []"
    and "commandsOf (shellArgv bash (ea_Cmd a)) = Some cmds" "list_ex (decidedBy rules Forbidden) cmds"
  shows "neverDispatched t info w"
proof -
  have d: "cc_Disposition (classify rules (shellArgv bash (ea_Cmd a))) = DispositionForbidden"
    using assms(5,6) by (simp add: classify_disposition scriptDisposition_def)
  obtain c where "classifyProcs decE decW True bash rules info = Some c" "cc_Disposition c = DispositionForbidden"
    using classifyProcs_exec [of info decE a decW bash rules] assms(2,3,4) d by (auto simp: Let_def)
  then show ?thesis using assms(1) by (intro forbidden_neverDispatched) (auto simp: verdictOf_def)
qed

end
