(* ===== verification/SkillGrants.thy ===== *)
theory SkillGrants
  imports ExecTools
begin

text \<open>
  Tools a skill asks to use without asking, \<^verbatim>\<open>src/host/skillgrants.go\<close>, with the lookup and the approval key of
  \<^verbatim>\<open>src/host/skills.go\<close>: reading the list of tools, which calls a grant covers, and when a skill's grants become
  active. A person is asked, answers, and the model loads the skill, while servers may list their skills anew at
  any time; a run is any sequence of these steps. JSON decoding is a parameter.
\<close>

subsection \<open>Grants\<close>

record skillGrant =
  sg_tool :: string
  sg_argv :: "string list"
  sg_any :: bool

definition grantString :: "skillGrant \<Rightarrow> string" where
  "grantString g =
     (if sg_argv g = [] then sg_tool g
      else sg_tool g @ '': '' @ strJoin (sg_argv g) '' '' @ (if sg_any g then '' *'' else []))"

text \<open>The loop over the words: the first is compared by its base name.\<close>

definition argvMatches :: "string list \<Rightarrow> string list \<Rightarrow> bool" where
  "argvMatches ws cmd \<longleftrightarrow> list_all (\<lambda>i. (if i = 0 then filepathBase (cmd ! i) else cmd ! i) = ws ! i) [0..<length ws]"

definition grantMatches :: "(rawjson \<Rightarrow> string list option) \<Rightarrow> skillGrant \<Rightarrow> toolCall \<Rightarrow> bool" where
  "grantMatches dec g call \<longleftrightarrow>
     (if tc_Name call \<noteq> sg_tool g then False
      else if sg_argv g = [] then True
      else case dec (tc_Args call) of
             None \<Rightarrow> False
           | Some cmd \<Rightarrow>
               if length cmd < length (sg_argv g) then False
               else if \<not> sg_any g \<and> length cmd \<noteq> length (sg_argv g) then False
               else argvMatches (sg_argv g) cmd)"

definition claudeTools :: "(string \<times> string list) list" where
  "claudeTools = [(''Bash'', [''shell'']), (''Read'', [''read_file'']), (''Write'', [''write_file'']),
     (''Edit'', [''edit_file'', ''apply_patch'']), (''MultiEdit'', [''edit_file'', ''apply_patch'']),
     (''Glob'', [''list_files'']), (''Grep'', [''search_files''])]"

text \<open>\<^verbatim>\<open>strings.Fields\<close>: the parts between runs of white space.\<close>

function fieldsFrom :: "string \<Rightarrow> string \<Rightarrow> string list" where
  "fieldsFrom [] cur = (if cur = [] then [] else [cur])"
| "fieldsFrom (c # s) cur =
     (case find (hasPrefix (c # s)) space_seqs of
        Some q \<Rightarrow> (if cur = [] then [] else [cur]) @ fieldsFrom (drop (max 1 (length q)) (c # s)) []
      | None \<Rightarrow> fieldsFrom s (cur @ [c]))"
  by pat_completeness auto
termination by (relation "measure (\<lambda>(s, _). length s)") auto

definition goFields :: "string \<Rightarrow> string list" where
  "goFields s = fieldsFrom s []"

definition bashGrant :: "string \<Rightarrow> skillGrant option" where
  "bashGrant spec0 =
     (let spec = trimSpace spec0
      in if spec = ''*'' \<or> spec = [] then Some \<lparr>sg_tool = ''shell'', sg_argv = [], sg_any = True\<rparr>
         else (let any = (hasSuffix spec '':*'' \<or> hasSuffix spec '' *'');
                   argv = goFields (if any then take (length spec - 2) spec else spec)
               in if argv = [] \<or> list_ex (\<lambda>w. CHR ''*'' \<in> set w \<or> CHR ''?'' \<in> set w) argv then None
                  else Some \<lparr>sg_tool = ''shell'', sg_argv = argv, sg_any = any\<rparr>))"

text \<open>Commas and blanks outside parentheses separate entries. The separators are ASCII, so bytes do for runes.\<close>

fun splitAllowed :: "string \<Rightarrow> nat \<Rightarrow> string \<Rightarrow> string list" where
  "splitAllowed [] depth cur = (if trimSpace cur = [] then [] else [trimSpace cur])"
| "splitAllowed (r # s) depth cur =
     (if r = CHR ''('' then splitAllowed s (Suc depth) (cur @ [r])
      else if r = CHR '')'' \<and> depth > 0 then splitAllowed s (depth - 1) (cur @ [r])
      else if depth = 0 \<and> r \<in> set [CHR '','', CHR '' '', CHR 0x09, CHR 0x0A]
        then (if trimSpace cur = [] then [] else [trimSpace cur]) @ splitAllowed s depth []
      else splitAllowed s depth (cur @ [r]))"

definition splitAllowedTools :: "string \<Rightarrow> string list" where
  "splitAllowedTools s = splitAllowed s 0 []"

text \<open>One entry: its grants, or \<open>None\<close> when it is ignored.\<close>

definition entryGrants :: "string \<Rightarrow> skillGrant list option" where
  "entryGrants entry =
     (case strIndex entry ''('' of
        Some i \<Rightarrow>
          (let name = take i entry; spec = drop (Suc i) entry
           in if name \<noteq> ''Bash'' \<or> \<not> hasSuffix spec '')'' then None
              else map_option (\<lambda>g. [g]) (bashGrant (butlast spec)))
      | None \<Rightarrow>
          (case map_of claudeTools entry of
             Some tools \<Rightarrow> Some (map (\<lambda>t. \<lparr>sg_tool = t, sg_argv = [], sg_any = True\<rparr>) tools)
           | None \<Rightarrow> if nameRE entry then Some [\<lparr>sg_tool = entry, sg_argv = [], sg_any = True\<rparr>] else None))"

definition parseSkillGrants :: "string \<Rightarrow> skillGrant list \<times> string list" where
  "parseSkillGrants s =
     (let es = splitAllowedTools s
      in (concat (map (\<lambda>e. case entryGrants e of Some gs \<Rightarrow> gs | None \<Rightarrow> []) es), filter (\<lambda>e. entryGrants e = None) es))"

subsection \<open>The catalog\<close>

text \<open>A skill as a source lists it; \<open>se_Allowed\<close> is its list of tools, \<open>ck_own\<close> marks the user's own folder.\<close>

record skillEntry =
  se_Name :: string
  se_URI :: string
  se_Dynamic :: bool
  se_Files :: "(string \<times> string) list"
  se_Allowed :: string

record catalogSkill =
  ck_server :: string
  ck_entry :: skillEntry
  ck_own :: bool

definition catalogMatches :: "catalogSkill list \<Rightarrow> string \<Rightarrow> string \<Rightarrow> catalogSkill list" where
  "catalogMatches cat name server =
     filter (\<lambda>c. (server = [] \<or> ck_server c = server) \<and> (se_Name (ck_entry c) = name \<or> se_URI (ck_entry c) = name)) cat"

definition resolveCatalogSkill :: "catalogSkill list \<Rightarrow> string \<Rightarrow> string \<Rightarrow> catalogSkill option \<times> string list" where
  "resolveCatalogSkill cat name server =
     (let ms = catalogMatches cat name server
      in if ms = [] then (None, [])
         else if length ms = 1 then (Some (hd ms), [])
         else (None, sort (rev (remdups (rev (map ck_server ms))))))"

definition nul :: char where "nul = CHR 0x00"

definition skillApprovalKey :: "catalogSkill \<Rightarrow> string option" where
  "skillApprovalKey m =
     (if se_Dynamic (ck_entry m) then None
      else Some (''load_skill'' @ [nul] @ ck_server m @ [nul] @ se_URI (ck_entry m) @ [nul] @
             strJoin (sort (map (\<lambda>(u, d). u @ '' '' @ d) (se_Files (ck_entry m)))) [nul]))"

record skillGrants =
  gr_approved :: "string list"
  gr_active :: "skillGrant list"

definition grantsEndTurn :: "skillGrants \<Rightarrow> skillGrants" where
  "grantsEndTurn s = s\<lparr>gr_active := []\<rparr>"

definition grantsCover :: "(rawjson \<Rightarrow> string list option) \<Rightarrow> skillGrants \<Rightarrow> toolCall \<Rightarrow> bool" where
  "grantsCover dec s call \<longleftrightarrow> list_ex (\<lambda>g. grantMatches dec g call) (gr_active s)"

record loadSkillArgs =
  ls_Name :: string
  ls_Server :: string

text \<open>The skill a call names, with its grants; \<open>decL\<close> decodes the arguments of the call.\<close>

definition loadSkillGrants ::
  "(rawjson \<Rightarrow> loadSkillArgs option) \<Rightarrow> catalogSkill list \<Rightarrow> toolCallInfo \<Rightarrow> (catalogSkill \<times> skillGrant list \<times> string list) option" where
  "loadSkillGrants decL cat info =
     (if tc_Name (ti_Call info) \<noteq> ''load_skill'' then None
      else case decL (tc_Args (ti_Call info)) of
             None \<Rightarrow> None
           | Some a \<Rightarrow>
               (case fst (resolveCatalogSkill cat (trimSpace (ls_Name a)) (trimSpace (ls_Server a))) of
                  None \<Rightarrow> None
                | Some m \<Rightarrow>
                    (case parseSkillGrants (se_Allowed (ck_entry m)) of
                       (gs, ig) \<Rightarrow> if gs \<noteq> [] \<or> ig \<noteq> [] then Some (m, gs, ig) else None)))"

definition classifySkillLoad :: "(rawjson \<Rightarrow> loadSkillArgs option) \<Rightarrow> catalogSkill list \<Rightarrow> toolCallInfo \<Rightarrow> callClass option" where
  "classifySkillLoad decL cat info =
     (case loadSkillGrants decL cat info of
        None \<Rightarrow> None
      | Some (m, gs, ig) \<Rightarrow>
          if gs = [] \<or> ck_own m then None
          else Some \<lparr>cc_Disposition = DispositionDestructive, cc_Key = (case skillApprovalKey m of Some k \<Rightarrow> k | None \<Rightarrow> []), cc_Reason = []\<rparr>)"

text \<open>The question for a load, after the usual words of it.\<close>

definition renderSkillLoad :: "(toolCallInfo \<Rightarrow> string) \<Rightarrow> (rawjson \<Rightarrow> loadSkillArgs option) \<Rightarrow> catalogSkill list \<Rightarrow> toolCallInfo \<Rightarrow> string option" where
  "renderSkillLoad prompt decL cat info =
     (case loadSkillGrants decL cat info of
        None \<Rightarrow> None
      | Some (m, gs, ig) \<Rightarrow>
          Some (prompt info @
            (if gs \<noteq> [] then '' Approving also lets these run without asking for the rest of this turn: '' @
               strJoin (map grantString gs) '', '' @ ''.'' else []) @
            (if ig \<noteq> [] then '' Not granted, since chakra has no matching tool: '' @ strJoin ig '', '' @ ''.'' else [])))"

definition noteApprovedSkillLoad ::
  "(rawjson \<Rightarrow> loadSkillArgs option) \<Rightarrow> catalogSkill list \<Rightarrow> toolCallInfo \<Rightarrow> skillGrants \<Rightarrow> skillGrants" where
  "noteApprovedSkillLoad decL cat info s =
     (case loadSkillGrants decL cat info of
        None \<Rightarrow> s
      | Some (m, gs, ig) \<Rightarrow>
          if gs = [] then s
          else case skillApprovalKey m of Some k \<Rightarrow> s\<lparr>gr_approved := List.insert k (gr_approved s)\<rparr> | None \<Rightarrow> s)"

definition grantSkill :: "catalogSkill \<Rightarrow> skillGrants \<Rightarrow> string \<times> skillGrants" where
  "grantSkill m s =
     (let gs = fst (parseSkillGrants (se_Allowed (ck_entry m)));
          ok = (ck_own m \<or> (case skillApprovalKey m of Some k \<Rightarrow> k \<in> set (gr_approved s) | None \<Rightarrow> False))
      in if gs = [] \<or> \<not> ok then ([], s)
         else (''[granted for the rest of this turn, without asking: '' @ strJoin (map grantString gs) '', '' @ '']'',
               s\<lparr>gr_active := gr_active s @ gs\<rparr>))"

subsection \<open>A session\<close>

text \<open>
  \<open>ss_asked\<close> is the pending question with what it showed, \<open>ss_yes\<close> the skills a person agreed to as they were
  shown, \<open>ss_loaded\<close> the skills loaded in this turn.
\<close>

record skillSession =
  ss_grants :: skillGrants
  ss_catalog :: "catalogSkill list"
  ss_asked :: "(toolCallInfo \<times> catalogSkill option) option"
  ss_yes :: "catalogSkill list"
  ss_loaded :: "catalogSkill list"

datatype skillStep = Relist "catalogSkill list" | Ask toolCallInfo | Answer bool | LoadSkill string string | TurnOver

fun skillDo :: "(rawjson \<Rightarrow> loadSkillArgs option) \<Rightarrow> skillStep \<Rightarrow> skillSession \<Rightarrow> skillSession" where
  "skillDo decL (Relist cat) y = y\<lparr>ss_catalog := cat\<rparr>"
| "skillDo decL (Ask info) y = y\<lparr>ss_asked := Some (info, map_option fst (loadSkillGrants decL (ss_catalog y) info))\<rparr>"
| "skillDo decL (Answer ok) y =
     (case ss_asked y of
        None \<Rightarrow> y
      | Some (info, shown) \<Rightarrow>
          if ok then y\<lparr>ss_asked := None, ss_grants := noteApprovedSkillLoad decL (ss_catalog y) info (ss_grants y),
                       ss_yes := ss_yes y @ (case shown of Some m \<Rightarrow> [m] | None \<Rightarrow> [])\<rparr>
          else y\<lparr>ss_asked := None\<rparr>)"
| "skillDo decL (LoadSkill name server) y =
     (case fst (resolveCatalogSkill (ss_catalog y) (trimSpace name) (trimSpace server)) of
        None \<Rightarrow> y
      | Some m \<Rightarrow> y\<lparr>ss_grants := snd (grantSkill m (ss_grants y)), ss_loaded := ss_loaded y @ [m]\<rparr>)"
| "skillDo decL TurnOver y = y\<lparr>ss_grants := grantsEndTurn (ss_grants y), ss_loaded := []\<rparr>"

definition newSkillSession :: skillSession where
  "newSkillSession = \<lparr>ss_grants = \<lparr>gr_approved = [], gr_active = []\<rparr>, ss_catalog = [], ss_asked = None, ss_yes = [], ss_loaded = []\<rparr>"

text \<open>No source lists its skills anew while a question is open.\<close>

fun quiet :: "bool \<Rightarrow> skillStep list \<Rightarrow> bool" where
  "quiet p [] \<longleftrightarrow> True"
| "quiet p (Relist c # ss) \<longleftrightarrow> \<not> p \<and> quiet p ss"
| "quiet p (Ask i # ss) \<longleftrightarrow> quiet True ss"
| "quiet p (Answer b # ss) \<longleftrightarrow> quiet False ss"
| "quiet p (LoadSkill n s # ss) \<longleftrightarrow> quiet p ss"
| "quiet p (TurnOver # ss) \<longleftrightarrow> quiet p ss"

section \<open>A grant needs consent\<close>

definition agreed :: "skillSession \<Rightarrow> string \<Rightarrow> bool" where
  "agreed y k \<longleftrightarrow> list_ex (\<lambda>m. skillApprovalKey m = Some k) (ss_yes y)"

definition mayGrant :: "skillSession \<Rightarrow> catalogSkill \<Rightarrow> bool" where
  "mayGrant y m \<longleftrightarrow> ck_own m \<or> (case skillApprovalKey m of None \<Rightarrow> False | Some k \<Rightarrow> agreed y k)"

definition grantsOf :: "catalogSkill \<Rightarrow> skillGrant list" where
  "grantsOf m = fst (parseSkillGrants (se_Allowed (ck_entry m)))"

definition skillInv :: "(rawjson \<Rightarrow> loadSkillArgs option) \<Rightarrow> skillSession \<Rightarrow> bool" where
  "skillInv decL y \<longleftrightarrow>
     list_all (agreed y) (gr_approved (ss_grants y)) \<and>
     list_all (\<lambda>g. list_ex (\<lambda>m. g \<in> set (grantsOf m) \<and> mayGrant y m) (ss_loaded y)) (gr_active (ss_grants y)) \<and>
     (case ss_asked y of None \<Rightarrow> True | Some (info, shown) \<Rightarrow> shown = map_option fst (loadSkillGrants decL (ss_catalog y) info))"

lemma agreed_mono: "set (ss_yes y) \<subseteq> set (ss_yes y') \<Longrightarrow> agreed y k \<Longrightarrow> agreed y' k"
  by (auto simp: agreed_def list_ex_iff)

lemma mayGrant_mono: "set (ss_yes y) \<subseteq> set (ss_yes y') \<Longrightarrow> mayGrant y m \<Longrightarrow> mayGrant y' m"
  using agreed_mono by (auto simp: mayGrant_def split: option.splits)

lemma agreed_same:
  assumes "ss_yes y' = ss_yes y"
  shows "agreed y' = agreed y" "mayGrant y' = mayGrant y"
proof -
  show a: "agreed y' = agreed y" using assms by (simp add: agreed_def fun_eq_iff)
  then have "mayGrant y' m = mayGrant y m" for m unfolding mayGrant_def by (simp only: a)
  then show "mayGrant y' = mayGrant y" by blast
qed

lemma active_mono:
  assumes "set (ss_yes y) \<subseteq> set (ss_yes y')" "set (ss_loaded y) \<subseteq> set (ss_loaded y')"
    and "list_all (\<lambda>g. list_ex (\<lambda>m. g \<in> set (grantsOf m) \<and> mayGrant y m) (ss_loaded y)) gs"
  shows "list_all (\<lambda>g. list_ex (\<lambda>m. g \<in> set (grantsOf m) \<and> mayGrant y' m) (ss_loaded y')) gs"
  using assms mayGrant_mono [OF assms(1)] unfolding list_all_iff list_ex_iff by blast

lemma noteApproved_cases:
  "noteApprovedSkillLoad decL cat info s = s \<or>
   (\<exists>m k. map_option fst (loadSkillGrants decL cat info) = Some m \<and> skillApprovalKey m = Some k \<and>
      noteApprovedSkillLoad decL cat info s = s\<lparr>gr_approved := List.insert k (gr_approved s)\<rparr>)"
  by (auto simp: noteApprovedSkillLoad_def split: option.splits)

lemma grantSkill_cases:
  "snd (grantSkill m s) = s \<or>
   (ck_own m \<or> (\<exists>k. skillApprovalKey m = Some k \<and> k \<in> set (gr_approved s))) \<and>
     snd (grantSkill m s) = s\<lparr>gr_active := gr_active s @ grantsOf m\<rparr>"
  by (auto simp: grantSkill_def grantsOf_def Let_def split: option.splits)

lemma skillInv_answer:
  assumes "skillInv decL y"
  shows "skillInv decL (skillDo decL (Answer ok) y)"
proof (cases "ss_asked y")
  case None
  then show ?thesis using assms by simp
next
  case (Some a)
  then obtain info shown where a: "ss_asked y = Some (info, shown)" "shown = map_option fst (loadSkillGrants decL (ss_catalog y) info)"
    using assms by (cases a) (auto simp: skillInv_def)
  let ?y = "skillDo decL (Answer ok) y"
  have yes: "set (ss_yes y) \<subseteq> set (ss_yes ?y)" "ss_loaded ?y = ss_loaded y" "ss_asked ?y = None"
    "gr_active (ss_grants ?y) = gr_active (ss_grants y)"
    using a(1) noteApproved_cases [of decL "ss_catalog y" info "ss_grants y"] by (auto split: option.splits)
  have "list_all (agreed ?y) (gr_approved (ss_grants y))"
    using assms agreed_mono [OF yes(1)] by (auto simp: skillInv_def list_all_iff)
  moreover have "agreed ?y k" if "ok" "shown = Some m" "skillApprovalKey m = Some k" for m k
    using a(1) that by (simp add: agreed_def)
  ultimately have "list_all (agreed ?y) (gr_approved (ss_grants ?y))"
    using a noteApproved_cases [of decL "ss_catalog y" info "ss_grants y"] by (cases ok) (auto simp: list_all_iff)
  then show ?thesis
    using active_mono [of y ?y "gr_active (ss_grants y)"] assms yes by (simp add: skillInv_def)
qed

lemma skillInv_load:
  assumes "skillInv decL y"
  shows "skillInv decL (skillDo decL (LoadSkill name server) y)"
proof (cases "fst (resolveCatalogSkill (ss_catalog y) (trimSpace name) (trimSpace server))")
  case (Some m)
  define z where "z = y\<lparr>ss_grants := snd (grantSkill m (ss_grants y)), ss_loaded := ss_loaded y @ [m]\<rparr>"
  have do1: "skillDo decL (LoadSkill name server) y = z" using Some by (simp add: z_def)
  have ag: "agreed z = agreed y" "mayGrant z = mayGrant y" by (rule agreed_same; simp add: z_def)+
  have old: "list_all (\<lambda>g. list_ex (\<lambda>m. g \<in> set (grantsOf m) \<and> mayGrant z m) (ss_loaded z)) (gr_active (ss_grants y))"
    by (rule active_mono [of y]) (use assms in \<open>auto simp: skillInv_def z_def\<close>)
  have "mayGrant y m" if "ck_own m \<or> (\<exists>k. skillApprovalKey m = Some k \<and> k \<in> set (gr_approved (ss_grants y)))"
    using that assms by (auto simp: mayGrant_def skillInv_def list_all_iff)
  then have "list_all (\<lambda>g. list_ex (\<lambda>m. g \<in> set (grantsOf m) \<and> mayGrant z m) (ss_loaded z)) (gr_active (ss_grants z))"
    using grantSkill_cases [of m "ss_grants y"] old ag by (auto simp: z_def list_all_iff)
  moreover have "gr_approved (ss_grants z) = gr_approved (ss_grants y)"
    using grantSkill_cases [of m "ss_grants y"] by (auto simp: z_def)
  moreover have "ss_asked z = ss_asked y" "ss_catalog z = ss_catalog y" by (simp_all add: z_def)
  ultimately show ?thesis using assms ag unfolding skillInv_def do1 by (auto split: option.splits)
qed (use assms in simp)

lemma skillInv_run:
  "quiet p steps \<Longrightarrow> skillInv decL y \<Longrightarrow> (ss_asked y \<noteq> None \<longrightarrow> p) \<Longrightarrow> skillInv decL (fold (skillDo decL) steps y)"
proof (induction steps arbitrary: p y)
  case (Cons s steps)
  show ?case
  proof (cases s)
    case (Relist cat)
    then have "ss_asked y = None" using Cons.prems(1,3) by (metis quiet.simps(2))
    then have "skillInv decL (skillDo decL s y)"
      using Cons.prems(2) Relist agreed_same [of "skillDo decL s y" y] by (simp add: skillInv_def)
    moreover have "ss_asked (skillDo decL s y) = None" using \<open>ss_asked y = None\<close> Relist by simp
    ultimately show ?thesis using Cons.IH [of p "skillDo decL s y"] Cons.prems(1) Relist by auto
  next
    case (Ask info)
    then have "skillInv decL (skillDo decL s y)"
      using Cons.prems(2) agreed_same [of "skillDo decL s y" y] by (simp add: skillInv_def)
    then show ?thesis using Cons.IH [of True] Cons.prems Ask by simp
  next
    case (Answer ok)
    then show ?thesis using Cons.IH [of False "skillDo decL s y"] Cons.prems skillInv_answer
      by (auto split: option.splits)
  next
    case (LoadSkill n sv)
    then show ?thesis using Cons.IH [of p "skillDo decL s y"] Cons.prems skillInv_load by (auto split: option.splits)
  next
    case TurnOver
    then have "skillInv decL (skillDo decL s y)"
      using Cons.prems(2) agreed_same [of "skillDo decL s y" y] by (auto simp: skillInv_def grantsEndTurn_def split: option.splits)
    then show ?thesis using Cons.IH [of p] Cons.prems TurnOver by simp
  qed
qed simp

lemma skillInv_new: "skillInv decL newSkillSession"
  by (simp add: skillInv_def newSkillSession_def)

text \<open>
  C38: a skill gives a tool away only with consent. As long as no source lists its skills anew while a question
  is open, a call that runs on a skill's grant is covered by a grant of a skill loaded in the same turn, and
  that skill is from the user's own folder or has the approval key (its source, its name and the digests of its
  files) of a skill a person agreed to load.
\<close>

theorem skill_grants_need_consent:
  assumes "quiet False steps" "y = fold (skillDo decL) steps newSkillSession" "grantsCover dec (ss_grants y) call"
  shows "\<exists>m\<in>set (ss_loaded y). \<exists>g\<in>set (grantsOf m). grantMatches dec g call \<and>
    (ck_own m \<or> (\<exists>k. skillApprovalKey m = Some k \<and> (\<exists>m'\<in>set (ss_yes y). skillApprovalKey m' = Some k)))"
proof -
  have "skillInv decL y" unfolding assms(2) by (rule skillInv_run [OF assms(1) skillInv_new]) (simp add: newSkillSession_def)
  moreover obtain g where g: "g \<in> set (gr_active (ss_grants y))" "grantMatches dec g call"
    using assms(3) by (auto simp: grantsCover_def list_ex_iff)
  ultimately obtain m where "m \<in> set (ss_loaded y)" "g \<in> set (grantsOf m)" "mayGrant y m"
    by (auto simp: skillInv_def list_all_iff list_ex_iff)
  then show ?thesis using g(2) by (fastforce simp: mayGrant_def agreed_def list_ex_iff split: option.splits)
qed

subsection \<open>What a key binds\<close>

text \<open>
  The key fixes the source, the name and the files of a skill, when none of them holds the separator. It does
  not fix the list of tools the source reports for the skill.
\<close>

lemma strJoin_nul_inject:
  assumes "list_all (\<lambda>x. nul \<notin> set x) xs" "list_all (\<lambda>x. nul \<notin> set x) ys" "xs \<noteq> []" "ys \<noteq> []" "strJoin xs [nul] = strJoin ys [nul]"
  shows "xs = ys"
  using strSplit_strJoin [OF assms(3,1)] strSplit_strJoin [OF assms(4,2)] assms(5) by metis

lemma cut_at_nul: "nul \<notin> set a \<Longrightarrow> nul \<notin> set b \<Longrightarrow> a @ nul # x = b @ nul # y \<Longrightarrow> a = b \<and> x = y"
proof -
  assume a: "nul \<notin> set a" and b: "nul \<notin> set b" and e: "a @ nul # x = b @ nul # y"
  have "takeWhile (\<lambda>c. c \<noteq> nul) (z @ nul # w) = z" if "nul \<notin> set z" for z w
    using that by (subst takeWhile_append2) auto
  with a b e have "a = b" by metis
  with e show ?thesis by simp
qed

definition plainSkill :: "catalogSkill \<Rightarrow> bool" where
  "plainSkill m \<longleftrightarrow> nul \<notin> set (ck_server m) \<and> nul \<notin> set (se_URI (ck_entry m)) \<and> se_Files (ck_entry m) \<noteq> [] \<and>
     list_all (\<lambda>(u, d). nul \<notin> set u \<and> nul \<notin> set d) (se_Files (ck_entry m))"

definition fileLines1 :: "catalogSkill \<Rightarrow> string list" where
  "fileLines1 m = sort (map (\<lambda>(u, d). u @ '' '' @ d) (se_Files (ck_entry m)))"

lemma approval_key_binds_files:
  assumes "skillApprovalKey m = Some k" "skillApprovalKey m' = Some k" "plainSkill m" "plainSkill m'"
  shows "ck_server m = ck_server m' \<and> se_URI (ck_entry m) = se_URI (ck_entry m') \<and> fileLines1 m = fileLines1 m'"
proof -
  have key: "ck_server m @ nul # se_URI (ck_entry m) @ nul # strJoin (fileLines1 m) [nul] =
      ck_server m' @ nul # se_URI (ck_entry m') @ nul # strJoin (fileLines1 m') [nul]"
    using assms(1,2) by (auto simp: skillApprovalKey_def fileLines1_def split: if_splits)
  have plain: "list_all (\<lambda>x. nul \<notin> set x) (fileLines1 n)" "fileLines1 n \<noteq> []" if "plainSkill n" for n
  proof -
    show "list_all (\<lambda>x. nul \<notin> set x) (fileLines1 n)"
      using that by (auto simp: plainSkill_def fileLines1_def list_all_iff nul_def)
    have "length (fileLines1 n) = length (se_Files (ck_entry n))" by (simp add: fileLines1_def)
    then show "fileLines1 n \<noteq> []" using that by (auto simp: plainSkill_def)
  qed
  have s: "nul \<notin> set (ck_server m)" "nul \<notin> set (ck_server m')" "nul \<notin> set (se_URI (ck_entry m))" "nul \<notin> set (se_URI (ck_entry m'))"
    using assms(3,4) by (auto simp: plainSkill_def)
  note c1 = cut_at_nul [OF s(1,2) key]
  note c2 = cut_at_nul [OF s(3,4) c1 [THEN conjunct2]]
  show ?thesis using c1 c2 strJoin_nul_inject [OF plain(1) [OF assms(3)] plain(1) [OF assms(4)] plain(2) [OF assms(3)] plain(2) [OF assms(4)]] by simp
qed

subsection \<open>Concrete skills\<close>

definition demoSkill :: "string \<Rightarrow> string \<Rightarrow> catalogSkill" where
  "demoSkill digest tools = \<lparr>ck_server = ''repo'', ck_entry = \<lparr>se_Name = ''release'', se_URI = ''skill://release'', se_Dynamic = False,
     se_Files = [(''SKILL.md'', digest)], se_Allowed = tools\<rparr>, ck_own = False\<rparr>"

definition demoLoad :: toolCallInfo where
  "demoLoad = callInfo ''load_skill''"

definition demoDecL :: "rawjson \<Rightarrow> loadSkillArgs option" where
  "demoDecL _ = Some \<lparr>ls_Name = ''release'', ls_Server = []\<rparr>"

definition demoTagCall :: "string list \<Rightarrow> toolCall" where
  "demoTagCall cmd = \<lparr>tc_ID = [], tc_Name = ''shell'', tc_Args = strJoin cmd '' ''\<rparr>"

definition demoSteps :: "skillStep list" where
  "demoSteps = [Relist [demoSkill ''d1'' ''Bash(git tag *), Read''], Ask demoLoad, Answer True, LoadSkill ''release'' []]"

definition demoDecCmd :: "rawjson \<Rightarrow> string list option" where
  "demoDecCmd s = Some (strSplit (CHR '' '') s)"

lemma demo_covers:
  "grantsCover demoDecCmd (ss_grants (fold (skillDo demoDecL) demoSteps newSkillSession)) (demoTagCall [''/usr/bin/git'', ''tag'', ''v1''])"
  by code_simp

lemma demo_not_covered:
  "\<not> grantsCover demoDecCmd (ss_grants (fold (skillDo demoDecL) demoSteps newSkillSession)) (demoTagCall [''git'', ''push''])"
  by code_simp

theorem skill_grants_need_consent_witness:
  "\<exists>m\<in>set (ss_loaded (fold (skillDo demoDecL) demoSteps newSkillSession)).
     \<exists>g\<in>set (grantsOf m). grantMatches demoDecCmd g (demoTagCall [''/usr/bin/git'', ''tag'', ''v1''])"
  using skill_grants_need_consent [OF _ refl demo_covers] by (auto simp: demoSteps_def)

text \<open>
  A skill listed anew while the question is open is approved in its new version, which nobody was shown. And a
  source that reports other tools for the same files keeps the approval.
\<close>

lemma relisted_skill_approved_unseen:
  "(let y = fold (skillDo demoDecL) [Relist [demoSkill ''d1'' ''Read''], Ask demoLoad, Relist [demoSkill ''d2'' ''Bash''], Answer True, LoadSkill ''release'' []]
       newSkillSession
    in grantsCover demoDecCmd (ss_grants y) (demoTagCall [''rm'', ''-rf'', ''x'']) \<and>
       map (\<lambda>m. se_Allowed (ck_entry m)) (ss_yes y) = [''Read''])"
  by code_simp

lemma same_files_other_tools_approved:
  "(let y = fold (skillDo demoDecL) [Relist [demoSkill ''d1'' ''Read''], Ask demoLoad, Answer True, Relist [demoSkill ''d1'' ''Bash''], LoadSkill ''release'' []]
       newSkillSession
    in grantsCover demoDecCmd (ss_grants y) (demoTagCall [''rm'', ''-rf'', ''x'']) \<and>
       map (\<lambda>m. se_Allowed (ck_entry m)) (ss_yes y) = [''Read''])"
  by code_simp

end
