(* ===== verification/HostSession.thy ===== *)
theory HostSession
  imports SkillGrants Triggers RunStore Runner
begin

text \<open>
  A session of the host: the turns of a user, the input a user sends while one runs, the record of the session in
  the run store, and what a surface that joins late is shown. From \<^verbatim>\<open>src/host\<close>: \<^verbatim>\<open>app.go\<close> (the turn),
  \<^verbatim>\<open>persistence.go\<close>, \<^verbatim>\<open>steer.go\<close>, \<^verbatim>\<open>contextpipeline.go\<close>, \<^verbatim>\<open>sessionstate.go\<close>, \<^verbatim>\<open>eventspine.go\<close>, \<^verbatim>\<open>subscribe.go\<close>,
  \<^verbatim>\<open>events.go\<close> (turns a trigger starts) and \<^verbatim>\<open>extension.go\<close> (the calls around a turn). The lock of the turn makes
  turns and session commands atomic to each other; what happens inside a turn is the list \<open>tn_acts\<close>, in any order.
  The agent's turn, extensions and context stages are parameters of a turn. The run store is the one in memory,
  and any of its calls may fail (\<open>faults\<close>). The event log keeps every event. Teams are left out.
\<close>

subsection \<open>Events\<close>

datatype hostEvent =
    HRunner event
  | HUserInput string string
  | HTurnDone turnResult
  | HTurnFailed string
  | HSessionChanged string
  | HSessionWarn string
  | HTriggerFired string
  | HElicitRequest int string
  | HOther string string

text \<open>What the store keeps of an event: the end of a turn without its messages.\<close>

fun redactForPersist :: "event \<Rightarrow> event" where
  "redactForPersist (EventTurnEnd r) = EventTurnEnd (r\<lparr>res_Messages := []\<rparr>)"
| "redactForPersist e = e"

subsection \<open>Input while a turn runs\<close>

record steerQueue =
  sq_active :: bool
  sq_queue :: "string list"

definition steerBegin :: "steerQueue \<Rightarrow> steerQueue" where
  "steerBegin q = q\<lparr>sq_active := True\<rparr>"

definition steerOffer :: "string \<Rightarrow> steerQueue \<Rightarrow> bool \<times> steerQueue" where
  "steerOffer input q = (if \<not> sq_active q then (False, q) else (True, q\<lparr>sq_queue := sq_queue q @ [input]\<rparr>))"

definition steerTake :: "steerQueue \<Rightarrow> string list \<times> steerQueue" where
  "steerTake q = (sq_queue q, q\<lparr>sq_queue := []\<rparr>)"

definition steerEnd :: "steerQueue \<Rightarrow> string list \<times> steerQueue" where
  "steerEnd q = (sq_queue q, q\<lparr>sq_active := False, sq_queue := []\<rparr>)"

definition joinSteers :: "string list \<Rightarrow> string" where
  "joinSteers ss = strJoin ss [newline, newline]"

text \<open>The stage that lets the model read them in the running turn.\<close>

definition steerStage :: "message list \<Rightarrow> steerQueue \<Rightarrow> message list \<times> steerQueue" where
  "steerStage msgs q = (case steerTake q of (ss, q1) \<Rightarrow> (msgs @ map (textMessage RoleUser) ss, q1))"

subsection \<open>Context\<close>

type_synonym contextStage = "string \<times> (message list \<Rightarrow> message list)"

definition runDurable :: "contextStage list \<Rightarrow> message list \<Rightarrow> message \<Rightarrow> message list" where
  "runDurable stages prior user = fold (\<lambda>st. snd st) stages prior @ [user]"

definition runTransient :: "contextStage list \<Rightarrow> message list \<Rightarrow> message list" where
  "runTransient stages history = fold (\<lambda>st. snd st) stages history"

definition weaveBeforeUser :: "message list \<Rightarrow> string list \<Rightarrow> message list" where
  "weaveBeforeUser msgs blocks =
     (if blocks = [] \<or> msgs = [] then msgs
      else butlast msgs @ map (textMessage RoleSystem) blocks @ [last msgs])"

subsection \<open>The session\<close>

record 'w hostApp =
  ap_history :: "message list"
  ap_store :: "inMemoryRunStore option"
  ap_storeCalls :: nat
  ap_runID :: string
  ap_cursor :: string
  ap_log :: "hostEvent list"
  ap_persisted :: nat
  ap_steer :: steerQueue
  ap_grants :: skillGrants
  ap_triggers :: "'w triggerPolicy"

type_synonym storeFaults = "nat \<Rightarrow> string option"

definition hostEmit :: "hostEvent \<Rightarrow> 'w hostApp \<Rightarrow> 'w hostApp" where
  "hostEmit e a = a\<lparr>ap_log := ap_log a @ [e]\<rparr>"

text \<open>One call of the store: the error of this call, if it fails.\<close>

definition storeCall :: "storeFaults \<Rightarrow> 'w hostApp \<Rightarrow> goerr option \<times> 'w hostApp" where
  "storeCall faults a = (map_option ErrNew (faults (ap_storeCalls a)), a\<lparr>ap_storeCalls := Suc (ap_storeCalls a)\<rparr>)"

definition ensureRun :: "storeFaults \<Rightarrow> gotime \<Rightarrow> inMemoryRunStore \<Rightarrow> 'w hostApp \<Rightarrow> goerr option \<times> 'w hostApp" where
  "ensureRun faults now s a =
     (if ap_runID a \<noteq> [] then (None, a)
      else case storeCall faults a of
             (Some e, a1) \<Rightarrow> (Some (Errorf ''host: creating run: %w'' [] (Some e)), a1)
           | (None, a1) \<Rightarrow>
               (case createRun s now [] of
                  (r, s1) \<Rightarrow> (None, hostEmit (HSessionChanged (cr_RunID r)) (a1\<lparr>ap_store := Some s1, ap_runID := cr_RunID r\<rparr>))))"

definition goneText :: "string \<Rightarrow> string" where
  "goneText rid = ''run '' @ go_quote rid @ '' disappeared from the store''"

definition flushEvents :: "storeFaults \<Rightarrow> event list \<Rightarrow> 'w hostApp \<Rightarrow> 'w hostApp" where
  "flushEvents faults buf a =
     (if buf = [] then a\<lparr>ap_persisted := length (ap_log a)\<rparr>
      else case storeCall faults a of
             (Some e, a1) \<Rightarrow> hostEmit (HSessionWarn (errText e)) a1
           | (None, a1) \<Rightarrow>
               (case appendEvents (the (ap_store a1)) (ap_runID a1) buf of
                  (found, s1) \<Rightarrow>
                    if \<not> found then hostEmit (HSessionWarn (''host: '' @ goneText (ap_runID a1))) a1
                    else a1\<lparr>ap_store := Some s1, ap_persisted := length (ap_log a1)\<rparr>))"

definition persistTurn :: "storeFaults \<Rightarrow> gotime \<Rightarrow> message list \<Rightarrow> event list \<Rightarrow> 'w hostApp \<Rightarrow> 'w hostApp" where
  "persistTurn faults now msgs buf a =
     flushEvents faults buf
       (case storeCall faults a of
          (Some e, a1) \<Rightarrow> hostEmit (HSessionWarn (errText e)) a1
        | (None, a1) \<Rightarrow>
            (case appendMessages (the (ap_store a1)) now (ap_runID a1) msgs of
               (found, s1) \<Rightarrow> if found then a1\<lparr>ap_store := Some s1\<rparr> else hostEmit (HSessionWarn (goneText (ap_runID a1))) a1))"

subsection \<open>Extensions around a turn\<close>

record hostExt =
  hx_Name :: string
  hx_TurnStart :: "goerr option"
  hx_Transforms :: "(string \<Rightarrow> goerr + string) option list"

fun startExtensionTurns :: "hostExt list \<Rightarrow> goerr option" where
  "startExtensionTurns [] = None"
| "startExtensionTurns (x # xs) =
     (case hx_TurnStart x of
        Some e \<Rightarrow> Some (Errorf ''host: extension %q turn start: %w'' [hx_Name x] (Some e))
      | None \<Rightarrow> startExtensionTurns xs)"

fun applyTransforms :: "string \<Rightarrow> (string \<Rightarrow> goerr + string) option list \<Rightarrow> string \<Rightarrow> goerr + string" where
  "applyTransforms name [] input = Inr input"
| "applyTransforms name (None # fs) input = applyTransforms name fs input"
| "applyTransforms name (Some f # fs) input =
     (case f input of
        Inl e \<Rightarrow> Inl (Errorf ''host: extension %q input transform: %w'' [name] (Some e))
      | Inr out \<Rightarrow> applyTransforms name fs out)"

fun transformInput :: "hostExt list \<Rightarrow> string \<Rightarrow> goerr + string" where
  "transformInput [] input = Inr input"
| "transformInput (x # xs) input =
     (case applyTransforms (hx_Name x) (hx_Transforms x) input of Inl e \<Rightarrow> Inl e | Inr out \<Rightarrow> transformInput xs out)"

subsection \<open>A turn\<close>

text \<open>
  What happens while the agent runs: an event of the agent, input the user sends, and the stage that reads it. The
  turn ends with a result, or with an error and the messages so far.
\<close>

datatype turnAct = TEvent event | TOffer string | TDrain

datatype turnEnding = TurnOk turnResult | TurnErr "turnResult option" goerr

record turnRun =
  tn_acts :: "turnAct list"
  tn_ending :: turnEnding

record turnEnv =
  te_exts :: "hostExt list"
  te_durable :: "contextStage list"
  te_transient :: "contextStage list"
  te_run :: "message list \<Rightarrow> turnRun"
  te_now :: gotime

definition submitDuring :: "string \<Rightarrow> 'w hostApp \<Rightarrow> 'w hostApp" where
  "submitDuring input a =
     (case steerOffer input (ap_steer a) of
        (ok, q) \<Rightarrow> if ok then hostEmit (HUserInput input ''steer'') (a\<lparr>ap_steer := q\<rparr>) else a)"

fun turnActs :: "bool \<Rightarrow> turnAct list \<Rightarrow> 'w hostApp \<times> event list \<Rightarrow> 'w hostApp \<times> event list" where
  "turnActs persist [] st = st"
| "turnActs persist (TEvent e # acts) (a, buf) =
     turnActs persist acts (hostEmit (HRunner e) a, if persist then buf @ [redactForPersist e] else buf)"
| "turnActs persist (TOffer s # acts) (a, buf) = turnActs persist acts (submitDuring s a, buf)"
| "turnActs persist (TDrain # acts) (a, buf) = turnActs persist acts (a\<lparr>ap_steer := snd (steerTake (ap_steer a))\<rparr>, buf)"

definition keptError :: "goerr \<Rightarrow> bool" where
  "keptError e \<longleftrightarrow> errors_is e ErrMaxSteps \<or> errors_is e ErrContextBudget \<or> errors_is e ErrTurnStopped"

text \<open>From the assembled context to the end of the turn; \<open>persist\<close> says that there is a store.\<close>

definition turnBody :: "storeFaults \<Rightarrow> turnEnv \<Rightarrow> bool \<Rightarrow> message \<Rightarrow> 'w hostApp \<Rightarrow> goerr option \<times> 'w hostApp" where
  "turnBody faults env persist userMsg a =
     (let tr = te_run env (runTransient (te_transient env) (ap_history a))
      in case turnActs persist (tn_acts tr) (a, []) of
           (a1, buf) \<Rightarrow>
             (case tn_ending tr of
                TurnErr res e \<Rightarrow>
                  (case (if keptError e then res else None) of
                     Some r \<Rightarrow>
                       (let kept = dropUnansweredToolCalls (res_Messages r);
                            a2 = a1\<lparr>ap_history := ap_history a1 @ kept\<rparr>;
                            a3 = (if persist then persistTurn faults (te_now env) (userMsg # kept) buf a2 else a2)
                        in (Some e, hostEmit (HTurnFailed (errText e)) a3))
                   | None \<Rightarrow>
                       (let a2 = a1\<lparr>ap_history := butlast (ap_history a1)\<rparr>;
                            a3 = (if persist then flushEvents faults buf a2 else a2)
                        in (Some e, hostEmit (HTurnFailed (errText e)) a3)))
              | TurnOk r \<Rightarrow>
                  (let a2 = a1\<lparr>ap_history := ap_history a1 @ res_Messages r\<rparr>;
                       a3 = (if persist then persistTurn faults (te_now env) (userMsg # res_Messages r) buf a2 else a2)
                   in (None, hostEmit (HTurnDone r) a3))))"

definition runOneTurn :: "storeFaults \<Rightarrow> turnEnv \<Rightarrow> string \<Rightarrow> bool \<Rightarrow> 'w hostApp \<Rightarrow> string list \<times> goerr option \<times> 'w hostApp" where
  "runOneTurn faults env input announced a =
     (let a1 = a\<lparr>ap_steer := steerBegin (ap_steer a), ap_grants := grantsEndTurn (ap_grants a), ap_triggers := notifyEngagement (ap_triggers a)\<rparr>;
          a2 = (if announced then a1 else hostEmit (HUserInput input []) a1);
          failed = (\<lambda>e b. (Some e, hostEmit (HTurnFailed (errText e)) b));
          res = (case startExtensionTurns (te_exts env) of
                   Some e \<Rightarrow> failed e a2
                 | None \<Rightarrow>
                     (case transformInput (te_exts env) input of
                        Inl e \<Rightarrow> failed e a2
                      | Inr input1 \<Rightarrow>
                          (let userMsg = textMessage RoleUser input1;
                               a3 = a2\<lparr>ap_history := runDurable (te_durable env) (ap_history a2) userMsg\<rparr>
                           in case ap_store a3 of
                                None \<Rightarrow> turnBody faults env False userMsg a3
                              | Some s \<Rightarrow>
                                  (case ensureRun faults (te_now env) s a3 of
                                     (Some e, a4) \<Rightarrow> failed e (a4\<lparr>ap_history := butlast (ap_history a4)\<rparr>)
                                   | (None, a4) \<Rightarrow> turnBody faults env True userMsg a4))))
      in case res of
           (err, b) \<Rightarrow> (case steerEnd (ap_steer b) of (late, q) \<Rightarrow> (late, err, b\<lparr>ap_steer := q, ap_grants := grantsEndTurn (ap_grants b)\<rparr>)))"

text \<open>
  \<^verbatim>\<open>RunTurnWith\<close>: input that missed its turn runs as the next one. Each turn finds its own environment; \<open>None\<close> says
  that the environments ran out, so the loop has not ended.
\<close>

fun lateTurns :: "storeFaults \<Rightarrow> turnEnv list \<Rightarrow> string list \<Rightarrow> goerr option \<Rightarrow> 'w hostApp \<Rightarrow> (goerr option \<times> 'w hostApp) option" where
  "lateTurns faults envs [] err a = Some (err, a)"
| "lateTurns faults [] (s # ss) err a = None"
| "lateTurns faults (env # envs) (s # ss) err a =
     (case runOneTurn faults env (joinSteers (s # ss)) True a of
        (late, nxt, a1) \<Rightarrow> lateTurns faults envs late (case err of None \<Rightarrow> nxt | Some e \<Rightarrow> Some e) a1)"

definition runTurnWith :: "storeFaults \<Rightarrow> turnEnv \<Rightarrow> turnEnv list \<Rightarrow> string \<Rightarrow> 'w hostApp \<Rightarrow> (goerr option \<times> 'w hostApp) option" where
  "runTurnWith faults env envs input a =
     (case runOneTurn faults env input False a of (late, err, a1) \<Rightarrow> lateTurns faults envs late err a1)"

text \<open>A turn a trigger starts.\<close>

definition runProactiveTurn :: "turnEnv \<Rightarrow> string \<Rightarrow> string \<Rightarrow> 'w hostApp \<Rightarrow> 'w hostApp" where
  "runProactiveTurn env label instructions a =
     (let a1 = hostEmit (HTriggerFired label) a
      in case startExtensionTurns (te_exts env) of
           Some e \<Rightarrow> hostEmit (HTurnFailed (errText e)) a1
         | None \<Rightarrow>
             (let a2 = a1\<lparr>ap_history := runDurable (te_durable env) (ap_history a1) (textMessage RoleSystem instructions)\<rparr>;
                  tr = te_run env (ap_history a2)
              in case turnActs False (tn_acts tr) (a2, []) of
                   (a3, _) \<Rightarrow>
                     (case tn_ending tr of
                        TurnErr _ e \<Rightarrow> hostEmit (HTurnFailed (errText e)) a3
                      | TurnOk r \<Rightarrow> hostEmit (HTurnDone r) (a3\<lparr>ap_history := ap_history a3 @ res_Messages r\<rparr>))))"

subsection \<open>Session commands\<close>

definition noStore :: goerr where "noStore = ErrNew ''host: no RunStore configured''"

definition resumeRun :: "storeFaults \<Rightarrow> string \<Rightarrow> 'w hostApp \<Rightarrow> goerr option \<times> 'w hostApp" where
  "resumeRun faults rid a =
     (case ap_store a of
        None \<Rightarrow> (Some noStore, a)
      | Some s \<Rightarrow>
          (case storeCall faults a of
             (Some e, a1) \<Rightarrow> (Some (Errorf ''host: loading run %q: %w'' [rid] (Some e)), a1)
           | (None, a1) \<Rightarrow>
               (case loadRun s rid of
                  None \<Rightarrow> (Some (Errorf ''host: run %q not found'' [rid] None), a1)
                | Some r \<Rightarrow> (None, a1\<lparr>ap_history := run_Messages r, ap_runID := rid\<rparr>))))"

definition attachRun :: "storeFaults \<Rightarrow> gotime \<Rightarrow> string \<Rightarrow> 'w hostApp \<Rightarrow> goerr option \<times> 'w hostApp" where
  "attachRun faults now rid a =
     (case ap_store a of
        None \<Rightarrow> (Some noStore, a)
      | Some s \<Rightarrow>
          (case storeCall faults a of
             (Some e, a1) \<Rightarrow> (Some (Errorf ''host: attaching run %q: %w'' [rid] (Some e)), a1)
           | (None, a1) \<Rightarrow>
               (case createRun s now rid of
                  (r, s1) \<Rightarrow>
                    if cr_Created r then (None, a1\<lparr>ap_store := Some s1, ap_runID := cr_RunID r, ap_history := []\<rparr>)
                    else resumeRun faults rid (a1\<lparr>ap_store := Some s1\<rparr>))))"

definition forkSession :: "storeFaults \<Rightarrow> gotime \<Rightarrow> string \<Rightarrow> int \<Rightarrow> 'w hostApp \<Rightarrow> (goerr option \<times> string) \<times> 'w hostApp" where
  "forkSession faults now newID atMessage a =
     (case ap_store a of
        None \<Rightarrow> ((Some noStore, []), a)
      | Some s \<Rightarrow>
          if ap_runID a = [] then ((Some (ErrNew ''host: no active run to fork (run at least one turn first)''), []), a)
          else (case storeCall faults a of
                  (Some e, a1) \<Rightarrow> ((Some (Errorf ''host: forking run %q: %w'' [ap_runID a] (Some e)), []), a1)
                | (None, a1) \<Rightarrow>
                    (case forkRun s now (ap_runID a) newID atMessage of
                       (r, s1) \<Rightarrow>
                         (let a2 = a1\<lparr>ap_store := Some s1\<rparr>
                          in if \<not> fr_Found r then ((Some (Errorf ''host: run %q not found'' [ap_runID a] None), []), a2)
                             else if \<not> fr_Created r then ((Some (Errorf ''host: run %q already exists'' [newID] None), []), a2)
                             else if atMessage > 0 then (case resumeRun faults (fr_RunID r) a2 of (e, a3) \<Rightarrow> ((e, fr_RunID r), a3))
                             else ((None, fr_RunID r), a2\<lparr>ap_runID := fr_RunID r\<rparr>)))))"

subsection \<open>Joining late\<close>

fun stampAskID :: "nat \<Rightarrow> hostEvent \<Rightarrow> hostEvent" where
  "stampAskID off (HElicitRequest i q) = HElicitRequest (int off) q"
| "stampAskID off e = e"

text \<open>What a surface that subscribes between turns is sent before it follows the log.\<close>

definition replay :: "storeFaults \<Rightarrow> 'w hostApp \<Rightarrow> hostEvent list" where
  "replay faults a =
     (let p = ap_persisted a;
          deep = (case ap_store a of
                    None \<Rightarrow> []
                  | Some s \<Rightarrow>
                      if ap_runID a \<noteq> [] \<and> p > 0 \<and> faults (ap_storeCalls a) = None
                      then (case loadRun s (ap_runID a) of None \<Rightarrow> [] | Some r \<Rightarrow> run_Events r) else [])
      in map HRunner deep @ map (\<lambda>i. stampAskID i (ap_log a ! i)) [p..<length (ap_log a)])"

subsection \<open>Listing sessions\<close>

record sessionPage =
  sp_Runs :: "runInfo list"
  sp_HasMore :: bool

text \<open>\<open>None\<close> is the panic of the store's slice; lower case is that of ASCII.\<close>

definition sessionsPage :: "storeFaults \<Rightarrow> string \<Rightarrow> 'w hostApp \<Rightarrow> ((goerr + sessionPage) \<times> 'w hostApp) option" where
  "sessionsPage faults cursor a =
     (case ap_store a of
        None \<Rightarrow> Some (Inl noStore, a)
      | Some s \<Rightarrow>
          (case storeCall faults a of
             (Some e, a1) \<Rightarrow> Some (Inl (Errorf ''host: listing sessions: %w'' [] (Some e)), a1)
           | (None, a1) \<Rightarrow>
               map_option (\<lambda>r. (Inr \<lparr>sp_Runs = lr_Runs r, sp_HasMore = (lr_NextCursor r \<noteq> [])\<rparr>, a1\<lparr>ap_cursor := lr_NextCursor r\<rparr>))
                 (listRuns s cursor 0)))"

definition pageMore :: "storeFaults \<Rightarrow> 'w hostApp \<Rightarrow> ((goerr + sessionPage) \<times> 'w hostApp) option" where
  "pageMore faults a =
     (if ap_cursor a = [] then Some (Inr \<lparr>sp_Runs = [], sp_HasMore = False\<rparr>, a) else sessionsPage faults (ap_cursor a) a)"

abbreviation "maxSessionSearchScan \<equiv> 1000 :: nat"

definition searchHit :: "string \<Rightarrow> runInfo \<Rightarrow> bool" where
  "searchHit q r \<longleftrightarrow> strContains (toLowerAscii (ri_ID r)) q"

fun searchLoop :: "nat \<Rightarrow> storeFaults \<Rightarrow> inMemoryRunStore \<Rightarrow> string \<Rightarrow> string \<Rightarrow> nat \<Rightarrow> runInfo list \<Rightarrow> 'w hostApp \<Rightarrow> ((goerr + runInfo list) \<times> 'w hostApp) option" where
  "searchLoop 0 faults s q cursor scanned out a = None"
| "searchLoop (Suc k) faults s q cursor scanned out a =
     (if \<not> scanned < maxSessionSearchScan then Some (Inr out, a)
      else case storeCall faults a of
             (Some e, a1) \<Rightarrow> Some (Inl (Errorf ''host: searching sessions: %w'' [] (Some e)), a1)
           | (None, a1) \<Rightarrow>
               (case listRuns s cursor 0 of
                  None \<Rightarrow> None
                | Some r \<Rightarrow>
                    (let out1 = out @ filter (searchHit q) (lr_Runs r); scanned1 = scanned + length (lr_Runs r)
                     in if lr_NextCursor r = [] then Some (Inr out1, a1)
                        else searchLoop k faults s q (lr_NextCursor r) scanned1 out1 a1)))"

definition searchSessions :: "nat \<Rightarrow> storeFaults \<Rightarrow> string \<Rightarrow> 'w hostApp \<Rightarrow> ((goerr + runInfo list) \<times> 'w hostApp) option" where
  "searchSessions k faults query a =
     (case ap_store a of
        None \<Rightarrow> Some (Inl noStore, a)
      | Some s \<Rightarrow> searchLoop k faults s (toLowerAscii query) [] 0 [] a)"

section \<open>The record of a session\<close>

datatype sessionOp =
    STurn turnEnv string bool
  | SAttach gotime string
  | SResume string
  | SFork gotime string int

fun sessionDo :: "storeFaults \<Rightarrow> sessionOp \<Rightarrow> 'w hostApp \<Rightarrow> 'w hostApp" where
  "sessionDo faults (STurn env input announced) a = snd (snd (runOneTurn faults env input announced a))"
| "sessionDo faults (SAttach now rid) a = snd (attachRun faults now rid a)"
| "sessionDo faults (SResume rid) a = snd (resumeRun faults rid a)"
| "sessionDo faults (SFork now new at) a = snd (forkSession faults now new at a)"

definition noFaults :: storeFaults where "noFaults = (\<lambda>_. None)"

definition untime :: "message \<Rightarrow> message" where "untime m = m\<lparr>m_Timestamp := 0\<rparr>"

lemma untime_stamp [simp]: "untime (stamp now m) = untime m"
  by (simp add: untime_def stamp_def)

lemma map_untime_stamp [simp]: "map untime (map (stamp now) ms) = map untime ms"
  by simp

fun runnerOf :: "hostEvent list \<Rightarrow> event list" where
  "runnerOf [] = []"
| "runnerOf (HRunner e # es) = e # runnerOf es"
| "runnerOf (_ # es) = runnerOf es"

lemma runnerOf_append [simp]: "runnerOf (xs @ ys) = runnerOf xs @ runnerOf ys"
  by (induction xs rule: runnerOf.induct) auto

lemma redact_idem [simp]: "redactForPersist (redactForPersist e) = redactForPersist e"
  by (cases e) auto

text \<open>What the operations of a turn leave alone.\<close>

lemma hostEmit_sel [simp]:
  "ap_history (hostEmit e a) = ap_history a" "ap_store (hostEmit e a) = ap_store a" "ap_runID (hostEmit e a) = ap_runID a"
  "ap_persisted (hostEmit e a) = ap_persisted a" "ap_log (hostEmit e a) = ap_log a @ [e]" "ap_steer (hostEmit e a) = ap_steer a"
  "ap_storeCalls (hostEmit e a) = ap_storeCalls a" "ap_grants (hostEmit e a) = ap_grants a"
  by (simp_all add: hostEmit_def)

lemma storeCall_noFaults [simp]: "storeCall noFaults a = (None, a\<lparr>ap_storeCalls := Suc (ap_storeCalls a)\<rparr>)"
  by (simp add: storeCall_def noFaults_def)

fun offers :: "turnAct list \<Rightarrow> string list" where
  "offers [] = []"
| "offers (TOffer s # acts) = s # offers acts"
| "offers (_ # acts) = offers acts"

fun taken :: "string list \<Rightarrow> turnAct list \<Rightarrow> string list" where
  "taken q [] = []"
| "taken q (TEvent e # acts) = taken q acts"
| "taken q (TOffer s # acts) = taken (q @ [s]) acts"
| "taken q (TDrain # acts) = q @ taken [] acts"

lemma turnActs_frame:
  "turnActs persist acts (a, buf) = (b, buf') \<Longrightarrow>
   ap_history b = ap_history a \<and> ap_store b = ap_store a \<and> ap_runID b = ap_runID a \<and> ap_persisted b = ap_persisted a \<and>
   (\<exists>es. ap_log b = ap_log a @ es \<and> (persist \<longrightarrow> buf' = buf @ map redactForPersist (runnerOf es)))"
proof (induction persist acts "(a, buf)" arbitrary: a buf rule: turnActs.induct)
  case (2 persist e acts a buf)
  then obtain es where "ap_log b = (ap_log a @ [HRunner e]) @ es"
    "persist \<longrightarrow> buf' = (buf @ [redactForPersist e]) @ map redactForPersist (runnerOf es)" by auto
  then show ?case using 2 by (intro conjI exI [of _ "HRunner e # es"]) auto
next
  case (3 persist s acts a buf)
  obtain es0 where "ap_log (submitDuring s a) = ap_log a @ es0" "runnerOf es0 = []"
    "ap_history (submitDuring s a) = ap_history a" "ap_store (submitDuring s a) = ap_store a"
    "ap_runID (submitDuring s a) = ap_runID a" "ap_persisted (submitDuring s a) = ap_persisted a"
    by (cases "sq_active (ap_steer a)") (auto simp: submitDuring_def steerOffer_def)
  then show ?case using 3 by fastforce
qed auto

text \<open>A run of the store, and what the calls of a turn add to it when none fails.\<close>

definition holdsRun :: "'w hostApp \<Rightarrow> run \<Rightarrow> bool" where
  "holdsRun a r \<longleftrightarrow> ap_runID a \<noteq> [] \<and> Option.bind (ap_store a) (\<lambda>s. loadRun s (ap_runID a)) = Some r"

lemma flushEvents_ok:
  assumes "holdsRun a r"
  shows "holdsRun (flushEvents noFaults buf a) (r\<lparr>run_Events := run_Events r @ buf\<rparr>) \<and>
    ap_history (flushEvents noFaults buf a) = ap_history a \<and> ap_log (flushEvents noFaults buf a) = ap_log a \<and>
    ap_persisted (flushEvents noFaults buf a) = length (ap_log a)"
proof -
  obtain s where s: "ap_store a = Some s" "ap_runID a \<noteq> []" "loadRun s (ap_runID a) = Some r"
    using assms by (auto simp: holdsRun_def bind_eq_Some_conv)
  from mem.events_found [OF s(3), of buf] s show ?thesis
    by (auto simp: flushEvents_def holdsRun_def split: prod.splits)
qed

lemma persistTurn_ok:
  assumes "holdsRun a r"
  shows "holdsRun (persistTurn noFaults now msgs buf a)
      (r\<lparr>run_Messages := run_Messages r @ map (stamp now) msgs, run_Events := run_Events r @ buf\<rparr>) \<and>
    ap_history (persistTurn noFaults now msgs buf a) = ap_history a \<and> ap_log (persistTurn noFaults now msgs buf a) = ap_log a \<and>
    ap_persisted (persistTurn noFaults now msgs buf a) = length (ap_log a)"
proof -
  obtain s where s: "ap_store a = Some s" "ap_runID a \<noteq> []" "loadRun s (ap_runID a) = Some r"
    using assms by (auto simp: holdsRun_def bind_eq_Some_conv)
  obtain s1 where s1: "appendMessages s now (ap_runID a) msgs = (True, s1)"
    "loadRun s1 (ap_runID a) = Some (r\<lparr>run_Messages := run_Messages r @ map (stamp now) msgs\<rparr>)"
    using mem.append_found [OF s(3), of now msgs] by (cases "appendMessages s now (ap_runID a) msgs") auto
  let ?a = "a\<lparr>ap_storeCalls := Suc (ap_storeCalls a), ap_store := Some s1\<rparr>"
  have "holdsRun ?a (r\<lparr>run_Messages := run_Messages r @ map (stamp now) msgs\<rparr>)" using s(2) s1(2) by (simp add: holdsRun_def)
  from flushEvents_ok [OF this, of buf] show ?thesis using s(1) s1(1) by (simp add: persistTurn_def)
qed

lemma holdsRun_sel:
  assumes "ap_store b = ap_store a" "ap_runID b = ap_runID a"
  shows "holdsRun b r = holdsRun a r"
  using assms by (simp add: holdsRun_def)

text \<open>A turn adds the same messages to the history and to the run, and its events to the log and to the run.\<close>

definition turnAdds :: "run \<Rightarrow> message list \<Rightarrow> 'w hostApp \<Rightarrow> 'w hostApp \<Rightarrow> bool" where
  "turnAdds r h a b \<longleftrightarrow>
     (\<exists>r' h' es. holdsRun b r' \<and> ap_history b = h @ h' \<and> map untime (run_Messages r') = map untime (run_Messages r) @ map untime h' \<and>
        ap_log b = ap_log a @ es \<and> run_Events r' = run_Events r @ map redactForPersist (runnerOf es) \<and>
        ap_persisted b \<le> length (ap_log b) \<and> runnerOf (drop (ap_persisted b) (ap_log b)) = [])"

lemma turnBody_ok:
  assumes "holdsRun a r" "ap_history a = h @ [u]"
  shows "turnAdds r h a (snd (turnBody noFaults env True u a))"
proof -
  define tr where "tr = te_run env (runTransient (te_transient env) (ap_history a))"
  obtain a1 buf where run: "turnActs True (tn_acts tr) (a, []) = (a1, buf)" by fastforce
  from turnActs_frame [OF run] obtain es where es: "ap_log a1 = ap_log a @ es" "buf = map redactForPersist (runnerOf es)"
    and same: "ap_history a1 = h @ [u]" "ap_store a1 = ap_store a" "ap_runID a1 = ap_runID a" using assms(2) by auto
  have kept: "turnAdds r h a (hostEmit e (persistTurn noFaults (te_now env) (u # ms) buf (a1\<lparr>ap_history := (h @ [u]) @ ms\<rparr>)))"
    if "runnerOf [e] = []" for e ms
  proof -
    have "holdsRun (a1\<lparr>ap_history := (h @ [u]) @ ms\<rparr>) r" using assms(1) same by (simp add: holdsRun_def)
    from persistTurn_ok [OF this, of "te_now env" "u # ms" buf] that es show ?thesis unfolding turnAdds_def
      by (intro exI [of _ "r\<lparr>run_Messages := run_Messages r @ map (stamp (te_now env)) (u # ms), run_Events := run_Events r @ buf\<rparr>"]
            exI [of _ "u # ms"] exI [of _ "es @ [e]"]) (simp add: holdsRun_def)
  qed
  have dropped: "turnAdds r h a (hostEmit e (flushEvents noFaults buf (a1\<lparr>ap_history := h\<rparr>)))" if "runnerOf [e] = []" for e
  proof -
    have "holdsRun (a1\<lparr>ap_history := h\<rparr>) r" using assms(1) same by (simp add: holdsRun_def)
    from flushEvents_ok [OF this, of buf] that es show ?thesis unfolding turnAdds_def
      by (intro exI [of _ "r\<lparr>run_Events := run_Events r @ buf\<rparr>"] exI [of _ "[]"] exI [of _ "es @ [e]"]) (simp add: holdsRun_def)
  qed
  show ?thesis
  proof (cases "tn_ending tr")
    case (TurnOk x)
    then show ?thesis using kept [of "HTurnDone x" "res_Messages x"] run same(1) unfolding turnBody_def tr_def [symmetric]
      by (simp add: Let_def)
  next
    case (TurnErr x e)
    then show ?thesis using kept [of "HTurnFailed (errText e)"] dropped [of "HTurnFailed (errText e)"] run same(1)
      unfolding turnBody_def tr_def [symmetric] by (simp add: Let_def split: option.splits)
  qed
qed

lemma createRun_generated:
  "createRun s now [] = (c, s1) \<Longrightarrow> cr_Created c \<and> cr_RunID c \<noteq> [] \<and> loadRun s1 (cr_RunID c) = Some (emptyRun (cr_RunID c) now)"
  by (auto simp: createRun_def Let_def loadRun_upd_seq emptyRun_def)

lemma ensureRun_ok:
  assumes "ap_store a = Some s" "ap_runID a \<noteq> [] \<longrightarrow> holdsRun a r0"
  shows "\<exists>a0 r es. ensureRun noFaults now s a = (None, a0) \<and> holdsRun a0 r \<and> ap_history a0 = ap_history a \<and>
    ap_log a0 = ap_log a @ es \<and> runnerOf es = [] \<and>
    (if ap_runID a = [] then run_Messages r = [] \<and> run_Events r = [] else holdsRun a r)"
proof (cases "ap_runID a = []")
  case True
  obtain c s1 where c: "createRun s now [] = (c, s1)" by fastforce
  show ?thesis using True c createRun_generated [OF c] unfolding ensureRun_def
    by (intro exI [of _ "emptyRun (cr_RunID c) now"] exI [of _ "[HSessionChanged (cr_RunID c)]"] exI)
      (auto simp: holdsRun_def emptyRun_def runOf_def emptyEntry_def)
next
  case False
  then show ?thesis using assms unfolding ensureRun_def
    by (intro exI [of _ a] exI [of _ r0] exI [of _ "[]"]) simp
qed

definition idleTurn :: "'w hostApp \<Rightarrow> 'w hostApp \<Rightarrow> bool" where
  "idleTurn a b \<longleftrightarrow> ap_store b = ap_store a \<and> ap_runID b = ap_runID a \<and> ap_history b = ap_history a \<and>
     ap_persisted b = ap_persisted a \<and> (\<exists>es. ap_log b = ap_log a @ es \<and> runnerOf es = [])"

lemma runOneTurn_ok:
  assumes "ap_store a = Some s" "ap_runID a \<noteq> [] \<longrightarrow> (\<exists>r. holdsRun a r)" "te_durable env = []"
    and "runOneTurn noFaults env input announced a = (late, err, b)"
  shows "idleTurn a b \<or>
    (\<exists>a0 r es. ap_log a0 = ap_log a @ es \<and> runnerOf es = [] \<and> turnAdds r (ap_history a) a0 b \<and>
       (if ap_runID a = [] then run_Messages r = [] \<and> run_Events r = [] else holdsRun a r))"
proof -
  define a1 where "a1 = a\<lparr>ap_steer := steerBegin (ap_steer a), ap_grants := grantsEndTurn (ap_grants a), ap_triggers := notifyEngagement (ap_triggers a)\<rparr>"
  define a2 where "a2 = (if announced then a1 else hostEmit (HUserInput input []) a1)"
  have a2: "ap_store a2 = Some s" "ap_runID a2 = ap_runID a" "ap_history a2 = ap_history a" "ap_persisted a2 = ap_persisted a"
    "\<exists>es. ap_log a2 = ap_log a @ es \<and> runnerOf es = []"
    using assms(1) by (auto simp: a2_def a1_def)
  then obtain es2 where es2: "ap_log a2 = ap_log a @ es2" "runnerOf es2 = []" by blast
  have early: "idleTurn a (hostEmit (HTurnFailed x) a2\<lparr>ap_steer := q, ap_grants := g\<rparr>)" for x q g
    using a2(1-4) es2 assms(1) by (simp add: idleTurn_def)
  show ?thesis
  proof (cases "startExtensionTurns (te_exts env)")
    case (Some e)
    then have "\<exists>q g. b = hostEmit (HTurnFailed (errText e)) a2\<lparr>ap_steer := q, ap_grants := g\<rparr>"
      using assms(4) unfolding runOneTurn_def a1_def [symmetric] Let_def a2_def [symmetric]
      by (auto split: prod.splits)
    then show ?thesis using early by blast
  next
    case None
    show ?thesis
    proof (cases "transformInput (te_exts env) input")
      case (Inl e)
      then have "\<exists>q g. b = hostEmit (HTurnFailed (errText e)) a2\<lparr>ap_steer := q, ap_grants := g\<rparr>"
        using None assms(4) unfolding runOneTurn_def a1_def [symmetric] Let_def a2_def [symmetric]
        by (auto split: prod.splits)
      then show ?thesis using early by blast
    next
      case (Inr input1)
      define u where "u = textMessage RoleUser input1"
      define a3 where "a3 = a2\<lparr>ap_history := ap_history a @ [u]\<rparr>"
      obtain r0 where r0: "ap_runID a \<noteq> [] \<longrightarrow> holdsRun a r0" using assms(2) by blast
      have same: "holdsRun a3 x = holdsRun a x" for x using a2(1,2) assms(1) by (simp add: a3_def holdsRun_def)
      have a3: "ap_runID a3 = ap_runID a" "ap_history a3 = ap_history a @ [u]" "ap_log a3 = ap_log a2" "ap_store a3 = Some s"
        using a2(1,2) by (simp_all add: a3_def)
      have "ap_runID a3 \<noteq> [] \<longrightarrow> holdsRun a3 r0" using r0 same a3(1) by simp
      from ensureRun_ok [OF a3(4) this, of "te_now env"] obtain a4 r es where a4: "ensureRun noFaults (te_now env) s a3 = (None, a4)"
        "holdsRun a4 r" "ap_history a4 = ap_history a @ [u]" "ap_log a4 = ap_log a2 @ es" "runnerOf es = []"
        "if ap_runID a = [] then run_Messages r = [] \<and> run_Events r = [] else holdsRun a r"
        unfolding a3(1-3) same by blast
      have eq: "a2\<lparr>ap_history := runDurable (te_durable env) (ap_history a2) u\<rparr> = a3"
        using a2(3) assms(3) by (simp add: a3_def u_def runDurable_def)
      have "\<exists>q g. b = (snd (turnBody noFaults env True u a4))\<lparr>ap_steer := q, ap_grants := g\<rparr>"
        using None Inr assms(4) a3(4) a4(1)
        unfolding runOneTurn_def a1_def [symmetric] Let_def a2_def [symmetric]
        by (auto simp: eq u_def [symmetric] split: prod.splits)
      then have "turnAdds r (ap_history a) a4 b"
        using turnBody_ok [OF a4(2,3), of env] by (auto simp: turnAdds_def holdsRun_def)
      then show ?thesis using a4(4-6) es2 by (intro disjI2 exI [of _ a4] exI [of _ r] exI [of _ "es2 @ es"]) simp
    qed
  qed
qed

subsection \<open>The history is the run's messages\<close>

definition storedMessages :: "'w hostApp \<Rightarrow> message list" where
  "storedMessages a =
     (if ap_runID a = [] then []
      else case Option.bind (ap_store a) (\<lambda>s. loadRun s (ap_runID a)) of None \<Rightarrow> [] | Some r \<Rightarrow> run_Messages r)"

definition histOk :: "'w hostApp \<Rightarrow> bool" where
  "histOk a \<longleftrightarrow> ap_store a \<noteq> None \<and>
     (if ap_runID a = [] then ap_history a = [] else \<exists>r. holdsRun a r \<and> map untime (run_Messages r) = map untime (ap_history a))"

lemma histOk_turn:
  assumes "histOk a" "te_durable env = []"
  shows "histOk (snd (snd (runOneTurn noFaults env input announced a)))"
proof -
  obtain late err b where b: "runOneTurn noFaults env input announced a = (late, err, b)" by (rule prod_cases3)
  obtain s where s: "ap_store a = Some s" using assms(1) by (auto simp: histOk_def)
  have "ap_runID a \<noteq> [] \<longrightarrow> (\<exists>r. holdsRun a r)" using assms(1) by (auto simp: histOk_def)
  from runOneTurn_ok [OF s this assms(2) b] have "histOk b"
  proof
    assume "idleTurn a b"
    then show ?thesis using assms(1) by (auto simp: idleTurn_def histOk_def holdsRun_def)
  next
    assume "\<exists>a0 r es. ap_log a0 = ap_log a @ es \<and> runnerOf es = [] \<and> turnAdds r (ap_history a) a0 b \<and>
       (if ap_runID a = [] then run_Messages r = [] \<and> run_Events r = [] else holdsRun a r)"
    then obtain a0 r where r: "turnAdds r (ap_history a) a0 b"
      "if ap_runID a = [] then run_Messages r = [] \<and> run_Events r = [] else holdsRun a r" by blast
    have "map untime (run_Messages r) = map untime (ap_history a)"
      using assms(1) r(2) by (auto simp: histOk_def holdsRun_def split: if_splits)
    then show ?thesis using r(1) by (auto simp: turnAdds_def histOk_def holdsRun_def bind_eq_Some_conv)
  qed
  then show ?thesis using b by simp
qed

lemma resumeRun_ok:
  assumes "ap_store a = Some s" "rid \<noteq> []" "loadRun s rid = Some r"
  shows "holdsRun (snd (resumeRun noFaults rid a)) r \<and> ap_history (snd (resumeRun noFaults rid a)) = run_Messages r \<and>
    ap_store (snd (resumeRun noFaults rid a)) = Some s"
  using assms by (simp add: resumeRun_def holdsRun_def)

lemma histOk_resumed: "ap_store a = Some s \<Longrightarrow> rid \<noteq> [] \<Longrightarrow> loadRun s rid = Some r \<Longrightarrow> histOk (snd (resumeRun noFaults rid a))"
  using resumeRun_ok [of a s rid r] by (auto simp: histOk_def holdsRun_def)

lemma histOk_resume:
  assumes "histOk a" "rid \<noteq> []"
  shows "histOk (snd (resumeRun noFaults rid a))"
proof -
  obtain s where s: "ap_store a = Some s" using assms(1) by (auto simp: histOk_def)
  show ?thesis
  proof (cases "loadRun s rid")
    case None
    then show ?thesis using s assms(1) by (auto simp: resumeRun_def histOk_def holdsRun_def)
  qed (use histOk_resumed s assms(2) in blast)
qed

lemma histOk_attach:
  assumes "histOk a"
  shows "histOk (snd (attachRun noFaults now rid a))"
proof -
  obtain s where s: "ap_store a = Some s" using assms by (auto simp: histOk_def)
  obtain c s1 where c: "createRun s now rid = (c, s1)" by fastforce
  show ?thesis
  proof (cases "cr_Created c")
    case True
    have "cr_RunID c \<noteq> [] \<and> loadRun s1 (cr_RunID c) = Some (emptyRun (cr_RunID c) now)"
    proof (cases "rid = []")
      case False
      then have "loadRun s rid = None" using True c mem.create_exists [of rid s _ now] by (cases "loadRun s rid") auto
      then show ?thesis using mem.create_new [OF False, of s now] c False by auto
    qed (use createRun_generated c in auto)
    then show ?thesis using s c True
      by (auto simp: attachRun_def histOk_def holdsRun_def emptyRun_def runOf_def emptyEntry_def)
  next
    case False
    then have rid: "rid \<noteq> []" using createRun_generated c by auto
    then obtain r where r: "loadRun s rid = Some r" using False c mem.create_new [OF rid, of s now] by (cases "loadRun s rid") auto
    then have "s1 = s" using mem.create_exists [OF rid r] c by auto
    then show ?thesis using s c False r rid by (auto simp: attachRun_def intro: histOk_resumed)
  qed
qed

text \<open>A fork of a run that exists: its name, and that the copy is loaded from it.\<close>

lemma forkRun_created:
  assumes "loadRun s src = Some r" "forkRun s now src new at = (c, s1)" "fr_Created c"
  shows "fr_Found c \<and> fr_RunID c \<noteq> [] \<and> loadRun s1 (fr_RunID c) = Some (forkOf r now (fr_RunID c) at)"
  using assms by (auto simp: forkRun_def loadRun_Some loadRun_def update_conv forkOf_def forkEntry_def runOf_def Let_def
      split: option.splits if_splits)

lemma forkRun_refused: "forkRun s now src new at = (c, s1) \<Longrightarrow> \<not> fr_Created c \<Longrightarrow> s1 = s"
  by (auto simp: forkRun_def Let_def split: option.splits if_splits)

lemma forkSession_cases:
  assumes "ap_store a = Some s"
  shows "(\<exists>n. snd (forkSession noFaults now new at a) = a\<lparr>ap_storeCalls := n\<rparr>) \<or>
    (\<exists>c s1 n. fr_Created c \<and> forkRun s now (ap_runID a) new at = (c, s1) \<and> ap_runID a \<noteq> [] \<and> snd (forkSession noFaults now new at a) =
      (if at > 0 then snd (resumeRun noFaults (fr_RunID c) (a\<lparr>ap_storeCalls := n, ap_store := Some s1\<rparr>))
       else a\<lparr>ap_storeCalls := n, ap_store := Some s1, ap_runID := fr_RunID c\<rparr>))"
proof -
  obtain c s1 where c: "forkRun s now (ap_runID a) new at = (c, s1)" by fastforce
  show ?thesis
  proof (cases "ap_runID a = [] \<or> \<not> fr_Created c")
    case True
    then show ?thesis using c assms forkRun_refused [OF c]
      by (intro disjI1) (auto simp: forkSession_def Let_def intro: exI [of _ "ap_storeCalls a"] exI [of _ "Suc (ap_storeCalls a)"])
  next
    case False
    then have "fr_Found c" using c by (auto simp: forkRun_def Let_def split: option.splits if_splits)
    then show ?thesis using False c assms
      by (intro disjI2 exI [of _ c] exI [of _ s1] exI [of _ "Suc (ap_storeCalls a)"])
        (auto simp: forkSession_def Let_def split: prod.splits)
  qed
qed

lemma histOk_fork:
  assumes "histOk a"
  shows "histOk (snd (forkSession noFaults now new at a))"
proof -
  obtain s where s: "ap_store a = Some s" using assms by (auto simp: histOk_def)
  from forkSession_cases [OF s, of now new at] show ?thesis
  proof (elim disjE exE conjE)
    fix n assume "snd (forkSession noFaults now new at a) = a\<lparr>ap_storeCalls := n\<rparr>"
    then show ?thesis using assms by (auto simp: histOk_def holdsRun_def split: if_splits)
  next
    fix c s1 n
    assume c: "fr_Created c" "forkRun s now (ap_runID a) new at = (c, s1)" "ap_runID a \<noteq> []"
      and eq: "snd (forkSession noFaults now new at a) =
        (if at > 0 then snd (resumeRun noFaults (fr_RunID c) (a\<lparr>ap_storeCalls := n, ap_store := Some s1\<rparr>))
         else a\<lparr>ap_storeCalls := n, ap_store := Some s1, ap_runID := fr_RunID c\<rparr>)"
    obtain r where r: "loadRun s (ap_runID a) = Some r" "map untime (run_Messages r) = map untime (ap_history a)"
      using assms s c(3) by (auto simp: histOk_def holdsRun_def)
    note fk = forkRun_created [OF r(1) c(2,1)]
    show ?thesis
    proof (cases "at > 0")
      case True
      then show ?thesis using eq fk histOk_resumed [of "a\<lparr>ap_storeCalls := n, ap_store := Some s1\<rparr>" s1 "fr_RunID c"] by simp
    next
      case False
      then have "run_Messages (forkOf r now (fr_RunID c) at) = run_Messages r" by (simp add: forkOf_def forkCut_def)
      then show ?thesis using eq fk False r(2) by (auto simp: histOk_def holdsRun_def)
    qed
  qed
qed

text \<open>No stage rewrites the session between turns, and a run is resumed by a name.\<close>

fun plainOp :: "sessionOp \<Rightarrow> bool" where
  "plainOp (STurn env _ _) \<longleftrightarrow> te_durable env = []"
| "plainOp (SResume rid) \<longleftrightarrow> rid \<noteq> []"
| "plainOp _ \<longleftrightarrow> True"

lemma histOk_do: "plainOp op \<Longrightarrow> histOk a \<Longrightarrow> histOk (sessionDo noFaults op a)"
  using histOk_turn histOk_attach histOk_resume histOk_fork by (cases op) auto

lemma histOk_run: "list_all plainOp ops \<Longrightarrow> histOk a \<Longrightarrow> histOk (fold (sessionDo noFaults) ops a)"
  by (induction ops arbitrary: a) (auto simp: histOk_do)


text \<open>A turn that ends well and one that reaches its step limit; \<open>sayTurn\<close> takes what happens during it.\<close>

definition sayResult :: "string \<Rightarrow> turnResult" where
  "sayResult t = \<lparr>res_Text = t, res_Messages = [textMessage RoleAssistant t], res_Usage = zeroUsage, res_UsageByModel = None,
     res_Steps = 1, res_FinishReason = ''stop'', res_Structured = [], res_StructuredError = []\<rparr>"

definition sayTurn :: "turnAct list \<Rightarrow> string \<Rightarrow> turnEnv" where
  "sayTurn acts t = \<lparr>te_exts = [], te_durable = [], te_transient = [],
     te_run = (\<lambda>msgs. \<lparr>tn_acts = acts @ [TEvent (EventTurnEnd (sayResult t))], tn_ending = TurnOk (sayResult t)\<rparr>), te_now = 5\<rparr>"

definition stepLimited :: "string \<Rightarrow> turnEnv" where
  "stepLimited t = (sayTurn [] t)\<lparr>te_run := (\<lambda>msgs. \<lparr>tn_acts = [TEvent (EventTextDelta 1 t)],
     tn_ending = TurnErr (Some (sayResult t)) (ErrSentinel ErrMaxSteps)\<rparr>)\<rparr>"

definition demoApp :: "unit hostApp" where
  "demoApp = \<lparr>ap_history = [], ap_store = Some newInMemoryRunStore, ap_storeCalls = 0, ap_runID = [], ap_cursor = [], ap_log = [],
     ap_persisted = 0, ap_steer = \<lparr>sq_active = False, sq_queue = []\<rparr>, ap_grants = \<lparr>gr_approved = [], gr_active = []\<rparr>,
     ap_triggers = newTriggerPolicy \<lparr>tpc_Bindings = [], tpc_Budget = 0, tpc_Consent = None\<rparr>\<rparr>"

definition demoSessionOps :: "sessionOp list" where
  "demoSessionOps = [STurn (sayTurn [] ''hello'') ''hi'' False, SFork 6 ''b'' 1, STurn (stepLimited ''more'') ''go'' False]"


text \<open>
  A durable context stage adds to the history for good, but its messages are not part of what a turn appends to
  the store, so a session that is resumed has lost them.
\<close>

lemma injected_message_not_persisted:
  defines "env \<equiv> (sayTurn [] ''hello'')\<lparr>te_durable := [(''note'', \<lambda>h. h @ [textMessage RoleSystem ''build failed''])]\<rparr>"
  defines "a \<equiv> sessionDo noFaults (STurn env ''hi'' False) demoApp"
  shows "map m_Text (ap_history a) = [''build failed'', ''hi'', ''hello'']"
    and "map m_Text (ap_history (sessionDo noFaults (SResume (ap_runID a)) a)) = [''hi'', ''hello'']"
  unfolding a_def env_def by code_simp+

subsection \<open>A surface that joins late\<close>

definition eventsOk :: "'w hostApp \<Rightarrow> bool" where
  "eventsOk a \<longleftrightarrow> ap_store a \<noteq> None \<and> ap_persisted a \<le> length (ap_log a) \<and> runnerOf (drop (ap_persisted a) (ap_log a)) = [] \<and>
     (if ap_runID a = [] then runnerOf (ap_log a) = [] else \<exists>r. holdsRun a r \<and> run_Events r = map redactForPersist (runnerOf (ap_log a)))"

lemma eventsOk_turn:
  assumes "eventsOk a" "te_durable env = []"
  shows "eventsOk (snd (snd (runOneTurn noFaults env input announced a)))"
proof -
  obtain late err b where b: "runOneTurn noFaults env input announced a = (late, err, b)" by (rule prod_cases3)
  obtain s where s: "ap_store a = Some s" using assms(1) by (auto simp: eventsOk_def)
  have "ap_runID a \<noteq> [] \<longrightarrow> (\<exists>r. holdsRun a r)" using assms(1) by (auto simp: eventsOk_def)
  from runOneTurn_ok [OF s this assms(2) b] have "eventsOk b"
  proof
    assume "idleTurn a b"
    then show ?thesis using assms(1) by (auto simp: idleTurn_def eventsOk_def holdsRun_def split: if_splits)
  next
    assume "\<exists>a0 r es. ap_log a0 = ap_log a @ es \<and> runnerOf es = [] \<and> turnAdds r (ap_history a) a0 b \<and>
       (if ap_runID a = [] then run_Messages r = [] \<and> run_Events r = [] else holdsRun a r)"
    then obtain a0 r es where r: "ap_log a0 = ap_log a @ es" "runnerOf es = []" "turnAdds r (ap_history a) a0 b"
      "if ap_runID a = [] then run_Messages r = [] \<and> run_Events r = [] else holdsRun a r" by blast
    have "run_Events r = map redactForPersist (runnerOf (ap_log a0))"
      using assms(1) r(1,2,4) by (auto simp: eventsOk_def holdsRun_def split: if_splits)
    then show ?thesis using r(3) by (auto simp: turnAdds_def eventsOk_def holdsRun_def bind_eq_Some_conv)
  qed
  then show ?thesis using b by simp
qed

lemma eventsOk_fork:
  assumes "eventsOk a" "at \<le> 0"
  shows "eventsOk (snd (forkSession noFaults now new at a))"
proof -
  obtain s where s: "ap_store a = Some s" using assms by (auto simp: eventsOk_def)
  from forkSession_cases [OF s, of now new at] show ?thesis
  proof (elim disjE exE conjE)
    fix n assume "snd (forkSession noFaults now new at a) = a\<lparr>ap_storeCalls := n\<rparr>"
    then show ?thesis using assms by (auto simp: eventsOk_def holdsRun_def split: if_splits)
  next
    fix c s1 n
    assume c: "fr_Created c" "forkRun s now (ap_runID a) new at = (c, s1)" "ap_runID a \<noteq> []"
      and eq: "snd (forkSession noFaults now new at a) =
        (if at > 0 then snd (resumeRun noFaults (fr_RunID c) (a\<lparr>ap_storeCalls := n, ap_store := Some s1\<rparr>))
         else a\<lparr>ap_storeCalls := n, ap_store := Some s1, ap_runID := fr_RunID c\<rparr>)"
    obtain r where r: "loadRun s (ap_runID a) = Some r" "run_Events r = map redactForPersist (runnerOf (ap_log a))"
      using assms s c(3) by (auto simp: eventsOk_def holdsRun_def)
    have "run_Events (forkOf r now (fr_RunID c) at) = run_Events r" using assms(2) by (simp add: forkOf_def forkCut_def)
    then show ?thesis using eq forkRun_created [OF r(1) c(2,1)] assms r(2) by (auto simp: eventsOk_def holdsRun_def)
  qed
qed

text \<open>Turns, and forks that copy the whole run.\<close>

fun turnOrCopy :: "sessionOp \<Rightarrow> bool" where
  "turnOrCopy (STurn env _ _) \<longleftrightarrow> te_durable env = []"
| "turnOrCopy (SFork _ _ at) \<longleftrightarrow> at \<le> 0"
| "turnOrCopy _ \<longleftrightarrow> False"

lemma eventsOk_run: "list_all turnOrCopy ops \<Longrightarrow> eventsOk a \<Longrightarrow> eventsOk (fold (sessionDo noFaults) ops a)"
proof (induction ops arbitrary: a)
  case (Cons op ops)
  then have "eventsOk (sessionDo noFaults op a)" using eventsOk_turn eventsOk_fork by (cases op) auto
  then show ?case using Cons by simp
qed simp

lemma runnerOf_stamped: "runnerOf (map (\<lambda>i. stampAskID i (xs ! i)) is) = runnerOf (map (\<lambda>i. xs ! i) is)"
proof (induction "is")
  case (Cons i js)
  then show ?case by (cases "xs ! i") auto
qed simp

lemma replay_tail: "p \<le> length xs \<Longrightarrow> runnerOf (map (\<lambda>i. stampAskID i (xs ! i)) [p..<length xs]) = runnerOf (drop p xs)"
proof -
  assume "p \<le> length xs"
  then have "map ((!) xs) [p..<length xs] = drop p xs" by (auto intro: nth_equalityI)
  then show ?thesis by (simp add: runnerOf_stamped)
qed

lemma replay_eventsOk:
  assumes "eventsOk a"
  shows "runnerOf (replay noFaults a) = map redactForPersist (runnerOf (ap_log a))"
proof (cases "ap_runID a = [] \<or> ap_persisted a = 0")
  case True
  then have "runnerOf (ap_log a) = []" using assms by (auto simp: eventsOk_def split: if_splits)
  then show ?thesis using True assms replay_tail [of "ap_persisted a" "ap_log a"]
    by (auto simp: replay_def Let_def eventsOk_def split: option.splits)
next
  case False
  have "runnerOf (map HRunner es) = es" for es by (induction es) auto
  then show ?thesis using False assms replay_tail [of "ap_persisted a" "ap_log a"]
    by (auto simp: replay_def Let_def eventsOk_def holdsRun_def noFaults_def)
qed


definition demoReplayOps :: "sessionOp list" where
  "demoReplayOps = [STurn (sayTurn [TEvent (EventTextDelta 1 ''a''), TOffer ''x'', TDrain] ''hello'') ''hi'' False, SFork 6 ''b'' 0,
     STurn (stepLimited ''more'') ''go'' False]"


text \<open>
  The offset of what is persisted jumps to the end of the log with every flush that succeeds. Events the store
  never got before that are then in neither half of the replay: those of a turn whose own flush failed, and those
  of every turn a trigger started.
\<close>

lemma failed_flush_events_not_replayed:
  defines "faults \<equiv> (\<lambda>n. if n = 2 then Some ''timeout'' else None)"
  defines "a \<equiv> fold (sessionDo faults) [STurn (stepLimited ''one'') ''hi'' False, STurn (stepLimited ''two'') ''go'' False] demoApp"
  shows "runnerOf (ap_log a) = [EventTextDelta 1 ''one'', EventTextDelta 1 ''two'']"
    and "runnerOf (replay faults a) = [EventTextDelta 1 ''two'']"
  unfolding a_def faults_def by code_simp+

lemma proactive_events_not_replayed:
  defines "a \<equiv> sessionDo noFaults (STurn (stepLimited ''two'') ''go'' False)
    (runProactiveTurn (sayTurn [] ''one'') ''ci'' ''report'' demoApp)"
  shows "map m_Text (ap_history a) = [''report'', ''one'', ''go'', ''two'']"
    and "map m_Text (storedMessages a) = [''go'', ''two'']"
    and "runnerOf (replay noFaults a) = [EventTextDelta 1 ''two'']"
    and "length (runnerOf (ap_log a)) = 2"
  unfolding a_def by code_simp+

text \<open>
  The offset starts at zero in every process, and zero switches the stored half off: a surface that joins a
  resumed run before its first turn is shown nothing of it.
\<close>

lemma resumed_run_not_replayed:
  defines "a \<equiv> sessionDo noFaults (STurn (stepLimited ''one'') ''hi'' False) demoApp"
  defines "b \<equiv> sessionDo noFaults (SResume (ap_runID a)) (demoApp\<lparr>ap_store := ap_store a\<rparr>)"
  shows "map m_Text (ap_history b) = [''hi'', ''one'']" and "replay noFaults b = []"
  unfolding b_def a_def by code_simp+

subsection \<open>Input during a turn\<close>

lemma turnActs_steers:
  "turnActs persist acts (a, buf) = (b, buf') \<Longrightarrow> sq_active (ap_steer a) \<Longrightarrow>
   sq_queue (ap_steer a) @ offers acts = taken (sq_queue (ap_steer a)) acts @ sq_queue (ap_steer b)"
proof (induction persist acts "(a, buf)" arbitrary: a buf rule: turnActs.induct)
  case (3 persist s acts a buf)
  then show ?case by (auto simp: submitDuring_def steerOffer_def)
next
  case (4 persist acts a buf)
  then show ?case by (auto simp: steerTake_def)
qed auto

lemma storeCall_steer: "storeCall faults a = (e, b) \<Longrightarrow> ap_steer b = ap_steer a"
  by (auto simp: storeCall_def)

lemma flushEvents_steer [simp]: "ap_steer (flushEvents faults buf a) = ap_steer a"
  by (auto simp: flushEvents_def split: prod.splits option.splits dest: storeCall_steer)

lemma persistTurn_steer [simp]: "ap_steer (persistTurn faults now ms buf a) = ap_steer a"
  by (auto simp: persistTurn_def split: prod.splits option.splits dest: storeCall_steer)

lemma ensureRun_steer: "ensureRun faults now s a = (e, b) \<Longrightarrow> ap_steer b = ap_steer a"
  by (auto simp: ensureRun_def split: prod.splits option.splits if_splits dest: storeCall_steer)

text \<open>\<open>ss\<close> is input sent during a turn of \<open>env\<close>, in order, of which the model read all but \<open>late\<close>.\<close>

definition steeredBy :: "turnEnv \<Rightarrow> string list \<Rightarrow> string list \<Rightarrow> bool" where
  "steeredBy env ss late \<longleftrightarrow>
     (ss = [] \<and> late = []) \<or> (\<exists>h. ss = offers (tn_acts (te_run env h)) \<and> ss = taken [] (tn_acts (te_run env h)) @ late)"

lemma turnBody_steers:
  assumes "sq_active (ap_steer a)" "sq_queue (ap_steer a) = []" "turnBody faults env persist u a = (err, b)"
  shows "\<exists>ss. steeredBy env ss (sq_queue (ap_steer b))"
proof -
  define h where "h = runTransient (te_transient env) (ap_history a)"
  obtain a1 buf where run: "turnActs persist (tn_acts (te_run env h)) (a, []) = (a1, buf)" by fastforce
  have "ap_steer b = ap_steer a1" using assms(3) run unfolding turnBody_def h_def [symmetric]
    by (auto simp: Let_def split: turnEnding.splits option.splits if_splits)
  then show ?thesis using turnActs_steers [OF run assms(1)] assms(2) by (auto simp: steeredBy_def)
qed

text \<open>Input sent during a turn is read in that turn or handed back, in order; nothing stays queued for later.\<close>

lemma steered_input_read_or_late:
  assumes "sq_queue (ap_steer a) = []" "runOneTurn faults env input announced a = (late, err, b)"
  shows "(\<exists>ss. steeredBy env ss late) \<and> sq_queue (ap_steer b) = [] \<and> \<not> sq_active (ap_steer b)"
proof -
  have none: "steeredBy env [] []" by (simp add: steeredBy_def)
  have body: "\<exists>ss. steeredBy env ss (sq_queue (ap_steer c))"
    if "turnBody faults env p u d = (x, c)" "ap_steer d = steerBegin (ap_steer a)" for p u d x c
    using turnBody_steers [OF _ _ that(1)] that(2) assms(1) by (simp add: steerBegin_def)
  show ?thesis using assms none
    by (auto simp: runOneTurn_def Let_def steerEnd_def steerBegin_def split: prod.splits option.splits sum.splits if_splits
        dest!: ensureRun_steer body)
qed

subsection \<open>Searching sessions\<close>

lemma searchLoop_from:
  assumes "length (ims_runs s) + 50 < 2 ^ 63"
  shows "cursor = itoa (int off) \<or> (cursor = [] \<and> off = 0) \<Longrightarrow> off < length (ims_runs s) \<Longrightarrow> off \<le> 1000 \<Longrightarrow> off mod 50 = 0 \<Longrightarrow>
    1050 \<le> off + 50 * k \<Longrightarrow>
    map_option fst (searchLoop k noFaults s q cursor off out a) = Some (Inr (out @ filter (searchHit q) (drop off (take 1000 (sortedInfos s)))))"
proof (induction k arbitrary: off cursor out a)
  case (Suc k)
  have page: "listRuns s cursor 0 = Some \<lparr>lr_Runs = take 50 (drop off (sortedInfos s)),
      lr_NextCursor = (if off + 50 < length (sortedInfos s) then itoa (int (off + 50)) else [])\<rparr>"
    using listRuns_page [OF Suc.prems(1), of s 50] Suc.prems(2) assms by (simp add: listRuns_def)
  show ?case
  proof (cases "off < 1000")
    case True
    then have off: "off + 50 \<le> 1000" using Suc.prems(4) by presburger
    have split: "drop off (take 1000 xs) = take 50 (drop off xs) @ drop (off + 50) (take 1000 xs)" for xs :: "runInfo list"
    proof -
      have "drop off (take 1000 xs) = take (50 + (950 - off)) (drop off xs)" using off by (simp add: drop_take)
      also have "\<dots> = take 50 (drop off xs) @ take (950 - off) (drop (off + 50) xs)" by (simp only: take_add drop_drop add.commute)
      finally show ?thesis using off by (simp add: drop_take)
    qed
    show ?thesis
    proof (cases "off + 50 < length (ims_runs s)")
      case more': True
      have ne: "itoa (int (off + 50)) \<noteq> []" by (simp add: itoa_def)
      have len: "length (take 50 (drop off (sortedInfos s))) = 50" using more' by simp
      have "(off + 50) mod 50 = 0" using Suc.prems(4) by simp
      from Suc.IH [of "itoa (int (off + 50))" "off + 50" "out @ filter (searchHit q) (take 50 (drop off (sortedInfos s)))"
          "a\<lparr>ap_storeCalls := Suc (ap_storeCalls a)\<rparr>"] this
      show ?thesis using page more' ne len True off Suc.prems(5) split [of "sortedInfos s"] by (simp add: Let_def del: length_take)
    next
      case False
      then show ?thesis using page True split [of "sortedInfos s"] by (simp add: Let_def)
    qed
  next
    case False
    then show ?thesis using Suc.prems(3) by simp
  qed
qed simp

text \<open>The search ends within 21 requests, and finds the matches among the newest thousand runs, newest first.\<close>

lemma search_sessions_exact:
  assumes "ap_store a = Some s" "length (ims_runs s) + 50 < 2 ^ 63"
  shows "map_option fst (searchSessions 21 noFaults query a) =
    Some (Inr (filter (searchHit (toLowerAscii query)) (take 1000 (sortedInfos s))))"
proof (cases "ims_runs s = []")
  case True
  then show ?thesis using assms(1)
    by (simp add: searchSessions_def eval_nat_numeral listRuns_def sortedInfos_def atoi_def Let_def)
next
  case False
  then show ?thesis using searchLoop_from [OF assms(2), of "[]" 0 21 "toLowerAscii query" "[]" a] assms(1)
    by (simp add: searchSessions_def del: searchLoop.simps)
qed

end
