(* ===== verification/Spec2Isabelle.thy ===== *)
theory Spec2Isabelle
  imports ToolName ThinkStream RunStore Retry Approval TurnProps Offloading SemanticMemory
    SubAgents Injection PlanTool Spotlight ResponsesStream Consensus Teams
    FileTools ProcAdopt HostSession
begin

text \<open>
  A verification development of the chakra agent runtime (Go, package \<^verbatim>\<open>agent\<close> at the root of the
  repository). Paths below are relative to \<^verbatim>\<open>src/\<close>.

  \<^bold>\<open>The program.\<close> A \<^emph>\<open>runner\<close> drives turns: it sends the conversation to a \<^emph>\<open>provider\<close> (a chat
  model), dispatches the tool calls the model asks for to \<^emph>\<open>tool sources\<close>, and repeats until the model
  answers without calls or a bound is hit. Around this loop stand: names and streams of the wire
  protocol, retries and failover between providers, approval of tool calls, step stages that rewrite
  what a step shows the model (compaction among them), budgets shared by a tree of agents, signals
  between agents, detection of stuck turns, stores for runs, tool results and memory, and policies for
  events that servers push.

  \<^bold>\<open>Theories, in the order of their imports.\<close>

  \<^item> \<open>Prelude\<close>: how Go values are represented (bytes, integers with \<open>wrap64\<close>, errors with their chain,
    pointers with identity, slices whose panic is \<open>None\<close>), the functions of the Go library the sources
    use, and lemmas on them.
  \<^item> \<open>AgentTypes\<close> (\<^verbatim>\<open>provider.go\<close>): messages, requests, generation parameters, capabilities, deltas and
    the accumulator. \<open>Streams\<close> (\<^verbatim>\<open>provider.go\<close>, \<^verbatim>\<open>events.go\<close>, \<^verbatim>\<open>runner.go\<close>): events and the consumption of a
    delta stream; the locale \<open>delta_stream\<close> is what a consumer relies on, interpreted on list streams
    here and on the failover stream in \<open>Failover\<close>.
  \<^item> \<open>ToolName\<close> (\<^verbatim>\<open>toolname.go\<close>): wire names accepted by providers and the way back to the real names.
    \<open>ThinkStream\<close> (\<^verbatim>\<open>thinking_stream.go\<close>): the incremental parser of thinking tags equals its
    whole-text specification for every chunking.
  \<^item> \<open>ToolSources\<close> (\<^verbatim>\<open>toolsource.go\<close>, \<^verbatim>\<open>func_source.go\<close>, \<^verbatim>\<open>filter_source.go\<close>, \<^verbatim>\<open>multi_source.go\<close>): the locale
    \<open>tool_source\<close> is the contract of a source; host functions, filtering and aggregation with collisions.
    \<open>ToolMiddleware\<close> (\<^verbatim>\<open>toolmiddleware.go\<close>) and \<open>Approval\<close> (\<^verbatim>\<open>approval.go\<close>): what stands between a call and
    its source, and that nothing is dispatched without a reason.
  \<^item> \<open>Budget\<close> (\<^verbatim>\<open>tree_budget.go\<close>, \<^verbatim>\<open>runscope.go\<close>): counters shared by concurrent agents, with a step relation
    in which every atomic access interleaves. \<open>Signal\<close> (\<^verbatim>\<open>signal.go\<close>): signals a child raises.
  \<^item> \<open>Retry\<close> (\<^verbatim>\<open>retry.go\<close>) and \<open>Failover\<close> (\<^verbatim>\<open>failover.go\<close>): bounded retries, and a provider that switches to a
    backup, with its health report, over every interleaving of requests, streams and ticks.
  \<^item> \<open>Compaction\<close> (\<^verbatim>\<open>compaction.go\<close>), \<open>StepStage\<close> (\<^verbatim>\<open>stepstage.go\<close>) and \<open>Stuck\<close> (\<^verbatim>\<open>stuck.go\<close>): what a step shows
    the model, the scopes its stages keep to, and when a turn counts as stuck.
  \<^item> \<open>Runner\<close> (\<^verbatim>\<open>runner.go\<close>, \<^verbatim>\<open>turnend.go\<close>) composes the above into a turn; \<open>TurnProps\<close> proves the properties of
    turns: every call answered in order whatever the schedule of the concurrent calls, a turn always
    returns and reports, usage adds up.
  \<^item> \<open>RunStore\<close> (\<^verbatim>\<open>runstore.go\<close>): runs, append-only logs, forks and paging.
  \<^item> \<open>BoundedStore\<close> (\<^verbatim>\<open>toolresultstore.go\<close>): the locale \<open>fifo_store\<close> is the contract of a map bounded by
    evicting its oldest key, interpreted on the tool-result store here, on a namespace of the memory
    store in \<open>Memory\<close> and of the semantic store in \<open>SemanticMemory\<close>. \<open>Offloading\<close>
    (\<^verbatim>\<open>offloading_source.go\<close>): large results replaced by stubs and read back; the locale \<open>result_store\<close> is
    what it needs of a store. \<open>Memory\<close> (\<^verbatim>\<open>memory.go\<close>) refines a notebook per namespace;
    \<open>SemanticMemory\<close> (\<^verbatim>\<open>semantic_memory.go\<close>, \<^verbatim>\<open>embedder.go\<close>) ranks notes.
  \<^item> \<open>SubAgents\<close> (\<^verbatim>\<open>agent_source.go\<close>, \<^verbatim>\<open>agent_pool.go\<close>): an agent as a tool, and background agents as a state
    machine whose critical sections interleave. \<open>PlanTool\<close> (\<^verbatim>\<open>plan.go\<close>): the published checklist.
  \<^item> \<open>Triggers\<close> (\<^verbatim>\<open>triggers.go\<close>, \<^verbatim>\<open>incoming_event.go\<close>) and \<open>Injection\<close> (\<^verbatim>\<open>injection.go\<close>, \<^verbatim>\<open>stages.go\<close>): which pushed
    events start a turn and which reach the model, in what order.
  \<^item> \<open>Spotlight\<close> (\<^verbatim>\<open>spotlight.go\<close>, \<^verbatim>\<open>critique.go\<close>): results of sources that are not trusted are fenced and
    encoded before the model sees them, and a critic reviews an answer before it is returned.
  \<^item> \<open>CursorCache\<close> (\<^verbatim>\<open>responses_cursor.go\<close>): the locale \<open>cursor_index\<close> is what the provider relies on, and the
    map with its list of keys refines a list in order of use. \<open>Responses\<close> (\<^verbatim>\<open>responses_provider.go\<close>): a
    provider that sends only what the server does not hold yet, against a server that may forget, as a
    step relation. \<open>ResponsesStream\<close> (\<^verbatim>\<open>responses_provider.go\<close>, \<^verbatim>\<open>sse_stream.go\<close>): the streamed answer
    accumulates to the one a plain request returns.
  \<^item> \<open>Consensus\<close> (\<^verbatim>\<open>consensus.go\<close>): concurrent draws and a vote, for every schedule of the workers; a fair
    schedule of four rounds per draw and one per worker lets every worker end. \<open>Teams\<close> (\<^verbatim>\<open>team.go\<close>,
    \<^verbatim>\<open>fanout_source.go\<close>, \<^verbatim>\<open>async_agent_source.go\<close>, \<^verbatim>\<open>server_agent_source.go\<close>): handoffs between members over one
    conversation, a call sent to every member, and agents that answer later.

  \<^bold>\<open>State and effects.\<close> A struct is a record, its methods are functions that return the changed record.
  Code that calls out (tools, callbacks, stores behind an interface) threads a world \<open>'w\<close>. Fallible
  code returns a sum with the error on the left; an outer \<open>option\<close> is a panic, or a wait that has not
  ended where the text says so. Locks make each method atomic; where a method takes a lock more than
  once or uses atomics, and where goroutines run, an inductive step relation or an explicit schedule
  interleaves the parts, and theorems hold for every interleaving.

  \<^bold>\<open>Bounds and fuel.\<close> No definition needs fuel chosen by hand: loops are structural or have a
  termination proof. The turn loop recurses on the configured number of steps, the retry loop on its
  attempts, the reader of windows on the number of windows. Integers are unbounded except where the
  code adds numbers a caller chooses; there \<open>wrap64\<close> makes the overflow visible, and theorems about
  normal behaviour assume sums below $2^{63}$.

  \<^bold>\<open>Parameters.\<close> Code outside the repository is an argument: JSON decoding and encoding, SHA-256, the
  regular-expression engine, random bytes, the clock, HTTP requests, embeddings, the iteration order
  of a map, and the answers of users and callbacks. Theorems assume of them only what they name.

  \<^bold>\<open>Not modelled.\<close> Vendor HTTP clients and their JSON, terminal and web surfaces, the host's wiring and
  configuration files, operating-system processes and file access, database clients, tracing, metrics
  and logging: they move data in and out, and what they decide is modelled where it has a component of
  its own. What is left
  of the root package reads and writes streams of other protocols (chat completions, local models,
  agent-to-agent clients).
\<close>

end
